(* ===== verification/Prelude.thy ===== *)
theory Prelude
  imports Main "HOL-Library.Word"
begin

text \<open>
  Shared vocabulary of the development: bytes and Go strings, the big-endian integer codecs of
  \<open>encoding/binary\<close>, fallible results, the interface locales of the wire codecs and of state
  machines driven by operations, and the generic facts about them that the component theories use.
\<close>

unbundle bit_operations_syntax

section \<open>Collections of facts\<close>

named_theorems be_simps "length and round-trip facts of the big-endian codecs"

section \<open>Bytes, strings and results\<close>

type_synonym byte = "8 word"
type_synonym bytes = "8 word list"

text \<open>
  A fallible Go call returns a value or an error. The model returns \<open>Inl e\<close> for the error and
  \<open>Inr v\<close> for the value. A method that also changes its receiver returns the result together
  with the receiver's new state, since a failing Go method keeps the updates it made so far.
\<close>

text \<open>
  A Go string is a sequence of bytes, as is \<^typ>\<open>string\<close>: the conversions \<open>[]byte(s)\<close> and
  \<open>string(b)\<close> are \<open>str\<close> and \<open>unstr\<close>.
\<close>

definition str :: "string \<Rightarrow> bytes" where
  "str s = map (\<lambda>c. word_of_nat (of_char c)) s"

definition unstr :: "bytes \<Rightarrow> string" where
  "unstr b = map (\<lambda>w. char_of (unat w)) b"

lemma unat_bound: "unat (w :: 'a::len word) < 2 ^ LENGTH('a)"
  by (fact unsigned_less)

lemma unat_byte_less [simp]: "unat (w :: byte) < 256"
  using unat_bound [of w] by simp

lemma unat_byte_mod [simp]: "unat (w :: byte) mod 256 = unat w"
  by simp

lemma unat_mod16 [simp]: "unat (w :: 16 word) mod 65536 = unat w"
  using unat_bound [of w] by simp

lemma unat_mod32 [simp]: "unat (w :: 32 word) mod 4294967296 = unat w"
  using unat_bound [of w] by simp

lemma unat_mod64 [simp]: "unat (w :: 64 word) mod 18446744073709551616 = unat w"
  using unat_bound [of w] by simp

lemma unat_word_of_nat_byte [simp]: "unat (word_of_nat n :: byte) = n mod 256"
  by (simp add: unat_of_nat take_bit_eq_mod)

lemma unstr_str [simp]: "unstr (str s) = s"
  by (simp add: str_def unstr_def comp_def)

lemma str_unstr [simp]: "str (unstr b) = b"
  by (simp add: str_def unstr_def comp_def)

lemma length_str [simp]: "length (str s) = length s"
  and length_unstr [simp]: "length (unstr b) = length b"
  by (simp_all add: str_def unstr_def)

lemma str_inject [simp]: "str s = str t \<longleftrightarrow> s = t"
  by (metis unstr_str)

lemma unstr_inject [simp]: "unstr a = unstr b \<longleftrightarrow> a = b"
  by (metis str_unstr)

lemma two_prefix: "2 \<le> length xs \<Longrightarrow> xs = [xs ! 0, xs ! 1] @ drop 2 xs"
  by (cases xs; cases "tl xs") auto

section \<open>Big-endian integers\<close>

text \<open>
  \<open>be_put k n\<close> is \<open>n\<close> in \<open>k\<close> bytes, most significant first (the value modulo
  \<open>256 ^ k\<close>), and \<open>be_get\<close> reads such bytes. \<open>binary.BigEndian.PutUint16/32/64\<close> and
  \<open>Uint16/32/64\<close> are their instances at \<open>k = 2, 4, 8\<close>.
\<close>

primrec be_put :: "nat \<Rightarrow> nat \<Rightarrow> bytes" where
  "be_put 0 n = []"
| "be_put (Suc k) n = be_put k (n div 256) @ [word_of_nat n]"

definition be_get :: "bytes \<Rightarrow> nat" where
  "be_get bs = foldl (\<lambda>a b. a * 256 + unat b) 0 bs"

definition PutUint16 :: "16 word \<Rightarrow> bytes" where "PutUint16 v = be_put 2 (unat v)"
definition PutUint32 :: "32 word \<Rightarrow> bytes" where "PutUint32 v = be_put 4 (unat v)"
definition PutUint64 :: "64 word \<Rightarrow> bytes" where "PutUint64 v = be_put 8 (unat v)"

definition Uint16 :: "bytes \<Rightarrow> 16 word" where "Uint16 b = word_of_nat (be_get (take 2 b))"
definition Uint32 :: "bytes \<Rightarrow> 32 word" where "Uint32 b = word_of_nat (be_get (take 4 b))"
definition Uint64 :: "bytes \<Rightarrow> 64 word" where "Uint64 b = word_of_nat (be_get (take 8 b))"

lemma length_be_put [simp]: "length (be_put k n) = k"
  by (induction k arbitrary: n) auto

lemma be_get_Nil [simp]: "be_get [] = 0"
  by (simp add: be_get_def)

lemma be_get_snoc [simp]: "be_get (bs @ [b]) = be_get bs * 256 + unat b"
  by (simp add: be_get_def)

lemma be_get_put: "be_get (be_put k n) = n mod 256 ^ k"
proof (induction k arbitrary: n)
  case 0
  then show ?case by simp
next
  case (Suc k)
  have "be_get (be_put (Suc k) n) = (n div 256) mod 256 ^ k * 256 + n mod 256"
    by (simp add: Suc.IH)
  also have "\<dots> = n mod (256 * 256 ^ k)"
    using mod_mult2_eq [of n 256 "256 ^ k"] by simp
  finally show ?case by simp
qed

lemma be_put_get: "be_put (length bs) (be_get bs) = bs"
proof (induction bs rule: rev_induct)
  case Nil
  then show ?case by simp
next
  case (snoc b bs)
  have "(be_get bs * 256 + unat b) div 256 = be_get bs"
    by (simp add: div_add1_eq)
  moreover have "(word_of_nat (be_get bs * 256 + unat b) :: byte) = b"
  proof (rule unsigned_word_eqI)
    show "unat (word_of_nat (be_get bs * 256 + unat b) :: byte) = unat b"
      by (subst unat_word_of_nat_byte) simp
  qed
  ultimately show ?case using snoc.IH by simp
qed

lemma be_get_less: "be_get bs < 256 ^ length bs"
  by (metis be_get_put be_put_get mod_less_divisor zero_less_numeral zero_less_power)

lemma length_PutUint16 [be_simps, simp]: "length (PutUint16 u) = 2"
  and length_PutUint32 [be_simps, simp]: "length (PutUint32 v) = 4"
  and length_PutUint64 [be_simps, simp]: "length (PutUint64 w) = 8"
  by (simp_all add: PutUint16_def PutUint32_def PutUint64_def)

lemma Uint16_Put [be_simps]: "Uint16 (PutUint16 v @ r) = v"
  by (simp add: Uint16_def PutUint16_def be_get_put)

lemma Uint32_Put [be_simps]: "Uint32 (PutUint32 v @ r) = v"
  by (simp add: Uint32_def PutUint32_def be_get_put)

lemma Uint64_Put [be_simps]: "Uint64 (PutUint64 v @ r) = v"
  by (simp add: Uint64_def PutUint64_def be_get_put)

lemma PutUint16_get: "2 \<le> length b \<Longrightarrow> PutUint16 (Uint16 b) = take 2 b"
  using be_put_get [of "take 2 b"] be_get_less [of "take 2 b"]
  by (simp add: Uint16_def PutUint16_def unat_of_nat take_bit_nat_eq_self)

lemma PutUint32_get: "4 \<le> length b \<Longrightarrow> PutUint32 (Uint32 b) = take 4 b"
  using be_put_get [of "take 4 b"] be_get_less [of "take 4 b"]
  by (simp add: Uint32_def PutUint32_def unat_of_nat take_bit_nat_eq_self)

lemma PutUint64_get: "8 \<le> length b \<Longrightarrow> PutUint64 (Uint64 b) = take 8 b"
  using be_put_get [of "take 8 b"] be_get_less [of "take 8 b"]
  by (simp add: Uint64_def PutUint64_def unat_of_nat take_bit_nat_eq_self)

section \<open>Durations\<close>

text \<open>\<open>time.Duration\<close> counts nanoseconds.\<close>

definition second :: int where "second = 1000000000"
definition millisecond :: int where "millisecond = 1000000"

section \<open>Interfaces\<close>

text \<open>
  A wire codec: an encoder, a decoder that may refuse, and the values the encoder is meant for.
  Decoding an encoded value gives it back, hence the encoder is injective on those values.
\<close>

locale codec =
  fixes enc :: "'a \<Rightarrow> 'b"
    and dec :: "'b \<Rightarrow> 'e + 'a"
    and ok :: "'a \<Rightarrow> bool"
  assumes dec_enc: "ok x \<Longrightarrow> dec (enc x) = Inr x"
begin

lemma enc_inject: "ok x \<Longrightarrow> ok y \<Longrightarrow> enc x = enc y \<longleftrightarrow> x = y"
  by (metis dec_enc sum.inject(2))

end

text \<open>
  A canonical codec has one encoding per value: whatever the decoder accepts is what the encoder
  produces, so an accepted message can not be altered without changing the decoded value.
\<close>

locale canonical_codec = codec +
  assumes enc_dec: "dec b = Inr x \<Longrightarrow> ok x \<and> enc x = b"
begin

lemma dec_iff: "dec b = Inr x \<longleftrightarrow> ok x \<and> b = enc x"
  using dec_enc enc_dec by blast

lemma dec_inject: "dec a = Inr x \<Longrightarrow> dec b = Inr x \<Longrightarrow> a = b"
  using enc_dec by blast

end

text \<open>
  A component driven by a sequence of operations: what every operation keeps, every run keeps.
\<close>

locale op_system =
  fixes step :: "'op \<Rightarrow> 's \<Rightarrow> 's"
    and inv :: "'s \<Rightarrow> bool"
  assumes step_inv: "inv s \<Longrightarrow> inv (step x s)"
begin

lemma run_inv: "inv s \<Longrightarrow> inv (fold step ops s)"
  by (induction ops arbitrary: s) (simp_all add: step_inv)

end

text \<open>
  The same for a relation between the state before and the state after: a reflexive and transitive
  relation that each operation respects under the invariant holds between the ends of every run.
\<close>

locale op_relation = op_system +
  fixes rel :: "'b \<Rightarrow> 'b \<Rightarrow> bool"
  assumes rel_refl: "rel s s"
    and rel_trans: "rel s t \<Longrightarrow> rel t u \<Longrightarrow> rel s u"
    and step_rel: "inv s \<Longrightarrow> rel s (step x s)"
begin

lemma run_rel: "inv s \<Longrightarrow> rel s (fold step ops s)"
proof (induction ops arbitrary: s)
  case Nil
  then show ?case by (simp add: rel_refl)
next
  case (Cons x ops)
  then show ?case using rel_trans [OF step_rel] step_inv by fastforce
qed

end

text \<open>
  A component whose goroutines are given by a step relation: what every step keeps holds in every
  state that is reached.
\<close>

locale step_system =
  fixes step :: "'s \<Rightarrow> 's \<Rightarrow> bool"
    and inv :: "'s \<Rightarrow> bool"
  assumes step_keeps: "step s t \<Longrightarrow> inv s \<Longrightarrow> inv t"
begin

lemma reached_inv: "rtranclp step s t \<Longrightarrow> inv s \<Longrightarrow> inv t"
  by (induction rule: rtranclp_induct) (blast intro: step_keeps)+

end

end
