(* ===== verification/Crypto.thy ===== *)
theory Crypto
  imports Prelude
begin

text \<open>
  \<open>internal/crypto/crypto.go\<close>: randomness, HKDF key derivation and AES-256-GCM sealing.

  The Go standard library's primitives are the record \<open>prims\<close>, a parameter of every definition
  that uses them. Each output of a fixed size is a function from the byte's position, so its length
  holds by construction. AES-GCM is given by its counter-mode key stream and its authentication
  tag, from which \<open>gcm_seal\<close> and \<open>gcm_open\<close> are built as the mode prescribes: that opening
  inverts sealing is then proved (locale \<open>aead\<close>) and not assumed.
\<close>

section \<open>Primitives\<close>

record prims =
  hkdf_stream :: "bytes \<Rightarrow> bytes \<Rightarrow> string \<Rightarrow> nat \<Rightarrow> byte" \<comment> \<open>secret, salt, info, position\<close>
  ctr_stream :: "bytes \<Rightarrow> bytes \<Rightarrow> nat \<Rightarrow> byte" \<comment> \<open>key, nonce, position\<close>
  gcm_tag :: "bytes \<Rightarrow> bytes \<Rightarrow> bytes \<Rightarrow> bytes \<Rightarrow> nat \<Rightarrow> byte" \<comment> \<open>key, nonce, additional data, ciphertext, position\<close>
  sha256_byte :: "bytes \<Rightarrow> nat \<Rightarrow> byte" \<comment> \<open>message, position\<close>
  pbkdf2_stream :: "string \<Rightarrow> bytes \<Rightarrow> nat \<Rightarrow> nat \<Rightarrow> byte" \<comment> \<open>passphrase, salt, iterations, position\<close>
  ed_public :: "bytes \<Rightarrow> nat \<Rightarrow> byte" \<comment> \<open>Ed25519 seed, position\<close>
  ed_sign :: "bytes \<Rightarrow> bytes \<Rightarrow> nat \<Rightarrow> byte" \<comment> \<open>private key, message, position\<close>
  ed_verify :: "bytes \<Rightarrow> bytes \<Rightarrow> bytes \<Rightarrow> bool" \<comment> \<open>public key, message, signature\<close>
  x_public :: "bytes \<Rightarrow> nat \<Rightarrow> byte" \<comment> \<open>X25519 private key, position\<close>
  x_shared :: "bytes \<Rightarrow> bytes \<Rightarrow> (nat \<Rightarrow> byte) option" \<comment> \<open>private key, peer's public key, position\<close>

text \<open>One read of the operating system's generator: it fails, or it fills the buffer.\<close>

type_synonym entropy = "(nat \<Rightarrow> byte) option"

definition fill :: "(nat \<Rightarrow> byte) \<Rightarrow> nat \<Rightarrow> bytes" where
  "fill f n = map f [0..<n]"

lemma length_fill [simp]: "length (fill f n) = n"
  by (simp add: fill_def)

lemma fill_eq_Nil [simp]: "fill f n = [] \<longleftrightarrow> n = 0"
  by (simp add: fill_def)

definition xor_bytes :: "bytes \<Rightarrow> bytes \<Rightarrow> bytes" where
  "xor_bytes a b = map2 (XOR) a b"

lemma length_xor_bytes [simp]: "length (xor_bytes a b) = min (length a) (length b)"
  by (simp add: xor_bytes_def)

lemma xor_bytes_cancel: "length a \<le> length b \<Longrightarrow> xor_bytes (xor_bytes a b) b = a"
proof (induction a arbitrary: b)
  case Nil
  then show ?case by (simp add: xor_bytes_def)
next
  case (Cons x a)
  then show ?case
    by (cases b) (auto simp: xor_bytes_def xor.assoc)
qed

section \<open>Authenticated encryption\<close>

text \<open>
  The interface the protocol relies on: for a given key, nonce and additional data, opening accepts
  exactly what sealing produces, and sealing adds a fixed number of bytes.
\<close>

locale aead =
  fixes seal :: "'k \<Rightarrow> 'n \<Rightarrow> 'd \<Rightarrow> bytes \<Rightarrow> bytes"
    and unseal :: "'k \<Rightarrow> 'n \<Rightarrow> 'd \<Rightarrow> bytes \<Rightarrow> bytes option"
    and overhead :: nat
  assumes unseal_seal: "unseal k n d (seal k n d p) = Some p"
    and unseal_only: "unseal k n d c = Some p \<Longrightarrow> c = seal k n d p"
    and length_seal: "length (seal k n d p) = length p + overhead"
begin

lemma unseal_iff: "unseal k n d c = Some p \<longleftrightarrow> c = seal k n d p"
  using unseal_seal unseal_only by blast

lemma seal_inject: "seal k n d p = seal k n d q \<longleftrightarrow> p = q"
  by (metis option.inject unseal_seal)

lemma unseal_None: "unseal k n d c = None \<longleftrightarrow> (\<forall>p. c \<noteq> seal k n d p)"
  by (metis not_Some_eq unseal_iff)

end

definition KeySize :: nat where [simp]: "KeySize = 32"
definition NonceSize :: nat where [simp]: "NonceSize = 12"
definition TagSize :: nat where [simp]: "TagSize = 16"

definition gcm_seal :: "prims \<Rightarrow> bytes \<Rightarrow> bytes \<Rightarrow> bytes \<Rightarrow> bytes \<Rightarrow> bytes" where
  "gcm_seal P key nonce aad pt =
     (let ct = xor_bytes pt (fill (ctr_stream P key nonce) (length pt))
      in ct @ fill (gcm_tag P key nonce aad ct) TagSize)"

definition gcm_open :: "prims \<Rightarrow> bytes \<Rightarrow> bytes \<Rightarrow> bytes \<Rightarrow> bytes \<Rightarrow> bytes option" where
  "gcm_open P key nonce aad blob =
     (if length blob < TagSize then None
      else let n = length blob - TagSize; ct = take n blob; tag = drop n blob
           in if tag = fill (gcm_tag P key nonce aad ct) TagSize
              then Some (xor_bytes ct (fill (ctr_stream P key nonce) n))
              else None)"

interpretation gcm: aead "gcm_seal P" "gcm_open P" TagSize for P
proof
  fix k n d p
  show "gcm_open P k n d (gcm_seal P k n d p) = Some p"
    by (simp add: gcm_open_def gcm_seal_def Let_def xor_bytes_cancel)
next
  fix k n d c p
  assume opened: "gcm_open P k n d c = Some p"
  then have len: "16 \<le> length c"
    and tag: "drop (length c - 16) c = fill (gcm_tag P k n d (take (length c - 16) c)) 16"
    and p: "p = xor_bytes (take (length c - 16) c) (fill (ctr_stream P k n) (length c - 16))"
    by (auto simp: gcm_open_def Let_def split: if_splits)
  from len p have "length p = length c - 16" by simp
  with p have "xor_bytes p (fill (ctr_stream P k n) (length p)) = take (length c - 16) c"
    by (simp add: xor_bytes_cancel)
  with tag show "c = gcm_seal P k n d p"
    by (simp add: gcm_seal_def Let_def) (metis append_take_drop_id)
next
  fix k n d p
  show "length (gcm_seal P k n d p) = length p + TagSize"
    by (simp add: gcm_seal_def Let_def)
qed

section \<open>Operations\<close>

datatype crypto_error =
    ErrDecrypt \<comment> \<open>AEAD authentication failed\<close>
  | ErrCSPRNG \<comment> \<open>the generator failed\<close>
  | ErrEmptySecret \<comment> \<open>HKDF with an empty secret\<close>
  | ErrHkdfLength \<comment> \<open>more than 255 hash blocks asked of HKDF\<close>
  | ErrKeySize nat \<comment> \<open>a key that is not 32 bytes\<close>

definition RandomBytes :: "entropy \<Rightarrow> nat \<Rightarrow> crypto_error + bytes" where
  "RandomBytes rnd n = (case rnd of None \<Rightarrow> Inl ErrCSPRNG | Some f \<Rightarrow> Inr (fill f n))"

definition RandomKey :: "entropy \<Rightarrow> crypto_error + bytes" where
  "RandomKey rnd = RandomBytes rnd KeySize"

definition DeriveKey :: "prims \<Rightarrow> bytes \<Rightarrow> bytes \<Rightarrow> string \<Rightarrow> nat \<Rightarrow> crypto_error + bytes" where
  "DeriveKey P secret salt info n =
     (if secret = [] then Inl ErrEmptySecret
      else if n > 255 * 32 then Inl ErrHkdfLength
      else Inr (fill (hkdf_stream P secret salt info) n))"

text \<open>\<open>aead\<close> checks the key's size; the cipher it builds is determined by the key.\<close>

definition aead_cipher :: "bytes \<Rightarrow> crypto_error + bytes" where
  "aead_cipher key = (if length key \<noteq> KeySize then Inl (ErrKeySize (length key)) else Inr key)"

definition crypto_Seal :: "prims \<Rightarrow> entropy \<Rightarrow> bytes \<Rightarrow> bytes \<Rightarrow> bytes \<Rightarrow> crypto_error + bytes" where
  "crypto_Seal P rnd key aad plaintext =
     (case aead_cipher key of Inl e \<Rightarrow> Inl e
      | Inr gcm \<Rightarrow>
        (case RandomBytes rnd NonceSize of Inl e \<Rightarrow> Inl e
         | Inr nonce \<Rightarrow> Inr (nonce @ gcm_seal P gcm nonce aad plaintext)))"

definition crypto_Open :: "prims \<Rightarrow> bytes \<Rightarrow> bytes \<Rightarrow> bytes \<Rightarrow> crypto_error + bytes" where
  "crypto_Open P key aad blob =
     (case aead_cipher key of Inl e \<Rightarrow> Inl e
      | Inr gcm \<Rightarrow>
        if length blob < NonceSize + TagSize then Inl ErrDecrypt
        else let nonce = take NonceSize blob; ct = drop NonceSize blob
             in case gcm_open P gcm nonce aad ct of None \<Rightarrow> Inl ErrDecrypt | Some pt \<Rightarrow> Inr pt)"

definition Zeroise :: "bytes \<Rightarrow> bytes" where
  "Zeroise b = map (\<lambda>_. 0) b"

section \<open>Lemmas\<close>

lemma length_Zeroise [simp]: "length (Zeroise b) = length b"
  by (simp add: Zeroise_def)

lemma set_Zeroise: "set (Zeroise b) \<subseteq> {0}"
  by (auto simp: Zeroise_def)

lemma RandomBytes_Inr [simp]: "RandomBytes rnd n = Inr b \<longleftrightarrow> (\<exists>f. rnd = Some f \<and> b = fill f n)"
  by (auto simp: RandomBytes_def split: option.splits)

lemma DeriveKey_Inr:
  "DeriveKey P secret salt info n = Inr k \<longleftrightarrow>
     secret \<noteq> [] \<and> n \<le> 8160 \<and> k = fill (hkdf_stream P secret salt info) n"
  by (auto simp: DeriveKey_def)

lemma DeriveKey_length: "DeriveKey P secret salt info n = Inr k \<Longrightarrow> length k = n"
  by (simp add: DeriveKey_Inr)

lemma DeriveKey_ok:
  "secret \<noteq> [] \<Longrightarrow> n \<le> 8160 \<Longrightarrow>
   DeriveKey P secret salt info n = Inr (fill (hkdf_stream P secret salt info) n)"
  by (simp add: DeriveKey_Inr)

lemma crypto_Seal_ok:
  "length key = 32 \<Longrightarrow>
   crypto_Seal P (Some f) key aad pt = Inr (fill f 12 @ gcm_seal P key (fill f 12) aad pt)"
  by (simp add: crypto_Seal_def aead_cipher_def RandomBytes_def)

lemma crypto_Seal_Inr:
  "crypto_Seal P rnd key aad pt = Inr blob \<longleftrightarrow>
     length key = 32 \<and> (\<exists>f. rnd = Some f \<and> blob = fill f 12 @ gcm_seal P key (fill f 12) aad pt)"
  by (auto simp: crypto_Seal_def aead_cipher_def RandomBytes_def split: option.splits)

lemma crypto_Seal_length:
  "crypto_Seal P rnd key aad pt = Inr blob \<Longrightarrow> length blob = length pt + 28"
  by (auto simp: crypto_Seal_Inr gcm.length_seal)

lemma crypto_Open_iff:
  "crypto_Open P key aad blob = Inr pt \<longleftrightarrow>
     length key = 32 \<and> 12 \<le> length blob \<and>
     drop 12 blob = gcm_seal P key (take 12 blob) aad pt"
proof -
  have "28 \<le> length blob"
    if "12 \<le> length blob" and "drop 12 blob = gcm_seal P key (take 12 blob) aad pt"
  proof -
    have "length (drop 12 blob) = length pt + 16"
      using that(2) gcm.length_seal [of P key "take 12 blob" aad pt] by simp
    with that(1) show ?thesis by simp
  qed
  then show ?thesis
    by (auto simp: crypto_Open_def aead_cipher_def Let_def gcm.unseal_iff gcm.unseal_seal
        gcm.seal_inject split: option.splits)
qed

lemma crypto_Open_sealed:
  "crypto_Open P key aad blob = Inr pt \<longleftrightarrow>
     length key = 32 \<and> (\<exists>nonce. length nonce = 12 \<and> blob = nonce @ gcm_seal P key nonce aad pt)"
proof -
  have "(12 \<le> length blob \<and> drop 12 blob = gcm_seal P key (take 12 blob) aad pt) \<longleftrightarrow>
      (\<exists>nonce. length nonce = 12 \<and> blob = nonce @ gcm_seal P key nonce aad pt)" (is "?l \<longleftrightarrow> ?r")
  proof
    assume l: ?l
    then have "blob = take 12 blob @ gcm_seal P key (take 12 blob) aad pt"
      by (metis append_take_drop_id)
    with l show ?r by (intro exI [of _ "take 12 blob"]) simp
  qed auto
  then show ?thesis by (simp add: crypto_Open_iff)
qed

lemma crypto_Open_Seal:
  "crypto_Seal P rnd key aad pt = Inr blob \<Longrightarrow> crypto_Open P key aad blob = Inr pt"
  by (auto simp: crypto_Open_iff crypto_Seal_Inr)

section \<open>A concrete instance of the primitives\<close>

text \<open>
  Not cryptography: small functions with the shapes of the primitives, at which the hypotheses of
  the theorems below are shown to be satisfiable.
\<close>

definition demo_prims :: prims where
  "demo_prims =
     \<lparr>hkdf_stream = (\<lambda>secret salt info i. word_of_nat (i + length secret + length salt + length info)),
      ctr_stream = (\<lambda>key nonce i. word_of_nat i),
      gcm_tag = (\<lambda>key nonce aad ct i. word_of_nat (i + length aad + length ct)),
      sha256_byte = (\<lambda>m i. word_of_nat (i + length m)),
      pbkdf2_stream = (\<lambda>pass salt n i. word_of_nat (i + length pass + length salt)),
      ed_public = (\<lambda>seed i. seed ! i),
      ed_sign = (\<lambda>priv msg i. priv ! (i mod 32)),
      ed_verify = (\<lambda>pub msg sig. sig = fill (\<lambda>i. pub ! (i mod 32)) 64),
      x_public = (\<lambda>priv i. priv ! i),
      x_shared = (\<lambda>priv pub. Some (\<lambda>i. priv ! i XOR pub ! i))\<rparr>"

section \<open>Properties\<close>

text \<open>
  \<open>Open\<close> returns a plaintext for exactly the blobs that sealing that plaintext under the same
  32-byte key and the same additional data produces for some 12-byte nonce: no other byte string
  is ever decrypted.
\<close>

theorem Open_accepts_exactly_sealed:
  "crypto_Open P key aad blob = Inr pt \<longleftrightarrow>
     length key = KeySize \<and>
     (\<exists>nonce. length nonce = NonceSize \<and> blob = nonce @ gcm_seal P key nonce aad pt)"
  by (simp add: crypto_Open_sealed)

end
