(* ===== verification/Encodings.thy ===== *)
theory Encodings
  imports Prelude
begin

text \<open>
  The textual encodings of \<open>encoding/base64\<close> and \<open>encoding/base32\<close> that the program uses for
  binary fields of control messages and for invite codes. Both cut the input into groups and
  write a group as a number in another radix, so they share one round-trip argument about digits.
\<close>

section \<open>Digits\<close>

primrec digits :: "nat \<Rightarrow> nat \<Rightarrow> nat \<Rightarrow> nat list" where
  "digits 0 r n = []"
| "digits (Suc k) r n = digits k r (n div r) @ [n mod r]"

definition undigits :: "nat \<Rightarrow> nat list \<Rightarrow> nat" where
  "undigits r ds = foldl (\<lambda>a d. a * r + d) 0 ds"

lemma length_digits [simp]: "length (digits k r n) = k"
  by (induction k arbitrary: n) auto

lemma digits_less: "0 < r \<Longrightarrow> d \<in> set (digits k r n) \<Longrightarrow> d < r"
  by (induction k arbitrary: n) auto

lemma undigits_snoc [simp]: "undigits r (ds @ [d]) = undigits r ds * r + d"
  by (simp add: undigits_def)

lemma undigits_Nil [simp]: "undigits r [] = 0"
  by (simp add: undigits_def)

lemma undigits_digits: "undigits r (digits k r n) = n mod r ^ k"
proof (induction k arbitrary: n)
  case 0
  then show ?case by simp
next
  case (Suc k)
  have "undigits r (digits (Suc k) r n) = (n div r) mod r ^ k * r + n mod r" by (simp add: Suc.IH)
  also have "\<dots> = n mod (r * r ^ k)" using mod_mult2_eq [of n r "r ^ k"] by simp
  finally show ?case by simp
qed

lemma digits_undigits: "list_all (\<lambda>d. d < r) ds \<Longrightarrow> digits (length ds) r (undigits r ds) = ds"
proof (induction ds rule: rev_induct)
  case (snoc d ds)
  then have "d < r" by simp
  then have "(undigits r ds * r + d) div r = undigits r ds" "(undigits r ds * r + d) mod r = d" by simp_all
  with snoc show ?case by simp
qed simp

lemma undigits_bound: "list_all (\<lambda>d. d < r) ds \<Longrightarrow> undigits r ds < r ^ length ds"
proof (induction ds rule: rev_induct)
  case (snoc d ds)
  then have "undigits r ds + 1 \<le> r ^ length ds" "d < r" by simp_all
  then have "(undigits r ds + 1) * r \<le> r ^ length ds * r" by (simp only: mult_le_mono1)
  with \<open>d < r\<close> show ?case by (simp add: algebra_simps)
qed simp

text \<open>The number of a group of bytes, and the bytes of a number.\<close>

definition of_bytes :: "bytes \<Rightarrow> nat" where
  "of_bytes bs = undigits 256 (map unat bs)"

definition to_bytes :: "nat \<Rightarrow> nat \<Rightarrow> bytes" where
  "to_bytes k n = map word_of_nat (digits k 256 n)"

lemma to_of_bytes [simp]: "to_bytes (length bs) (of_bytes bs) = bs"
proof -
  have "digits (length (map unat bs)) 256 (undigits 256 (map unat bs)) = map unat bs"
    by (rule digits_undigits) (simp add: list_all_length)
  then show ?thesis by (simp add: to_bytes_def of_bytes_def comp_def)
qed

lemma length_to_bytes [simp]: "length (to_bytes k n) = k"
  by (simp add: to_bytes_def)

lemma of_bytes_bound: "of_bytes bs < 256 ^ length bs"
proof -
  have "list_all (\<lambda>d. d < 256) (map unat bs)" by (simp add: list_all_length)
  then show ?thesis using undigits_bound unfolding of_bytes_def by fastforce
qed

section \<open>Groups\<close>

text \<open>
  A group of up to \<open>g\<close> bytes is completed with zero bytes, read as a number and written with
  \<open>q\<close> digits of radix \<open>r\<close>, of which the first \<open>c\<close> are kept.
\<close>

definition enc_group :: "nat \<Rightarrow> nat \<Rightarrow> nat \<Rightarrow> nat \<Rightarrow> bytes \<Rightarrow> nat list" where
  "enc_group r q g c bs = take c (digits q r (of_bytes (bs @ replicate (g - length bs) 0)))"

definition dec_group :: "nat \<Rightarrow> nat \<Rightarrow> nat \<Rightarrow> nat \<Rightarrow> nat list \<Rightarrow> bytes" where
  "dec_group r q g k ds = take k (to_bytes g (undigits r (ds @ replicate (q - length ds) 0)))"

lemma of_bytes_zeros: "of_bytes (bs @ replicate m 0) = of_bytes bs * 256 ^ m"
proof (induction m)
  case (Suc m)
  have "bs @ replicate (Suc m) 0 = (bs @ replicate m 0) @ [0]" by (simp add: replicate_append_same)
  then have "of_bytes (bs @ replicate (Suc m) 0) = of_bytes (bs @ replicate m 0) * 256"
    unfolding of_bytes_def by (simp only: map_append list.map undigits_snoc) simp
  then show ?case using Suc by simp
qed simp

lemma digits_trailing_zeros:
  "r ^ j dvd n \<Longrightarrow> 0 < r \<Longrightarrow> digits (c + j) r n = digits c r (n div r ^ j) @ replicate j 0"
proof (induction j arbitrary: n)
  case (Suc j)
  have "r dvd n" using Suc.prems(1) dvd_trans [of r "r ^ Suc j" n] by simp
  moreover have "r ^ j dvd n div r" using Suc.prems by (metis dvd_div_iff_mult calculation mult.commute not_gr0 power_Suc)
  moreover have "n div r div r ^ j = n div r ^ Suc j" by (simp add: div_mult2_eq)
  ultimately show ?case using Suc.IH [of "n div r"] Suc.prems(2) by (simp add: replicate_append_same)
qed simp

lemma length_enc_group [simp]: "c \<le> q \<Longrightarrow> length (enc_group r q g c bs) = c"
  by (simp add: enc_group_def)

lemma enc_group_less: "0 < r \<Longrightarrow> d \<in> set (enc_group r q g c bs) \<Longrightarrow> d < r"
  unfolding enc_group_def by (meson digits_less in_set_takeD)

lemma dec_enc_group:
  assumes "length bs = k" and "k \<le> g" and "c \<le> q" and "r ^ (q - c) dvd 256 ^ (g - k)"
    and "256 ^ g \<le> r ^ q" and "0 < r"
  shows "dec_group r q g k (enc_group r q g c bs) = bs"
proof -
  let ?N = "of_bytes (bs @ replicate (g - k) 0)"
  have dv: "r ^ (q - c) dvd ?N" unfolding of_bytes_zeros using assms(4) dvd_mult by blast
  have "digits (c + (q - c)) r ?N = digits c r (?N div r ^ (q - c)) @ replicate (q - c) 0"
    by (rule digits_trailing_zeros [OF dv assms(6)])
  then have dig: "digits q r ?N = digits c r (?N div r ^ (q - c)) @ replicate (q - c) 0"
    using assms(3) by simp
  then have enc: "enc_group r q g c bs @ replicate (q - c) 0 = digits q r ?N"
    using assms(1) by (simp add: enc_group_def)
  have "?N < 256 ^ g" using of_bytes_bound [of "bs @ replicate (g - k) 0"] assms(1,2) by simp
  then have "undigits r (digits q r ?N) = ?N" using assms(5) by (simp add: undigits_digits)
  moreover have "to_bytes g ?N = bs @ replicate (g - k) 0"
    using to_of_bytes [of "bs @ replicate (g - k) 0"] assms(1,2) by simp
  ultimately show ?thesis using enc assms(1,3) by (simp add: dec_group_def)
qed

section \<open>Base64\<close>

definition b64_alphabet :: string where
  "b64_alphabet = ''ABCDEFGHIJKLMNOPQRSTUVWXYZabcdefghijklmnopqrstuvwxyz0123456789+/''"

definition b64_char :: "nat \<Rightarrow> char" where "b64_char d = b64_alphabet ! d"
definition b64_val :: "char \<Rightarrow> nat option" where "b64_val = map_of (zip b64_alphabet [0..<64])"

fun b64_enc :: "bytes \<Rightarrow> string" where
  "b64_enc [] = []"
| "b64_enc [a] = map b64_char (enc_group 64 4 3 2 [a]) @ ''==''"
| "b64_enc [a, b] = map b64_char (enc_group 64 4 3 3 [a, b]) @ ''=''"
| "b64_enc (a # b # c # bs) = map b64_char (enc_group 64 4 3 4 [a, b, c]) @ b64_enc bs"

text \<open>
  A group of four characters is complete, or it is the last one and ends with one or two padding
  characters. The bits of the last digit that do not belong to a byte are ignored.
\<close>

fun b64_dec :: "string \<Rightarrow> bytes option" where
  "b64_dec [] = Some []"
| "b64_dec (c0 # c1 # c2 # c3 # cs) =
     (case (b64_val c0, b64_val c1) of
        (Some x0, Some x1) \<Rightarrow>
          (case b64_val c2 of
             Some x2 \<Rightarrow>
               (case b64_val c3 of
                  Some x3 \<Rightarrow> map_option (\<lambda>bs. dec_group 64 4 3 3 [x0, x1, x2, x3] @ bs) (b64_dec cs)
                | None \<Rightarrow> if c3 = CHR ''='' \<and> cs = [] then Some (dec_group 64 4 3 2 [x0, x1, x2]) else None)
           | None \<Rightarrow> if c2 = CHR ''='' \<and> c3 = CHR ''='' \<and> cs = [] then Some (dec_group 64 4 3 1 [x0, x1]) else None)
      | _ \<Rightarrow> None)"
| "b64_dec _ = None"

text \<open>\<open>base64.StdEncoding\<close>: line breaks in the input are skipped.\<close>

definition b64_EncodeToString :: "bytes \<Rightarrow> string" where "b64_EncodeToString b = b64_enc b"

definition b64_DecodeString :: "string \<Rightarrow> bytes option" where
  "b64_DecodeString s = b64_dec (filter (\<lambda>c. c \<noteq> CHR 0x0A \<and> c \<noteq> CHR 0x0D) s)"

lemma b64_val_char: "d < 64 \<Longrightarrow> b64_val (b64_char d) = Some d"
proof -
  assume "d < 64"
  moreover have "length b64_alphabet = 64" "distinct b64_alphabet" by (simp_all add: b64_alphabet_def)
  ultimately show ?thesis using map_of_zip_nth [of b64_alphabet "[0..<64]" d] by (simp add: b64_val_def b64_char_def)
qed

lemma b64_val_pad [simp]: "b64_val CHR ''='' = None" "b64_val CHR 0x0A = None" "b64_val CHR 0x0D = None"
  by (simp_all add: b64_val_def map_of_zip_is_None b64_alphabet_def)

lemma b64_char_no_break: "d < 64 \<Longrightarrow> b64_char d \<noteq> CHR 0x0A \<and> b64_char d \<noteq> CHR 0x0D"
  using b64_val_char b64_val_pad by (metis option.distinct(1))

lemma b64_full:
  assumes "length ds = 4" "list_all (\<lambda>d. d < 64) ds"
  shows "b64_dec (map b64_char ds @ cs) = map_option (\<lambda>bs. dec_group 64 4 3 3 ds @ bs) (b64_dec cs)"
proof -
  obtain x0 x1 x2 x3 where "ds = [x0, x1, x2, x3]" using assms(1) by (auto simp: numeral_eq_Suc length_Suc_conv)
  with assms(2) show ?thesis by (simp add: b64_val_char)
qed

lemma b64_three:
  assumes "length ds = 3" "list_all (\<lambda>d. d < 64) ds"
  shows "b64_dec (map b64_char ds @ ''='') = Some (dec_group 64 4 3 2 ds)"
proof -
  obtain x0 x1 x2 where "ds = [x0, x1, x2]" using assms(1) by (auto simp: numeral_eq_Suc length_Suc_conv)
  with assms(2) show ?thesis by (simp add: b64_val_char)
qed

lemma b64_two:
  assumes "length ds = 2" "list_all (\<lambda>d. d < 64) ds"
  shows "b64_dec (map b64_char ds @ ''=='') = Some (dec_group 64 4 3 1 ds)"
proof -
  obtain x0 x1 where "ds = [x0, x1]" using assms(1) by (auto simp: numeral_eq_Suc length_Suc_conv)
  with assms(2) show ?thesis by (simp add: b64_val_char)
qed

lemma enc_group_digits: "0 < r \<Longrightarrow> list_all (\<lambda>d. d < r) (enc_group r q g c bs)"
  by (simp add: list_all_iff enc_group_less)

lemma b64_dec_enc: "b64_dec (b64_enc bs) = Some bs"
proof (induction bs rule: b64_enc.induct)
  case (2 a)
  show ?case unfolding b64_enc.simps by (subst b64_two) (simp_all add: enc_group_digits dec_enc_group)
next
  case (3 a b)
  show ?case unfolding b64_enc.simps by (subst b64_three) (simp_all add: enc_group_digits dec_enc_group)
next
  case (4 a b c bs)
  then show ?case unfolding b64_enc.simps by (subst b64_full) (simp_all add: enc_group_digits dec_enc_group)
qed simp

lemma b64_enc_no_break: "c \<in> set (b64_enc bs) \<Longrightarrow> c \<noteq> CHR 0x0A \<and> c \<noteq> CHR 0x0D"
  by (induction bs rule: b64_enc.induct) (auto dest: enc_group_less [rotated] b64_char_no_break)

lemma b64_round_trip: "b64_DecodeString (b64_EncodeToString bs) = Some bs"
proof -
  have "filter (\<lambda>c. c \<noteq> CHR 0x0A \<and> c \<noteq> CHR 0x0D) (b64_enc bs) = b64_enc bs"
    by (rule filter_True) (use b64_enc_no_break in blast)
  then show ?thesis by (simp add: b64_DecodeString_def b64_EncodeToString_def b64_dec_enc)
qed

section \<open>Base32 without padding\<close>

definition b32_alphabet :: string where
  "b32_alphabet = ''ABCDEFGHIJKLMNOPQRSTUVWXYZ234567''"

definition b32_char :: "nat \<Rightarrow> char" where "b32_char d = b32_alphabet ! d"
definition b32_val :: "char \<Rightarrow> nat option" where "b32_val = map_of (zip b32_alphabet [0..<32])"

fun b32_digits :: "bytes \<Rightarrow> nat list" where
  "b32_digits [] = []"
| "b32_digits [a] = enc_group 32 8 5 2 [a]"
| "b32_digits [a, b] = enc_group 32 8 5 4 [a, b]"
| "b32_digits [a, b, c] = enc_group 32 8 5 5 [a, b, c]"
| "b32_digits [a, b, c, d] = enc_group 32 8 5 7 [a, b, c, d]"
| "b32_digits (a # b # c # d # e # bs) = enc_group 32 8 5 8 [a, b, c, d, e] @ b32_digits bs"

text \<open>
  How many bytes the decoder takes from a group of so many characters. A last group of one, three or
  six characters is no encoding of anything: the decoder reports no error and takes nothing from it.
\<close>

fun b32_packed :: "nat \<Rightarrow> nat" where
  "b32_packed n = (if n \<ge> 8 then 5 else if n = 7 then 4 else if n = 5 then 3 else if n = 4 then 2 else if n = 2 then 1 else 0)"

function b32_pack :: "nat list \<Rightarrow> bytes" where
  "b32_pack ds =
     (if ds = [] then []
      else dec_group 32 8 5 (b32_packed (length ds)) (take 8 ds) @ b32_pack (drop 8 ds))"
  by pat_completeness auto
termination
  by (relation "measure length") auto

declare b32_pack.simps [simp del]

fun b32_vals :: "string \<Rightarrow> nat list option" where
  "b32_vals [] = Some []"
| "b32_vals (c # cs) =
     (case b32_val c of None \<Rightarrow> None | Some d \<Rightarrow> map_option (\<lambda>ds. d # ds) (b32_vals cs))"

definition b32_EncodeToString :: "bytes \<Rightarrow> string" where
  "b32_EncodeToString b = map b32_char (b32_digits b)"

definition b32_DecodeString :: "string \<Rightarrow> bytes option" where
  "b32_DecodeString s = map_option b32_pack (b32_vals (filter (\<lambda>c. c \<noteq> CHR 0x0A \<and> c \<noteq> CHR 0x0D) s))"

lemma b32_val_char: "d < 32 \<Longrightarrow> b32_val (b32_char d) = Some d"
proof -
  assume "d < 32"
  moreover have "length b32_alphabet = 32" "distinct b32_alphabet" by (simp_all add: b32_alphabet_def)
  ultimately show ?thesis using map_of_zip_nth [of b32_alphabet "[0..<32]" d] by (simp add: b32_val_def b32_char_def)
qed

lemma b32_vals_char: "list_all (\<lambda>d. d < 32) ds \<Longrightarrow> b32_vals (map b32_char ds) = Some ds"
  by (induction ds) (simp_all add: b32_val_char)

lemma b32_digits_less: "list_all (\<lambda>d. d < 32) (b32_digits bs)"
  by (induction bs rule: b32_digits.induct) (simp_all add: enc_group_digits)

lemma length_b32_digits: "length (b32_digits bs) = (8 * length bs + 4) div 5"
  by (induction bs rule: b32_digits.induct) simp_all

lemma b32_pack_last: "length ds = n \<Longrightarrow> 0 < n \<Longrightarrow> n \<le> 8 \<Longrightarrow> b32_pack ds = dec_group 32 8 5 (b32_packed n) ds"
  by (subst b32_pack.simps) (auto simp: b32_pack.simps [of "[]"])

lemma b32_pack_group: "length ds = 8 \<Longrightarrow> b32_pack (ds @ es) = dec_group 32 8 5 5 ds @ b32_pack es"
  by (subst b32_pack.simps) auto

lemma b32_pack_digits: "b32_pack (b32_digits bs) = bs"
proof (induction bs rule: b32_digits.induct)
  case 1
  show ?case by (simp add: b32_pack.simps)
next
  case (6 a b c d e bs)
  then show ?case unfolding b32_digits.simps by (subst b32_pack_group) (simp_all add: dec_enc_group)
qed (simp_all add: b32_pack_last dec_enc_group)

lemma b32_char_not_break: "d < 32 \<Longrightarrow> b32_char d \<noteq> CHR 0x0A \<and> b32_char d \<noteq> CHR 0x0D"
proof -
  assume "d < 32"
  then have "b32_val (b32_char d) \<noteq> None" by (simp add: b32_val_char)
  moreover have "b32_val CHR 0x0A = None" "b32_val CHR 0x0D = None"
    by (simp_all add: b32_val_def map_of_zip_is_None b32_alphabet_def)
  ultimately show ?thesis by metis
qed

lemma b32_round_trip: "b32_DecodeString (b32_EncodeToString bs) = Some bs"
proof -
  have "filter (\<lambda>c. c \<noteq> CHR 0x0A \<and> c \<noteq> CHR 0x0D) (map b32_char (b32_digits bs)) = map b32_char (b32_digits bs)"
    by (rule filter_True) (use b32_digits_less b32_char_not_break in \<open>auto simp: list_all_iff\<close>)
  then show ?thesis
    by (simp add: b32_DecodeString_def b32_EncodeToString_def b32_vals_char b32_digits_less b32_pack_digits)
qed

end
