(* ===== verification/Messages.thy ===== *)
theory Messages
  imports Encodings
begin

text \<open>
  \<open>internal/rendezvous/messages.go\<close>: the control messages between clients and the relay.
  \<open>encoding/json\<close> is the parameter \<open>json_msg\<close>.
\<close>

definition MsgPublish :: string where "MsgPublish = ''publish''"
definition MsgPublished :: string where "MsgPublished = ''published''"
definition MsgClaim :: string where "MsgClaim = ''claim''"
definition MsgPaired :: string where "MsgPaired = ''paired''"
definition MsgCircuit :: string where "MsgCircuit = ''circuit''"
definition MsgCircuitOK :: string where "MsgCircuitOK = ''circuit_ok''"
definition MsgError :: string where "MsgError = ''error''"
definition MsgBye :: string where "MsgBye = ''bye''"

lemmas msg_defs = MsgPublish_def MsgPublished_def MsgClaim_def MsgPaired_def MsgCircuit_def MsgCircuitOK_def
  MsgError_def MsgBye_def

definition RolePublisher :: string where "RolePublisher = ''publisher''"
definition RoleClaimer :: string where "RoleClaimer = ''claimer''"

definition MaxControlFrame :: nat where [simp]: "MaxControlFrame = 8192"

record message =
  mg_Type :: string
  mg_RendezvousID :: string
  mg_Candidates :: string
  mg_Observed :: string
  mg_Role :: string
  mg_PeerCandidates :: string
  mg_PeerObserved :: string
  mg_PunchInMS :: int
  mg_Ticket :: string
  mg_Reason :: string

text \<open>A message of a type whose other fields have their zero values.\<close>

definition msg_of :: "string \<Rightarrow> message" where
  "msg_of t = \<lparr>mg_Type = t, mg_RendezvousID = [], mg_Candidates = [], mg_Observed = [], mg_Role = [],
     mg_PeerCandidates = [], mg_PeerObserved = [], mg_PunchInMS = 0, mg_Ticket = [], mg_Reason = []\<rparr>"

datatype msg_error = ErrControlTooLarge | ErrBadControl | ErrNoType | ErrBadBase64 | ErrFieldLength nat

record json_msg =
  msg_marshal :: "message \<Rightarrow> bytes"
  msg_unmarshal :: "bytes \<Rightarrow> message option"

definition EncodeMessage :: "json_msg \<Rightarrow> message \<Rightarrow> msg_error + bytes" where
  "EncodeMessage J m =
     (let buf = msg_marshal J m in if length buf > MaxControlFrame then Inl ErrControlTooLarge else Inr buf)"

definition DecodeMessage :: "json_msg \<Rightarrow> bytes \<Rightarrow> msg_error + message" where
  "DecodeMessage J buf =
     (if length buf > MaxControlFrame then Inl ErrControlTooLarge
      else case msg_unmarshal J buf of None \<Rightarrow> Inl ErrBadControl
      | Some m \<Rightarrow> if mg_Type m = [] then Inl ErrNoType else Inr m)"

definition b64 :: "bytes \<Rightarrow> string" where "b64 b = b64_EncodeToString b"

definition unb64 :: "string \<Rightarrow> nat \<Rightarrow> msg_error + bytes" where
  "unb64 s limit =
     (case b64_DecodeString s of None \<Rightarrow> Inl ErrBadBase64
      | Some b \<Rightarrow> if length b > limit then Inl (ErrFieldLength (length b)) else Inr b)"

text \<open>\<open>decodeExact\<close> and \<open>encode\<close> of \<open>internal/relay/encoding.go\<close>.\<close>

definition decodeExact :: "string \<Rightarrow> nat \<Rightarrow> msg_error + bytes" where
  "decodeExact s want =
     (case b64_DecodeString s of None \<Rightarrow> Inl ErrBadBase64
      | Some b \<Rightarrow> if length b \<noteq> want then Inl (ErrFieldLength (length b)) else Inr b)"

definition encode :: "bytes \<Rightarrow> string" where "encode b = b64_EncodeToString b"

section \<open>The codecs of the binary fields\<close>

interpretation exact_field: codec encode "\<lambda>s. decodeExact s n" "\<lambda>b. length b = n" for n
  by unfold_locales (simp add: encode_def decodeExact_def b64_round_trip)

interpretation bounded_field: codec b64 "\<lambda>s. unb64 s n" "\<lambda>b. length b \<le> n" for n
  by unfold_locales (simp add: b64_def unb64_def b64_round_trip)

text \<open>
  With a JSON codec that gives the fields back, a message with a type that fits the control plane is
  decoded as it was sent.
\<close>

lemma message_round_trip:
  assumes "msg_unmarshal J (msg_marshal J m) = Some m" and "mg_Type m \<noteq> []" and "EncodeMessage J m = Inr buf"
  shows "DecodeMessage J buf = Inr m"
  using assms by (auto simp: EncodeMessage_def DecodeMessage_def Let_def split: if_splits)

end
