(* ===== verification/Transport.thy ===== *)
theory Transport
  imports Prelude
begin

text \<open>
  \<open>internal/transport/transport.go\<close> and the routing of \<open>punch.go\<close>. A TCP connection is the
  sequence of bytes that was written to it and not yet read. A write may stop after any number of
  bytes (\<open>accepted\<close>), which is how a connection dies in the middle of a frame; a read finds fewer
  bytes than it needs when the peer closed or the deadline passed.
\<close>

section \<open>Length-prefixed frames\<close>

definition MaxFrameSize :: nat where [simp]: "MaxFrameSize = 1048576"

datatype transport_error = ErrFrameTooLarge | ErrEOF | ErrWrite

text \<open>
  \<open>fio_Send\<close> returns the bytes that reached the connection: all of them, or the first
  \<open>n\<close> when the connection accepts no more than \<open>n\<close>.
\<close>

definition fio_Send :: "nat option \<Rightarrow> bytes \<Rightarrow> (transport_error + unit) \<times> bytes" where
  "fio_Send accepted payload =
     (if length payload > MaxFrameSize then (Inl ErrFrameTooLarge, [])
      else let hdr = PutUint32 (word_of_nat (length payload)); all = hdr @ payload
           in case accepted of
                None \<Rightarrow> (Inr (), all)
              | Some n \<Rightarrow> if n < length all then (Inl ErrWrite, take n all) else (Inr (), all))"

definition fio_RecvBefore :: "bytes \<Rightarrow> (transport_error + bytes) \<times> bytes" where
  "fio_RecvBefore stream =
     (if length stream < 4 then (Inl ErrEOF, [])
      else let n = unat (Uint32 (take 4 stream)); rest = drop 4 stream
           in if n > MaxFrameSize then (Inl ErrFrameTooLarge, rest)
              else if n = 0 then (Inr [], rest)
              else if length rest < n then (Inl ErrEOF, [])
              else (Inr (take n rest), drop n rest))"

text \<open>A sender and a receiver that stop at the first error.\<close>

fun send_all :: "bytes list \<Rightarrow> bytes" where
  "send_all [] = []"
| "send_all (p # ps) = snd (fio_Send None p) @ send_all ps"

function recv_all :: "bytes \<Rightarrow> bytes list \<times> transport_error" where
  "recv_all stream =
     (case fio_RecvBefore stream of
        (Inl e, _) \<Rightarrow> ([], e)
      | (Inr p, rest) \<Rightarrow> (case recv_all rest of (ps, e) \<Rightarrow> (p # ps, e)))"
  by pat_completeness auto
termination
  by (relation "measure length")
    (auto simp: fio_RecvBefore_def Let_def split: if_splits)

declare recv_all.simps [simp del]

section \<open>Addresses\<close>

text \<open>\<open>net.SplitHostPort\<close>; \<^const>\<open>None\<close> is its error.\<close>

definition colon_last :: "string \<Rightarrow> nat option" where
  "colon_last s = (if CHR '':'' \<in> set s then Some (length s - 1 - length (takeWhile (\<lambda>c. c \<noteq> CHR '':'') (rev s))) else None)"

definition bracket_end :: "string \<Rightarrow> nat option" where
  "bracket_end s = (if CHR '']'' \<in> set s then Some (length (takeWhile (\<lambda>c. c \<noteq> CHR '']'') s)) else None)"

definition SplitHostPort :: "string \<Rightarrow> (string \<times> string) option" where
  "SplitHostPort s =
     (case colon_last s of None \<Rightarrow> None
      | Some i \<Rightarrow>
        if s ! 0 = CHR ''['' then
          (case bracket_end s of None \<Rightarrow> None
           | Some e \<Rightarrow>
             if e + 1 \<noteq> i then None
             else if CHR ''['' \<in> set (drop 1 s) \<or> CHR '']'' \<in> set (drop (e + 1) s) then None
             else Some (take (e - 1) (drop 1 s), drop (i + 1) s))
        else
          let host = take i s
          in if CHR '':'' \<in> set host then None
             else if CHR ''['' \<in> set s \<or> CHR '']'' \<in> set s then None
             else Some (host, drop (i + 1) s))"

definition addrIP :: "string \<Rightarrow> string" where
  "addrIP addr = (case SplitHostPort addr of None \<Rightarrow> addr | Some (host, _) \<Rightarrow> host)"

section \<open>Punch routing\<close>

text \<open>
  The waiting punches are channels of capacity one; a channel is a heap cell, because a punch keeps
  its channel after another punch to the same address has replaced it in the map. Connections
  are identified by a number and their remote address.
\<close>

type_synonym netconn = "nat \<times> string"

record punchListener =
  pl_waiters :: "string \<rightharpoonup> nat"
  pl_chan :: "nat \<Rightarrow> netconn list"
  pl_next :: nat
  pl_fallback :: "netconn list option" \<comment> \<open>what the fallback was called with; \<^const>\<open>None\<close> if there is none\<close>
  pl_dropped :: "netconn list" \<comment> \<open>connections that were closed\<close>

text \<open>
  \<open>route\<close> looks up the waiting punch with the mutex and sends to its channel after it was released; in
  between the punch may return and its channel be abandoned. \<open>route\<close> is the undisturbed sequence.
\<close>

definition route_lookup :: "netconn \<Rightarrow> punchListener \<Rightarrow> nat option" where
  "route_lookup conn p = pl_waiters p (addrIP (snd conn))"

definition route_deliver :: "netconn \<Rightarrow> nat option \<Rightarrow> punchListener \<Rightarrow> punchListener" where
  "route_deliver conn found p =
     (let other = (case pl_fallback p of
                     Some l \<Rightarrow> p\<lparr>pl_fallback := Some (l @ [conn])\<rparr>
                   | None \<Rightarrow> p\<lparr>pl_dropped := pl_dropped p @ [conn]\<rparr>)
      in case found of
           Some ch \<Rightarrow>
             if length (pl_chan p ch) < 1
             then p\<lparr>pl_chan := (pl_chan p)(ch := pl_chan p ch @ [conn])\<rparr>
             else other
         | None \<Rightarrow> other)"

definition route :: "netconn \<Rightarrow> punchListener \<Rightarrow> punchListener" where
  "route conn p = route_deliver conn (route_lookup conn p) p"

definition punch_register :: "string \<Rightarrow> punchListener \<Rightarrow> nat \<times> punchListener" where
  "punch_register ip p =
     (let ch = pl_next p
      in (ch, p\<lparr>pl_waiters := (pl_waiters p)(ip \<mapsto> ch), pl_chan := (pl_chan p)(ch := []), pl_next := ch + 1\<rparr>))"

definition punch_unregister :: "string \<Rightarrow> punchListener \<Rightarrow> punchListener" where
  "punch_unregister ip p = p\<lparr>pl_waiters := (pl_waiters p)(ip := None)\<rparr>"

section \<open>Lemmas\<close>

lemma frame_length: "n \<le> 1048576 \<Longrightarrow> unat (Uint32 (PutUint32 (word_of_nat n))) = n"
  using Uint32_Put [of "word_of_nat n" "[]"] by (simp add: unat_of_nat take_bit_nat_eq_self)

lemma Send_Recv:
  assumes "length p \<le> 1048576"
  shows "fio_RecvBefore (snd (fio_Send None p) @ rest) = (Inr p, rest)"
  using assms frame_length [of "length p"] by (simp add: fio_Send_def fio_RecvBefore_def Let_def)

lemma Recv_short:
  assumes "length p \<le> 1048576" and "k < length (snd (fio_Send None p))"
  shows "fst (fio_RecvBefore (take k (snd (fio_Send None p)))) = Inl ErrEOF"
proof (cases "k < 4")
  case True
  then have "length (take k (snd (fio_Send None p))) < 4" by simp
  then show ?thesis unfolding fio_RecvBefore_def by (simp only: if_True fst_conv)
next
  case False
  have wire: "snd (fio_Send None p) = PutUint32 (word_of_nat (length p)) @ p"
    using assms(1) by (simp add: fio_Send_def Let_def)
  have "unat (Uint32 (take 4 (take k (snd (fio_Send None p))))) = length p"
    using False frame_length [OF assms(1)] by (simp add: wire min_def)
  moreover have "k - 4 < length p" "p \<noteq> []" using assms(2) False by (auto simp: wire)
  ultimately show ?thesis
    using False assms(1) by (simp add: fio_RecvBefore_def Let_def wire)
qed

lemma recv_all_prefix:
  "list_all (\<lambda>p. length p \<le> 1048576) ps \<Longrightarrow>
   \<exists>n e. recv_all (take k (send_all ps)) = (take n ps, e) \<and> (length (send_all ps) \<le> k \<longrightarrow> n = length ps)"
proof (induction ps arbitrary: k)
  case Nil
  then show ?case by (simp add: recv_all.simps fio_RecvBefore_def)
next
  case (Cons p ps)
  let ?w = "snd (fio_Send None p)"
  have p: "length p \<le> 1048576" using Cons.prems by simp
  show ?case
  proof (cases "k < length ?w")
    case True
    have "take k (send_all (p # ps)) = take k ?w" using True by simp
    moreover obtain r where "fio_RecvBefore (take k ?w) = (Inl ErrEOF, r)"
      using Recv_short [OF p True] by (metis fst_conv surj_pair)
    ultimately have "recv_all (take k (send_all (p # ps))) = ([], ErrEOF)"
      by (simp only: recv_all.simps [of "take k ?w"] prod.case sum.case)
    then show ?thesis using True by (intro exI [of _ 0] exI [of _ ErrEOF]) simp
  next
    case False
    have "take k (send_all (p # ps)) = ?w @ take (k - length ?w) (send_all ps)" using False by simp
    moreover obtain n e where "recv_all (take (k - length ?w) (send_all ps)) = (take n ps, e)"
      "length (send_all ps) \<le> k - length ?w \<longrightarrow> n = length ps"
      using Cons.IH [of "k - length ?w"] Cons.prems by auto
    ultimately have "recv_all (take k (send_all (p # ps))) = (take (Suc n) (p # ps), e)"
      "length (send_all (p # ps)) \<le> k \<longrightarrow> Suc n = length (p # ps)"
      using Send_Recv [OF p] recv_all.simps [of "?w @ take (k - length ?w) (send_all ps)"] by auto
    then show ?thesis by blast
  qed
qed

section \<open>Properties\<close>

text \<open>
  framing over a stream. When a connection carries any prefix of what a sender wrote, cut at any
  byte, the receiver returns whole payloads only: a prefix of the sequence that was sent, in order,
  and all of it when nothing was cut off.
\<close>

theorem framing_is_prefix_safe:
  assumes "list_all (\<lambda>p. length p \<le> MaxFrameSize) ps"
  shows "\<exists>n e. recv_all (take k (send_all ps)) = (take n ps, e) \<and> (length (send_all ps) \<le> k \<longrightarrow> n = length ps)"
  using recv_all_prefix [of ps k] assms by simp

theorem framing_is_prefix_safe_witness:
  "\<exists>n e. recv_all (take 12 (send_all [[1, 2], [], [3]])) = (take n [[1, 2], [], [3]], e)"
proof -
  have "list_all (\<lambda>p. length p \<le> MaxFrameSize) [[1, 2], [], [3 :: byte]]" by simp
  from framing_is_prefix_safe [OF this, of 12] show ?thesis by blast
qed

text \<open>
  a connection is never lost by the punch router. It ends up in exactly one place: the channel of
  the punch that waits for its address, when that channel is empty, otherwise with the fallback, or
  closed when there is none; no other channel changes.
\<close>

theorem route_is_total:
  "let q = route conn p; ip = addrIP (snd conn) in
     (\<exists>ch. pl_waiters p ip = Some ch \<and> pl_chan p ch = [] \<and>
           q = p\<lparr>pl_chan := (pl_chan p)(ch := [conn])\<rparr>) \<or>
     (\<forall>ch. pl_waiters p ip = Some ch \<longrightarrow> pl_chan p ch \<noteq> []) \<and>
       ((\<exists>l. pl_fallback p = Some l \<and> q = p\<lparr>pl_fallback := Some (l @ [conn])\<rparr>) \<or>
        pl_fallback p = None \<and> q = p\<lparr>pl_dropped := pl_dropped p @ [conn]\<rparr>)"
  by (auto simp: route_def route_lookup_def route_deliver_def Let_def split: option.splits)

text \<open>
  The host of an address. For a host without colons and brackets \<open>addrIP\<close> recovers the host from
  \<open>host:port\<close>.
\<close>

lemma colon_last_append: "CHR '':'' \<notin> set port \<Longrightarrow> colon_last (h @ CHR '':'' # port) = Some (length h)"
  by (simp add: colon_last_def takeWhile_append)

lemma addrIP_plain:
  assumes "CHR '':'' \<notin> set host" "CHR ''['' \<notin> set host" "CHR '']'' \<notin> set host" "host \<noteq> []"
    and "CHR '':'' \<notin> set port" "CHR ''['' \<notin> set port" "CHR '']'' \<notin> set port"
  shows "addrIP (host @ CHR '':'' # port) = host"
  using assms by (cases host) (auto simp: addrIP_def SplitHostPort_def colon_last_append Let_def colon_last_def takeWhile_append)

end
