(* ===== verification/Relay.thy ===== *)
theory Relay
  imports Crypto Messages Transport "HOL-Library.AList"
begin

text \<open>
  \<open>internal/relay\<close>: the rendezvous and relay server (\<open>server.go\<close>, \<open>limits.go\<close>).

  Every connection has a handler goroutine. A handler is a record with its remote address, the codes
  it published and the point it has reached (\<open>phase\<close>); a definition ending in \<open>_step\<close> is what
  it does from one point to the next, with at most one critical section of the server's mutex,
  so that runs interleave the handlers where the code can; in particular the slot of a connection is taken
  before and given back after the steps in which it is upgraded, served and its codes are dropped. Connections are numbered and circuits
  live in a heap, because handlers, tickets and the splice share them. Times and durations are
  integers (nanoseconds). Whether a write to a socket succeeds, what was read, and that a timer
  fired are arguments of the steps. Messages that were written are logged in \<open>rl_out\<close>.
\<close>

section \<open>Limits\<close>

definition minute :: int where "minute = 60 * second"

record limits =
  CodeTTL :: int
  MaxPendingCodes :: int
  MaxCircuits :: int
  CircuitIdle :: int
  CircuitLifetime :: int
  CircuitBytes :: int
  MaxConnsPerIP :: int
  PublishesPerIPPerMin :: int
  PunchDelay :: int

definition DefaultLimits :: limits where
  "DefaultLimits = \<lparr>CodeTTL = 5 * minute, MaxPendingCodes = 4096, MaxCircuits = 512, CircuitIdle = 90 * second,
     CircuitLifetime = 12 * 60 * minute, CircuitBytes = 268435456, MaxConnsPerIP = 32, PublishesPerIPPerMin = 30,
     PunchDelay = 250 * millisecond\<rparr>"

record window =
  w_count :: int
  w_start :: int

type_synonym rateCounter = "string \<rightharpoonup> window"

definition newRateCounter :: rateCounter where "newRateCounter = Map.empty"

definition allow :: "int \<Rightarrow> string \<Rightarrow> int \<Rightarrow> int \<Rightarrow> rateCounter \<Rightarrow> bool \<times> rateCounter" where
  "allow now key limit per r =
     (case r key of
        None \<Rightarrow> (True, r(key \<mapsto> \<lparr>w_count = 1, w_start = now\<rparr>))
      | Some w \<Rightarrow>
        if now - w_start w > per then (True, r(key \<mapsto> \<lparr>w_count = 1, w_start = now\<rparr>))
        else if w_count w \<ge> limit then (False, r)
        else (True, r(key \<mapsto> w\<lparr>w_count := w_count w + 1\<rparr>)))"

definition sweep :: "int \<Rightarrow> int \<Rightarrow> rateCounter \<Rightarrow> rateCounter" where
  "sweep now per r = (\<lambda>k. case r k of None \<Rightarrow> None | Some w \<Rightarrow> if now - w_start w > per then None else Some w)"

section \<open>Server state\<close>

definition rendezvousIDSize :: nat where [simp]: "rendezvousIDSize = 16"
definition TicketSize :: nat where [simp]: "TicketSize = 32"
definition maxReapInterval :: int where "maxReapInterval = 30 * second"

definition reapInterval :: "int \<Rightarrow> int" where
  "reapInterval ttl =
     (let d = ttl div 2
      in if d > maxReapInterval then maxReapInterval else if d < millisecond then millisecond else d)"

record pendingCode =
  pc_conn :: nat
  pc_sealed :: string
  pc_observed :: string
  pc_created :: int

record circuit =
  ci_conns :: "nat option list" \<comment> \<open>the two ends\<close>
  ci_started :: bool
  ci_created :: int
  ci_done :: bool \<comment> \<open>\<open>done\<close> is closed\<close>
  ci_released :: bool \<comment> \<open>the body of \<open>released\<close> has run\<close>

record ticketRef =
  tr_circuit :: nat
  tr_side :: nat

record relay =
  rl_limits :: limits
  rl_pending :: "(string \<times> pendingCode) list"
  rl_tickets :: "string \<rightharpoonup> ticketRef"
  rl_circuits :: int
  rl_ipConns :: "string \<rightharpoonup> int"
  rl_publishes :: rateCounter
  rl_closed :: bool
  rl_heap :: "circuit list"
  rl_out :: "(nat \<times> message) list"

definition relay_New :: "limits \<Rightarrow> relay" where
  "relay_New l = \<lparr>rl_limits = l, rl_pending = [], rl_tickets = Map.empty, rl_circuits = 0, rl_ipConns = Map.empty,
     rl_publishes = newRateCounter, rl_closed = False, rl_heap = [], rl_out = []\<rparr>"

definition relay_Close :: "relay \<Rightarrow> relay" where
  "relay_Close s = s\<lparr>rl_closed := True\<rparr>"

definition relay_Stats :: "relay \<Rightarrow> nat \<times> int" where
  "relay_Stats s = (length (rl_pending s), rl_circuits s)"

definition sourceIP :: "string \<Rightarrow> string" where
  "sourceIP remoteAddr = (case SplitHostPort remoteAddr of None \<Rightarrow> remoteAddr | Some (host, _) \<Rightarrow> host)"

text \<open>A Go map of integers reads zero for an absent key.\<close>

definition ipCount :: "(string \<rightharpoonup> int) \<Rightarrow> string \<Rightarrow> int" where
  "ipCount m ip = (case m ip of None \<Rightarrow> 0 | Some n \<Rightarrow> n)"

section \<open>Operations of the server\<close>

definition acquireIP :: "string \<Rightarrow> relay \<Rightarrow> bool \<times> relay" where
  "acquireIP ip s =
     (if ipCount (rl_ipConns s) ip \<ge> MaxConnsPerIP (rl_limits s) then (False, s)
      else (True, s\<lparr>rl_ipConns := (rl_ipConns s)(ip \<mapsto> ipCount (rl_ipConns s) ip + 1)\<rparr>))"

definition releaseIP :: "string \<Rightarrow> relay \<Rightarrow> relay" where
  "releaseIP ip s =
     (let n = ipCount (rl_ipConns s) ip
      in if n \<le> 1 then s\<lparr>rl_ipConns := (rl_ipConns s)(ip := None)\<rparr>
         else s\<lparr>rl_ipConns := (rl_ipConns s)(ip \<mapsto> n - 1)\<rparr>)"

definition send_message :: "bool \<Rightarrow> nat \<Rightarrow> message \<Rightarrow> relay \<Rightarrow> relay" where
  "send_message ok conn m s = (if ok then s\<lparr>rl_out := rl_out s @ [(conn, m)]\<rparr> else s)"

definition refuse :: "bool \<Rightarrow> nat \<Rightarrow> string \<Rightarrow> string \<Rightarrow> relay \<Rightarrow> relay" where
  "refuse ok conn rid reason s =
     send_message ok conn ((msg_of MsgError)\<lparr>mg_RendezvousID := rid, mg_Reason := reason\<rparr>) s"

definition checkRID :: "bool \<Rightarrow> nat \<Rightarrow> message \<Rightarrow> relay \<Rightarrow> string option \<times> relay" where
  "checkRID ok conn msg s =
     (case decodeExact (mg_RendezvousID msg) rendezvousIDSize of
        Inl _ \<Rightarrow> (None, refuse ok conn (mg_RendezvousID msg) ''malformed rendezvous id'' s)
      | Inr _ \<Rightarrow>
        if length (mg_Candidates msg) > MaxControlFrame
        then (None, refuse ok conn (mg_RendezvousID msg) ''candidate list too large'' s)
        else (Some (mg_RendezvousID msg), s))"

definition addPending :: "int \<Rightarrow> string \<Rightarrow> nat \<Rightarrow> string \<Rightarrow> string \<Rightarrow> relay \<Rightarrow> bool \<times> relay" where
  "addPending now rid conn sealed observed s =
     (if int (length (rl_pending s)) \<ge> MaxPendingCodes (rl_limits s) then (False, s)
      else (True, s\<lparr>rl_pending := AList.update rid
             \<lparr>pc_conn = conn, pc_sealed = sealed, pc_observed = observed, pc_created = now\<rparr> (rl_pending s)\<rparr>))"

definition dropPending :: "string \<Rightarrow> nat \<Rightarrow> relay \<Rightarrow> relay" where
  "dropPending rid conn s =
     (case map_of (rl_pending s) rid of None \<Rightarrow> s
      | Some p \<Rightarrow> if pc_conn p = conn then s\<lparr>rl_pending := AList.delete rid (rl_pending s)\<rparr> else s)"

definition releaseCircuit :: "relay \<Rightarrow> relay" where
  "releaseCircuit s = (if rl_circuits s > 0 then s\<lparr>rl_circuits := rl_circuits s - 1\<rparr> else s)"

definition set_circuit :: "nat \<Rightarrow> circuit \<Rightarrow> relay \<Rightarrow> relay" where
  "set_circuit c v s = s\<lparr>rl_heap := (rl_heap s)[c := v]\<rparr>"

definition releaseOnce :: "nat \<Rightarrow> relay \<Rightarrow> relay" where
  "releaseOnce c s =
     (let v = rl_heap s ! c
      in if ci_released v then s else releaseCircuit (set_circuit c (v\<lparr>ci_released := True\<rparr>) s))"

text \<open>\<open>dropCircuit\<close> deletes the tickets in one critical section and calls \<open>releaseOnce\<close> after it.\<close>

definition dropCircuit_tickets :: "string list \<Rightarrow> relay \<Rightarrow> relay" where
  "dropCircuit_tickets tickets s = s\<lparr>rl_tickets := (\<lambda>t. if t \<in> set tickets then None else rl_tickets s t)\<rparr>"

text \<open>
  The three parts of \<open>pair\<close>: the critical section that takes the code and a slot, the issue of the
  tickets, and the messages to the two peers, with the tickets deleted again when a message was not written.
\<close>

definition pair_claim :: "string \<Rightarrow> nat \<Rightarrow> relay \<Rightarrow> (string + pendingCode) \<times> relay" where
  "pair_claim rid claimer s =
     (case map_of (rl_pending s) rid of
        None \<Rightarrow> (Inl ''no such invite code'', s)
      | Some p \<Rightarrow>
        if pc_conn p = claimer then (Inl ''cannot claim your own invite code'', s)
        else if rl_circuits s \<ge> MaxCircuits (rl_limits s) then (Inl ''relay is at capacity'', s)
        else (Inr p, s\<lparr>rl_pending := AList.delete rid (rl_pending s), rl_circuits := rl_circuits s + 1\<rparr>))"

definition NewTicket :: "entropy \<Rightarrow> crypto_error + bytes" where
  "NewTicket rnd = RandomBytes rnd TicketSize"

definition pair_issue :: "int \<Rightarrow> entropy \<Rightarrow> entropy \<Rightarrow> relay \<Rightarrow> (string + nat \<times> string \<times> string) \<times> relay" where
  "pair_issue now rndA rndB s =
     (case NewTicket rndA of Inl _ \<Rightarrow> (Inl ''internal error'', releaseCircuit s)
      | Inr ticketA \<Rightarrow>
        (case NewTicket rndB of Inl _ \<Rightarrow> (Inl ''internal error'', releaseCircuit s)
         | Inr ticketB \<Rightarrow>
           let c = length (rl_heap s); tA = encode ticketA; tB = encode ticketB
           in (Inr (c, tA, tB),
               s\<lparr>rl_heap := rl_heap s @ [\<lparr>ci_conns = [None, None], ci_started = False, ci_created = now,
                                          ci_done = False, ci_released = False\<rparr>],
                 rl_tickets := (rl_tickets s)(tA \<mapsto> \<lparr>tr_circuit = c, tr_side = 0\<rparr>, tB \<mapsto> \<lparr>tr_circuit = c, tr_side = 1\<rparr>)\<rparr>)))"

definition Milliseconds :: "int \<Rightarrow> int" where
  "Milliseconds d = (if d \<ge> 0 then d div millisecond else - ((- d) div millisecond))"

definition pair_notify ::
    "bool \<Rightarrow> bool \<Rightarrow> string \<Rightarrow> nat \<Rightarrow> string \<Rightarrow> string \<Rightarrow> pendingCode \<Rightarrow> nat \<Rightarrow> string \<Rightarrow> string \<Rightarrow> relay \<Rightarrow>
     (string + unit) \<times> relay" where
  "pair_notify pubOk claimOk rid claimer claimerSealed claimerAddr p c tA tB s =
     (let punchMS = Milliseconds (PunchDelay (rl_limits s));
          m = (msg_of MsgPaired)\<lparr>mg_RendezvousID := rid, mg_PunchInMS := punchMS\<rparr>;
          s1 = send_message pubOk (pc_conn p)
                 (m\<lparr>mg_Role := RolePublisher, mg_PeerCandidates := claimerSealed, mg_PeerObserved := claimerAddr, mg_Ticket := tA\<rparr>) s;
          s2 = send_message claimOk claimer
                 (m\<lparr>mg_Role := RoleClaimer, mg_PeerCandidates := pc_sealed p, mg_PeerObserved := pc_observed p, mg_Ticket := tB\<rparr>) s1
      in if \<not> pubOk \<or> \<not> claimOk then (Inl ''peer went away'', dropCircuit_tickets [tA, tB] s2) else (Inr (), s2))"

text \<open>The sweep of \<open>reap\<close> at one tick.\<close>

definition reap :: "int \<Rightarrow> relay \<Rightarrow> relay" where
  "reap now s =
     (let ttl = CodeTTL (rl_limits s)
      in s\<lparr>rl_pending := filter (\<lambda>(_, p). \<not> now - pc_created p > ttl) (rl_pending s),
           rl_tickets := (\<lambda>t. case rl_tickets s t of None \<Rightarrow> None
                            | Some r \<Rightarrow> if now - ci_created (rl_heap s ! tr_circuit r) > ttl then None else Some r),
           rl_publishes := sweep now minute (rl_publishes s)\<rparr>)"

section \<open>Handlers\<close>

datatype phase =
    Upgrading \<comment> \<open>connection counted, in \<open>ServerHandshake\<close>\<close>
  | Control \<comment> \<open>at \<open>RecvMessage\<close>\<close>
  | PairClaimed string string pendingCode \<comment> \<open>in \<open>pair\<close> for this code with the claimer's sealed list; slot taken\<close>
  | PairIssued string string pendingCode nat string string \<comment> \<open>the same with the circuit and both tickets\<close>
  | PairFailed string string nat \<comment> \<open>in \<open>dropCircuit\<close> for this code and reason: the circuit's tickets are deleted\<close>
  | Attaching ticketRef \<comment> \<open>the ticket is spent\<close>
  | Waiting nat \<comment> \<open>first half of this circuit\<close>
  | Splicing nat \<comment> \<open>second half, runs the splice\<close>
  | Closing "string list" \<comment> \<open>in the deferred calls, with these codes still to drop\<close>
  | Ended

record handler =
  h_addr :: string
  h_published :: "string list"
  h_phase :: phase

record world =
  w_relay :: relay
  w_handlers :: "handler list"

definition set_handler :: "nat \<Rightarrow> handler \<Rightarrow> world \<Rightarrow> world" where
  "set_handler i h w = w\<lparr>w_handlers := (w_handlers w)[i := h]\<rparr>"

definition goto :: "nat \<Rightarrow> phase \<Rightarrow> relay \<Rightarrow> world \<Rightarrow> world" where
  "goto i ph s w = set_handler i ((w_handlers w ! i)\<lparr>h_phase := ph\<rparr>) (w\<lparr>w_relay := s\<rparr>)"

text \<open>\<open>serveConn\<close> returns: the deferred calls have the published codes to drop.\<close>

definition finish_handler :: "nat \<Rightarrow> relay \<Rightarrow> world \<Rightarrow> world" where
  "finish_handler i s w = goto i (Closing (h_published (w_handlers w ! i))) s w"

text \<open>
  The deferred calls, one critical section at a time: \<open>dropPending\<close> for each published code, then
  (the connection closed) \<open>releaseIP\<close>.
\<close>

definition defer_step :: "nat \<Rightarrow> world \<Rightarrow> world" where
  "defer_step i w =
     (case h_phase (w_handlers w ! i) of
        Closing (rid # rids) \<Rightarrow> goto i (Closing rids) (dropPending rid i (w_relay w)) w
      | Closing [] \<Rightarrow> goto i Ended (releaseIP (sourceIP (h_addr (w_handlers w ! i))) (w_relay w)) w
      | _ \<Rightarrow> w)"

text \<open>
  \<open>serveHTTP\<close>: a request that gets no slot is answered at once; one that does holds it during
  \<open>ServerHandshake\<close>, whose outcome is \<open>upgraded\<close>. A request that is not upgraded only has its slot to
  release.
\<close>

definition serveHTTP_step :: "string \<Rightarrow> world \<Rightarrow> world" where
  "serveHTTP_step addr w =
     (case acquireIP (sourceIP addr) (w_relay w) of
        (False, s) \<Rightarrow> w\<lparr>w_relay := s\<rparr>
      | (True, s) \<Rightarrow>
        w\<lparr>w_relay := s, w_handlers := w_handlers w @ [\<lparr>h_addr = addr, h_published = [], h_phase = Upgrading\<rparr>]\<rparr>)"

definition upgrade_step :: "bool \<Rightarrow> nat \<Rightarrow> world \<Rightarrow> world" where
  "upgrade_step upgraded i w =
     (case h_phase (w_handlers w ! i) of
        Upgrading \<Rightarrow> goto i (if upgraded then Control else Closing []) (w_relay w) w
      | _ \<Rightarrow> w)"

definition publish_step :: "int \<Rightarrow> bool \<Rightarrow> nat \<Rightarrow> message \<Rightarrow> world \<Rightarrow> world" where
  "publish_step now ok i msg w =
     (let h = w_handlers w ! i
      in case checkRID ok i msg (w_relay w) of
           (None, s) \<Rightarrow> finish_handler i s w
         | (Some rid, s) \<Rightarrow>
           (case allow now (sourceIP (h_addr h)) (PublishesPerIPPerMin (rl_limits s)) minute (rl_publishes s) of
              (False, r) \<Rightarrow> finish_handler i (refuse ok i (mg_RendezvousID msg) ''rate limit exceeded'' (s\<lparr>rl_publishes := r\<rparr>)) w
            | (True, r) \<Rightarrow>
              (case addPending now rid i (mg_Candidates msg) (h_addr h) (s\<lparr>rl_publishes := r\<rparr>) of
                 (False, s1) \<Rightarrow> finish_handler i (refuse ok i (mg_RendezvousID msg) ''relay is at capacity'' s1) w
               | (True, s1) \<Rightarrow>
                 let s2 = send_message ok i ((msg_of MsgPublished)\<lparr>mg_RendezvousID := rid, mg_Observed := h_addr h\<rparr>) s1;
                     w1 = set_handler i (h\<lparr>h_published := h_published h @ [rid]\<rparr>) (w\<lparr>w_relay := s2\<rparr>)
                 in if ok then w1 else finish_handler i s2 w1)))"

definition claim_step :: "bool \<Rightarrow> bool \<Rightarrow> nat \<Rightarrow> message \<Rightarrow> world \<Rightarrow> world" where
  "claim_step ok ok2 i msg w =
     (let h = w_handlers w ! i
      in case checkRID ok i msg (w_relay w) of
           (None, s) \<Rightarrow> finish_handler i s w
         | (Some rid, s) \<Rightarrow>
           let s1 = send_message ok i ((msg_of MsgPublished)\<lparr>mg_RendezvousID := rid, mg_Observed := h_addr h\<rparr>) s
           in if \<not> ok then finish_handler i s1 w
              else case pair_claim rid i s1 of
                     (Inl e, s2) \<Rightarrow> goto i Control (refuse ok2 i rid e s2) w
                   | (Inr p, s2) \<Rightarrow> goto i (PairClaimed rid (mg_Candidates msg) p) s2 w)"

definition redeem_step :: "bool \<Rightarrow> nat \<Rightarrow> message \<Rightarrow> world \<Rightarrow> world" where
  "redeem_step ok i msg w =
     (let s = w_relay w
      in case decodeExact (mg_Ticket msg) TicketSize of
           Inl _ \<Rightarrow> finish_handler i (refuse ok i [] ''malformed ticket'' s) w
         | Inr _ \<Rightarrow>
           (case rl_tickets s (mg_Ticket msg) of
              None \<Rightarrow> finish_handler i (refuse ok i [] ''unknown or spent ticket'' s) w
            | Some ref \<Rightarrow> goto i (Attaching ref) (s\<lparr>rl_tickets := (rl_tickets s)(mg_Ticket msg := None)\<rparr>) w))"

text \<open>One iteration of the loop of \<open>serveConn\<close>.\<close>

definition serveConn_step :: "int \<Rightarrow> bool \<Rightarrow> bool \<Rightarrow> nat \<Rightarrow> message option \<Rightarrow> world \<Rightarrow> world" where
  "serveConn_step now ok ok2 i recv w =
     (case recv of None \<Rightarrow> finish_handler i (w_relay w) w
      | Some msg \<Rightarrow>
        if mg_Type msg = MsgPublish then publish_step now ok i msg w
        else if mg_Type msg = MsgClaim then claim_step ok ok2 i msg w
        else if mg_Type msg = MsgCircuit then redeem_step ok i msg w
        else if mg_Type msg = MsgBye then finish_handler i (w_relay w) w
        else finish_handler i (refuse ok i (mg_RendezvousID msg) ''unexpected message'' (w_relay w)) w)"

definition issue_step :: "int \<Rightarrow> entropy \<Rightarrow> entropy \<Rightarrow> bool \<Rightarrow> nat \<Rightarrow> world \<Rightarrow> world" where
  "issue_step now rndA rndB ok i w =
     (case h_phase (w_handlers w ! i) of
        PairClaimed rid sealed p \<Rightarrow>
          (case pair_issue now rndA rndB (w_relay w) of
             (Inl e, s) \<Rightarrow> goto i Control (refuse ok i rid e s) w
           | (Inr (c, tA, tB), s) \<Rightarrow> goto i (PairIssued rid sealed p c tA tB) s w)
      | _ \<Rightarrow> w)"

definition notify_step :: "bool \<Rightarrow> bool \<Rightarrow> nat \<Rightarrow> world \<Rightarrow> world" where
  "notify_step pubOk claimOk i w =
     (case h_phase (w_handlers w ! i) of
        PairIssued rid sealed p c tA tB \<Rightarrow>
          (case pair_notify pubOk claimOk rid i sealed (h_addr (w_handlers w ! i)) p c tA tB (w_relay w) of
             (Inl e, s) \<Rightarrow> goto i (PairFailed rid e c) s w
           | (Inr _, s) \<Rightarrow> goto i Control s w)
      | _ \<Rightarrow> w)"

text \<open>The slot of a pairing that failed is released, and the claimer is told.\<close>

definition unpair_step :: "bool \<Rightarrow> nat \<Rightarrow> world \<Rightarrow> world" where
  "unpair_step ok i w =
     (case h_phase (w_handlers w ! i) of
        PairFailed rid e c \<Rightarrow> goto i Control (refuse ok i rid e (releaseOnce c (w_relay w))) w
      | _ \<Rightarrow> w)"

text \<open>The rest of \<open>attachCircuit\<close>, after the ticket was taken.\<close>

definition attach_step :: "bool \<Rightarrow> nat \<Rightarrow> world \<Rightarrow> world" where
  "attach_step ok i w =
     (case h_phase (w_handlers w ! i) of
        Attaching ref \<Rightarrow>
          (let s = send_message ok i (msg_of MsgCircuitOK) (w_relay w)
           in if \<not> ok then finish_handler i s w
              else let c = tr_circuit ref; v = rl_heap s ! c;
                       v1 = v\<lparr>ci_conns := (ci_conns v)[tr_side ref := Some i]\<rparr>
                   in if ci_conns v1 ! (1 - tr_side ref) \<noteq> None \<and> \<not> ci_started v1
                      then goto i (Splicing c) (set_circuit c (v1\<lparr>ci_started := True\<rparr>) s) w
                      else goto i (Waiting c) (set_circuit c v1 s) w)
      | _ \<Rightarrow> w)"

text \<open>The three ways the first half stops waiting.\<close>

definition wait_done_step :: "nat \<Rightarrow> world \<Rightarrow> world" where
  "wait_done_step i w =
     (case h_phase (w_handlers w ! i) of
        Waiting c \<Rightarrow> if ci_done (rl_heap (w_relay w) ! c) then finish_handler i (w_relay w) w else w
      | _ \<Rightarrow> w)"

definition wait_idle_step :: "nat \<Rightarrow> world \<Rightarrow> world" where
  "wait_idle_step i w =
     (case h_phase (w_handlers w ! i) of
        Waiting c \<Rightarrow> finish_handler i (releaseOnce c (w_relay w)) w
      | _ \<Rightarrow> w)"

definition wait_closed_step :: "nat \<Rightarrow> world \<Rightarrow> world" where
  "wait_closed_step i w =
     (case h_phase (w_handlers w ! i) of
        Waiting c \<Rightarrow> if rl_closed (w_relay w) then finish_handler i (w_relay w) w else w
      | _ \<Rightarrow> w)"

text \<open>
  The splice ends: a pump stopped, the lifetime is over, or the server closes. Both ends are closed,
  the slot is released and \<open>done\<close> is closed.
\<close>

definition splice_end_step :: "nat \<Rightarrow> world \<Rightarrow> world" where
  "splice_end_step i w =
     (case h_phase (w_handlers w ! i) of
        Splicing c \<Rightarrow>
          (let s = releaseOnce c (w_relay w)
           in finish_handler i (set_circuit c ((rl_heap s ! c)\<lparr>ci_done := True\<rparr>) s) w)
      | _ \<Rightarrow> w)"

section \<open>Runs\<close>

datatype relay_op =
    OpAccept string
  | OpUpgrade nat bool
  | OpRecv nat int bool bool "message option"
  | OpIssue nat int entropy entropy bool
  | OpNotify nat bool bool
  | OpUnpair nat bool
  | OpAttach nat bool
  | OpWaitDone nat
  | OpWaitIdle nat
  | OpWaitClosed nat
  | OpSpliceEnd nat
  | OpDefer nat
  | OpReap int
  | OpClose

text \<open>A step of a handler that does not exist changes nothing; nor does one the handler is not ready for.\<close>

definition on_handler :: "nat \<Rightarrow> (world \<Rightarrow> world) \<Rightarrow> world \<Rightarrow> world" where
  "on_handler i f w = (if i < length (w_handlers w) then f w else w)"

fun relay_step :: "relay_op \<Rightarrow> world \<Rightarrow> world" where
  "relay_step (OpAccept addr) w = serveHTTP_step addr w"
| "relay_step (OpUpgrade i upgraded) w = on_handler i (upgrade_step upgraded i) w"
| "relay_step (OpRecv i now ok ok2 recv) w =
     on_handler i (\<lambda>w. if h_phase (w_handlers w ! i) = Control then serveConn_step now ok ok2 i recv w else w) w"
| "relay_step (OpIssue i now rndA rndB ok) w = on_handler i (issue_step now rndA rndB ok i) w"
| "relay_step (OpNotify i pubOk claimOk) w = on_handler i (notify_step pubOk claimOk i) w"
| "relay_step (OpUnpair i ok) w = on_handler i (unpair_step ok i) w"
| "relay_step (OpAttach i ok) w = on_handler i (attach_step ok i) w"
| "relay_step (OpWaitDone i) w = on_handler i (wait_done_step i) w"
| "relay_step (OpWaitIdle i) w = on_handler i (wait_idle_step i) w"
| "relay_step (OpWaitClosed i) w = on_handler i (wait_closed_step i) w"
| "relay_step (OpSpliceEnd i) w = on_handler i (splice_end_step i) w"
| "relay_step (OpDefer i) w = on_handler i (defer_step i) w"
| "relay_step (OpReap now) w = w\<lparr>w_relay := reap now (w_relay w)\<rparr>"
| "relay_step OpClose w = w\<lparr>w_relay := relay_Close (w_relay w)\<rparr>"

definition relay_start :: "limits \<Rightarrow> world" where
  "relay_start l = \<lparr>w_relay = relay_New l, w_handlers = []\<rparr>"

definition relay_run :: "relay_op list \<Rightarrow> world \<Rightarrow> world" where
  "relay_run ops w = fold relay_step ops w"

section \<open>The byte pipe\<close>

text \<open>
  \<open>pump\<close> on the outcomes of its reads (the bytes, and whether the read also reported an error) and
  of its writes (complete, or failed after so many bytes); the result is what reached the other
  end. When the reads are exhausted the next one fails by its deadline.
\<close>

fun pump :: "int \<Rightarrow> int \<Rightarrow> (bytes \<times> bool \<times> nat option) list \<Rightarrow> bytes" where
  "pump limit tot [] = []"
| "pump limit tot ((chunk, readErr, write) # rest) =
     (if chunk \<noteq> [] then
        let tot' = tot + int (length chunk)
        in if tot' > limit then []
           else case write of
             Some k \<Rightarrow> take k chunk
           | None \<Rightarrow> chunk @ (if readErr then [] else pump limit tot' rest)
      else if readErr then [] else pump limit tot rest)"

end
