(* ===== verification/RelayRuns.thy ===== *)
theory RelayRuns
  imports RelayProps
begin

text \<open>
  Runs of the relay: invariants of the server and its handlers over every interleaving of their steps.
\<close>

section \<open>Counting\<close>

definition cnt :: "('a \<Rightarrow> bool) \<Rightarrow> 'a list \<Rightarrow> int" where
  "cnt Q xs = int (length (filter Q xs))"

lemma cnt_nonneg [simp]: "0 \<le> cnt Q xs"
  by (simp add: cnt_def)

lemma cnt_append [simp]: "cnt Q (xs @ ys) = cnt Q xs + cnt Q ys"
  by (simp add: cnt_def)

lemma cnt_Nil [simp]: "cnt Q [] = 0"
  and cnt_Cons [simp]: "cnt Q (x # xs) = of_bool (Q x) + cnt Q xs"
  by (simp_all add: cnt_def)

lemma cnt_update: "i < length xs \<Longrightarrow> cnt Q (xs[i := y]) = cnt Q xs - of_bool (Q (xs ! i)) + of_bool (Q y)"
proof -
  assume i: "i < length xs"
  have "cnt Q xs = cnt Q (take i xs @ xs ! i # drop (Suc i) xs)" using i by (simp add: id_take_nth_drop [symmetric])
  moreover have "cnt Q (xs[i := y]) = cnt Q (take i xs @ y # drop (Suc i) xs)" using i by (simp add: upd_conv_take_nth_drop)
  ultimately show ?thesis by simp
qed

lemma cnt_pos: "i < length xs \<Longrightarrow> Q (xs ! i) \<Longrightarrow> 1 \<le> cnt Q xs"
  using cnt_update [of i xs Q "xs ! i"] nth_mem [of i xs] by (auto simp: cnt_def Suc_le_eq filter_empty_conv)

section \<open>What the operations leave alone\<close>

lemma send_message_simps [simp]:
  "rl_limits (send_message ok i m s) = rl_limits s" "rl_pending (send_message ok i m s) = rl_pending s"
  "rl_tickets (send_message ok i m s) = rl_tickets s" "rl_circuits (send_message ok i m s) = rl_circuits s"
  "rl_ipConns (send_message ok i m s) = rl_ipConns s" "rl_publishes (send_message ok i m s) = rl_publishes s"
  "rl_closed (send_message ok i m s) = rl_closed s" "rl_heap (send_message ok i m s) = rl_heap s"
  by (simp_all add: send_message_def)

lemma refuse_simps [simp]:
  "rl_limits (refuse ok i rid e s) = rl_limits s" "rl_pending (refuse ok i rid e s) = rl_pending s"
  "rl_tickets (refuse ok i rid e s) = rl_tickets s" "rl_circuits (refuse ok i rid e s) = rl_circuits s"
  "rl_ipConns (refuse ok i rid e s) = rl_ipConns s" "rl_publishes (refuse ok i rid e s) = rl_publishes s"
  "rl_closed (refuse ok i rid e s) = rl_closed s" "rl_heap (refuse ok i rid e s) = rl_heap s"
  by (simp_all add: refuse_def)

lemma dropPending_simps [simp]:
  "rl_limits (dropPending rid i s) = rl_limits s" "rl_tickets (dropPending rid i s) = rl_tickets s"
  "rl_circuits (dropPending rid i s) = rl_circuits s" "rl_ipConns (dropPending rid i s) = rl_ipConns s"
  "rl_closed (dropPending rid i s) = rl_closed s" "rl_heap (dropPending rid i s) = rl_heap s"
  "rl_out (dropPending rid i s) = rl_out s"
  by (simp_all add: dropPending_def split: option.splits)

lemma releaseIP_simps [simp]:
  "rl_limits (releaseIP ip s) = rl_limits s" "rl_pending (releaseIP ip s) = rl_pending s"
  "rl_tickets (releaseIP ip s) = rl_tickets s" "rl_circuits (releaseIP ip s) = rl_circuits s"
  "rl_heap (releaseIP ip s) = rl_heap s" "rl_out (releaseIP ip s) = rl_out s"
  by (simp_all add: releaseIP_def Let_def)

lemma releaseCircuit_simps [simp]:
  "rl_limits (releaseCircuit s) = rl_limits s" "rl_pending (releaseCircuit s) = rl_pending s"
  "rl_tickets (releaseCircuit s) = rl_tickets s" "rl_ipConns (releaseCircuit s) = rl_ipConns s"
  "rl_heap (releaseCircuit s) = rl_heap s"
  by (simp_all add: releaseCircuit_def)

lemma set_circuit_simps [simp]:
  "rl_limits (set_circuit c v s) = rl_limits s" "rl_pending (set_circuit c v s) = rl_pending s"
  "rl_tickets (set_circuit c v s) = rl_tickets s" "rl_ipConns (set_circuit c v s) = rl_ipConns s"
  "rl_circuits (set_circuit c v s) = rl_circuits s" "rl_heap (set_circuit c v s) = (rl_heap s)[c := v]"
  by (simp_all add: set_circuit_def)

lemma releaseOnce_simps [simp]:
  "rl_limits (releaseOnce c s) = rl_limits s" "rl_pending (releaseOnce c s) = rl_pending s"
  "rl_tickets (releaseOnce c s) = rl_tickets s" "rl_ipConns (releaseOnce c s) = rl_ipConns s"
  by (simp_all add: releaseOnce_def Let_def)

lemma releaseOnce_heap:
  "rl_heap (releaseOnce c s) = (rl_heap s)[c := (rl_heap s ! c)\<lparr>ci_released := True\<rparr>]"
proof (cases "ci_released (rl_heap s ! c)")
  case True
  then have "(rl_heap s ! c)\<lparr>ci_released := True\<rparr> = rl_heap s ! c" by (cases "rl_heap s ! c") simp
  then have "(rl_heap s)[c := (rl_heap s ! c)\<lparr>ci_released := True\<rparr>] = rl_heap s" by (simp only: list_update_id)
  with True show ?thesis by (simp add: releaseOnce_def)
qed (simp add: releaseOnce_def Let_def)

lemma goto_simps [simp]:
  "w_relay (goto i ph s w) = s"
  "w_handlers (goto i ph s w) = (w_handlers w)[i := (w_handlers w ! i)\<lparr>h_phase := ph\<rparr>]"
  by (simp_all add: goto_def set_handler_def)

lemma finish_simps [simp]:
  "w_relay (finish_handler i s w) = s"
  "w_handlers (finish_handler i s w) = (w_handlers w)[i := (w_handlers w ! i)\<lparr>h_phase := Closing (h_published (w_handlers w ! i))\<rparr>]"
  by (simp_all add: finish_handler_def)

section \<open>Limits and accounts\<close>

fun is_claimed :: "phase \<Rightarrow> bool" where
  "is_claimed (PairClaimed _ _ _) = True"
| "is_claimed _ = False"

fun phase_circuit :: "phase \<Rightarrow> nat option" where
  "phase_circuit (PairIssued _ _ _ c _ _) = Some c"
| "phase_circuit (PairFailed _ _ c) = Some c"
| "phase_circuit (Attaching r) = Some (tr_circuit r)"
| "phase_circuit (Waiting c) = Some c"
| "phase_circuit (Splicing c) = Some c"
| "phase_circuit _ = None"

text \<open>The slots in use: circuits not released, and pairings between taking the slot and making the circuit.\<close>

definition slots_ok :: "relay \<Rightarrow> handler list \<Rightarrow> bool" where
  "slots_ok s hs \<longleftrightarrow>
     rl_circuits s = cnt (\<lambda>c. \<not> ci_released c) (rl_heap s) + cnt (\<lambda>h. is_claimed (h_phase h)) hs \<and>
     rl_circuits s \<le> max 0 (MaxCircuits (rl_limits s))"

definition pending_ok :: "relay \<Rightarrow> bool" where
  "pending_ok s \<longleftrightarrow> distinct (map fst (rl_pending s)) \<and> int (length (rl_pending s)) \<le> max 0 (MaxPendingCodes (rl_limits s))"

definition ips_ok :: "relay \<Rightarrow> handler list \<Rightarrow> bool" where
  "ips_ok s hs \<longleftrightarrow>
     (\<forall>ip. ipCount (rl_ipConns s) ip = cnt (\<lambda>h. h_phase h \<noteq> Ended \<and> sourceIP (h_addr h) = ip) hs) \<and>
     (\<forall>ip. cnt (\<lambda>h. h_phase h \<noteq> Ended \<and> sourceIP (h_addr h) = ip) hs \<le> max 0 (MaxConnsPerIP (rl_limits s)))"

definition refs_ok :: "relay \<Rightarrow> handler list \<Rightarrow> bool" where
  "refs_ok s hs \<longleftrightarrow>
     (\<forall>t r. rl_tickets s t = Some r \<longrightarrow> tr_circuit r < length (rl_heap s) \<and> tr_side r < 2) \<and>
     (\<forall>h\<in>set hs. \<forall>c. phase_circuit (h_phase h) = Some c \<longrightarrow> c < length (rl_heap s)) \<and>
     (\<forall>h\<in>set hs. \<forall>r. h_phase h = Attaching r \<longrightarrow> tr_side r < 2) \<and>
     (\<forall>v\<in>set (rl_heap s). length (ci_conns v) = 2)"

definition relay_inv :: "world \<Rightarrow> bool" where
  "relay_inv w \<longleftrightarrow> slots_ok (w_relay w) (w_handlers w) \<and> pending_ok (w_relay w) \<and>
     ips_ok (w_relay w) (w_handlers w) \<and> refs_ok (w_relay w) (w_handlers w)"

text \<open>Two states of the server that agree on everything but codes, rates and what was sent.\<close>

definition same_core :: "relay \<Rightarrow> relay \<Rightarrow> bool" where
  "same_core s t \<longleftrightarrow> rl_limits t = rl_limits s \<and> rl_tickets t = rl_tickets s \<and> rl_circuits t = rl_circuits s \<and>
     rl_ipConns t = rl_ipConns s \<and> rl_heap t = rl_heap s"

lemma pending_ok_drop: "pending_ok s \<Longrightarrow> pending_ok (dropPending rid i s)"
proof -
  assume p: "pending_ok s"
  have "length (AList.delete rid (rl_pending s)) \<le> length (rl_pending s)" by (rule AList.length_delete_le)
  with p show ?thesis by (auto simp: pending_ok_def dropPending_def AList.distinct_delete split: option.splits)
qed

lemma pending_ok_IP [simp]: "pending_ok (releaseIP ip s) = pending_ok s"
  by (simp add: pending_ok_def)

lemma set_update_subset: "h \<in> set (hs[i := x]) \<Longrightarrow> h = x \<or> h \<in> set hs"
  using set_update_subset_insert [of hs i x] by auto

text \<open>
  A handler that holds no slot moves on, or returns, and the server's core is unchanged.
\<close>

lemma goto_inv:
  assumes inv: "relay_inv w" and i: "i < length (w_handlers w)" and ph: "h_phase (w_handlers w ! i) \<noteq> Ended" "ph \<noteq> Ended"
    and slots: "slots_ok s ((w_handlers w)[i := (w_handlers w ! i)\<lparr>h_phase := ph\<rparr>])"
    and pend: "pending_ok s" and ips: "rl_ipConns s = rl_ipConns (w_relay w)" "rl_limits s = rl_limits (w_relay w)"
    and refs: "refs_ok s ((w_handlers w)[i := (w_handlers w ! i)\<lparr>h_phase := ph\<rparr>])"
  shows "relay_inv (goto i ph s w)"
  using assms unfolding relay_inv_def
  by (auto simp: ips_ok_def cnt_update [OF i])

text \<open>The last deferred call gives the handler's slot back.\<close>

lemma end_inv:
  assumes inv: "relay_inv w" and i: "i < length (w_handlers w)" and ph: "h_phase (w_handlers w ! i) = Closing []"
  shows "relay_inv (goto i Ended (releaseIP (sourceIP (h_addr (w_handlers w ! i))) (w_relay w)) w)"
proof -
  let ?h = "w_handlers w ! i" and ?hs = "(w_handlers w)[i := (w_handlers w ! i)\<lparr>h_phase := Ended\<rparr>]"
  let ?s = "releaseIP (sourceIP (h_addr ?h)) (w_relay w)"
  have old: "ipCount (rl_ipConns (w_relay w)) ip = cnt (\<lambda>h. h_phase h \<noteq> Ended \<and> sourceIP (h_addr h) = ip) (w_handlers w)"
    "cnt (\<lambda>h. h_phase h \<noteq> Ended \<and> sourceIP (h_addr h) = ip) (w_handlers w) \<le> max 0 (MaxConnsPerIP (rl_limits (w_relay w)))" for ip
    using inv by (auto simp: relay_inv_def ips_ok_def)
  have new: "ipCount (rl_ipConns ?s) ip = ipCount (rl_ipConns (w_relay w)) ip - of_bool (ip = sourceIP (h_addr ?h))" for ip
  proof -
    have "1 \<le> ipCount (rl_ipConns (w_relay w)) (sourceIP (h_addr ?h))" unfolding old(1) using i ph by (intro cnt_pos) auto
    then show ?thesis by (auto simp: releaseIP_def Let_def ipCount_def)
  qed
  have "ips_ok ?s ?hs"
    unfolding ips_ok_def
  proof (intro allI conjI)
    fix ip
    show "ipCount (rl_ipConns ?s) ip = cnt (\<lambda>h. h_phase h \<noteq> Ended \<and> sourceIP (h_addr h) = ip) ?hs"
      using new [of ip] old(1) [of ip] ph by (auto simp: cnt_update [OF i])
    show "cnt (\<lambda>h. h_phase h \<noteq> Ended \<and> sourceIP (h_addr h) = ip) ?hs \<le> max 0 (MaxConnsPerIP (rl_limits ?s))"
      using old(2) [of ip] by (auto simp: cnt_update [OF i])
  qed
  moreover have "slots_ok ?s ?hs" "refs_ok ?s ?hs" "pending_ok ?s"
    using inv i ph by (auto simp: relay_inv_def slots_ok_def refs_ok_def cnt_update dest!: set_update_subset)
  ultimately show ?thesis by (simp add: relay_inv_def)
qed

lemma slots_move:
  "slots_ok t hs \<Longrightarrow> i < length hs \<Longrightarrow> is_claimed (h_phase (hs ! i)) = is_claimed ph \<Longrightarrow>
   rl_circuits s = rl_circuits t \<Longrightarrow> rl_heap s = rl_heap t \<Longrightarrow> rl_limits s = rl_limits t \<Longrightarrow>
   slots_ok s (hs[i := (hs ! i)\<lparr>h_phase := ph\<rparr>])"
  by (auto simp: slots_ok_def cnt_update)

lemma refs_move:
  "refs_ok t hs \<Longrightarrow> i < length hs \<Longrightarrow> (\<And>c. phase_circuit ph = Some c \<Longrightarrow> c < length (rl_heap s)) \<Longrightarrow>
   (\<And>r. ph = Attaching r \<Longrightarrow> tr_side r < 2) \<Longrightarrow>
   (\<And>k r. rl_tickets s k = Some r \<Longrightarrow> rl_tickets t k = Some r) \<Longrightarrow> rl_heap s = rl_heap t \<Longrightarrow>
   refs_ok s (hs[i := (hs ! i)\<lparr>h_phase := ph\<rparr>])"
  unfolding refs_ok_def by (auto dest!: set_update_subset) blast+

lemma goto_core:
  assumes "relay_inv w" "i < length (w_handlers w)" "h_phase (w_handlers w ! i) \<noteq> Ended" "ph \<noteq> Ended"
    and "\<not> is_claimed (h_phase (w_handlers w ! i))" "\<not> is_claimed ph" "same_core (w_relay w) s" "pending_ok s"
    and "phase_circuit ph = None"
  shows "relay_inv (goto i ph s w)"
proof (rule goto_inv [OF assms(1-4)])
  have inv: "slots_ok (w_relay w) (w_handlers w)" "refs_ok (w_relay w) (w_handlers w)" using assms(1) by (auto simp: relay_inv_def)
  show "slots_ok s ((w_handlers w)[i := (w_handlers w ! i)\<lparr>h_phase := ph\<rparr>])"
    using assms by (intro slots_move [OF inv(1)]) (auto simp: same_core_def)
  show "refs_ok s ((w_handlers w)[i := (w_handlers w ! i)\<lparr>h_phase := ph\<rparr>])"
    using assms by (intro refs_move [OF inv(2)]) (auto simp: same_core_def)
qed (use assms in \<open>auto simp: same_core_def\<close>)

lemma finish_core:
  assumes "relay_inv w" "i < length (w_handlers w)" "h_phase (w_handlers w ! i) \<noteq> Ended"
    and "\<not> is_claimed (h_phase (w_handlers w ! i))" "same_core (w_relay w) s" "pending_ok s"
  shows "relay_inv (finish_handler i s w)"
  unfolding finish_handler_def by (rule goto_core) (use assms in simp_all)

lemma core_sends [simp]:
  "same_core s (send_message ok i m t) = same_core s t" "same_core s (refuse ok i rid e t) = same_core s t"
  "pending_ok (send_message ok i m t) = pending_ok t" "pending_ok (refuse ok i rid e t) = pending_ok t"
  "same_core s (t\<lparr>rl_publishes := r\<rparr>) = same_core s t" "pending_ok (t\<lparr>rl_publishes := r\<rparr>) = pending_ok t"
  "same_core s s"
  by (simp_all add: same_core_def pending_ok_def)

lemma checkRID_core:
  "checkRID ok i msg s = (r, t) \<Longrightarrow> same_core s t \<and> pending_ok t = pending_ok s \<and> (r \<noteq> None \<longrightarrow> t = s \<and> r = Some (mg_RendezvousID msg))"
  by (auto simp: checkRID_def split: sum.splits if_splits)

lemma length_alist_update: "length (AList.update k v al) \<le> length al + 1"
  by (induction al) auto

lemma addPending_core:
  assumes "addPending now rid i sealed obs s = (ok, t)" and "pending_ok s"
  shows "same_core s t \<and> pending_ok t"
proof (cases "int (length (rl_pending s)) \<ge> MaxPendingCodes (rl_limits s)")
  case True
  then show ?thesis using assms by (simp add: addPending_def)
next
  case False
  let ?p = "\<lparr>pc_conn = i, pc_sealed = sealed, pc_observed = obs, pc_created = now\<rparr>"
  have "int (length (AList.update rid ?p (rl_pending s))) \<le> MaxPendingCodes (rl_limits s)"
    using False length_alist_update [of rid ?p "rl_pending s"] by linarith
  then show ?thesis using assms False
    by (auto simp: addPending_def same_core_def pending_ok_def AList.distinct_update)
qed

lemma relay_inv_publish_handler:
  assumes "relay_inv w" "i < length (w_handlers w)" "same_core (w_relay w) s" "pending_ok s"
  shows "relay_inv (set_handler i ((w_handlers w ! i)\<lparr>h_published := p\<rparr>) (w\<lparr>w_relay := s\<rparr>))"
proof -
  let ?hs = "(w_handlers w)[i := (w_handlers w ! i)\<lparr>h_published := p\<rparr>]"
  have "cnt (\<lambda>h. is_claimed (h_phase h)) ?hs = cnt (\<lambda>h. is_claimed (h_phase h)) (w_handlers w)"
    "cnt (\<lambda>h. h_phase h \<noteq> Ended \<and> sourceIP (h_addr h) = ip) ?hs =
     cnt (\<lambda>h. h_phase h \<noteq> Ended \<and> sourceIP (h_addr h) = ip) (w_handlers w)" for ip
    using assms(2) by (simp_all add: cnt_update)
  moreover have "h_phase h \<in> h_phase ` set (w_handlers w)" if "h \<in> set ?hs" for h
    using set_update_subset [OF that] assms(2) by auto
  ultimately show ?thesis using assms
    unfolding relay_inv_def slots_ok_def ips_ok_def refs_ok_def same_core_def set_handler_def
    by (auto simp: image_iff) metis+
qed

lemma publish_inv:
  assumes "relay_inv w" "i < length (w_handlers w)" "h_phase (w_handlers w ! i) = Control"
  shows "relay_inv (publish_step now ok i msg w)"
proof -
  have pend: "pending_ok (w_relay w)" using assms(1) by (simp add: relay_inv_def)
  obtain rid s where ck: "checkRID ok i msg (w_relay w) = (rid, s)" by fastforce
  note core = checkRID_core [OF ck]
  have fin: "relay_inv (finish_handler i t w)" if "same_core (w_relay w) t" "pending_ok t" for t
    using finish_core [OF assms(1,2) _ _ that] assms(3) by simp
  show ?thesis
  proof (cases rid)
    case None
    then show ?thesis using ck core fin pend by (simp add: publish_step_def)
  next
    case (Some r)
    then have s: "s = w_relay w" using core by simp
    obtain al rt where al: "allow now (sourceIP (h_addr (w_handlers w ! i))) (PublishesPerIPPerMin (rl_limits s)) minute (rl_publishes s) = (al, rt)"
      by fastforce
    obtain ad t where ad: "addPending now r i (mg_Candidates msg) (h_addr (w_handlers w ! i)) (s\<lparr>rl_publishes := rt\<rparr>) = (ad, t)"
      by fastforce
    have t: "same_core (w_relay w) t" "pending_ok t"
      using addPending_core [OF ad] pend s by (auto simp: same_core_def)
    define w1 where "w1 = set_handler i ((w_handlers w ! i)\<lparr>h_published := h_published (w_handlers w ! i) @ [r]\<rparr>)
      (w\<lparr>w_relay := send_message ok i ((msg_of MsgPublished)\<lparr>mg_RendezvousID := r, mg_Observed := h_addr (w_handlers w ! i)\<rparr>) t\<rparr>)"
    have w1: "relay_inv w1" unfolding w1_def by (rule relay_inv_publish_handler) (use assms t in simp_all)
    moreover have "relay_inv (finish_handler i (w_relay w1) w1)"
      using w1 assms(2,3) by (intro finish_core) (auto simp: w1_def set_handler_def relay_inv_def)
    moreover have "w_relay w1 = send_message ok i ((msg_of MsgPublished)\<lparr>mg_RendezvousID := r, mg_Observed := h_addr (w_handlers w ! i)\<rparr>) t"
      by (simp add: w1_def set_handler_def)
    ultimately show ?thesis
      using ck Some al ad t fin pend s
      by (auto simp: publish_step_def Let_def w1_def split: bool.splits)
  qed
qed

lemma releaseCircuit_count: "0 < rl_circuits s \<Longrightarrow> rl_circuits (releaseCircuit s) = rl_circuits s - 1"
  by (simp add: releaseCircuit_def)

lemma claim_inv:
  assumes "relay_inv w" "i < length (w_handlers w)" "h_phase (w_handlers w ! i) = Control"
  shows "relay_inv (claim_step ok ok2 i msg w)"
proof -
  have inv: "slots_ok (w_relay w) (w_handlers w)" "pending_ok (w_relay w)" "refs_ok (w_relay w) (w_handlers w)"
    using assms(1) by (simp_all add: relay_inv_def)
  obtain rid s where ck: "checkRID ok i msg (w_relay w) = (rid, s)" by fastforce
  note core = checkRID_core [OF ck]
  have fin: "relay_inv (finish_handler i t w)" if "same_core (w_relay w) t" "pending_ok t" for t
    using finish_core [OF assms(1,2) _ _ that] assms(3) by simp
  have ret: "relay_inv (goto i Control t w)" if "same_core (w_relay w) t" "pending_ok t" for t
    using goto_core [OF assms(1,2) _ _ _ _ that] assms(3) by simp
  show ?thesis
  proof (cases "rid = None \<or> \<not> ok")
    case True
    then show ?thesis using ck core fin inv(2) by (auto simp: claim_step_def Let_def)
  next
    case False
    then obtain r where r: "rid = Some r" "ok" by auto
    then have s: "s = w_relay w" using core by simp
    let ?s1 = "send_message ok i ((msg_of MsgPublished)\<lparr>mg_RendezvousID := r, mg_Observed := h_addr (w_handlers w ! i)\<rparr>) s"
    obtain res s2 where pc: "pair_claim r i ?s1 = (res, s2)" by fastforce
    show ?thesis
    proof (cases res)
      case (Inl e)
      then have "s2 = ?s1" using pc by (auto simp: pair_claim_def split: option.splits if_splits)
      then show ?thesis using ck r pc Inl ret inv(2) s by (simp add: claim_step_def Let_def)
    next
      case (Inr p)
      then have s2: "rl_circuits (w_relay w) < MaxCircuits (rl_limits (w_relay w))"
        "s2 = ?s1\<lparr>rl_pending := AList.delete r (rl_pending (w_relay w)), rl_circuits := rl_circuits (w_relay w) + 1\<rparr>"
        using pc s by (auto simp: pair_claim_def split: option.splits if_splits)
      have "relay_inv (goto i (PairClaimed r (mg_Candidates msg) p) s2 w)"
      proof (rule goto_inv [OF assms(1,2)])
        show "slots_ok s2 ((w_handlers w)[i := (w_handlers w ! i)\<lparr>h_phase := PairClaimed r (mg_Candidates msg) p\<rparr>])"
          using inv(1) s2 s assms(2,3) by (auto simp: slots_ok_def cnt_update)
        show "pending_ok s2"
          using inv(2) s2(2) s AList.length_delete_le [of r "rl_pending (w_relay w)"]
          by (auto simp: pending_ok_def AList.distinct_delete)
        show "refs_ok s2 ((w_handlers w)[i := (w_handlers w ! i)\<lparr>h_phase := PairClaimed r (mg_Candidates msg) p\<rparr>])"
          using s2(2) s assms(2) by (intro refs_move [OF inv(3)]) auto
      qed (use s2(2) s assms(3) in simp_all)
      then show ?thesis using ck r pc Inr by (simp add: claim_step_def Let_def)
    qed
  qed
qed

lemma redeem_inv:
  assumes "relay_inv w" "i < length (w_handlers w)" "h_phase (w_handlers w ! i) = Control"
  shows "relay_inv (redeem_step ok i msg w)"
proof -
  have inv: "slots_ok (w_relay w) (w_handlers w)" "pending_ok (w_relay w)" "refs_ok (w_relay w) (w_handlers w)"
    using assms(1) by (simp_all add: relay_inv_def)
  have fin: "relay_inv (finish_handler i t w)" if "same_core (w_relay w) t" "pending_ok t" for t
    using finish_core [OF assms(1,2) _ _ that] assms(3) by simp
  have att: "relay_inv (goto i (Attaching ref) ((w_relay w)\<lparr>rl_tickets := (rl_tickets (w_relay w))(t := None)\<rparr>) w)"
    if "rl_tickets (w_relay w) t = Some ref" for t ref
  proof (rule goto_inv [OF assms(1,2)])
    show "slots_ok ((w_relay w)\<lparr>rl_tickets := (rl_tickets (w_relay w))(t := None)\<rparr>)
        ((w_handlers w)[i := (w_handlers w ! i)\<lparr>h_phase := Attaching ref\<rparr>])"
      using assms by (intro slots_move [OF inv(1)]) auto
    show "refs_ok ((w_relay w)\<lparr>rl_tickets := (rl_tickets (w_relay w))(t := None)\<rparr>)
        ((w_handlers w)[i := (w_handlers w ! i)\<lparr>h_phase := Attaching ref\<rparr>])"
      using assms(2) inv(3) that by (intro refs_move [OF inv(3)]) (auto simp: refs_ok_def split: if_splits)
  qed (use assms(3) inv(2) in \<open>simp_all add: pending_ok_def\<close>)
  show ?thesis using fin att inv(2) by (auto simp: redeem_step_def Let_def split: sum.splits option.splits)
qed

lemma serveConn_inv:
  assumes "relay_inv w" "i < length (w_handlers w)" "h_phase (w_handlers w ! i) = Control"
  shows "relay_inv (serveConn_step now ok ok2 i recv w)"
proof -
  have "pending_ok (w_relay w)" using assms(1) by (simp add: relay_inv_def)
  then have fin: "relay_inv (finish_handler i (w_relay w) w)" "relay_inv (finish_handler i (refuse ok i rid e (w_relay w)) w)" for rid e
    using finish_core [OF assms(1,2)] assms(3) by simp_all
  show ?thesis
    using fin publish_inv [OF assms] claim_inv [OF assms] redeem_inv [OF assms]
    by (auto simp: serveConn_step_def split: option.splits)
qed

text \<open>Changing one circuit of the heap.\<close>

lemma slots_set_circuit:
  "slots_ok s hs \<Longrightarrow> c < length (rl_heap s) \<Longrightarrow> ci_released v = ci_released (rl_heap s ! c) \<Longrightarrow>
   slots_ok (set_circuit c v s) hs"
  by (simp add: slots_ok_def cnt_update)

lemma refs_set_circuit:
  "refs_ok s hs \<Longrightarrow> length (ci_conns v) = 2 \<Longrightarrow> refs_ok (set_circuit c v s) hs"
  by (auto simp: refs_ok_def dest!: set_update_subset)

lemma slots_releaseOnce: "slots_ok s hs \<Longrightarrow> c < length (rl_heap s) \<Longrightarrow> slots_ok (releaseOnce c s) hs"
proof (cases "ci_released (rl_heap s ! c)")
  case True
  then show "slots_ok s hs \<Longrightarrow> slots_ok (releaseOnce c s) hs" by (simp add: releaseOnce_def Let_def)
next
  case False
  assume a: "slots_ok s hs" "c < length (rl_heap s)"
  have pos: "1 \<le> cnt (\<lambda>c. \<not> ci_released c) (rl_heap s)" using a(2) False by (intro cnt_pos) auto
  have "0 \<le> cnt (\<lambda>h. is_claimed (h_phase h)) hs" by simp
  then have "0 < rl_circuits s" using a(1) pos unfolding slots_ok_def by linarith
  then show ?thesis using a False by (auto simp: slots_ok_def releaseOnce_def Let_def releaseCircuit_def cnt_update)
qed

lemma refs_releaseOnce: "refs_ok s hs \<Longrightarrow> c < length (rl_heap s) \<Longrightarrow> refs_ok (releaseOnce c s) hs"
  unfolding refs_ok_def releaseOnce_heap by (auto dest!: set_update_subset)

lemma pending_releaseOnce [simp]:
  "pending_ok (releaseOnce c s) = pending_ok s" "pending_ok (set_circuit c v s) = pending_ok s"
  "pending_ok (releaseCircuit s) = pending_ok s"
  by (simp_all add: pending_ok_def)

lemma issue_inv:
  assumes "relay_inv w" "i < length (w_handlers w)"
  shows "relay_inv (issue_step now rndA rndB ok i w)"
proof (cases "h_phase (w_handlers w ! i)")
  case (PairClaimed rid sealed p)
  have inv: "slots_ok (w_relay w) (w_handlers w)" "pending_ok (w_relay w)" "refs_ok (w_relay w) (w_handlers w)"
    using assms(1) by (simp_all add: relay_inv_def)
  have one: "1 \<le> cnt (\<lambda>h. is_claimed (h_phase h)) (w_handlers w)" using assms(2) PairClaimed by (intro cnt_pos) auto
  have "0 \<le> cnt (\<lambda>c. \<not> ci_released c) (rl_heap (w_relay w))" by simp
  then have pos: "0 < rl_circuits (w_relay w)" using inv(1) one unfolding slots_ok_def by linarith
  have fail: "relay_inv (goto i Control (refuse ok i rid e (releaseCircuit (w_relay w))) w)" for e
  proof (rule goto_inv [OF assms])
    show "slots_ok (refuse ok i rid e (releaseCircuit (w_relay w))) ((w_handlers w)[i := (w_handlers w ! i)\<lparr>h_phase := Control\<rparr>])"
      using inv(1) pos assms(2) PairClaimed by (auto simp: slots_ok_def cnt_update releaseCircuit_def)
    show "refs_ok (refuse ok i rid e (releaseCircuit (w_relay w))) ((w_handlers w)[i := (w_handlers w ! i)\<lparr>h_phase := Control\<rparr>])"
      using assms(2) by (intro refs_move [OF inv(3)]) auto
  qed (use PairClaimed inv(2) in simp_all)
  show ?thesis
  proof (cases "\<exists>a b. rndA = Some a \<and> rndB = Some b")
    case False
    then show ?thesis using fail PairClaimed
      by (cases rndA; cases rndB) (auto simp: issue_step_def pair_issue_def NewTicket_def RandomBytes_def)
  next
    case True
    then obtain a b where ab: "rndA = Some a" "rndB = Some b" by blast
    let ?c = "length (rl_heap (w_relay w))" and ?A = "encode (fill a 32)" and ?B = "encode (fill b 32)"
    let ?v = "\<lparr>ci_conns = [None, None], ci_started = False, ci_created = now, ci_done = False, ci_released = False\<rparr>"
    let ?s = "(w_relay w)\<lparr>rl_heap := rl_heap (w_relay w) @ [?v], rl_tickets := (rl_tickets (w_relay w))
      (?A \<mapsto> \<lparr>tr_circuit = ?c, tr_side = 0\<rparr>, ?B \<mapsto> \<lparr>tr_circuit = ?c, tr_side = 1\<rparr>)\<rparr>"
    have "relay_inv (goto i (PairIssued rid sealed p ?c ?A ?B) ?s w)"
    proof (rule goto_inv [OF assms])
      show "slots_ok ?s ((w_handlers w)[i := (w_handlers w ! i)\<lparr>h_phase := PairIssued rid sealed p ?c ?A ?B\<rparr>])"
        using inv(1) assms(2) PairClaimed by (auto simp: slots_ok_def cnt_update)
      show "refs_ok ?s ((w_handlers w)[i := (w_handlers w ! i)\<lparr>h_phase := PairIssued rid sealed p ?c ?A ?B\<rparr>])"
        using inv(3) unfolding refs_ok_def
        by (auto dest!: set_update_subset split: if_splits simp: less_Suc_eq)
    qed (use PairClaimed inv(2) in \<open>simp_all add: pending_ok_def\<close>)
    then show ?thesis using PairClaimed ab
      by (simp add: issue_step_def pair_issue_def NewTicket_def RandomBytes_def Let_def)
  qed
qed (use assms in \<open>simp_all add: issue_step_def\<close>)

lemma dropCircuit_inv:
  "slots_ok (dropCircuit_tickets ts s) hs = slots_ok s hs" "refs_ok s hs \<Longrightarrow> refs_ok (dropCircuit_tickets ts s) hs"
  "pending_ok (dropCircuit_tickets ts s) = pending_ok s" "rl_ipConns (dropCircuit_tickets ts s) = rl_ipConns s"
  "rl_limits (dropCircuit_tickets ts s) = rl_limits s" "rl_heap (dropCircuit_tickets ts s) = rl_heap s"
  by (simp_all add: dropCircuit_tickets_def slots_ok_def refs_ok_def pending_ok_def)

lemma pair_notify_state:
  "pair_notify pubOk claimOk rid i sealed addr p c tA tB s = (res, s') \<Longrightarrow>
   \<exists>t. same_core s t \<and> pending_ok t = pending_ok s \<and> (s' = t \<or> s' = dropCircuit_tickets [tA, tB] t)"
  unfolding pair_notify_def Let_def
  by (cases "\<not> pubOk \<or> \<not> claimOk") (auto intro!: exI [of _ "send_message _ _ _ (send_message _ _ _ s)"])

lemma core_ok:
  "same_core s t \<Longrightarrow> slots_ok t hs = slots_ok s hs" "same_core s t \<Longrightarrow> refs_ok t hs = refs_ok s hs"
  by (simp_all add: same_core_def slots_ok_def refs_ok_def)

lemma relay_inv_circuit:
  "relay_inv w \<Longrightarrow> i < length (w_handlers w) \<Longrightarrow> phase_circuit (h_phase (w_handlers w ! i)) = Some c \<Longrightarrow>
   c < length (rl_heap (w_relay w))"
  unfolding relay_inv_def refs_ok_def by (meson nth_mem)

lemma notify_inv:
  assumes "relay_inv w" "i < length (w_handlers w)"
  shows "relay_inv (notify_step pubOk claimOk i w)"
proof (cases "h_phase (w_handlers w ! i)")
  case (PairIssued rid sealed p c tA tB)
  have inv: "slots_ok (w_relay w) (w_handlers w)" "pending_ok (w_relay w)" "refs_ok (w_relay w) (w_handlers w)"
    using assms(1) by (simp_all add: relay_inv_def)
  have c: "c < length (rl_heap (w_relay w))" using relay_inv_circuit [OF assms] PairIssued by simp
  obtain res s where pn: "pair_notify pubOk claimOk rid i sealed (h_addr (w_handlers w ! i)) p c tA tB (w_relay w) = (res, s)"
    by fastforce
  obtain t where t: "same_core (w_relay w) t" "pending_ok t" "s = t \<or> s = dropCircuit_tickets [tA, tB] t"
    using pair_notify_state [OF pn] inv(2) by auto
  have ok: "slots_ok t (w_handlers w)" "refs_ok t (w_handlers w)" "rl_ipConns t = rl_ipConns (w_relay w)"
    "rl_limits t = rl_limits (w_relay w)" "rl_heap t = rl_heap (w_relay w)"
    using core_ok [OF t(1)] inv(1,3) t(1) by (simp_all add: same_core_def)
  have s: "slots_ok s (w_handlers w)" "refs_ok s (w_handlers w)" "pending_ok s" "rl_ipConns s = rl_ipConns (w_relay w)"
    "rl_limits s = rl_limits (w_relay w)" "rl_heap s = rl_heap (w_relay w)"
    using t(2,3) ok by (auto simp: dropCircuit_inv)
  have move: "relay_inv (goto i ph s w)" if "ph = Control \<or> (\<exists>e. ph = PairFailed rid e c)" for ph
  proof (rule goto_inv [OF assms])
    show "slots_ok s ((w_handlers w)[i := (w_handlers w ! i)\<lparr>h_phase := ph\<rparr>])"
      using PairIssued assms(2) that by (intro slots_move [OF s(1)]) auto
    show "refs_ok s ((w_handlers w)[i := (w_handlers w ! i)\<lparr>h_phase := ph\<rparr>])"
      using assms(2) that c s(6) by (intro refs_move [OF s(2)]) auto
  qed (use PairIssued s that in auto)
  show ?thesis using PairIssued pn by (auto simp: notify_step_def split: sum.splits intro!: move)
qed (use assms in \<open>simp_all add: notify_step_def\<close>)

lemma unpair_inv:
  assumes "relay_inv w" "i < length (w_handlers w)"
  shows "relay_inv (unpair_step ok i w)"
proof (cases "h_phase (w_handlers w ! i)")
  case (PairFailed rid e c)
  have inv: "slots_ok (w_relay w) (w_handlers w)" "pending_ok (w_relay w)" "refs_ok (w_relay w) (w_handlers w)"
    using assms(1) by (simp_all add: relay_inv_def)
  let ?s = "releaseOnce c (w_relay w)"
  have c: "c < length (rl_heap (w_relay w))" using relay_inv_circuit [OF assms] PairFailed by simp
  have "relay_inv (goto i Control (refuse ok i rid e ?s) w)"
  proof (rule goto_inv [OF assms])
    show "slots_ok (refuse ok i rid e ?s) ((w_handlers w)[i := (w_handlers w ! i)\<lparr>h_phase := Control\<rparr>])"
      using PairFailed assms(2) by (intro slots_move [OF slots_releaseOnce [OF inv(1) c]]) auto
    show "refs_ok (refuse ok i rid e ?s) ((w_handlers w)[i := (w_handlers w ! i)\<lparr>h_phase := Control\<rparr>])"
      using assms(2) by (intro refs_move [OF refs_releaseOnce [OF inv(3) c]]) auto
  qed (use PairFailed inv(2) in simp_all)
  then show ?thesis using PairFailed by (simp add: unpair_step_def)
qed (use assms in \<open>simp_all add: unpair_step_def\<close>)

lemma finish_circuit:
  assumes "relay_inv w" "i < length (w_handlers w)" "h_phase (w_handlers w ! i) = Waiting c \<or> h_phase (w_handlers w ! i) = Splicing c"
    and "slots_ok s (w_handlers w)" "refs_ok s (w_handlers w)" "pending_ok s"
    and "rl_ipConns s = rl_ipConns (w_relay w)" "rl_limits s = rl_limits (w_relay w)"
  shows "relay_inv (finish_handler i s w)"
  unfolding finish_handler_def
proof (rule goto_inv [OF assms(1,2)])
  let ?ph = "Closing (h_published (w_handlers w ! i))"
  show "slots_ok s ((w_handlers w)[i := (w_handlers w ! i)\<lparr>h_phase := ?ph\<rparr>])"
    using assms(2,3) by (intro slots_move [OF assms(4)]) auto
  show "refs_ok s ((w_handlers w)[i := (w_handlers w ! i)\<lparr>h_phase := ?ph\<rparr>])"
    using assms(2) by (intro refs_move [OF assms(5)]) auto
qed (use assms in auto)

lemma attach_inv:
  assumes "relay_inv w" "i < length (w_handlers w)"
  shows "relay_inv (attach_step ok i w)"
proof (cases "h_phase (w_handlers w ! i)")
  case (Attaching ref)
  have inv: "slots_ok (w_relay w) (w_handlers w)" "pending_ok (w_relay w)" "refs_ok (w_relay w) (w_handlers w)"
    using assms(1) by (simp_all add: relay_inv_def)
  let ?c = "tr_circuit ref" and ?s = "\<lambda>ok. send_message ok i (msg_of MsgCircuitOK) (w_relay w)"
  have c: "?c < length (rl_heap (w_relay w))" using relay_inv_circuit [OF assms] Attaching by simp
  then have two: "length (ci_conns (rl_heap (w_relay w) ! ?c)) = 2" using inv(3) by (simp add: refs_ok_def)
  have s: "slots_ok (?s b) (w_handlers w)" "refs_ok (?s b) (w_handlers w)" for b
    using core_ok [of "w_relay w" "?s b"] inv by simp_all
  have move: "relay_inv (goto i ph (set_circuit ?c v (?s b)) w)"
    if "ph = Waiting ?c \<or> ph = Splicing ?c" "ci_released v = ci_released (rl_heap (w_relay w) ! ?c)" "length (ci_conns v) = 2" for ph v b
  proof (rule goto_inv [OF assms])
    have v: "slots_ok (set_circuit ?c v (?s b)) (w_handlers w)" "refs_ok (set_circuit ?c v (?s b)) (w_handlers w)"
      using slots_set_circuit [OF s(1)] refs_set_circuit [OF s(2)] c that by simp_all
    show "slots_ok (set_circuit ?c v (?s b)) ((w_handlers w)[i := (w_handlers w ! i)\<lparr>h_phase := ph\<rparr>])"
      using assms(2) Attaching that(1) by (intro slots_move [OF v(1)]) auto
    show "refs_ok (set_circuit ?c v (?s b)) ((w_handlers w)[i := (w_handlers w ! i)\<lparr>h_phase := ph\<rparr>])"
      using assms(2) that(1) c by (intro refs_move [OF v(2)]) auto
  qed (use Attaching that(1) inv(2) in auto)
  have "relay_inv (finish_handler i (?s b) w)" for b
    using inv(2) Attaching by (intro finish_core [OF assms]) auto
  then show ?thesis using Attaching two by (auto simp: attach_step_def Let_def intro!: move)
qed (use assms in \<open>simp_all add: attach_step_def\<close>)

lemma wait_inv:
  assumes "relay_inv w" "i < length (w_handlers w)"
  shows "relay_inv (wait_done_step i w)" "relay_inv (wait_idle_step i w)" "relay_inv (wait_closed_step i w)"
    "relay_inv (splice_end_step i w)"
proof -
  have inv: "slots_ok (w_relay w) (w_handlers w)" "pending_ok (w_relay w)" "refs_ok (w_relay w) (w_handlers w)"
    using assms(1) by (simp_all add: relay_inv_def)
  have rel: "slots_ok (releaseOnce c (w_relay w)) (w_handlers w)" "refs_ok (releaseOnce c (w_relay w)) (w_handlers w)"
    "c < length (rl_heap (w_relay w))"
    if "phase_circuit (h_phase (w_handlers w ! i)) = Some c" for c
    using relay_inv_circuit [OF assms that] slots_releaseOnce [OF inv(1)] refs_releaseOnce [OF inv(3)] by auto
  show "relay_inv (wait_done_step i w)" "relay_inv (wait_closed_step i w)" "relay_inv (wait_idle_step i w)"
    unfolding wait_done_step_def wait_closed_step_def wait_idle_step_def
    using assms inv rel by (auto split: phase.splits intro!: finish_circuit)
  show "relay_inv (splice_end_step i w)"
  proof (cases "h_phase (w_handlers w ! i)")
    case (Splicing c)
    let ?s = "releaseOnce c (w_relay w)"
    let ?v = "(rl_heap ?s ! c)\<lparr>ci_done := True\<rparr>"
    have r: "slots_ok ?s (w_handlers w)" "refs_ok ?s (w_handlers w)" "c < length (rl_heap ?s)"
      using rel [of c] Splicing by (simp_all add: releaseOnce_heap)
    then have "length (ci_conns ?v) = 2" by (simp add: refs_ok_def)
    then have "slots_ok (set_circuit c ?v ?s) (w_handlers w)" "refs_ok (set_circuit c ?v ?s) (w_handlers w)"
      using slots_set_circuit [OF r(1,3)] refs_set_circuit [OF r(2)] by simp_all
    then show ?thesis using Splicing assms inv(2)
      by (auto simp: splice_end_step_def Let_def intro!: finish_circuit)
  qed (use assms in \<open>simp_all add: splice_end_step_def\<close>)
qed

lemma reap_inv: "relay_inv w \<Longrightarrow> relay_inv (w\<lparr>w_relay := reap now (w_relay w)\<rparr>)"
proof -
  assume inv: "relay_inv w"
  let ?keep = "filter (\<lambda>(_, p). \<not> now - pc_created p > CodeTTL (rl_limits (w_relay w))) (rl_pending (w_relay w))"
  have "length ?keep \<le> length (rl_pending (w_relay w))" by (rule length_filter_le)
  then have "int (length ?keep) \<le> max 0 (MaxPendingCodes (rl_limits (w_relay w)))"
    using inv unfolding relay_inv_def pending_ok_def by linarith
  moreover have "distinct (map fst (rl_pending (w_relay w))) \<Longrightarrow> distinct (map fst ?keep)" by (rule distinct_map_filter)
  ultimately show ?thesis using inv
    by (auto simp: relay_inv_def reap_def Let_def slots_ok_def pending_ok_def ips_ok_def refs_ok_def
        split: option.splits if_splits)
qed

lemma accept_inv: "relay_inv w \<Longrightarrow> relay_inv (serveHTTP_step addr w)"
proof (cases "fst (acquireIP (sourceIP addr) (w_relay w))")
  case False
  then show "relay_inv w \<Longrightarrow> ?thesis" by (auto simp: serveHTTP_step_def acquireIP_def split: if_splits)
next
  case True
  assume inv: "relay_inv w"
  let ?ip = "sourceIP addr"
  let ?s = "(w_relay w)\<lparr>rl_ipConns := (rl_ipConns (w_relay w))(?ip \<mapsto> ipCount (rl_ipConns (w_relay w)) ?ip + 1)\<rparr>"
  have s: "acquireIP ?ip (w_relay w) = (True, ?s)" "ipCount (rl_ipConns (w_relay w)) ?ip < MaxConnsPerIP (rl_limits (w_relay w))"
    using True by (auto simp: acquireIP_def split: if_splits)
  have "ips_ok ?s (w_handlers w @ [\<lparr>h_addr = addr, h_published = [], h_phase = Upgrading\<rparr>])"
    using inv s(2) unfolding relay_inv_def ips_ok_def by (auto simp: ipCount_def)
  then show ?thesis using inv s(1)
    by (auto simp: serveHTTP_step_def relay_inv_def slots_ok_def pending_ok_def refs_ok_def)
qed

lemma upgrade_inv: "relay_inv w \<Longrightarrow> i < length (w_handlers w) \<Longrightarrow> relay_inv (upgrade_step up i w)"
  by (cases "h_phase (w_handlers w ! i)") (auto simp: upgrade_step_def relay_inv_def [of w] intro!: goto_core)

lemma dropPending_core: "same_core s (dropPending rid i s)"
  by (simp add: same_core_def)

lemma defer_inv:
  assumes "relay_inv w" "i < length (w_handlers w)"
  shows "relay_inv (defer_step i w)"
proof -
  have "pending_ok (w_relay w)" using assms(1) by (simp add: relay_inv_def)
  then have "relay_inv (goto i (Closing rids) (dropPending rid i (w_relay w)) w)"
    if "h_phase (w_handlers w ! i) = Closing (rid # rids)" for rid rids
    using that assms by (intro goto_core) (simp_all add: dropPending_core pending_ok_drop)
  then show ?thesis using assms end_inv [OF assms] by (auto simp: defer_step_def split: phase.splits list.splits)
qed

lemma relay_step_inv: "relay_inv w \<Longrightarrow> relay_inv (relay_step x w)"
proof (cases x)
  case OpClose
  then show "relay_inv w \<Longrightarrow> ?thesis"
    by (simp add: relay_Close_def relay_inv_def slots_ok_def pending_ok_def ips_ok_def refs_ok_def)
qed (auto simp: on_handler_def accept_inv upgrade_inv defer_inv serveConn_inv issue_inv notify_inv unpair_inv attach_inv wait_inv reap_inv)

interpretation relay_sys: op_system relay_step relay_inv
  by unfold_locales (rule relay_step_inv)

lemma relay_start_inv: "relay_inv (relay_start l)"
  by (simp add: relay_start_def relay_New_def relay_inv_def slots_ok_def pending_ok_def ips_ok_def refs_ok_def ipCount_def)

section \<open>What a step can touch\<close>

definition holds_circuit :: "world \<Rightarrow> nat \<Rightarrow> bool" where
  "holds_circuit w c \<longleftrightarrow> (\<exists>h\<in>set (w_handlers w). phase_circuit (h_phase h) = Some c)"

definition has_ticket :: "world \<Rightarrow> nat \<Rightarrow> bool" where
  "has_ticket w c \<longleftrightarrow> (\<exists>t r. rl_tickets (w_relay w) t = Some r \<and> tr_circuit r = c)"

text \<open>
  A step changes only circuits that a handler holds, and a handler gets hold of an old circuit only
  through a ticket for it; tickets for old circuits are not made.
\<close>

definition effect :: "world \<Rightarrow> world \<Rightarrow> bool" where
  "effect w w' \<longleftrightarrow>
     rl_limits (w_relay w') = rl_limits (w_relay w) \<and>
     length (rl_heap (w_relay w)) \<le> length (rl_heap (w_relay w')) \<and>
     (\<forall>c < length (rl_heap (w_relay w)).
        (\<not> holds_circuit w c \<longrightarrow> rl_heap (w_relay w') ! c = rl_heap (w_relay w) ! c) \<and>
        (has_ticket w' c \<longrightarrow> has_ticket w c) \<and>
        (holds_circuit w' c \<longrightarrow> holds_circuit w c \<or> has_ticket w c))"

lemma effect_move:
  assumes i: "i < length (w_handlers w)"
    and w': "w_handlers w' = (w_handlers w)[i := h]" "rl_limits (w_relay w') = rl_limits (w_relay w)"
    and heap: "length (rl_heap (w_relay w)) \<le> length (rl_heap (w_relay w'))"
      "\<And>c. c < length (rl_heap (w_relay w)) \<Longrightarrow> phase_circuit (h_phase (w_handlers w ! i)) \<noteq> Some c \<Longrightarrow>
         rl_heap (w_relay w') ! c = rl_heap (w_relay w) ! c"
    and tickets: "\<And>t r. rl_tickets (w_relay w') t = Some r \<Longrightarrow> tr_circuit r < length (rl_heap (w_relay w)) \<Longrightarrow> rl_tickets (w_relay w) t = Some r"
    and ph: "\<And>c. phase_circuit (h_phase h) = Some c \<Longrightarrow> c < length (rl_heap (w_relay w)) \<Longrightarrow>
         phase_circuit (h_phase (w_handlers w ! i)) = Some c \<or> has_ticket w c"
  shows "effect w w'"
proof -
  have held: "holds_circuit w c" if "phase_circuit (h_phase (w_handlers w ! i)) = Some c" for c
    using i that by (auto simp: holds_circuit_def)
  have "has_ticket w' c \<Longrightarrow> has_ticket w c" if "c < length (rl_heap (w_relay w))" for c
    using tickets that by (auto simp: has_ticket_def)
  moreover have "holds_circuit w c \<or> has_ticket w c" if hold: "holds_circuit w' c" and c: "c < length (rl_heap (w_relay w))" for c
  proof -
    obtain g where g: "g \<in> set ((w_handlers w)[i := h])" "phase_circuit (h_phase g) = Some c"
      using hold by (auto simp: holds_circuit_def w'(1))
    then show ?thesis using set_update_subset [OF g(1)] ph [OF _ c] held by (auto simp: holds_circuit_def)
  qed
  ultimately show ?thesis using w'(2) heap held unfolding effect_def by blast
qed

lemma effect_same: "effect w w"
  by (auto simp: effect_def)

lemma effect_to:
  assumes "i < length (w_handlers w)" "rl_limits s = rl_limits (w_relay w)"
    and "length (rl_heap (w_relay w)) \<le> length (rl_heap s)"
    and "\<And>c. c < length (rl_heap (w_relay w)) \<Longrightarrow> phase_circuit (h_phase (w_handlers w ! i)) \<noteq> Some c \<Longrightarrow>
         rl_heap s ! c = rl_heap (w_relay w) ! c"
    and "\<And>t r. rl_tickets s t = Some r \<Longrightarrow> tr_circuit r < length (rl_heap (w_relay w)) \<Longrightarrow> rl_tickets (w_relay w) t = Some r"
  shows "(\<And>c. phase_circuit ph = Some c \<Longrightarrow> c < length (rl_heap (w_relay w)) \<Longrightarrow>
           phase_circuit (h_phase (w_handlers w ! i)) = Some c \<or> has_ticket w c) \<Longrightarrow> effect w (goto i ph s w)"
    and "effect w (finish_handler i s w)"
proof -
  show "effect w (goto i ph s w)"
    if "\<And>c. phase_circuit ph = Some c \<Longrightarrow> c < length (rl_heap (w_relay w)) \<Longrightarrow>
          phase_circuit (h_phase (w_handlers w ! i)) = Some c \<or> has_ticket w c"
    by (rule effect_move [OF assms(1), of _ "(w_handlers w ! i)\<lparr>h_phase := ph\<rparr>"]) (use assms that in auto)
  show "effect w (finish_handler i s w)"
    by (rule effect_move [OF assms(1), of _ "(w_handlers w ! i)\<lparr>h_phase := Closing (h_published (w_handlers w ! i))\<rparr>"]) (use assms in auto)
qed

lemma effect_goto:
  assumes "i < length (w_handlers w)" "same_core (w_relay w) s" "phase_circuit ph = None"
  shows "effect w (goto i ph s w)"
  by (rule effect_move [OF assms(1)]) (use assms in \<open>auto simp: same_core_def\<close>)

lemma effect_finish:
  assumes "i < length (w_handlers w)" "same_core (w_relay w) s"
  shows "effect w (finish_handler i s w)"
  by (rule effect_move [OF assms(1)]) (use assms in \<open>auto simp: same_core_def\<close>)

lemma publish_core:
  assumes "i < length (w_handlers w)" "pending_ok (w_relay w)"
  shows "effect w (publish_step now ok i msg w)"
proof -
  obtain rid s where ck: "checkRID ok i msg (w_relay w) = (rid, s)" by fastforce
  note core = checkRID_core [OF ck]
  show ?thesis
  proof (cases rid)
    case None
    then show ?thesis using ck core effect_finish [OF assms(1)] by (simp add: publish_step_def)
  next
    case (Some r)
    then have s: "s = w_relay w" using core by simp
    let ?h = "w_handlers w ! i"
    obtain al rt where al: "allow now (sourceIP (h_addr ?h)) (PublishesPerIPPerMin (rl_limits s)) minute (rl_publishes s) = (al, rt)"
      by fastforce
    obtain ad t where ad: "addPending now r i (mg_Candidates msg) (h_addr ?h) (s\<lparr>rl_publishes := rt\<rparr>) = (ad, t)"
      by fastforce
    have t: "same_core (w_relay w) t" using addPending_core [OF ad] assms(2) s by (auto simp: same_core_def)
    let ?m = "(msg_of MsgPublished)\<lparr>mg_RendezvousID := r, mg_Observed := h_addr ?h\<rparr>"
    let ?w1 = "set_handler i (?h\<lparr>h_published := h_published ?h @ [r]\<rparr>) (w\<lparr>w_relay := send_message ok i ?m t\<rparr>)"
    have w1: "effect w ?w1"
      by (rule effect_move [OF assms(1)]) (use t in \<open>auto simp: same_core_def set_handler_def\<close>)
    have fin: "effect w (finish_handler i (send_message ok i ?m t) ?w1)"
      by (rule effect_move [OF assms(1)]) (use t assms(1) in \<open>auto simp: same_core_def set_handler_def\<close>)
    show ?thesis using ck Some al ad t s effect_finish [OF assms(1)] w1 fin
      by (auto simp: publish_step_def Let_def split: bool.splits)
  qed
qed

lemma claim_effect:
  assumes "i < length (w_handlers w)"
  shows "effect w (claim_step ok ok2 i msg w)"
proof -
  obtain rid s where ck: "checkRID ok i msg (w_relay w) = (rid, s)" by fastforce
  note core = checkRID_core [OF ck]
  show ?thesis
  proof (cases "rid = None \<or> \<not> ok")
    case True
    then show ?thesis using ck core effect_finish [OF assms] by (auto simp: claim_step_def Let_def)
  next
    case False
    then obtain r where r: "rid = Some r" "ok" by auto
    then have s: "s = w_relay w" using core by simp
    let ?s1 = "send_message ok i ((msg_of MsgPublished)\<lparr>mg_RendezvousID := r, mg_Observed := h_addr (w_handlers w ! i)\<rparr>) s"
    obtain res s2 where pc: "pair_claim r i ?s1 = (res, s2)" by fastforce
    have s2: "rl_limits s2 = rl_limits (w_relay w)" "rl_heap s2 = rl_heap (w_relay w)" "rl_tickets s2 = rl_tickets (w_relay w)"
      using pc s by (auto simp: pair_claim_def split: option.splits if_splits)
    have "effect w (goto i Control (refuse ok2 i r e s2) w)" "effect w (goto i (PairClaimed r (mg_Candidates msg) p) s2 w)" for e p
      using s2 by (auto intro!: effect_to [OF assms])
    then show ?thesis using ck r pc by (auto simp: claim_step_def Let_def split: sum.splits)
  qed
qed

lemma redeem_effect:
  assumes "i < length (w_handlers w)"
  shows "effect w (redeem_step ok i msg w)"
proof -
  have "effect w (goto i (Attaching ref) ((w_relay w)\<lparr>rl_tickets := (rl_tickets (w_relay w))(t := None)\<rparr>) w)"
    if "rl_tickets (w_relay w) t = Some ref" for t ref
    by (rule effect_move [OF assms]) (use that in \<open>auto simp: has_ticket_def split: if_splits\<close>)
  then show ?thesis using effect_finish [OF assms]
    by (auto simp: redeem_step_def Let_def split: sum.splits option.splits)
qed

lemma serveConn_effect:
  assumes "i < length (w_handlers w)" "pending_ok (w_relay w)"
  shows "effect w (serveConn_step now ok ok2 i recv w)"
  using effect_finish [OF assms(1)] publish_core [OF assms] claim_effect [OF assms(1)] redeem_effect [OF assms(1)]
  by (auto simp: serveConn_step_def split: option.splits)

lemma issue_effect:
  assumes "i < length (w_handlers w)"
  shows "effect w (issue_step now rndA rndB ok i w)"
proof (cases "h_phase (w_handlers w ! i)")
  case (PairClaimed rid sealed p)
  obtain res s where pi: "pair_issue now rndA rndB (w_relay w) = (res, s)" by fastforce
  show ?thesis
  proof (cases res)
    case (Inl e)
    then have s: "s = releaseCircuit (w_relay w)"
      using pi by (auto simp: pair_issue_def Let_def split: sum.splits)
    have "effect w (goto i Control (refuse ok i rid e s) w)"
      by (rule effect_move [OF assms]) (use s in auto)
    then show ?thesis using PairClaimed pi Inl by (simp add: issue_step_def)
  next
    case (Inr r)
    obtain c tA tB where r: "r = (c, tA, tB)" by (cases r)
    then have s: "c = length (rl_heap (w_relay w))" "length (rl_heap (w_relay w)) \<le> length (rl_heap s)" "rl_limits s = rl_limits (w_relay w)"
      "\<And>d. d < length (rl_heap (w_relay w)) \<Longrightarrow> rl_heap s ! d = rl_heap (w_relay w) ! d"
      "rl_tickets s = (rl_tickets (w_relay w))(tA \<mapsto> \<lparr>tr_circuit = c, tr_side = 0\<rparr>, tB \<mapsto> \<lparr>tr_circuit = c, tr_side = 1\<rparr>)"
      using pi Inr by (auto simp: pair_issue_def Let_def nth_append split: sum.splits)
    have "effect w (goto i (PairIssued rid sealed p c tA tB) s w)"
      by (rule effect_move [OF assms]) (use s in \<open>auto split: if_splits\<close>)
    then show ?thesis using PairClaimed pi Inr r by (simp add: issue_step_def)
  qed
qed (simp_all add: issue_step_def effect_same)

lemma notify_effect:
  assumes "i < length (w_handlers w)"
  shows "effect w (notify_step pubOk claimOk i w)"
proof (cases "h_phase (w_handlers w ! i)")
  case (PairIssued rid sealed p c tA tB)
  obtain res s where pn: "pair_notify pubOk claimOk rid i sealed (h_addr (w_handlers w ! i)) p c tA tB (w_relay w) = (res, s)"
    by fastforce
  obtain t where t: "same_core (w_relay w) t" "s = t \<or> s = dropCircuit_tickets [tA, tB] t"
    using pair_notify_state [OF pn] by auto
  have s: "rl_limits s = rl_limits (w_relay w)" "rl_heap s = rl_heap (w_relay w)"
    "\<And>t r. rl_tickets s t = Some r \<Longrightarrow> rl_tickets (w_relay w) t = Some r"
    using t by (auto simp: same_core_def dropCircuit_tickets_def split: if_splits)
  have "effect w (goto i ph s w)" if "ph = Control \<or> (\<exists>e. ph = PairFailed rid e c)" for ph
    by (rule effect_move [OF assms]) (use s PairIssued that in auto)
  then show ?thesis using PairIssued pn by (auto simp: notify_step_def split: sum.splits)
qed (simp_all add: notify_step_def effect_same)

lemma unpair_effect:
  assumes "i < length (w_handlers w)"
  shows "effect w (unpair_step ok i w)"
proof (cases "h_phase (w_handlers w ! i)")
  case (PairFailed rid e c)
  have "effect w (goto i Control (refuse ok i rid e (releaseOnce c (w_relay w))) w)"
    by (rule effect_move [OF assms]) (use PairFailed in \<open>auto simp: releaseOnce_heap\<close>)
  then show ?thesis using PairFailed by (simp add: unpair_step_def)
qed (simp_all add: unpair_step_def effect_same)

lemma ends_effect:
  assumes "i < length (w_handlers w)"
  shows "effect w (upgrade_step up i w)" "effect w (defer_step i w)"
proof -
  show "effect w (upgrade_step up i w)"
    using effect_goto [OF assms] effect_same [of w] by (auto simp: upgrade_step_def split: phase.splits)
  have "effect w (goto i Ended (releaseIP ip (w_relay w)) w)" for ip
    by (rule effect_move [OF assms]) auto
  then show "effect w (defer_step i w)"
    using effect_goto [OF assms dropPending_core] effect_same [of w] by (auto simp: defer_step_def split: phase.splits list.splits)
qed

lemma attach_effect:
  assumes "i < length (w_handlers w)"
  shows "effect w (attach_step ok i w)"
proof (cases "h_phase (w_handlers w ! i)")
  case (Attaching ref)
  have "effect w (goto i ph (set_circuit (tr_circuit ref) v (send_message b i m (w_relay w))) w)"
    if "ph = Waiting (tr_circuit ref) \<or> ph = Splicing (tr_circuit ref)" for ph v b m
    by (rule effect_move [OF assms]) (use that Attaching in auto)
  moreover have "effect w (finish_handler i (send_message b i m (w_relay w)) w)" for b m
    by (rule effect_finish [OF assms]) simp
  ultimately show ?thesis using Attaching by (auto simp: attach_step_def Let_def)
qed (simp_all add: attach_step_def effect_same)

lemma wait_effect:
  assumes "i < length (w_handlers w)"
  shows "effect w (wait_done_step i w)" "effect w (wait_idle_step i w)" "effect w (wait_closed_step i w)"
    "effect w (splice_end_step i w)"
proof -
  have "effect w (finish_handler i (releaseOnce c (w_relay w)) w)"
    "effect w (finish_handler i (set_circuit c v (releaseOnce c (w_relay w))) w)"
    if "phase_circuit (h_phase (w_handlers w ! i)) = Some c" for c v
    using that by (auto intro!: effect_to [OF assms] simp: releaseOnce_heap simp del: finish_simps)
  moreover have "effect w (finish_handler i (w_relay w) w)" by (rule effect_finish [OF assms]) simp
  ultimately show "effect w (wait_done_step i w)" "effect w (wait_idle_step i w)" "effect w (wait_closed_step i w)"
    "effect w (splice_end_step i w)"
    by (auto simp: wait_done_step_def wait_idle_step_def wait_closed_step_def splice_end_step_def Let_def effect_same split: phase.splits)
qed

lemma relay_step_effect:
  assumes "relay_inv w"
  shows "effect w (relay_step x w)"
proof -
  have pend: "pending_ok (w_relay w)" using assms by (simp add: relay_inv_def)
  have acc: "effect w (serveHTTP_step addr w)" for addr
    by (auto simp: serveHTTP_step_def Let_def acquireIP_def effect_def holds_circuit_def has_ticket_def split: if_splits)
  have rp: "effect w (w\<lparr>w_relay := reap now (w_relay w)\<rparr>)" "effect w (w\<lparr>w_relay := relay_Close (w_relay w)\<rparr>)" for now
    by (auto simp: reap_def relay_Close_def Let_def effect_def holds_circuit_def has_ticket_def split: option.splits if_splits)
  show ?thesis
    by (cases x) (auto simp: on_handler_def effect_same acc rp pend serveConn_effect issue_effect notify_effect unpair_effect attach_effect wait_effect ends_effect)
qed

section \<open>Lost slots\<close>

definition abandoned :: "world \<Rightarrow> nat \<Rightarrow> bool" where
  "abandoned w c \<longleftrightarrow> c < length (rl_heap (w_relay w)) \<and> \<not> ci_released (rl_heap (w_relay w) ! c) \<and>
     \<not> has_ticket w c \<and> \<not> holds_circuit w c"

lemma abandoned_step: "relay_inv w \<Longrightarrow> abandoned w c \<Longrightarrow> abandoned (relay_step x w) c"
proof -
  assume inv: "relay_inv w" and ab: "abandoned w c"
  note e = relay_step_effect [OF inv, of x, unfolded effect_def]
  have c: "c < length (rl_heap (w_relay w))" using ab by (simp add: abandoned_def)
  with e ab have "rl_heap (w_relay (relay_step x w)) ! c = rl_heap (w_relay w) ! c"
    "\<not> has_ticket (relay_step x w) c" "\<not> holds_circuit (relay_step x w) c"
    unfolding abandoned_def by blast+
  moreover have "c < length (rl_heap (w_relay (relay_step x w)))" using e c by linarith
  ultimately show ?thesis using ab by (simp add: abandoned_def)
qed

interpretation leak: op_system relay_step "\<lambda>w. relay_inv w \<and> abandoned w c" for c
  by unfold_locales (use relay_step_inv abandoned_step in blast)

interpretation fixed_limits: op_system relay_step "\<lambda>w. relay_inv w \<and> rl_limits (w_relay w) = l" for l
  by unfold_locales (metis relay_step_inv relay_step_effect effect_def)

lemma run_from_start:
  "relay_inv (relay_run ops (relay_start l))" "rl_limits (w_relay (relay_run ops (relay_start l))) = l"
  using fixed_limits.run_inv [of "relay_start l" l ops] relay_start_inv [of l]
  by (simp_all add: relay_run_def relay_start_def relay_New_def)

lemma distinct_positions_le_cnt:
  assumes "distinct is" and "\<forall>i\<in>set is. i < length xs \<and> Q (xs ! i)"
  shows "int (length is) \<le> cnt Q xs"
proof -
  have "length is = card (set is)" using assms(1) by (simp add: distinct_card)
  also have "\<dots> \<le> card {i. i < length xs \<and> Q (xs ! i)}" by (rule card_mono) (use assms(2) in auto)
  finally show ?thesis by (simp add: cnt_def length_filter_conv_card)
qed

section \<open>Properties of runs\<close>

text \<open>
  C9: the limits of the relay. In every run, whatever the clients send, in whatever order handlers are
  scheduled, whichever writes fail and whenever timers fire, there are never more pending codes,
  circuits or open connections per source address than the limits allow; the circuit counter is
  exactly the number of circuits that were not released plus the pairings in progress, and the
  connection counters are exactly the open connections.
\<close>

theorem relay_respects_limits:
  "let w = relay_run ops (relay_start l); s = w_relay w;
       open_from = (\<lambda>ip. int (length (filter (\<lambda>h. h_phase h \<noteq> Ended \<and> sourceIP (h_addr h) = ip) (w_handlers w))))
   in int (fst (relay_Stats s)) \<le> max 0 (MaxPendingCodes l) \<and>
      snd (relay_Stats s) \<le> max 0 (MaxCircuits l) \<and>
      snd (relay_Stats s) = int (length (filter (\<lambda>c. \<not> ci_released c) (rl_heap s))) +
        int (length (filter (\<lambda>h. is_claimed (h_phase h)) (w_handlers w))) \<and>
      (\<forall>ip. open_from ip \<le> max 0 (MaxConnsPerIP l) \<and> ipCount (rl_ipConns s) ip = open_from ip)"
  using run_from_start [of ops l]
  by (auto simp: relay_inv_def slots_ok_def pending_ok_def ips_ok_def relay_Stats_def cnt_def Let_def)

text \<open>
  C10: circuits nobody redeems use up the relay. Take any state a run reaches in which as many circuits
  as the relay may have are paired, not released, held by no handler and older than the lifetime of
  a code. The next sweep removes their tickets without giving their slots back, and from then on
  every claim of every code is refused for ever, whatever happens.
\<close>

theorem unredeemed_circuits_exhaust_relay:
  assumes w: "w = relay_run ops (relay_start l)" and "distinct C" and "MaxCircuits l \<le> int (length C)"
    and C: "\<forall>c\<in>set C. c < length (rl_heap (w_relay w)) \<and> \<not> ci_released (rl_heap (w_relay w) ! c) \<and>
       \<not> holds_circuit w c \<and> now - ci_created (rl_heap (w_relay w) ! c) > CodeTTL l"
  shows "\<forall>later rid claimer. \<exists>e. fst (pair_claim rid claimer
     (w_relay (relay_run later (relay_step (OpReap now) w)))) = Inl e"
proof (intro allI)
  fix later rid claimer
  let ?w1 = "relay_step (OpReap now) w" and ?w2 = "relay_run later (relay_step (OpReap now) w)"
  have inv: "relay_inv w" "rl_limits (w_relay w) = l" unfolding w by (rule run_from_start)+
  have inv1: "relay_inv ?w1" by (rule relay_step_inv [OF inv(1)])
  have "abandoned ?w1 c" if "c \<in> set C" for c
    using C that inv(2) by (auto simp: abandoned_def has_ticket_def holds_circuit_def reap_def Let_def split: option.splits if_splits)
  then have ab: "abandoned ?w2 c" if "c \<in> set C" for c
    using leak.run_inv [of ?w1 c later] inv1 that by (simp add: relay_run_def)
  have inv2: "relay_inv ?w2" "rl_limits (w_relay ?w2) = l"
    using fixed_limits.run_inv [of ?w1 l later] inv1 inv(2) by (simp_all add: relay_run_def reap_def Let_def)
  have "int (length C) \<le> cnt (\<lambda>c. \<not> ci_released c) (rl_heap (w_relay ?w2))"
    by (rule distinct_positions_le_cnt [OF assms(2)]) (use ab in \<open>auto simp: abandoned_def\<close>)
  also have "\<dots> \<le> rl_circuits (w_relay ?w2)" using inv2(1) by (simp add: relay_inv_def slots_ok_def)
  finally have "MaxCircuits (rl_limits (w_relay ?w2)) \<le> rl_circuits (w_relay ?w2)" using assms(3) inv2(2) by simp
  then show "\<exists>e. fst (pair_claim rid claimer (w_relay ?w2)) = Inl e"
    by (auto simp: pair_claim_def split: option.splits)
qed

definition demo_limits :: limits where
  "demo_limits = DefaultLimits\<lparr>MaxCircuits := 1\<rparr>"

definition demo_rid :: string where
  "demo_rid = encode (replicate 16 0)"

text \<open>One client publishes a code, another one claims it, and both are told.\<close>

definition demo_ops :: "relay_op list" where
  "demo_ops = [OpAccept ''a'', OpAccept ''b'', OpUpgrade 0 True, OpUpgrade 1 True,
     OpRecv 0 0 True True (Some ((msg_of MsgPublish)\<lparr>mg_RendezvousID := demo_rid\<rparr>)),
     OpRecv 1 0 True True (Some ((msg_of MsgClaim)\<lparr>mg_RendezvousID := demo_rid\<rparr>)),
     OpIssue 1 0 (Some (\<lambda>_. 1)) (Some (\<lambda>_. 2)) True, OpNotify 1 True True]"

lemma demo_rid_ok: "decodeExact demo_rid 16 = Inr (replicate 16 0)"
  unfolding demo_rid_def by (rule exact_field.dec_enc) simp

lemma demo_source: "sourceIP ''a'' = ''a''" "sourceIP ''b'' = ''b''"
  by (simp_all add: sourceIP_def SplitHostPort_def colon_last_def)

lemma demo_run:
  "rl_heap (w_relay (relay_run demo_ops (relay_start demo_limits))) =
     [\<lparr>ci_conns = [None, None], ci_started = False, ci_created = 0, ci_done = False, ci_released = False\<rparr>]"
  "map h_phase (w_handlers (relay_run demo_ops (relay_start demo_limits))) = [Control, Control]"
  by (simp_all add: relay_run_def demo_ops_def relay_start_def relay_New_def demo_limits_def DefaultLimits_def
      serveHTTP_step_def upgrade_step_def acquireIP_def ipCount_def demo_source on_handler_def serveConn_step_def publish_step_def msg_defs
      msg_of_def checkRID_def demo_rid_ok allow_def newRateCounter_def addPending_def set_handler_def Let_def send_message_def
      claim_step_def pair_claim_def issue_step_def pair_issue_def NewTicket_def RandomBytes_def notify_step_def
      pair_notify_def goto_def)

lemma demo_limits_values: "CodeTTL demo_limits = 5 * minute" "MaxCircuits demo_limits = 1"
  by (simp_all add: demo_limits_def DefaultLimits_def)

theorem unredeemed_circuits_exhaust_relay_witness:
  "\<forall>later rid claimer. \<exists>e. fst (pair_claim rid claimer (w_relay (relay_run later
     (relay_step (OpReap (5 * minute + 1)) (relay_run demo_ops (relay_start demo_limits)))))) = Inl e"
proof -
  let ?w = "relay_run demo_ops (relay_start demo_limits)"
  have "\<not> holds_circuit ?w c" for c
  proof -
    have "h_phase ` set (w_handlers ?w) = {Control}" using arg_cong [OF demo_run(2), of set] by simp
    then have "h_phase h = Control" if "h \<in> set (w_handlers ?w)" for h using that by blast
    then show ?thesis by (auto simp: holds_circuit_def)
  qed
  then have "\<forall>c\<in>set [0]. c < length (rl_heap (w_relay ?w)) \<and> \<not> ci_released (rl_heap (w_relay ?w) ! c) \<and>
     \<not> holds_circuit ?w c \<and> 5 * minute + 1 - ci_created (rl_heap (w_relay ?w) ! c) > CodeTTL demo_limits"
    by (simp add: demo_run(1) demo_limits_values)
  from unredeemed_circuits_exhaust_relay [OF refl _ _ this] show ?thesis
    by (simp add: demo_limits_values)
qed

end
