(* ===== verification/RelayCircuits.thy ===== *)
theory RelayCircuits
  imports RelayRuns
begin

text \<open>
  Who is at the ends of a circuit: each end is taken once, by redeeming the one ticket for it, and is
  never given to another connection; a circuit is spliced once, between two different connections.
\<close>

section \<open>The invariant\<close>

definition ends :: "circuit \<Rightarrow> nat option list \<times> bool" where
  "ends v = (ci_conns v, ci_started v)"

text \<open>The connection at the end a ticket stands for.\<close>

definition end_at :: "relay \<Rightarrow> ticketRef \<Rightarrow> nat option" where
  "end_at s r = ci_conns (rl_heap s ! tr_circuit r) ! tr_side r"

definition attached_phase :: "nat \<Rightarrow> phase \<Rightarrow> bool" where
  "attached_phase c ph \<longleftrightarrow> ph = Waiting c \<or> ph = Splicing c \<or> ph = Ended \<or> (\<exists>rids. ph = Closing rids)"

text \<open>A ticket stands for a free end that nobody is about to take, and no other ticket does.\<close>

definition tickets_once :: "world \<Rightarrow> bool" where
  "tickets_once w \<longleftrightarrow>
     (\<forall>t u r. rl_tickets (w_relay w) t = Some r \<longrightarrow> rl_tickets (w_relay w) u = Some r \<longrightarrow> t = u) \<and>
     (\<forall>t r. rl_tickets (w_relay w) t = Some r \<longrightarrow> end_at (w_relay w) r = None \<and>
        (\<forall>h\<in>set (w_handlers w). h_phase h \<noteq> Attaching r)) \<and>
     (\<forall>i < length (w_handlers w). \<forall>r. h_phase (w_handlers w ! i) = Attaching r \<longrightarrow> end_at (w_relay w) r = None \<and>
        (\<forall>j < length (w_handlers w). h_phase (w_handlers w ! j) = Attaching r \<longrightarrow> j = i))"

text \<open>A started circuit has both ends, and one handler splices it.\<close>

definition spliced_once :: "world \<Rightarrow> bool" where
  "spliced_once w \<longleftrightarrow>
     (\<forall>v\<in>set (rl_heap (w_relay w)). ci_started v \<longrightarrow> ci_conns v ! 0 \<noteq> None \<and> ci_conns v ! 1 \<noteq> None) \<and>
     (\<forall>i < length (w_handlers w). \<forall>c. h_phase (w_handlers w ! i) = Splicing c \<longrightarrow>
        ci_started (rl_heap (w_relay w) ! c) \<and>
        (\<forall>j < length (w_handlers w). h_phase (w_handlers w ! j) = Splicing c \<longrightarrow> j = i))"

text \<open>A connection at an end waits, splices or has returned, and is at one end only.\<close>

definition places_ok :: "world \<Rightarrow> bool" where
  "places_ok w \<longleftrightarrow>
     (\<forall>c < length (rl_heap (w_relay w)). \<forall>k < 2. \<forall>i. ci_conns (rl_heap (w_relay w) ! c) ! k = Some i \<longrightarrow>
        i < length (w_handlers w) \<and> attached_phase c (h_phase (w_handlers w ! i))) \<and>
     (\<forall>v\<in>set (rl_heap (w_relay w)). \<forall>i. \<not> (ci_conns v ! 0 = Some i \<and> ci_conns v ! 1 = Some i))"

definition ends_inv :: "world \<Rightarrow> bool" where
  "ends_inv w \<longleftrightarrow> relay_inv w \<and> tickets_once w \<and> spliced_once w \<and> places_ok w"

lemma ends_eq:
  assumes "map ends h' = map ends h"
  shows "length h' = length h" "c < length h \<Longrightarrow> ci_conns (h' ! c) = ci_conns (h ! c) \<and> ci_started (h' ! c) = ci_started (h ! c)"
    and "ends ` set h' = ends ` set h"
proof -
  show l: "length h' = length h" using arg_cong [OF assms, of length] by simp
  show "ci_conns (h' ! c) = ci_conns (h ! c) \<and> ci_started (h' ! c) = ci_started (h ! c)" if "c < length h"
    using arg_cong [OF assms, of "\<lambda>l. l ! c"] that l by (simp add: ends_def)
  show "ends ` set h' = ends ` set h" using arg_cong [OF assms, of set] by simp
qed

text \<open>The invariant, in terms of the ends of circuits, for a pair of circuits and phases.\<close>

lemma ends_forall: "(\<forall>v\<in>set hp. Q (ci_conns v) (ci_started v)) \<longleftrightarrow> (\<forall>e\<in>ends ` set hp. Q (fst e) (snd e))"
  by (auto simp: ends_def)

lemma inv_range:
  assumes "relay_inv w"
  shows "rl_tickets (w_relay w) t = Some r \<Longrightarrow> tr_circuit r < length (rl_heap (w_relay w)) \<and> tr_side r < 2"
    and "j < length (w_handlers w) \<Longrightarrow> h_phase (w_handlers w ! j) = Attaching r \<Longrightarrow>
         tr_circuit r < length (rl_heap (w_relay w)) \<and> tr_side r < 2"
    and "j < length (w_handlers w) \<Longrightarrow> h_phase (w_handlers w ! j) = Splicing c \<Longrightarrow> c < length (rl_heap (w_relay w))"
    and "c < length (rl_heap (w_relay w)) \<Longrightarrow> length (ci_conns (rl_heap (w_relay w) ! c)) = 2"
  using assms relay_inv_circuit [OF assms, of j] nth_mem [of j "w_handlers w"]
  by (auto simp: relay_inv_def refs_ok_def)

text \<open>
  How the three parts survive a move of handler \<open>i\<close> to a point that is neither attaching nor splicing,
  when tickets may disappear and no end changes.
\<close>

lemma phase_update:
  "i < length hs \<Longrightarrow> h_phase (hs[i := h] ! j) = ph \<Longrightarrow> h_phase h \<noteq> ph \<Longrightarrow> h_phase (hs ! j) = ph"
  by (cases "j = i") auto

lemma tickets_move:
  assumes inv: "relay_inv w" "tickets_once w" "i < length (w_handlers w)"
    and w': "w_handlers w' = (w_handlers w)[i := h]" "map ends (rl_heap (w_relay w')) = map ends (rl_heap (w_relay w))"
    and tk: "\<And>t r. rl_tickets (w_relay w') t = Some r \<Longrightarrow> rl_tickets (w_relay w) t = Some r"
    and ph: "\<And>r. h_phase h \<noteq> Attaching r"
  shows "tickets_once w'"
proof -
  have same: "end_at (w_relay w') r = end_at (w_relay w) r" if "tr_circuit r < length (rl_heap (w_relay w))" for r
    using ends_eq(2) [OF w'(2) that] by (simp add: end_at_def)
  have att: "h_phase (w_handlers w ! j) = Attaching r" if "h_phase (w_handlers w' ! j) = Attaching r" for j r
    using phase_update [OF inv(3)] that ph unfolding w'(1) by metis
  have len: "length (w_handlers w') = length (w_handlers w)" by (simp add: w'(1))
  have free: "end_at (w_relay w') r = None \<and> (\<forall>h\<in>set (w_handlers w'). h_phase h \<noteq> Attaching r)"
    if "rl_tickets (w_relay w') t = Some r" for t r
  proof -
    have t: "rl_tickets (w_relay w) t = Some r" using that by (rule tk)
    then have "end_at (w_relay w) r = None" "\<forall>g\<in>set (w_handlers w). h_phase g \<noteq> Attaching r"
      using inv(2) unfolding tickets_once_def by blast+
    then show ?thesis using same inv_range(1) [OF inv(1) t] att len by (metis in_set_conv_nth nth_mem)
  qed
  have "end_at (w_relay w') r = None \<and> (\<forall>k < length (w_handlers w'). h_phase (w_handlers w' ! k) = Attaching r \<longrightarrow> k = j)"
    if "j < length (w_handlers w')" "h_phase (w_handlers w' ! j) = Attaching r" for j r
    using inv(2) att [of _ r] same [of r] inv_range(2) [OF inv(1), of j r] len that unfolding tickets_once_def by metis
  with free show ?thesis using inv(2) tk unfolding tickets_once_def by blast
qed

lemma spliced_move:
  assumes inv: "relay_inv w" "spliced_once w" "i < length (w_handlers w)"
    and w': "w_handlers w' = (w_handlers w)[i := h]" "map ends (rl_heap (w_relay w')) = map ends (rl_heap (w_relay w))"
    and ph: "\<And>c. h_phase h \<noteq> Splicing c"
  shows "spliced_once w'"
proof -
  have spl: "h_phase (w_handlers w ! j) = Splicing c" if "h_phase (w_handlers w' ! j) = Splicing c" for j c
    using phase_update [OF inv(3)] that ph unfolding w'(1) by metis
  have len: "length (w_handlers w') = length (w_handlers w)" by (simp add: w'(1))
  have "\<forall>v\<in>set (rl_heap (w_relay w')). ci_started v \<longrightarrow> ci_conns v ! 0 \<noteq> None \<and> ci_conns v ! 1 \<noteq> None"
    using inv(2) unfolding spliced_once_def ends_forall [where Q = "\<lambda>cs st. st \<longrightarrow> cs ! 0 \<noteq> None \<and> cs ! 1 \<noteq> None"]
      ends_eq(3) [OF w'(2)] by blast
  moreover have "ci_started (rl_heap (w_relay w') ! c) \<and>
      (\<forall>k < length (w_handlers w'). h_phase (w_handlers w' ! k) = Splicing c \<longrightarrow> k = j)"
    if "j < length (w_handlers w')" "h_phase (w_handlers w' ! j) = Splicing c" for j c
    using inv(2) spl [of _ c] ends_eq(2) [OF w'(2), of c] inv_range(3) [OF inv(1), of j c] len that
    unfolding spliced_once_def by metis
  ultimately show ?thesis unfolding spliced_once_def by blast
qed

lemma places_move:
  assumes inv: "places_ok w" "i < length (w_handlers w)"
    and w': "w_handlers w' = (w_handlers w)[i := h]" "map ends (rl_heap (w_relay w')) = map ends (rl_heap (w_relay w))"
    and stay: "\<And>c. attached_phase c (h_phase (w_handlers w ! i)) \<Longrightarrow> attached_phase c (h_phase h)"
  shows "places_ok w'"
proof -
  have "j < length (w_handlers w') \<and> attached_phase c (h_phase (w_handlers w' ! j))"
    if a: "c < length (rl_heap (w_relay w'))" "k < 2" "ci_conns (rl_heap (w_relay w') ! c) ! k = Some j" for c k j
  proof -
    have "c < length (rl_heap (w_relay w))" "ci_conns (rl_heap (w_relay w) ! c) ! k = Some j"
      using a ends_eq(1,2) [OF w'(2)] by simp_all
    then have j: "j < length (w_handlers w)" "attached_phase c (h_phase (w_handlers w ! j))"
      using inv(1) a(2) unfolding places_ok_def by blast+
    then show ?thesis using stay inv(2) by (cases "j = i") (auto simp: w'(1))
  qed
  moreover have "\<forall>v\<in>set (rl_heap (w_relay w')). \<forall>i. \<not> (ci_conns v ! 0 = Some i \<and> ci_conns v ! 1 = Some i)"
    using inv(1) unfolding places_ok_def ends_forall [where Q = "\<lambda>cs st. \<forall>i. \<not> (cs ! 0 = Some i \<and> cs ! 1 = Some i)"]
      ends_eq(3) [OF w'(2)] by blast
  ultimately show ?thesis unfolding places_ok_def by blast
qed

lemma ends_to:
  assumes "ends_inv w" "i < length (w_handlers w)"
    and "map ends (rl_heap s) = map ends (rl_heap (w_relay w))"
    and "\<And>t r. rl_tickets s t = Some r \<Longrightarrow> rl_tickets (w_relay w) t = Some r"
  shows "relay_inv (goto i ph s w) \<Longrightarrow> (\<And>r. ph \<noteq> Attaching r) \<Longrightarrow> (\<And>c. ph \<noteq> Splicing c) \<Longrightarrow>
      (\<And>c. attached_phase c (h_phase (w_handlers w ! i)) \<Longrightarrow> attached_phase c ph) \<Longrightarrow> ends_inv (goto i ph s w)"
    and "relay_inv (finish_handler i s w) \<Longrightarrow> ends_inv (finish_handler i s w)"
proof -
  have inv: "relay_inv w" "tickets_once w" "spliced_once w" "places_ok w" using assms(1) by (simp_all add: ends_inv_def)
  show "ends_inv (goto i ph s w)" if "relay_inv (goto i ph s w)" and ph: "\<And>r. ph \<noteq> Attaching r" "\<And>c. ph \<noteq> Splicing c"
    "\<And>c. attached_phase c (h_phase (w_handlers w ! i)) \<Longrightarrow> attached_phase c ph"
  proof -
    let ?h = "(w_handlers w ! i)\<lparr>h_phase := ph\<rparr>"
    have "tickets_once (goto i ph s w)" by (rule tickets_move [OF inv(1,2) assms(2), of _ ?h]) (use assms ph in simp_all)
    moreover have "spliced_once (goto i ph s w)" by (rule spliced_move [OF inv(1,3) assms(2), of _ ?h]) (use assms ph in simp_all)
    moreover have "places_ok (goto i ph s w)" by (rule places_move [OF inv(4) assms(2), of _ ?h]) (use assms ph in simp_all)
    ultimately show ?thesis using that(1) by (simp add: ends_inv_def)
  qed
  show "ends_inv (finish_handler i s w)" if "relay_inv (finish_handler i s w)"
  proof -
    let ?h = "(w_handlers w ! i)\<lparr>h_phase := Closing (h_published (w_handlers w ! i))\<rparr>"
    have "tickets_once (finish_handler i s w)" by (rule tickets_move [OF inv(1,2) assms(2), of _ ?h]) (use assms in simp_all)
    moreover have "spliced_once (finish_handler i s w)" by (rule spliced_move [OF inv(1,3) assms(2), of _ ?h]) (use assms in simp_all)
    moreover have "places_ok (finish_handler i s w)"
      by (rule places_move [OF inv(4) assms(2), of _ ?h]) (use assms in \<open>simp_all add: attached_phase_def\<close>)
    ultimately show ?thesis using that by (simp add: ends_inv_def)
  qed
qed

text \<open>New handlers arrive, or the sweep removes tickets.\<close>

lemma ends_arrive:
  assumes "ends_inv w" "relay_inv w'" "w_handlers w' = w_handlers w @ hs" "\<forall>h\<in>set hs. h_phase h = Upgrading"
    and "rl_heap (w_relay w') = rl_heap (w_relay w)"
    and tk: "\<And>t r. rl_tickets (w_relay w') t = Some r \<Longrightarrow> rl_tickets (w_relay w) t = Some r"
  shows "ends_inv w'"
proof -
  have old: "j < length (w_handlers w) \<and> h_phase (w_handlers w' ! j) = h_phase (w_handlers w ! j)"
    if "j < length (w_handlers w')" "h_phase (w_handlers w' ! j) \<noteq> Upgrading" for j
    using that assms(4) unfolding assms(3)
    by (cases "j < length (w_handlers w)") (auto simp: nth_append)
  have keep: "h_phase (w_handlers w' ! j) = h_phase (w_handlers w ! j)" "j < length (w_handlers w')" if "j < length (w_handlers w)" for j
    using that unfolding assms(3) by (simp_all add: nth_append)
  have fresh: "h_phase h \<noteq> Attaching r" if "h \<in> set (w_handlers w')" "\<forall>g\<in>set (w_handlers w). h_phase g \<noteq> Attaching r" for h r
    using that assms(4) unfolding assms(3) by auto
  have once: "tickets_once w" "spliced_once w" using assms(1) by (simp_all add: ends_inv_def)
  have end_eq: "end_at (w_relay w') r = end_at (w_relay w) r" for r by (simp add: end_at_def assms(5))
  have att: "j < length (w_handlers w) \<and> h_phase (w_handlers w ! j) = Attaching r"
    if "j < length (w_handlers w')" "h_phase (w_handlers w' ! j) = Attaching r" for j r using old [OF that(1)] that(2) by simp
  have spl: "j < length (w_handlers w) \<and> h_phase (w_handlers w ! j) = Splicing c"
    if "j < length (w_handlers w')" "h_phase (w_handlers w' ! j) = Splicing c" for j c using old [OF that(1)] that(2) by simp
  have "tickets_once w'"
    unfolding tickets_once_def end_eq
  proof (intro conjI allI impI ballI)
    fix t u r assume "rl_tickets (w_relay w') t = Some r" "rl_tickets (w_relay w') u = Some r"
    then show "t = u" using once(1) tk unfolding tickets_once_def by blast
  next
    fix t r assume "rl_tickets (w_relay w') t = Some r"
    then have free: "end_at (w_relay w) r = None" "\<forall>g\<in>set (w_handlers w). h_phase g \<noteq> Attaching r"
      using once(1) tk unfolding tickets_once_def by blast+
    show "end_at (w_relay w) r = None" by (rule free(1))
    show "h_phase h \<noteq> Attaching r" if "h \<in> set (w_handlers w')" for h by (rule fresh [OF that free(2)])
  next
    fix i r assume i: "i < length (w_handlers w')" "h_phase (w_handlers w' ! i) = Attaching r"
    show "end_at (w_relay w) r = None" using once(1) att [OF i] unfolding tickets_once_def by blast
    show "j = i" if "j < length (w_handlers w')" "h_phase (w_handlers w' ! j) = Attaching r" for j
      using once(1) att [OF i] att [OF that] unfolding tickets_once_def by blast
  qed
  moreover have "spliced_once w'"
    unfolding spliced_once_def assms(5)
  proof (intro conjI allI impI ballI)
    fix v assume "v \<in> set (rl_heap (w_relay w))" "ci_started v"
    then show "ci_conns v ! 0 \<noteq> None" "ci_conns v ! 1 \<noteq> None" using once(2) unfolding spliced_once_def by blast+
  next
    fix i c assume i: "i < length (w_handlers w')" "h_phase (w_handlers w' ! i) = Splicing c"
    show "ci_started (rl_heap (w_relay w) ! c)" using once(2) spl [OF i] unfolding spliced_once_def by blast
    show "j = i" if "j < length (w_handlers w')" "h_phase (w_handlers w' ! j) = Splicing c" for j
      using once(2) spl [OF i] spl [OF that] unfolding spliced_once_def by blast
  qed
  moreover have "places_ok w'"
    using assms(1) keep unfolding ends_inv_def places_ok_def assms(5) by auto
  ultimately show ?thesis using assms(2) by (simp add: ends_inv_def)
qed

lemma ends_heap [simp]:
  "map ends (rl_heap (releaseOnce c s)) = map ends (rl_heap s)"
  "map ends ((rl_heap s)[c := (rl_heap s ! c)\<lparr>ci_done := b\<rparr>]) = map ends (rl_heap s)"
proof -
  have upd: "map ends (xs[c := v]) = map ends xs" if "ends v = ends (xs ! c)" for xs v
    using that by (cases "c < length xs") (simp_all add: map_update list_update_same_conv list_update_beyond)
  show "map ends (rl_heap (releaseOnce c s)) = map ends (rl_heap s)" for s
    unfolding releaseOnce_heap by (rule upd) (simp add: ends_def)
  show "map ends ((rl_heap s)[c := (rl_heap s ! c)\<lparr>ci_done := b\<rparr>]) = map ends (rl_heap s)"
    by (rule upd) (simp add: ends_def)
qed

section \<open>The steps\<close>

lemma core_ends: "same_core s t \<Longrightarrow> map ends (rl_heap t) = map ends (rl_heap s)" "same_core s t \<Longrightarrow> rl_tickets t = rl_tickets s"
  by (simp_all add: same_core_def)

lemma not_attached [simp]:
  "\<not> attached_phase c Upgrading" "\<not> attached_phase c Control" "\<not> attached_phase c (PairFailed a b d)"
  "\<not> attached_phase c (PairClaimed a b p)" "\<not> attached_phase c (PairIssued a b p d x y)"
  "\<not> attached_phase c (Attaching r)"
  by (simp_all add: attached_phase_def)

lemma publish_ends:
  assumes "ends_inv w" "i < length (w_handlers w)" "h_phase (w_handlers w ! i) = Control"
  shows "ends_inv (publish_step now ok i msg w)"
proof -
  have inv: "relay_inv w" and pend: "pending_ok (w_relay w)" using assms(1) by (simp_all add: ends_inv_def relay_inv_def)
  have fin: "ends_inv (finish_handler i t w)" if "same_core (w_relay w) t" "pending_ok t" for t
  proof (rule ends_to(2) [OF assms(1,2)])
    show "relay_inv (finish_handler i t w)" using finish_core [OF inv assms(2) _ _ that] assms(3) by simp
  qed (use core_ends [OF that(1)] in simp_all)
  obtain rid s where ck: "checkRID ok i msg (w_relay w) = (rid, s)" by fastforce
  note core = checkRID_core [OF ck]
  show ?thesis
  proof (cases rid)
    case None
    then show ?thesis using ck core fin pend by (simp add: publish_step_def)
  next
    case (Some r)
    then have s: "s = w_relay w" using core by simp
    let ?h = "w_handlers w ! i"
    obtain al rt where al: "allow now (sourceIP (h_addr ?h)) (PublishesPerIPPerMin (rl_limits s)) minute (rl_publishes s) = (al, rt)"
      by fastforce
    obtain ad t where ad: "addPending now r i (mg_Candidates msg) (h_addr ?h) (s\<lparr>rl_publishes := rt\<rparr>) = (ad, t)"
      by fastforce
    have t: "same_core (w_relay w) t" "pending_ok t" using addPending_core [OF ad] pend s by (auto simp: same_core_def)
    let ?m = "(msg_of MsgPublished)\<lparr>mg_RendezvousID := r, mg_Observed := h_addr ?h\<rparr>"
    let ?g = "?h\<lparr>h_published := h_published ?h @ [r]\<rparr>"
    define w1 where "w1 = set_handler i ?g (w\<lparr>w_relay := send_message ok i ?m t\<rparr>)"
    have w1: "w_handlers w1 = (w_handlers w)[i := ?g]" "map ends (rl_heap (w_relay w1)) = map ends (rl_heap (w_relay w))"
      "rl_tickets (w_relay w1) = rl_tickets (w_relay w)" "w_relay w1 = send_message ok i ?m t"
      using core_ends [OF t(1)] by (simp_all add: w1_def set_handler_def)
    have r1: "relay_inv w1" unfolding w1_def by (rule relay_inv_publish_handler [OF inv assms(2)]) (use t in simp_all)
    have parts: "tickets_once w" "spliced_once w" "places_ok w" using assms(1) by (simp_all add: ends_inv_def)
    have e1: "ends_inv w1" unfolding ends_inv_def
      using r1 tickets_move [OF inv parts(1) assms(2) w1(1,2)] spliced_move [OF inv parts(2) assms(2) w1(1,2)]
        places_move [OF parts(3) assms(2) w1(1,2)] w1(3) assms(3) by simp
    have "ends_inv (finish_handler i (w_relay w1) w1)"
    proof (rule ends_to(2) [OF e1])
      show "relay_inv (finish_handler i (w_relay w1) w1)"
        using r1 assms(2,3) by (intro finish_core) (auto simp: w1(1) relay_inv_def)
    qed (use assms(2) w1(1) in simp_all)
    then show ?thesis using ck Some al ad t fin pend s e1 w1(4)
      by (auto simp: publish_step_def Let_def w1_def split: bool.splits)
  qed
qed

lemma claim_ends:
  assumes "ends_inv w" "i < length (w_handlers w)" "h_phase (w_handlers w ! i) = Control"
  shows "ends_inv (claim_step ok ok2 i msg w)"
proof -
  have inv: "relay_inv w" using assms(1) by (simp add: ends_inv_def)
  have r: "relay_inv (claim_step ok ok2 i msg w)" by (rule claim_inv [OF inv assms(2,3)])
  obtain rid s where ck: "checkRID ok i msg (w_relay w) = (rid, s)" by fastforce
  note core = checkRID_core [OF ck]
  show ?thesis
  proof (cases "rid = None \<or> \<not> ok")
    case True
    then obtain t where t: "claim_step ok ok2 i msg w = finish_handler i t w" "same_core (w_relay w) t"
      using ck core by (auto simp: claim_step_def Let_def split: option.splits)
    show ?thesis unfolding t(1) by (rule ends_to(2) [OF assms(1,2)]) (use core_ends [OF t(2)] r t(1) in simp_all)
  next
    case False
    then obtain q where q: "rid = Some q" "ok" by auto
    then have s: "s = w_relay w" using core by simp
    obtain ph t where t: "claim_step ok ok2 i msg w = goto i ph t w" "rl_heap t = rl_heap (w_relay w)" "rl_tickets t = rl_tickets (w_relay w)"
      "ph = Control \<or> (\<exists>p. ph = PairClaimed q (mg_Candidates msg) p)"
    proof -
      let ?s1 = "send_message ok i ((msg_of MsgPublished)\<lparr>mg_RendezvousID := q, mg_Observed := h_addr (w_handlers w ! i)\<rparr>) s"
      obtain res s2 where pc: "pair_claim q i ?s1 = (res, s2)" by fastforce
      have s2: "rl_heap s2 = rl_heap (w_relay w)" "rl_tickets s2 = rl_tickets (w_relay w)"
        using pc s by (auto simp: pair_claim_def split: option.splits if_splits)
      show thesis
      proof (cases res)
        case (Inl e)
        then show ?thesis using that [of Control "refuse ok2 i q e s2"] ck q pc s2 by (simp add: claim_step_def Let_def)
      next
        case (Inr p)
        then show ?thesis using that [of "PairClaimed q (mg_Candidates msg) p" s2] ck q pc s2 by (simp add: claim_step_def Let_def)
      qed
    qed
    show ?thesis unfolding t(1) by (rule ends_to(1) [OF assms(1,2)]) (use t r assms(3) in auto)
  qed
qed

text \<open>A redeemed ticket is gone, and the handler that holds it is the only one at its end.\<close>

lemma redeem_tickets:
  assumes inv: "tickets_once w" and i: "i < length (w_handlers w)" and ref: "rl_tickets (w_relay w) t = Some ref"
    and w': "w_handlers w' = (w_handlers w)[i := (w_handlers w ! i)\<lparr>h_phase := Attaching ref\<rparr>]"
      "rl_heap (w_relay w') = rl_heap (w_relay w)" "rl_tickets (w_relay w') = (rl_tickets (w_relay w))(t := None)"
  shows "tickets_once w'"
proof -
  have free: "end_at (w_relay w) ref = None" "\<forall>h\<in>set (w_handlers w). h_phase h \<noteq> Attaching ref"
    and only: "\<And>u. rl_tickets (w_relay w) u = Some ref \<Longrightarrow> u = t"
    using inv ref unfolding tickets_once_def by blast+
  have old: "rl_tickets (w_relay w) u = Some q \<and> q \<noteq> ref" if "rl_tickets (w_relay w') u = Some q" for u q
    using that only by (auto simp: w'(3) split: if_splits)
  have same: "end_at (w_relay w') q = end_at (w_relay w) q" for q by (simp add: end_at_def w'(2))
  have phase: "h_phase (w_handlers w' ! j) = (if j = i then Attaching ref else h_phase (w_handlers w ! j))" for j
    using i by (simp add: w'(1))
  have len: "length (w_handlers w') = length (w_handlers w)" by (simp add: w'(1))
  have none: "h_phase (w_handlers w ! j) \<noteq> Attaching ref" if "j < length (w_handlers w)" for j using free(2) that by simp
  show ?thesis
    unfolding tickets_once_def same len
  proof (intro conjI allI impI ballI)
    fix u v q assume "rl_tickets (w_relay w') u = Some q" "rl_tickets (w_relay w') v = Some q"
    then show "u = v" using old inv unfolding tickets_once_def by blast
  next
    fix u q assume u: "rl_tickets (w_relay w') u = Some q"
    have f: "end_at (w_relay w) q = None" "\<forall>h\<in>set (w_handlers w). h_phase h \<noteq> Attaching q"
      using old [OF u] inv unfolding tickets_once_def by blast+
    show "end_at (w_relay w) q = None" by (rule f(1))
    show "h_phase h \<noteq> Attaching q" if "h \<in> set (w_handlers w')" for h
      using that f(2) old [OF u] unfolding w'(1) by (auto dest!: set_update_subset)
  next
    fix j q assume j: "j < length (w_handlers w)" "h_phase (w_handlers w' ! j) = Attaching q"
    show "end_at (w_relay w) q = None"
      using j free(1) inv unfolding phase tickets_once_def by (auto split: if_splits)
    show "k = j" if "k < length (w_handlers w)" "h_phase (w_handlers w' ! k) = Attaching q" for k
      using j that none [of j] none [of k] inv unfolding phase tickets_once_def by (auto split: if_splits)
  qed
qed

lemma redeem_ends:
  assumes "ends_inv w" "i < length (w_handlers w)" "h_phase (w_handlers w ! i) = Control"
  shows "ends_inv (redeem_step ok i msg w)"
proof -
  have inv: "relay_inv w" "tickets_once w" "spliced_once w" "places_ok w" using assms(1) by (simp_all add: ends_inv_def)
  have r: "relay_inv (redeem_step ok i msg w)" by (rule redeem_inv [OF inv(1) assms(2,3)])
  show ?thesis
  proof (cases "\<exists>b. decodeExact (mg_Ticket msg) TicketSize = Inr b \<and> rl_tickets (w_relay w) (mg_Ticket msg) \<noteq> None")
    case False
    then have "\<exists>e. redeem_step ok i msg w = finish_handler i (refuse ok i [] e (w_relay w)) w"
      by (cases "decodeExact (mg_Ticket msg) TicketSize") (auto simp: redeem_step_def Let_def)
    then obtain e where e: "redeem_step ok i msg w = finish_handler i (refuse ok i [] e (w_relay w)) w" by blast
    show ?thesis unfolding e by (rule ends_to(2) [OF assms(1,2)]) (use r e in simp_all)
  next
    case True
    then obtain ref where ref: "rl_tickets (w_relay w) (mg_Ticket msg) = Some ref" by blast
    let ?t = "mg_Ticket msg" and ?s = "(w_relay w)\<lparr>rl_tickets := (rl_tickets (w_relay w))(mg_Ticket msg := None)\<rparr>"
    define w' where "w' = goto i (Attaching ref) ?s w"
    have w': "w_handlers w' = (w_handlers w)[i := (w_handlers w ! i)\<lparr>h_phase := Attaching ref\<rparr>]" "rl_heap (w_relay w') = rl_heap (w_relay w)"
      "rl_tickets (w_relay w') = (rl_tickets (w_relay w))(?t := None)" by (simp_all add: w'_def)
    have step: "redeem_step ok i msg w = w'" using True ref by (auto simp: redeem_step_def Let_def w'_def)
    have "tickets_once w'" by (rule redeem_tickets [OF inv(2) assms(2) ref w'])
    moreover have "spliced_once w'" by (rule spliced_move [OF inv(1,3) assms(2) w'(1)]) (simp_all add: w'(2))
    moreover have "places_ok w'" by (rule places_move [OF inv(4) assms(2) w'(1)]) (simp_all add: w'(2) assms(3))
    ultimately show ?thesis using r unfolding step ends_inv_def by simp
  qed
qed

text \<open>The three parts when a circuit is added with its two tickets.\<close>

lemma issue_tickets:
  assumes inv: "relay_inv w" "tickets_once w" and i: "i < length (w_handlers w)"
    and hs: "w_handlers w' = (w_handlers w)[i := h]" and ph: "\<And>r. h_phase h \<noteq> Attaching r"
    and heap: "rl_heap (w_relay w') = rl_heap (w_relay w) @ [v]" and c: "c = length (rl_heap (w_relay w))"
    and tk: "rl_tickets (w_relay w') =
      (rl_tickets (w_relay w))(tA \<mapsto> \<lparr>tr_circuit = c, tr_side = 0\<rparr>, tB \<mapsto> \<lparr>tr_circuit = c, tr_side = 1\<rparr>)"
    and v: "ci_conns v = [None, None]"
  shows "tickets_once w'"
proof -
  have same: "end_at (w_relay w') r = end_at (w_relay w) r" if "tr_circuit r < c" for r
    using that by (simp add: end_at_def heap nth_append c)
  have new: "end_at (w_relay w') r = None" if "tr_circuit r = c" "tr_side r < 2" for r
    using that by (auto simp: end_at_def heap nth_append c v less_2_cases_iff)
  have split: "rl_tickets (w_relay w) t = Some r \<and> tr_circuit r < c \<or> tr_circuit r = c \<and> tr_side r < 2 \<and>
      t = (if tr_side r = 0 then tA else tB)" if "rl_tickets (w_relay w') t = Some r" for t r
    using that inv_range(1) [OF inv(1)] by (auto simp: tk c split: if_splits)
  have att: "h_phase (w_handlers w ! j) = Attaching r" if "h_phase (w_handlers w' ! j) = Attaching r" for j r
    using phase_update [OF i] that ph unfolding hs by metis
  have len: "length (w_handlers w') = length (w_handlers w)" by (simp add: hs)
  have range: "tr_circuit r < c" if "j < length (w_handlers w)" "h_phase (w_handlers w ! j) = Attaching r" for j r
    using inv_range(2) [OF inv(1) that] c by simp
  show ?thesis unfolding tickets_once_def
  proof (intro conjI allI impI ballI)
    fix t u r assume t: "rl_tickets (w_relay w') t = Some r" and u: "rl_tickets (w_relay w') u = Some r"
    show "t = u" using split [OF t] split [OF u] inv(2) unfolding tickets_once_def by auto
  next
    fix t r assume t: "rl_tickets (w_relay w') t = Some r"
    show "end_at (w_relay w') r = None" using split [OF t] same new inv(2) unfolding tickets_once_def by auto
    show "h_phase g \<noteq> Attaching r" if g: "g \<in> set (w_handlers w')" for g
    proof
      assume "h_phase g = Attaching r"
      then obtain j where j: "j < length (w_handlers w)" "h_phase (w_handlers w ! j) = Attaching r"
        using g att len by (metis in_set_conv_nth)
      then show False using split [OF t] range [OF j] inv(2) nth_mem [OF j(1)] unfolding tickets_once_def by auto
    qed
  next
    fix j r assume j: "j < length (w_handlers w')" "h_phase (w_handlers w' ! j) = Attaching r"
    then have j': "j < length (w_handlers w)" "h_phase (w_handlers w ! j) = Attaching r" using att len by auto
    show "end_at (w_relay w') r = None" using same [OF range [OF j']] inv(2) j' unfolding tickets_once_def by auto
    show "k = j" if "k < length (w_handlers w')" "h_phase (w_handlers w' ! k) = Attaching r" for k
      using that att len j' inv(2) unfolding tickets_once_def by auto
  qed
qed

lemma issue_spliced:
  assumes inv: "relay_inv w" "spliced_once w" and i: "i < length (w_handlers w)"
    and hs: "w_handlers w' = (w_handlers w)[i := h]" and ph: "\<And>c. h_phase h \<noteq> Splicing c"
    and heap: "rl_heap (w_relay w') = rl_heap (w_relay w) @ [v]" and c: "c = length (rl_heap (w_relay w))"
    and v: "\<not> ci_started v"
  shows "spliced_once w'"
proof -
  have spl: "h_phase (w_handlers w ! j) = Splicing d" if "h_phase (w_handlers w' ! j) = Splicing d" for j d
    using phase_update [OF i] that ph unfolding hs by metis
  have len: "length (w_handlers w') = length (w_handlers w)" by (simp add: hs)
  have D: "\<And>u. u \<in> set (rl_heap (w_relay w)) \<Longrightarrow> ci_started u \<Longrightarrow> ci_conns u ! 0 \<noteq> None \<and> ci_conns u ! 1 \<noteq> None"
    using inv(2) unfolding spliced_once_def by blast
  have E: "ci_started (rl_heap (w_relay w) ! d)" "\<And>k. k < length (w_handlers w) \<Longrightarrow> h_phase (w_handlers w ! k) = Splicing d \<Longrightarrow> k = j"
    if "j < length (w_handlers w)" "h_phase (w_handlers w ! j) = Splicing d" for j d
    using inv(2) that unfolding spliced_once_def by blast+
  show ?thesis unfolding spliced_once_def
  proof (intro conjI allI impI ballI)
    fix u assume u: "u \<in> set (rl_heap (w_relay w'))" "ci_started u"
    then have "u \<in> set (rl_heap (w_relay w))" using v by (auto simp: heap)
    then show "ci_conns u ! 0 \<noteq> None" "ci_conns u ! 1 \<noteq> None" using D u(2) by blast+
  next
    fix j d assume j: "j < length (w_handlers w')" "h_phase (w_handlers w' ! j) = Splicing d"
    then have j': "j < length (w_handlers w)" "h_phase (w_handlers w ! j) = Splicing d" using spl len by auto
    show "ci_started (rl_heap (w_relay w') ! d)"
      using inv_range(3) [OF inv(1) j'] E(1) [OF j'] by (simp add: heap nth_append)
    show "k = j" if "k < length (w_handlers w')" "h_phase (w_handlers w' ! k) = Splicing d" for k
      using E(2) [OF j'] that spl len by simp
  qed
qed

lemma issue_places:
  assumes inv: "places_ok w" and i: "i < length (w_handlers w)"
    and hs: "w_handlers w' = (w_handlers w)[i := h]" and old: "\<And>c. \<not> attached_phase c (h_phase (w_handlers w ! i))"
    and heap: "rl_heap (w_relay w') = rl_heap (w_relay w) @ [v]" and c: "c = length (rl_heap (w_relay w))"
    and v: "ci_conns v = [None, None]"
  shows "places_ok w'"
  unfolding places_ok_def
proof (intro conjI allI impI ballI)
  fix d k j assume a: "d < length (rl_heap (w_relay w'))" "k < (2 :: nat)" "ci_conns (rl_heap (w_relay w') ! d) ! k = Some j"
  then have d: "d < length (rl_heap (w_relay w))" using v by (auto simp: heap nth_append less_Suc_eq less_2_cases_iff split: if_splits)
  then have j: "j < length (w_handlers w)" "attached_phase d (h_phase (w_handlers w ! j))"
    using a inv unfolding places_ok_def heap by (auto simp: nth_append)
  then show "j < length (w_handlers w')" "attached_phase d (h_phase (w_handlers w' ! j))" using old by (cases "j = i"; simp add: hs)+
next
  fix u j assume "u \<in> set (rl_heap (w_relay w'))"
  then show "\<not> (ci_conns u ! 0 = Some j \<and> ci_conns u ! 1 = Some j)" using inv v unfolding places_ok_def heap by auto
qed

lemma issue_ends:
  assumes "ends_inv w" "i < length (w_handlers w)"
  shows "ends_inv (issue_step now rndA rndB ok i w)"
proof (cases "h_phase (w_handlers w ! i)")
  case (PairClaimed rid sealed p)
  have inv: "relay_inv w" "tickets_once w" "spliced_once w" "places_ok w" using assms(1) by (simp_all add: ends_inv_def)
  have r: "relay_inv (issue_step now rndA rndB ok i w)" by (rule issue_inv [OF inv(1) assms(2)])
  obtain res s where pi: "pair_issue now rndA rndB (w_relay w) = (res, s)" by fastforce
  show ?thesis
  proof (cases res)
    case (Inl e)
    then have s: "s = releaseCircuit (w_relay w)" using pi by (auto simp: pair_issue_def Let_def split: sum.splits)
    have step: "issue_step now rndA rndB ok i w = goto i Control (refuse ok i rid e s) w"
      using PairClaimed pi Inl by (simp add: issue_step_def)
    show ?thesis unfolding step by (rule ends_to(1) [OF assms]) (use r step s PairClaimed in simp_all)
  next
    case (Inr x)
    obtain c tA tB where x: "x = (c, tA, tB)" by (cases x)
    let ?A = "\<lparr>tr_circuit = c, tr_side = 0\<rparr>" and ?B = "\<lparr>tr_circuit = c, tr_side = 1\<rparr>"
    let ?v = "\<lparr>ci_conns = [None, None], ci_started = False, ci_created = now, ci_done = False, ci_released = False\<rparr>"
    let ?ph = "PairIssued rid sealed p c tA tB"
    define w' where "w' = goto i ?ph s w"
    have s: "c = length (rl_heap (w_relay w))" "rl_heap s = rl_heap (w_relay w) @ [?v]" "rl_tickets s = (rl_tickets (w_relay w))(tA \<mapsto> ?A, tB \<mapsto> ?B)"
      using pi Inr x by (auto simp: pair_issue_def Let_def split: sum.splits)
    have step: "issue_step now rndA rndB ok i w = w'" using PairClaimed pi Inr x by (simp add: issue_step_def w'_def)
    have w': "w_relay w' = s" "w_handlers w' = (w_handlers w)[i := (w_handlers w ! i)\<lparr>h_phase := ?ph\<rparr>]" by (simp_all add: w'_def)
    have "tickets_once w'" by (rule issue_tickets [where v = ?v, OF inv(1,2) assms(2) w'(2) _ _ s(1)]) (simp_all add: w'(1) s(2,3))
    moreover have "spliced_once w'" by (rule issue_spliced [where v = ?v, OF inv(1,3) assms(2) w'(2) _ _ s(1)]) (simp_all add: w'(1) s(2))
    moreover have "places_ok w'" by (rule issue_places [where v = ?v, OF inv(4) assms(2) w'(2) _ _ s(1)]) (simp_all add: w'(1) s(2) PairClaimed)
    ultimately show ?thesis using r unfolding step ends_inv_def by simp
  qed
qed (use assms in \<open>simp_all add: issue_step_def\<close>)

text \<open>The three parts when a connection takes the end it holds the spent ticket of.\<close>

lemma attach_tickets:
  assumes inv: "relay_inv w" "tickets_once w" and i: "i < length (w_handlers w)" "h_phase (w_handlers w ! i) = Attaching ref"
    and hs: "w_handlers w' = (w_handlers w)[i := h]" and ph: "\<And>r. h_phase h \<noteq> Attaching r"
    and heap: "rl_heap (w_relay w') = (rl_heap (w_relay w))[tr_circuit ref := v]"
    and v: "ci_conns v = (ci_conns (rl_heap (w_relay w) ! tr_circuit ref))[tr_side ref := x]"
    and tk: "rl_tickets (w_relay w') = rl_tickets (w_relay w)"
  shows "tickets_once w'"
proof -
  have ends_A: "end_at (w_relay w) r = None" "\<And>k. k < length (w_handlers w) \<Longrightarrow> h_phase (w_handlers w ! k) = Attaching r \<Longrightarrow> k = j"
    if "j < length (w_handlers w)" "h_phase (w_handlers w ! j) = Attaching r" for j r
    using inv(2) that unfolding tickets_once_def by blast+
  have ends_T: "end_at (w_relay w) r = None" "\<And>g. g \<in> set (w_handlers w) \<Longrightarrow> h_phase g \<noteq> Attaching r"
    if "rl_tickets (w_relay w) t = Some r" for t r
    using inv(2) that unfolding tickets_once_def by blast+
  have c: "tr_circuit ref < length (rl_heap (w_relay w))" using inv_range(2) [OF inv(1) i] by simp
  have same: "end_at (w_relay w') r = end_at (w_relay w) r" if "r \<noteq> ref" for r
  proof (cases "tr_circuit r = tr_circuit ref")
    case True
    then have "tr_side r \<noteq> tr_side ref" using that by (cases r; cases ref) auto
    then show ?thesis using True c by (simp add: end_at_def heap v)
  qed (simp add: end_at_def heap)
  have att: "j \<noteq> i \<and> j < length (w_handlers w) \<and> h_phase (w_handlers w ! j) = Attaching r"
    if "j < length (w_handlers w')" "h_phase (w_handlers w' ! j) = Attaching r" for j r
    using that ph i(1) by (cases "j = i") (simp_all add: hs)
  show ?thesis unfolding tickets_once_def tk
  proof (intro conjI allI impI ballI)
    fix t u r assume "rl_tickets (w_relay w) t = Some r" "rl_tickets (w_relay w) u = Some r"
    then show "t = u" using inv(2) unfolding tickets_once_def by blast
  next
    fix t r assume t: "rl_tickets (w_relay w) t = Some r"
    then have "r \<noteq> ref" using ends_T(2) nth_mem [OF i(1)] i(2) by blast
    then show "end_at (w_relay w') r = None" using ends_T(1) [OF t] same by simp
    show "h_phase g \<noteq> Attaching r" if "g \<in> set (w_handlers w')" for g
      using that ends_T(2) [OF t] ph unfolding hs by (auto dest!: set_update_subset)
  next
    fix j r assume j: "j < length (w_handlers w')" "h_phase (w_handlers w' ! j) = Attaching r"
    have "r \<noteq> ref" using att [OF j] ends_A(2) [OF i] by blast
    then show "end_at (w_relay w') r = None" using att [OF j] ends_A(1) [of j r] same by simp
    show "k = j" if "k < length (w_handlers w')" "h_phase (w_handlers w' ! k) = Attaching r" for k
      using att [OF j] att [OF that] ends_A(2) by blast
  qed
qed

lemma attach_spliced:
  assumes inv: "relay_inv w" "tickets_once w" "spliced_once w" and i: "i < length (w_handlers w)" "h_phase (w_handlers w ! i) = Attaching ref"
    and hs: "w_handlers w' = (w_handlers w)[i := h]"
    and heap: "rl_heap (w_relay w') = (rl_heap (w_relay w))[tr_circuit ref := v]"
    and v: "ci_conns v = (ci_conns (rl_heap (w_relay w) ! tr_circuit ref))[tr_side ref := Some i]"
    and st: "ci_started v \<Longrightarrow> \<not> ci_started (rl_heap (w_relay w) ! tr_circuit ref) \<Longrightarrow> ci_conns v ! (1 - tr_side ref) \<noteq> None"
    and ph: "\<And>c. h_phase h = Splicing c \<Longrightarrow> c = tr_circuit ref \<and> ci_started v"
  shows "spliced_once w'"
proof -
  let ?c = "tr_circuit ref"
  have rng: "?c < length (rl_heap (w_relay w))" "tr_side ref < 2" using inv_range(2) [OF inv(1) i] by simp_all
  then have two: "length (ci_conns (rl_heap (w_relay w) ! ?c)) = 2" using inv_range(4) [OF inv(1)] by simp
  have D: "\<And>u. u \<in> set (rl_heap (w_relay w)) \<Longrightarrow> ci_started u \<Longrightarrow> ci_conns u ! 0 \<noteq> None \<and> ci_conns u ! 1 \<noteq> None"
    using inv(3) unfolding spliced_once_def by blast
  have E: "ci_started (rl_heap (w_relay w) ! d)" "\<And>k. k < length (w_handlers w) \<Longrightarrow> h_phase (w_handlers w ! k) = Splicing d \<Longrightarrow> k = j"
    if "j < length (w_handlers w)" "h_phase (w_handlers w ! j) = Splicing d" for j d
    using inv(3) that unfolding spliced_once_def by blast+
  have "end_at (w_relay w) ref = None" using inv(2) i unfolding tickets_once_def by blast
  then have idle: "\<not> ci_started (rl_heap (w_relay w) ! ?c)"
    using D [OF nth_mem [OF rng(1)]] rng(2) by (auto simp: end_at_def less_2_cases_iff)
  have spl: "j = i \<and> d = ?c \<and> ci_started v \<or> j \<noteq> i \<and> d \<noteq> ?c \<and> j < length (w_handlers w) \<and> h_phase (w_handlers w ! j) = Splicing d"
    if "j < length (w_handlers w')" "h_phase (w_handlers w' ! j) = Splicing d" for j d
    using that i(1) ph E(1) [of j d] idle by (cases "j = i") (auto simp: hs)
  show ?thesis unfolding spliced_once_def
  proof (intro conjI allI impI ballI)
    fix u assume u: "u \<in> set (rl_heap (w_relay w'))" "ci_started u"
    have "ci_conns u ! 0 \<noteq> None \<and> ci_conns u ! 1 \<noteq> None"
    proof (cases "u = v")
      case True
      then show ?thesis using st idle u(2) rng(2) two by (auto simp: v less_2_cases_iff)
    next
      case False
      then have "u \<in> set (rl_heap (w_relay w))" using u(1) unfolding heap by (auto dest!: set_update_subset)
      then show ?thesis using D u(2) by blast
    qed
    then show "ci_conns u ! 0 \<noteq> None" "ci_conns u ! 1 \<noteq> None" by blast+
  next
    fix j d assume j: "j < length (w_handlers w')" "h_phase (w_handlers w' ! j) = Splicing d"
    show "ci_started (rl_heap (w_relay w') ! d)" using spl [OF j] E(1) rng(1) by (auto simp: heap)
    show "k = j" if "k < length (w_handlers w')" "h_phase (w_handlers w' ! k) = Splicing d" for k
      using spl [OF j] spl [OF that] E(2) by blast
  qed
qed

lemma attach_places:
  assumes inv: "relay_inv w" "places_ok w" and i: "i < length (w_handlers w)" "h_phase (w_handlers w ! i) = Attaching ref"
    and hs: "w_handlers w' = (w_handlers w)[i := h]"
    and heap: "rl_heap (w_relay w') = (rl_heap (w_relay w))[tr_circuit ref := v]"
    and v: "ci_conns v = (ci_conns (rl_heap (w_relay w) ! tr_circuit ref))[tr_side ref := Some i]"
    and ph: "attached_phase (tr_circuit ref) (h_phase h)"
  shows "places_ok w'"
proof -
  let ?c = "tr_circuit ref"
  have rng: "?c < length (rl_heap (w_relay w))" "tr_side ref < 2" using inv_range(2) [OF inv(1) i] by simp_all
  then have two: "length (ci_conns (rl_heap (w_relay w) ! ?c)) = 2" using inv_range(4) [OF inv(1)] by simp
  have F: "j < length (w_handlers w) \<and> attached_phase d (h_phase (w_handlers w ! j)) \<and> j \<noteq> i"
    if "d < length (rl_heap (w_relay w))" "k < 2" "ci_conns (rl_heap (w_relay w) ! d) ! k = Some j" for d k j
    using inv(2) that i(2) unfolding places_ok_def by fastforce
  show ?thesis unfolding places_ok_def
  proof (intro conjI allI impI ballI)
    fix d k j assume a: "d < length (rl_heap (w_relay w'))" "k < (2 :: nat)" "ci_conns (rl_heap (w_relay w') ! d) ! k = Some j"
    have d: "d < length (rl_heap (w_relay w))" using a(1) by (simp add: heap)
    consider "d = ?c" "j = i" | "j \<noteq> i" "ci_conns (rl_heap (w_relay w) ! d) ! k = Some j"
      using a(2,3) d two F [OF d a(2)] by (cases "d = ?c"; cases "k = tr_side ref") (auto simp: heap v)
    then have "j < length (w_handlers w') \<and> attached_phase d (h_phase (w_handlers w' ! j))"
      by cases (use i(1) ph F [OF d a(2)] in \<open>auto simp: hs\<close>)
    then show "j < length (w_handlers w')" "attached_phase d (h_phase (w_handlers w' ! j))" by blast+
  next
    fix u j assume u: "u \<in> set (rl_heap (w_relay w'))"
    show "\<not> (ci_conns u ! 0 = Some j \<and> ci_conns u ! 1 = Some j)"
    proof (cases "u = v")
      case True
      then show ?thesis using F [OF rng(1), of 0 i] F [OF rng(1), of 1 i] rng(2) two by (auto simp: v less_2_cases_iff)
    next
      case False
      then have "u \<in> set (rl_heap (w_relay w))" using u unfolding heap by (auto dest!: set_update_subset)
      then show ?thesis using inv(2) unfolding places_ok_def by blast
    qed
  qed
qed

lemma attach_ends:
  assumes "ends_inv w" "i < length (w_handlers w)"
  shows "ends_inv (attach_step ok i w)"
proof (cases "h_phase (w_handlers w ! i)")
  case (Attaching ref)
  have inv: "relay_inv w" "tickets_once w" "spliced_once w" "places_ok w" using assms(1) by (simp_all add: ends_inv_def)
  have r: "relay_inv (attach_step ok i w)" by (rule attach_inv [OF inv(1) assms(2)])
  let ?c = "tr_circuit ref" and ?s = "send_message ok i (msg_of MsgCircuitOK) (w_relay w)"
  let ?v = "(rl_heap (w_relay w) ! ?c)\<lparr>ci_conns := (ci_conns (rl_heap (w_relay w) ! ?c))[tr_side ref := Some i]\<rparr>"
  let ?both = "ci_conns ?v ! (1 - tr_side ref) \<noteq> None \<and> \<not> ci_started ?v"
  show ?thesis
  proof (cases ok)
    case False
    have step: "attach_step ok i w = finish_handler i ?s w" using Attaching False by (simp add: attach_step_def)
    show ?thesis unfolding step by (rule ends_to(2) [OF assms]) (use r step in simp_all)
  next
    case True
    define ph v where "ph = (if ?both then Splicing ?c else Waiting ?c)" and "v = (if ?both then ?v\<lparr>ci_started := True\<rparr> else ?v)"
    have step: "attach_step ok i w = goto i ph (set_circuit ?c v ?s) w"
      using Attaching True by (auto simp: attach_step_def Let_def ph_def v_def)
    define w' where "w' = goto i ph (set_circuit ?c v ?s) w"
    have w': "w_handlers w' = (w_handlers w)[i := (w_handlers w ! i)\<lparr>h_phase := ph\<rparr>]" "rl_heap (w_relay w') = (rl_heap (w_relay w))[?c := v]"
      "rl_tickets (w_relay w') = rl_tickets (w_relay w)" by (simp_all add: w'_def)
    have v: "ci_conns v = (ci_conns (rl_heap (w_relay w) ! ?c))[tr_side ref := Some i]" by (simp add: v_def)
    have "tickets_once w'" by (rule attach_tickets [OF inv(1,2) assms(2) Attaching w'(1) _ w'(2) v w'(3)]) (simp add: ph_def)
    moreover have "spliced_once w'"
      by (rule attach_spliced [OF inv(1-3) assms(2) Attaching w'(1,2) v]) (auto simp: v_def ph_def split: if_splits)
    moreover have "places_ok w'"
      by (rule attach_places [OF inv(1,4) assms(2) Attaching w'(1,2) v]) (simp add: ph_def attached_phase_def)
    ultimately show ?thesis using r unfolding step w'_def ends_inv_def by simp
  qed
qed (use assms in \<open>simp_all add: attach_step_def\<close>)

lemma notify_ends:
  assumes "ends_inv w" "i < length (w_handlers w)"
  shows "ends_inv (notify_step pubOk claimOk i w)"
proof (cases "h_phase (w_handlers w ! i)")
  case (PairIssued rid sealed p c tA tB)
  have r: "relay_inv (notify_step pubOk claimOk i w)" using notify_inv assms by (simp add: ends_inv_def)
  obtain res s where pn: "pair_notify pubOk claimOk rid i sealed (h_addr (w_handlers w ! i)) p c tA tB (w_relay w) = (res, s)"
    by fastforce
  obtain t where t: "same_core (w_relay w) t" "s = t \<or> s = dropCircuit_tickets [tA, tB] t"
    using pair_notify_state [OF pn] by auto
  have s: "map ends (rl_heap s) = map ends (rl_heap (w_relay w))" "\<And>u r. rl_tickets s u = Some r \<Longrightarrow> rl_tickets (w_relay w) u = Some r"
    using t core_ends [OF t(1)] by (auto simp: dropCircuit_tickets_def split: if_splits)
  obtain ph where step: "notify_step pubOk claimOk i w = goto i ph s w" "ph = Control \<or> (\<exists>e. ph = PairFailed rid e c)"
    using PairIssued pn by (cases res) (auto simp: notify_step_def)
  show ?thesis unfolding step(1) by (rule ends_to(1) [OF assms]) (use r step s PairIssued in auto)
qed (use assms in \<open>simp_all add: notify_step_def\<close>)

lemma unpair_ends:
  assumes "ends_inv w" "i < length (w_handlers w)"
  shows "ends_inv (unpair_step ok i w)"
proof (cases "h_phase (w_handlers w ! i)")
  case (PairFailed rid e c)
  have "relay_inv (unpair_step ok i w)" using unpair_inv assms by (simp add: ends_inv_def)
  then show ?thesis using PairFailed ends_to(1) [OF assms, of "refuse ok i rid e (releaseOnce c (w_relay w))" Control]
    by (simp add: unpair_step_def)
qed (use assms in \<open>simp_all add: unpair_step_def\<close>)

text \<open>The first and the last steps of a handler.\<close>

lemma upgrade_ends:
  assumes "ends_inv w" "i < length (w_handlers w)"
  shows "ends_inv (upgrade_step up i w)"
proof (cases "h_phase (w_handlers w ! i)")
  case Upgrading
  have "relay_inv (upgrade_step up i w)" using upgrade_inv assms by (simp add: ends_inv_def)
  then show ?thesis using Upgrading ends_to(1) [OF assms, of "w_relay w" "if up then Control else Closing []"]
    by (simp add: upgrade_step_def)
qed (use assms in \<open>simp_all add: upgrade_step_def\<close>)

lemma defer_ends:
  assumes "ends_inv w" "i < length (w_handlers w)"
  shows "ends_inv (defer_step i w)"
proof (cases "h_phase (w_handlers w ! i)")
  case (Closing rids)
  have r: "relay_inv (defer_step i w)" using defer_inv assms by (simp add: ends_inv_def)
  obtain ph s where step: "defer_step i w = goto i ph s w" "ph = Ended \<or> (\<exists>rids. ph = Closing rids)"
    "rl_heap s = rl_heap (w_relay w)" "rl_tickets s = rl_tickets (w_relay w)"
    using Closing by (cases rids) (auto simp: defer_step_def)
  show ?thesis unfolding step(1) by (rule ends_to(1) [OF assms]) (use r step in \<open>auto simp: attached_phase_def\<close>)
qed (use assms in \<open>simp_all add: defer_step_def\<close>)

lemma wait_ends:
  assumes "ends_inv w" "i < length (w_handlers w)"
  shows "ends_inv (wait_done_step i w)" "ends_inv (wait_idle_step i w)" "ends_inv (wait_closed_step i w)"
    "ends_inv (splice_end_step i w)"
proof -
  have inv: "relay_inv w" using assms(1) by (simp add: ends_inv_def)
  have r: "relay_inv (wait_done_step i w)" "relay_inv (wait_idle_step i w)" "relay_inv (wait_closed_step i w)"
    "relay_inv (splice_end_step i w)" by (rule wait_inv [OF inv assms(2)])+
  have fin: "relay_inv (finish_handler i s w) \<Longrightarrow> ends_inv (finish_handler i s w)"
    if "map ends (rl_heap s) = map ends (rl_heap (w_relay w))" "rl_tickets s = rl_tickets (w_relay w)" for s
    using that by (intro ends_to(2) [OF assms]) simp_all
  show "ends_inv (wait_done_step i w)" "ends_inv (wait_idle_step i w)" "ends_inv (wait_closed_step i w)"
    using r(1-3) assms(1) fin unfolding wait_done_step_def wait_idle_step_def wait_closed_step_def
    by (auto split: phase.splits)
  show "ends_inv (splice_end_step i w)"
    using r(4) assms(1) fin unfolding splice_end_step_def Let_def by (auto split: phase.splits)
qed

lemma ends_step: "ends_inv w \<Longrightarrow> ends_inv (relay_step x w)"
proof -
  assume e: "ends_inv w"
  then have inv: "relay_inv w" by (simp add: ends_inv_def)
  have acc: "ends_inv (serveHTTP_step addr w)" for addr
  proof -
    have "\<exists>hs. w_handlers (serveHTTP_step addr w) = w_handlers w @ hs \<and> (\<forall>h\<in>set hs. h_phase h = Upgrading)"
      by (auto simp: serveHTTP_step_def Let_def acquireIP_def)
    then obtain hs where hs: "w_handlers (serveHTTP_step addr w) = w_handlers w @ hs" "\<forall>h\<in>set hs. h_phase h = Upgrading"
      by blast
    have "rl_heap (w_relay (serveHTTP_step addr w)) = rl_heap (w_relay w)"
      "rl_tickets (w_relay (serveHTTP_step addr w)) = rl_tickets (w_relay w)"
      by (auto simp: serveHTTP_step_def Let_def acquireIP_def)
    then show ?thesis using ends_arrive [OF e accept_inv [OF inv] hs] by simp
  qed
  have rp: "ends_inv (w\<lparr>w_relay := reap now (w_relay w)\<rparr>)" for now
    by (rule ends_arrive [OF e reap_inv [OF inv], of _ "[]"]) (auto simp: reap_def Let_def split: option.splits if_splits)
  have cl: "ends_inv (w\<lparr>w_relay := relay_Close (w_relay w)\<rparr>)"
    by (rule ends_arrive [OF e _, of _ "[]"]) (use relay_step_inv [OF inv, of OpClose] in \<open>auto simp: relay_Close_def\<close>)
  have sc: "ends_inv (serveConn_step now ok ok2 i recv w)" if c: "i < length (w_handlers w)" "h_phase (w_handlers w ! i) = Control" for now ok ok2 i recv
  proof -
    have "ends_inv (finish_handler i t w)" if "same_core (w_relay w) t" "pending_ok t" for t
      by (rule ends_to(2) [OF e c(1)]) (use core_ends [OF that(1)] finish_core [OF inv c(1) _ _ that] c(2) in simp_all)
    then show ?thesis using publish_ends [OF e c] claim_ends [OF e c] redeem_ends [OF e c] inv
      by (auto simp: serveConn_step_def relay_inv_def split: option.splits)
  qed
  show ?thesis
    by (cases x) (auto simp: on_handler_def e acc rp cl sc issue_ends notify_ends unpair_ends upgrade_ends defer_ends attach_ends wait_ends)
qed

interpretation ends_sys: op_system relay_step ends_inv
  by unfold_locales (rule ends_step)

lemma ends_start: "ends_inv (relay_start l)"
  using relay_start_inv [of l]
  by (simp add: ends_inv_def tickets_once_def spliced_once_def places_ok_def relay_start_def relay_New_def)

lemma ends_run: "ends_inv (relay_run ops (relay_start l))"
  unfolding relay_run_def by (rule ends_sys.run_inv [OF ends_start])

section \<open>Ends are never reassigned\<close>

definition ends_kept :: "world \<Rightarrow> world \<Rightarrow> bool" where
  "ends_kept w w' \<longleftrightarrow> length (rl_heap (w_relay w)) \<le> length (rl_heap (w_relay w')) \<and>
     (\<forall>c < length (rl_heap (w_relay w)). \<forall>k i. k < 2 \<longrightarrow> ci_conns (rl_heap (w_relay w) ! c) ! k = Some i \<longrightarrow>
        ci_conns (rl_heap (w_relay w') ! c) ! k = Some i)"

lemma kept_if_ends: "map ends (rl_heap (w_relay w')) = map ends (rl_heap (w_relay w)) @ extra \<Longrightarrow> ends_kept w w'"
proof -
  assume a: "map ends (rl_heap (w_relay w')) = map ends (rl_heap (w_relay w)) @ extra"
  have l: "length (rl_heap (w_relay w')) = length (rl_heap (w_relay w)) + length extra" using arg_cong [OF a, of length] by simp
  have "ci_conns (rl_heap (w_relay w') ! c) = ci_conns (rl_heap (w_relay w) ! c)" if "c < length (rl_heap (w_relay w))" for c
    using arg_cong [OF a, of "\<lambda>x. x ! c"] that l by (simp add: nth_append ends_def)
  then show ?thesis using l by (simp add: ends_kept_def)
qed

lemma heap_publish: "rl_heap (w_relay (publish_step now ok i msg w)) = rl_heap (w_relay w)"
proof -
  obtain rid s where ck: "checkRID ok i msg (w_relay w) = (rid, s)" by fastforce
  let ?h = "w_handlers w ! i"
  obtain al rt where al: "allow now (sourceIP (h_addr ?h)) (PublishesPerIPPerMin (rl_limits s)) minute (rl_publishes s) = (al, rt)"
    by fastforce
  obtain ad t where ad: "addPending now (the rid) i (mg_Candidates msg) (h_addr ?h) (s\<lparr>rl_publishes := rt\<rparr>) = (ad, t)"
    by fastforce
  have "rl_heap s = rl_heap (w_relay w)" using checkRID_core [OF ck] by (simp add: same_core_def)
  moreover have "rl_heap t = rl_heap s" using ad by (auto simp: addPending_def split: if_splits)
  ultimately show ?thesis using ck al ad
    by (cases rid; cases al; cases ad) (simp_all add: publish_step_def Let_def set_handler_def)
qed

lemma heap_claim: "rl_heap (w_relay (claim_step ok ok2 i msg w)) = rl_heap (w_relay w)"
proof -
  obtain rid s where ck: "checkRID ok i msg (w_relay w) = (rid, s)" by fastforce
  let ?s1 = "send_message ok i ((msg_of MsgPublished)\<lparr>mg_RendezvousID := the rid, mg_Observed := h_addr (w_handlers w ! i)\<rparr>) s"
  obtain res t where pc: "pair_claim (the rid) i ?s1 = (res, t)" by fastforce
  have "rl_heap s = rl_heap (w_relay w)" using checkRID_core [OF ck] by (simp add: same_core_def)
  moreover have "rl_heap t = rl_heap ?s1" using pc by (auto simp: pair_claim_def split: option.splits if_splits)
  ultimately show ?thesis using ck pc by (cases rid; cases ok; cases res) (simp_all add: claim_step_def Let_def)
qed

lemma heap_redeem: "rl_heap (w_relay (redeem_step ok i msg w)) = rl_heap (w_relay w)"
  by (cases "decodeExact (mg_Ticket msg) TicketSize"; cases "rl_tickets (w_relay w) (mg_Ticket msg)")
    (simp_all add: redeem_step_def Let_def)

lemma heap_serveConn: "rl_heap (w_relay (serveConn_step now ok ok2 i recv w)) = rl_heap (w_relay w)"
  by (cases recv) (simp_all add: serveConn_step_def heap_publish heap_claim heap_redeem)

lemma heap_other:
  "rl_heap (w_relay (serveHTTP_step addr w)) = rl_heap (w_relay w)"
  "map ends (rl_heap (w_relay (notify_step a b i w))) = map ends (rl_heap (w_relay w))"
  "map ends (rl_heap (w_relay (unpair_step ok i w))) = map ends (rl_heap (w_relay w))"
  "rl_heap (w_relay (upgrade_step up i w)) = rl_heap (w_relay w)"
  "rl_heap (w_relay (defer_step i w)) = rl_heap (w_relay w)"
  "map ends (rl_heap (w_relay (wait_done_step i w))) = map ends (rl_heap (w_relay w))"
  "map ends (rl_heap (w_relay (wait_idle_step i w))) = map ends (rl_heap (w_relay w))"
  "map ends (rl_heap (w_relay (wait_closed_step i w))) = map ends (rl_heap (w_relay w))"
  "map ends (rl_heap (w_relay (splice_end_step i w))) = map ends (rl_heap (w_relay w))"
proof -
  show "map ends (rl_heap (w_relay (notify_step a b i w))) = map ends (rl_heap (w_relay w))"
    by (auto simp: notify_step_def pair_notify_def dropCircuit_tickets_def Let_def split: phase.splits prod.splits sum.splits if_splits)
qed (auto simp: serveHTTP_step_def Let_def acquireIP_def wait_done_step_def wait_idle_step_def wait_closed_step_def
    splice_end_step_def unpair_step_def upgrade_step_def defer_step_def split: phase.splits list.splits)

lemma issue_heap: "\<exists>extra. map ends (rl_heap (w_relay (issue_step now a b ok i w))) = map ends (rl_heap (w_relay w)) @ extra"
  by (auto simp: issue_step_def pair_issue_def Let_def split: phase.splits prod.splits sum.splits if_splits)

lemma kept_step:
  assumes "ends_inv w"
  shows "ends_kept w (relay_step x w)"
proof (cases x)
  case (OpAttach i ok)
  show ?thesis
  proof (cases "i < length (w_handlers w) \<and> ok \<and> (\<exists>ref. h_phase (w_handlers w ! i) = Attaching ref)")
    case True
    then obtain ref where ref: "h_phase (w_handlers w ! i) = Attaching ref" by blast
    let ?c = "tr_circuit ref"
    have rng: "?c < length (rl_heap (w_relay w))" "tr_side ref < 2"
      using inv_range(2) [of w i ref] assms True ref by (simp_all add: ends_inv_def)
    have free: "ci_conns (rl_heap (w_relay w) ! ?c) ! tr_side ref = None"
      using assms True ref unfolding ends_inv_def tickets_once_def end_at_def by blast
    have "\<exists>v. rl_heap (w_relay (attach_step ok i w)) = (rl_heap (w_relay w))[?c := v] \<and>
        ci_conns v = (ci_conns (rl_heap (w_relay w) ! ?c))[tr_side ref := Some i]"
      using True ref by (auto simp: attach_step_def Let_def)
    then obtain v where v: "rl_heap (w_relay (attach_step ok i w)) = (rl_heap (w_relay w))[?c := v]"
      "ci_conns v = (ci_conns (rl_heap (w_relay w) ! ?c))[tr_side ref := Some i]" by blast
    have "ci_conns (rl_heap (w_relay (attach_step ok i w)) ! d) ! k = Some j"
      if "d < length (rl_heap (w_relay w))" "k < 2" "ci_conns (rl_heap (w_relay w) ! d) ! k = Some j" for d k j
    proof (cases "d = ?c")
      case True
      then have "k \<noteq> tr_side ref" using that(3) free by auto
      with True that show ?thesis by (simp add: v)
    qed (use that in \<open>simp add: v(1)\<close>)
    moreover have "length (rl_heap (w_relay (attach_step ok i w))) = length (rl_heap (w_relay w))" by (simp add: v(1))
    moreover have "relay_step x w = attach_step ok i w" using OpAttach True by (simp add: on_handler_def)
    ultimately show ?thesis by (simp add: ends_kept_def)
  next
    case False
    then have "rl_heap (w_relay (relay_step x w)) = rl_heap (w_relay w)"
      using OpAttach by (auto simp: on_handler_def attach_step_def Let_def split: phase.splits)
    then show ?thesis using kept_if_ends [of "relay_step x w" w "[]"] by simp
  qed
next
  case (OpIssue i now a b ok)
  then show ?thesis using issue_heap [of now a b ok i w] kept_if_ends [of "relay_step x w" w] kept_if_ends [of w w "[]"]
    by (auto simp: on_handler_def)
qed (rule kept_if_ends [of _ w "[]"],
    simp add: on_handler_def heap_serveConn heap_other reap_def relay_Close_def Let_def)+

interpretation ends_rel: op_relation relay_step ends_inv ends_kept
proof unfold_locales
  fix s t u x
  show "ends_kept s s" by (simp add: ends_kept_def)
  show "ends_kept s u" if "ends_kept s t" "ends_kept t u" using that unfolding ends_kept_def by (meson le_trans less_le_trans)
  show "ends_kept s (relay_step x s)" if "ends_inv s" by (rule kept_step [OF that])
qed

section \<open>Properties of circuits\<close>

text \<open>
  C11: circuits are private pipes. In every run a circuit is spliced by at most one handler; when it is,
  its two ends are two different connections, each of which redeemed the ticket of its end; a
  ticket that can still be redeemed stands for a free end; and a connection at an end is never
  replaced by another one, whatever happens later.
\<close>

theorem circuit_ends_exclusive:
  "let w = relay_run ops (relay_start l); heap = rl_heap (w_relay w); hs = w_handlers w in
     (\<forall>i < length hs. \<forall>j < length hs. \<forall>c. h_phase (hs ! i) = Splicing c \<longrightarrow> h_phase (hs ! j) = Splicing c \<longrightarrow> i = j) \<and>
     (\<forall>i < length hs. \<forall>c. h_phase (hs ! i) = Splicing c \<longrightarrow>
        (\<exists>a b. ci_conns (heap ! c) = [Some a, Some b] \<and> a \<noteq> b \<and> a < length hs \<and> b < length hs)) \<and>
     (\<forall>t r. rl_tickets (w_relay w) t = Some r \<longrightarrow> ci_conns (heap ! tr_circuit r) ! tr_side r = None) \<and>
     (\<forall>later c k i. c < length heap \<longrightarrow> k < 2 \<longrightarrow> ci_conns (heap ! c) ! k = Some i \<longrightarrow>
        ci_conns (rl_heap (w_relay (relay_run later w)) ! c) ! k = Some i)"
proof -
  define w where "w = relay_run ops (relay_start l)"
  have e: "ends_inv w" unfolding w_def by (rule ends_run)
  then have parts: "relay_inv w" "tickets_once w" "spliced_once w" "places_ok w" by (simp_all add: ends_inv_def)
  have one: "i = j" if "i < length (w_handlers w)" "j < length (w_handlers w)" "h_phase (w_handlers w ! i) = Splicing c"
    "h_phase (w_handlers w ! j) = Splicing c" for i j c
    using parts(3) that unfolding spliced_once_def by blast
  have two: "\<exists>a b. ci_conns (rl_heap (w_relay w) ! c) = [Some a, Some b] \<and> a \<noteq> b \<and> a < length (w_handlers w) \<and> b < length (w_handlers w)"
    if i: "i < length (w_handlers w)" "h_phase (w_handlers w ! i) = Splicing c" for i c
  proof -
    let ?v = "rl_heap (w_relay w) ! c"
    have c: "c < length (rl_heap (w_relay w))" by (rule inv_range(3) [OF parts(1) i])
    have l: "length (ci_conns ?v) = 2" by (rule inv_range(4) [OF parts(1) c])
    have "ci_started ?v" using parts(3) i unfolding spliced_once_def by blast
    then have "ci_conns ?v ! 0 \<noteq> None" "ci_conns ?v ! 1 \<noteq> None"
      using parts(3) nth_mem [OF c] unfolding spliced_once_def by blast+
    then obtain a b where ab: "ci_conns ?v ! 0 = Some a" "ci_conns ?v ! 1 = Some b" by auto
    have rng: "k < 2 \<Longrightarrow> ci_conns ?v ! k = Some x \<Longrightarrow> x < length (w_handlers w)" for k x
      using parts(4) c unfolding places_ok_def by blast
    have "a \<noteq> b" using parts(4) nth_mem [OF c] ab unfolding places_ok_def by metis
    moreover have "ci_conns ?v = [Some a, Some b]"
      using l ab by (cases "ci_conns ?v"; cases "tl (ci_conns ?v)") simp_all
    ultimately show ?thesis using rng [OF _ ab(1)] rng [OF _ ab(2)] by simp
  qed
  have kept: "ci_conns (rl_heap (w_relay (relay_run later w)) ! c) ! k = Some i"
    if "c < length (rl_heap (w_relay w))" "k < 2" "ci_conns (rl_heap (w_relay w) ! c) ! k = Some i" for later c k i
    using ends_rel.run_rel [OF e, of later] that unfolding relay_run_def ends_kept_def by blast
  have free: "ci_conns (rl_heap (w_relay w) ! tr_circuit r) ! tr_side r = None" if "rl_tickets (w_relay w) t = Some r" for t r
    using parts(2) that unfolding tickets_once_def end_at_def by blast
  show ?thesis
    unfolding w_def [symmetric] Let_def
    by (intro conjI allI impI) (rule one two free kept, assumption+)+
qed

text \<open>The two clients of the demonstration run redeem their tickets.\<close>

definition demo_ticket :: "byte \<Rightarrow> string" where
  "demo_ticket b = encode (fill (\<lambda>_. b) 32)"

definition demo_redeem :: "relay_op list" where
  "demo_redeem = [OpRecv 0 0 True True (Some ((msg_of MsgCircuit)\<lparr>mg_Ticket := demo_ticket 1\<rparr>)), OpAttach 0 True,
     OpRecv 1 0 True True (Some ((msg_of MsgCircuit)\<lparr>mg_Ticket := demo_ticket 2\<rparr>)), OpAttach 1 True]"

lemma demo_tickets:
  "decodeExact (demo_ticket b) 32 = Inr (fill (\<lambda>_. b) 32)" "demo_ticket 1 \<noteq> demo_ticket 2"
proof -
  show "decodeExact (demo_ticket b) 32 = Inr (fill (\<lambda>_. b) 32)" for b
    unfolding demo_ticket_def by (rule exact_field.dec_enc) simp
  note dec = this
  show "demo_ticket 1 \<noteq> demo_ticket 2"
  proof
    assume "demo_ticket 1 = demo_ticket 2"
    then have "hd (fill (\<lambda>_. 1 :: byte) 32) = hd (fill (\<lambda>_. 2) 32)" using dec [of 1] dec [of 2] by simp
    then show False by (simp add: fill_def upt_conv_Cons)
  qed
qed

lemma demo_run_tickets:
  "rl_tickets (w_relay (relay_run demo_ops (relay_start demo_limits))) =
     [demo_ticket 1 \<mapsto> \<lparr>tr_circuit = 0, tr_side = 0\<rparr>, demo_ticket 2 \<mapsto> \<lparr>tr_circuit = 0, tr_side = 1\<rparr>]"
  by (simp add: relay_run_def demo_ops_def relay_start_def relay_New_def demo_limits_def DefaultLimits_def
      serveHTTP_step_def upgrade_step_def acquireIP_def ipCount_def demo_source on_handler_def serveConn_step_def publish_step_def msg_defs
      msg_of_def checkRID_def demo_rid_ok allow_def newRateCounter_def addPending_def set_handler_def Let_def send_message_def
      claim_step_def pair_claim_def issue_step_def pair_issue_def NewTicket_def RandomBytes_def notify_step_def
      pair_notify_def goto_def demo_ticket_def)

text \<open>The redemptions find the demonstration's tickets, and the second of them splices the circuit.\<close>

lemma recv_circuit:
  assumes "i < length (w_handlers w)" "h_phase (w_handlers w ! i) = Control" "rl_tickets (w_relay w) (demo_ticket b) = Some r"
  shows "relay_step (OpRecv i now ok ok2 (Some ((msg_of MsgCircuit)\<lparr>mg_Ticket := demo_ticket b\<rparr>))) w =
    goto i (Attaching r) ((w_relay w)\<lparr>rl_tickets := (rl_tickets (w_relay w))(demo_ticket b := None)\<rparr>) w"
  using assms demo_tickets(1) [of b]
  by (simp add: on_handler_def serveConn_step_def msg_defs msg_of_def redeem_step_def TicketSize_def Let_def)

lemma redeem_splices:
  assumes w: "w_handlers w = [h0, h1]" "h_phase h0 = Control" "h_phase h1 = Control"
    and tk: "rl_tickets (w_relay w) = [demo_ticket 1 \<mapsto> \<lparr>tr_circuit = 0, tr_side = 0\<rparr>, demo_ticket 2 \<mapsto> \<lparr>tr_circuit = 0, tr_side = 1\<rparr>]"
    and hp: "rl_heap (w_relay w) = [v]" "ci_conns v = [None, None]" "\<not> ci_started v"
  shows "length (w_handlers (relay_run demo_redeem w)) = 2 \<and> h_phase (w_handlers (relay_run demo_redeem w) ! 1) = Splicing 0"
proof -
  let ?recv = "\<lambda>i b. relay_step (OpRecv i 0 True True (Some ((msg_of MsgCircuit)\<lparr>mg_Ticket := demo_ticket b\<rparr>)))"
  define w1 where "w1 = ?recv 0 1 w"
  define w2 where "w2 = relay_step (OpAttach 0 True) w1"
  define w3 where "w3 = ?recv 1 2 w2"
  have "w1 = goto 0 (Attaching \<lparr>tr_circuit = 0, tr_side = 0\<rparr>) ((w_relay w)\<lparr>rl_tickets := (rl_tickets (w_relay w))(demo_ticket 1 := None)\<rparr>) w"
    unfolding w1_def by (rule recv_circuit) (use w tk demo_tickets(2) in simp_all)
  then have s2: "map h_phase (w_handlers w2) = [Waiting 0, Control]"
    "rl_tickets (w_relay w2) (demo_ticket 2) = Some \<lparr>tr_circuit = 0, tr_side = 1\<rparr>"
    "rl_heap (w_relay w2) = [v\<lparr>ci_conns := [Some 0, None]\<rparr>]"
    using w tk hp demo_tickets(2)
    by (simp_all add: w2_def on_handler_def attach_step_def goto_def set_handler_def send_message_def set_circuit_def Let_def)
  have l2: "length (w_handlers w2) = 2" using arg_cong [OF s2(1), of length] by simp
  have p2: "h_phase (w_handlers w2 ! 1) = Control" using arg_cong [OF s2(1), of "\<lambda>l. l ! 1"] l2 by simp
  have "w3 = goto 1 (Attaching \<lparr>tr_circuit = 0, tr_side = 1\<rparr>) ((w_relay w2)\<lparr>rl_tickets := (rl_tickets (w_relay w2))(demo_ticket 2 := None)\<rparr>) w2"
    unfolding w3_def by (rule recv_circuit) (use l2 p2 s2(2) in simp_all)
  then have "length (w_handlers (relay_step (OpAttach 1 True) w3)) = 2 \<and>
      h_phase (w_handlers (relay_step (OpAttach 1 True) w3) ! 1) = Splicing 0"
    using l2 s2(3) hp
    by (simp add: on_handler_def attach_step_def goto_def set_handler_def send_message_def set_circuit_def Let_def)
  then show ?thesis unfolding relay_run_def demo_redeem_def fold_simps w1_def w2_def w3_def .
qed

theorem circuit_ends_exclusive_witness:
  "let w = relay_run (demo_ops @ demo_redeem) (relay_start demo_limits) in
     h_phase (w_handlers w ! 1) = Splicing 0 \<and> (\<exists>a b. ci_conns (rl_heap (w_relay w) ! 0) = [Some a, Some b] \<and> a \<noteq> b)"
proof -
  let ?w = "relay_run demo_ops (relay_start demo_limits)"
  obtain h0 h1 where hs: "w_handlers ?w = [h0, h1]" "h_phase h0 = Control" "h_phase h1 = Control"
    using demo_run(2) by (auto simp: map_eq_Cons_conv)
  have run: "relay_run (demo_ops @ demo_redeem) (relay_start demo_limits) = relay_run demo_redeem ?w"
    by (simp add: relay_run_def)
  define w where "w = relay_run demo_redeem ?w"
  have w: "length (w_handlers w) = 2" "h_phase (w_handlers w ! 1) = Splicing 0"
    using redeem_splices [OF hs demo_run_tickets demo_run(1)] by (simp_all add: w_def)
  have "\<forall>i < length (w_handlers w). \<forall>c. h_phase (w_handlers w ! i) = Splicing c \<longrightarrow>
      (\<exists>a b. ci_conns (rl_heap (w_relay w) ! c) = [Some a, Some b] \<and> a \<noteq> b \<and> a < length (w_handlers w) \<and> b < length (w_handlers w))"
    using circuit_ends_exclusive [of "demo_ops @ demo_redeem" demo_limits] unfolding Let_def run w_def by (elim conjE)
  from this [rule_format, OF _ w(2)] w show ?thesis unfolding Let_def run w_def [symmetric] by auto
qed

end
