(* ===== verification/GoStrings.thy ===== *)
theory GoStrings
  imports Main "HOL-Library.Sublist"
begin

text \<open>
  The functions of Go's \<open>strings\<close> and \<open>strconv\<close> packages that the source calls, on strings as
  sequences of bytes. White space is that of \<open>unicode.IsSpace\<close> in its UTF-8 encoding.
\<close>

section \<open>White space\<close>

text \<open>The bytes of one white space character.\<close>

fun space_rune :: "nat list \<Rightarrow> bool" where
  "space_rune [a] = (9 \<le> a \<and> a \<le> 13 \<or> a = 32)"
| "space_rune [a, b] = (a = 0xC2 \<and> (b = 0x85 \<or> b = 0xA0))"
| "space_rune [a, b, c] =
     (a = 0xE1 \<and> b = 0x9A \<and> c = 0x80
      \<or> a = 0xE2 \<and> b = 0x80 \<and> (0x80 \<le> c \<and> c \<le> 0x8A \<or> c = 0xA8 \<or> c = 0xA9 \<or> c = 0xAF)
      \<or> a = 0xE2 \<and> b = 0x81 \<and> c = 0x9F
      \<or> a = 0xE3 \<and> b = 0x80 \<and> c = 0x80)"
| "space_rune _ = False"

definition is_space :: "string \<Rightarrow> bool" where
  "is_space s = space_rune (map of_char s)"

text \<open>The length of the white space character a string begins with, zero when there is none.\<close>

definition space_len :: "string \<Rightarrow> nat" where
  "space_len s = (if is_space (take 1 s) then 1 else if is_space (take 2 s) then 2 else if is_space (take 3 s) then 3 else 0)"

definition space_end :: "string \<Rightarrow> nat" where
  "space_end s =
     (let suffix = (\<lambda>n. drop (length s - n) s)
      in if is_space (suffix 1) then 1 else if is_space (suffix 2) then 2 else if is_space (suffix 3) then 3 else 0)"

lemma is_space_Nil [simp]: "\<not> is_space []"
  by (simp add: is_space_def)

lemma space_len_Nil [simp]: "space_len [] = 0" "space_end [] = 0"
  by (simp_all add: space_len_def space_end_def Let_def)

function trim_left :: "string \<Rightarrow> string" where
  "trim_left s = (if space_len s = 0 then s else trim_left (drop (space_len s) s))"
  by pat_completeness auto
termination
proof (relation "measure length")
  show "(drop (space_len s) s, s) \<in> measure length" if "space_len s \<noteq> 0" for s
    using that by (cases s) auto
qed simp

function trim_right :: "string \<Rightarrow> string" where
  "trim_right s = (if space_end s = 0 then s else trim_right (take (length s - space_end s) s))"
  by pat_completeness auto
termination
proof (relation "measure length")
  show "(take (length s - space_end s) s, s) \<in> measure length" if "space_end s \<noteq> 0" for s
    using that by (cases s) auto
qed simp

declare trim_left.simps [simp del] trim_right.simps [simp del]

definition TrimSpace :: "string \<Rightarrow> string" where
  "TrimSpace s = trim_right (trim_left s)"

text \<open>
  \<open>strings.Fields\<close>: \<open>split_spaces\<close> cuts at every white space character, and the empty pieces are
  dropped. A byte that begins no white space belongs to a field; this agrees with
  the decoding of whole characters, since no white space begins with a continuation byte.
\<close>

function split_spaces :: "string \<Rightarrow> string \<Rightarrow> string list" where
  "split_spaces cur [] = [cur]"
| "split_spaces cur (c # s) =
     (if space_len (c # s) = 0 then split_spaces (cur @ [c]) s
      else cur # split_spaces [] (drop (space_len (c # s)) (c # s)))"
  by pat_completeness auto
termination
  by (relation "measure (length \<circ> snd)") auto

definition Fields :: "string \<Rightarrow> string list" where
  "Fields s = filter (\<lambda>f. f \<noteq> []) (split_spaces [] s)"

section \<open>Searching and splitting\<close>

definition HasPrefix :: "string \<Rightarrow> string \<Rightarrow> bool" where
  "HasPrefix s p = prefix p s"

definition TrimPrefix :: "string \<Rightarrow> string \<Rightarrow> string" where
  "TrimPrefix s p = (if prefix p s then drop (length p) s else s)"

definition Contains :: "string \<Rightarrow> string \<Rightarrow> bool" where
  "Contains s sub = sublist sub s"

text \<open>\<open>strings.Split\<close> at a separator of one byte.\<close>

fun split_loop :: "char \<Rightarrow> string \<Rightarrow> string \<Rightarrow> string list" where
  "split_loop sep cur [] = [cur]"
| "split_loop sep cur (c # s) = (if c = sep then cur # split_loop sep [] s else split_loop sep (cur @ [c]) s)"

definition Split :: "string \<Rightarrow> char \<Rightarrow> string list" where
  "Split s sep = split_loop sep [] s"


fun Join :: "string list \<Rightarrow> string \<Rightarrow> string" where
  "Join [] sep = []"
| "Join [p] sep = p"
| "Join (p # q # r) sep = p @ sep @ Join (q # r) sep"

section \<open>Case folding\<close>

definition ascii_lower :: "char \<Rightarrow> char" where
  "ascii_lower c = (let n = of_char c :: nat in if 65 \<le> n \<and> n \<le> 90 then char_of (n + 32) else c)"

text \<open>
  \<open>strings.EqualFold\<close> with an ASCII second argument. Outside ASCII only the Kelvin sign folds to
  \<open>k\<close> and the long s to \<open>s\<close>.
\<close>

fun EqualFold :: "string \<Rightarrow> string \<Rightarrow> bool" where
  "EqualFold s [] = (s = [])"
| "EqualFold s (d # t) =
     (case s of [] \<Rightarrow> False
      | c # s' \<Rightarrow>
        if ascii_lower c = ascii_lower d then EqualFold s' t
        else if ascii_lower d = CHR ''k'' \<and> take 3 s = [CHR 0xE2, CHR 0x84, CHR 0xAA] then EqualFold (drop 3 s) t
        else if ascii_lower d = CHR ''s'' \<and> take 2 s = [CHR 0xC5, CHR 0xBF] then EqualFold (drop 2 s) t
        else False)"

section \<open>Numbers\<close>

definition digit_val :: "char \<Rightarrow> nat option" where
  "digit_val c = (let n = of_char c :: nat in if 48 \<le> n \<and> n \<le> 57 then Some (n - 48) else None)"

fun digits_val :: "nat \<Rightarrow> string \<Rightarrow> nat option" where
  "digits_val acc [] = Some acc"
| "digits_val acc (c # s) = (case digit_val c of None \<Rightarrow> None | Some d \<Rightarrow> digits_val (acc * 10 + d) s)"

text \<open>\<open>strconv.Atoi\<close>; \<^const>\<open>None\<close> is its error (syntax or range).\<close>

definition Atoi :: "string \<Rightarrow> int option" where
  "Atoi s =
     (let neg = (s \<noteq> [] \<and> hd s = CHR ''-''); body = (if s \<noteq> [] \<and> (hd s = CHR ''-'' \<or> hd s = CHR ''+'') then tl s else s)
      in if body = [] then None
         else case digits_val 0 body of None \<Rightarrow> None
              | Some n \<Rightarrow>
                let v = (if neg then - int n else int n)
                in if - (2 ^ 63) \<le> v \<and> v < 2 ^ 63 then Some v else None)"

section \<open>Facts\<close>

lemma EqualFold_refl: "EqualFold s s"
  by (induction s) simp_all

text \<open>A string that begins with a byte that is no white space has a field, and the first field begins with it.\<close>

lemma split_spaces_head: "\<exists>f rest. split_spaces (a # cur) s = (a # f) # rest"
proof (induction "a # cur" s arbitrary: cur rule: split_spaces.induct)
  case 1
  then show ?case by simp
next
  case (2 c s)
  show ?case
  proof (cases "space_len (c # s) = 0")
    case True
    then show ?thesis using "2"(1) [of "cur @ [c]"] by simp
  qed simp
qed

lemma Fields_head:
  assumes "space_len (c # s) = 0"
  shows "\<exists>f rest. Fields (c # s) = (c # f) # rest"
  using assms split_spaces_head [of c "[]" s] by (auto simp: Fields_def)

text \<open>No field has white space at any of its bytes.\<close>


lemma is_space_length: "is_space x \<Longrightarrow> length x = 1 \<or> length x = 2 \<or> length x = 3"
  unfolding is_space_def using length_map [of of_char x]
  by (cases "map of_char x :: nat list" rule: space_rune.cases) auto

lemma space_len_iff: "space_len s \<noteq> 0 \<longleftrightarrow> (\<exists>x. prefix x s \<and> is_space x)"
proof
  show "\<exists>x. prefix x s \<and> is_space x" if "space_len s \<noteq> 0"
    using that unfolding space_len_def by (metis take_is_prefix)
  show "space_len s \<noteq> 0" if "\<exists>x. prefix x s \<and> is_space x"
  proof -
    from that obtain x where x: "prefix x s" "is_space x" by blast
    then have "is_space (take (length x) s)" by (auto simp: prefix_def)
    then show ?thesis using is_space_length [OF x(2)] unfolding space_len_def by auto
  qed
qed

lemma space_len_append: "space_len (a @ b) = 0 \<Longrightarrow> space_len a = 0"
  using space_len_iff by (meson prefix_prefix)

lemma split_spaces_clean:
  "f \<in> set (split_spaces cur s) \<Longrightarrow> (\<And>i. i < length cur \<Longrightarrow> space_len (drop i cur @ s) = 0) \<Longrightarrow> space_len (drop i f) = 0"
proof (induction cur s rule: split_spaces.induct)
  case (1 cur)
  then show ?case by (cases "i < length cur") auto
next
  case (2 cur c s)
  show ?case
  proof (cases "space_len (c # s) = 0")
    case True
    have "space_len (drop j (cur @ [c]) @ s) = 0" if "j < length (cur @ [c])" for j
      using "2.prems"(2) [of j] True that by (cases "j < length cur") auto
    then show ?thesis using "2.IH"(1) [OF True] "2.prems"(1) True by simp
  next
    case False
    then consider "f = cur" | "f \<in> set (split_spaces [] (drop (space_len (c # s)) (c # s)))" using "2.prems"(1) by auto
    then show ?thesis
    proof cases
      case 1
      then show ?thesis using "2.prems"(2) [of i] space_len_append by (cases "i < length cur") auto
    next
      case 2
      then show ?thesis using "2.IH"(2) [OF False] by simp
    qed
  qed
qed

lemma Fields_clean: "f \<in> set (Fields s) \<Longrightarrow> f \<noteq> [] \<and> space_len (drop i f) = 0"
  using split_spaces_clean [of f "[]" s] by (auto simp: Fields_def)

section \<open>Paths\<close>

text \<open>
  \<open>filepath.Clean\<close> and \<open>filepath.Join\<close> of two elements where the separator is a slash. The elements kept
  so far are a stack, its top first.
\<close>

fun clean_elems :: "bool \<Rightarrow> string list \<Rightarrow> string list \<Rightarrow> string list" where
  "clean_elems rooted out [] = rev out"
| "clean_elems rooted out (e # es) =
     (if e = [] \<or> e = ''.'' then clean_elems rooted out es
      else if e = ''..'' then
        (if out \<noteq> [] \<and> hd out \<noteq> ''..'' then clean_elems rooted (tl out) es
         else if rooted then clean_elems rooted out es
         else clean_elems rooted (''..'' # out) es)
      else clean_elems rooted (e # out) es)"

definition Clean :: "string \<Rightarrow> string" where
  "Clean path =
     (if path = [] then ''.''
      else let rooted = (hd path = CHR ''/''); es = clean_elems rooted [] (Split path (CHR ''/''))
           in if rooted then CHR ''/'' # Join es ''/'' else if es = [] then ''.'' else Join es ''/'')"

definition filepath_Join :: "string \<Rightarrow> string \<Rightarrow> string" where
  "filepath_Join a b = (if a \<noteq> [] then Clean (a @ ''/'' @ b) else if b \<noteq> [] then Clean b else [])"

lemma split_loop_append:
  "split_loop sep cur (a @ sep # b) = split_loop sep cur a @ split_loop sep [] b"
  by (induction a arbitrary: cur) simp_all

lemma split_loop_word: "sep \<notin> set b \<Longrightarrow> split_loop sep cur b = [cur @ b]"
  by (induction b arbitrary: cur) auto

lemma clean_elems_last:
  "x \<noteq> [] \<Longrightarrow> x \<noteq> ''.'' \<Longrightarrow> x \<noteq> ''..'' \<Longrightarrow> clean_elems r out (es @ [x]) = clean_elems r out es @ [x]"
  by (cases r; induction es arbitrary: out) simp_all

lemma Join_last: "\<exists>pre. \<forall>x. Join (es @ [x]) sep = pre @ x"
proof (induction es)
  case (Cons e es)
  then obtain pre where "\<forall>x. Join (es @ [x]) sep = pre @ x" by blast
  then have "Join ((e # es) @ [x]) sep = (e @ sep @ pre) @ x" for x by (cases es) auto
  then show ?case by blast
qed simp

text \<open>A file name that is joined to a directory is the last part of the path, whatever the directory is.\<close>

definition file_name :: "string \<Rightarrow> bool" where
  "file_name x \<longleftrightarrow> x \<noteq> [] \<and> x \<noteq> ''.'' \<and> x \<noteq> ''..'' \<and> CHR ''/'' \<notin> set x"

lemma filepath_Join_name: "\<exists>pre. \<forall>x. file_name x \<longrightarrow> filepath_Join dir x = pre @ x"
proof (cases "dir = []")
  case True
  have "filepath_Join dir x = x" if "file_name x" for x
  proof -
    have "hd x \<noteq> CHR ''/''" using that by (cases x) (auto simp: file_name_def)
    then show ?thesis
      using that True by (simp add: file_name_def filepath_Join_def Clean_def Split_def split_loop_word Let_def)
  qed
  then have "\<forall>x. file_name x \<longrightarrow> filepath_Join dir x = [] @ x" by simp
  then show ?thesis by blast
next
  case False
  let ?r = "hd dir = CHR ''/''" and ?e = "clean_elems (hd dir = CHR ''/'') [] (Split dir (CHR ''/''))"
  obtain pre where pre: "\<forall>x. Join (?e @ [x]) ''/'' = pre @ x" using Join_last [of ?e "''/''"] by blast
  have "filepath_Join dir x = ((if ?r then ''/'' else []) @ pre) @ x" if "file_name x" for x
  proof -
    have "Split (dir @ ''/'' @ x) (CHR ''/'') = Split dir (CHR ''/'') @ [x]"
      using that by (simp add: Split_def split_loop_append split_loop_word file_name_def)
    then have "clean_elems ?r [] (Split (dir @ ''/'' @ x) (CHR ''/'')) = ?e @ [x]"
      using that by (simp add: clean_elems_last file_name_def)
    moreover have "hd (dir @ ''/'' @ x) = hd dir" using False by simp
    ultimately show ?thesis using False pre by (cases ?r) (simp_all add: filepath_Join_def Clean_def Let_def)
  qed
  then show ?thesis by blast
qed

end
