(* ===== verification/WebSocket.thy ===== *)
theory WebSocket
  imports Crypto Messages Transport GoStrings
begin

text \<open>
  \<open>internal/rendezvous/ws.go\<close>: the WebSocket framing between clients and the relay.

  A connection carries the bytes its peer wrote and that were not read yet (\<open>ws_in\<close>), up to the
  point where the stream ends, and the bytes written so far (\<open>ws_out\<close>). The outside world is a
  record \<open>ws_env\<close>: the \<open>n\<close>-th frame that is written draws the \<open>n\<close>-th answer of the random
  generator and meets the \<open>n\<close>-th outcome of \<open>conn.Write\<close> (complete, or failed after some bytes).
\<close>

section \<open>Data\<close>

definition opContinuation :: byte where "opContinuation = 0x0"
definition opText :: byte where "opText = 0x1"
definition opBinary :: byte where "opBinary = 0x2"
definition opClose :: byte where "opClose = 0x8"
definition opPing :: byte where "opPing = 0x9"
definition opPong :: byte where "opPong = 0xA"

lemmas opcodes = opContinuation_def opText_def opBinary_def opClose_def opPing_def opPong_def

definition maxWSPayload :: nat where [simp]: "maxWSPayload = 2 ^ 20 + 1024"
definition maxControlPayload :: nat where [simp]: "maxControlPayload = 125"

datatype ws_protocol =
    ReservedBits | FrameTooLong nat | UnmaskedFrame | MaskedFrame | TextFrame | MalformedPing | MalformedPong
  | UnknownOpcode byte | OutboundTooLarge

datatype ws_error =
    WSEOF | WSUnexpectedEOF | ErrWSProtocol ws_protocol | WSWriteFailed | WSRandom crypto_error | WSMessage msg_error

record WSConn =
  ws_in :: bytes
  ws_out :: bytes
  ws_writes :: nat
  ws_mask :: bool
  ws_rem :: nat
  ws_rmask :: bytes
  ws_rmasked :: bool
  ws_rmaskPos :: nat
  ws_closed :: bool \<comment> \<open>\<open>closeOnce\<close> ran\<close>

record ws_env =
  we_rand :: "nat \<Rightarrow> entropy"
  we_write :: "nat \<Rightarrow> nat option"

definition NewWSConn :: "bytes \<Rightarrow> bool \<Rightarrow> WSConn" where
  "NewWSConn stream client = \<lparr>ws_in = stream, ws_out = [], ws_writes = 0, ws_mask = client, ws_rem = 0,
     ws_rmask = [0, 0, 0, 0], ws_rmasked = False, ws_rmaskPos = 0, ws_closed = False\<rparr>"

section \<open>Writing\<close>

text \<open>\<open>b[i] ^ key[(pos + i) & 3]\<close> for every byte.\<close>

definition mask_bytes :: "bytes \<Rightarrow> nat \<Rightarrow> bytes \<Rightarrow> bytes" where
  "mask_bytes key pos b = map (\<lambda>i. b ! i XOR key ! ((pos + i) mod 4)) [0..<length b]"

definition frame_header :: "byte \<Rightarrow> nat \<Rightarrow> bytes" where
  "frame_header opcode n =
     (let b0 = 0x80 OR opcode
      in if n < 126 then [b0, word_of_nat n]
         else if n \<le> 0xFFFF then [b0, 126] @ PutUint16 (word_of_nat n)
         else [b0, 127] @ PutUint64 (word_of_nat n))"

definition writeFrame :: "ws_env \<Rightarrow> byte \<Rightarrow> bytes \<Rightarrow> WSConn \<Rightarrow> (ws_error + unit) \<times> WSConn" where
  "writeFrame E opcode payload c =
     (let hdr = frame_header opcode (length payload);
          c1 = c\<lparr>ws_writes := ws_writes c + 1\<rparr>;
          send = (\<lambda>out. case we_write E (ws_writes c) of
                    None \<Rightarrow> (Inr (), c1\<lparr>ws_out := ws_out c @ out\<rparr>)
                  | Some k \<Rightarrow> (Inl WSWriteFailed, c1\<lparr>ws_out := ws_out c @ take k out\<rparr>))
      in if ws_mask c then
           (case RandomBytes (we_rand E (ws_writes c)) 4 of
              Inl e \<Rightarrow> (Inl (WSRandom e), c1)
            | Inr key \<Rightarrow> send (hdr[1 := hdr ! 1 OR 0x80] @ key @ mask_bytes key 0 payload))
         else send (hdr @ payload))"

definition writeControl :: "ws_env \<Rightarrow> byte \<Rightarrow> bytes \<Rightarrow> WSConn \<Rightarrow> (ws_error + unit) \<times> WSConn" where
  "writeControl E opcode payload c = writeFrame E opcode (take maxControlPayload payload) c"

definition ws_Ping :: "ws_env \<Rightarrow> WSConn \<Rightarrow> (ws_error + unit) \<times> WSConn" where
  "ws_Ping E c = writeControl E opPing [] c"

definition ws_Write :: "ws_env \<Rightarrow> bytes \<Rightarrow> WSConn \<Rightarrow> (ws_error + nat) \<times> WSConn" where
  "ws_Write E p c =
     (if length p > maxWSPayload then (Inl (ErrWSProtocol OutboundTooLarge), c)
      else case writeFrame E opBinary p c of
             (Inl e, c1) \<Rightarrow> (Inl e, c1)
           | (Inr _, c1) \<Rightarrow> (Inr (length p), c1))"

section \<open>Reading\<close>

text \<open>\<open>io.ReadFull\<close>: the bytes read, the error if there are too few, and the rest of the stream.\<close>

definition ReadFull :: "nat \<Rightarrow> bytes \<Rightarrow> bytes \<times> ws_error option \<times> bytes" where
  "ReadFull n s =
     (if n \<le> length s then (take n s, None, drop n s)
      else if s = [] then ([], Some WSEOF, [])
      else (s, Some WSUnexpectedEOF, []))"

record frame_head =
  fh_fin :: bool
  fh_opcode :: byte
  fh_masked :: bool
  fh_length :: nat
  fh_key :: bytes

text \<open>The part of an iteration of \<open>nextFrame\<close> up to the switch on the opcode.\<close>

definition frame_mask :: "bool \<Rightarrow> byte \<Rightarrow> byte \<Rightarrow> nat \<Rightarrow> bytes \<Rightarrow> (ws_error + frame_head) \<times> bytes" where
  "frame_mask client h0 h1 len s =
     (let masked = h1 AND 0x80 \<noteq> 0;
          head = \<lparr>fh_fin = h0 AND 0x80 \<noteq> 0, fh_opcode = h0 AND 0x0F, fh_masked = masked, fh_length = len, fh_key = [0, 0, 0, 0]\<rparr>
      in if len > maxWSPayload then (Inl (ErrWSProtocol (FrameTooLong len)), s)
         else if \<not> client \<and> \<not> masked then (Inl (ErrWSProtocol UnmaskedFrame), s)
         else if client \<and> masked then (Inl (ErrWSProtocol MaskedFrame), s)
         else if masked then
           (case ReadFull 4 s of
              (_, Some e, s') \<Rightarrow> (Inl e, s')
            | (key, None, s') \<Rightarrow> (Inr (head\<lparr>fh_key := key\<rparr>), s'))
         else (Inr head, s))"

definition nextFrame_head :: "bool \<Rightarrow> bytes \<Rightarrow> (ws_error + frame_head) \<times> bytes" where
  "nextFrame_head client s =
     (case ReadFull 2 s of
        (_, Some e, s1) \<Rightarrow> (Inl e, s1)
      | (hdr, None, s1) \<Rightarrow>
        if hdr ! 0 AND 0x70 \<noteq> 0 then (Inl (ErrWSProtocol ReservedBits), s1)
        else let length7 = unat (hdr ! 1 AND 0x7F)
             in if length7 = 126 then
                  (case ReadFull 2 s1 of
                     (_, Some e, s2) \<Rightarrow> (Inl e, s2)
                   | (ext, None, s2) \<Rightarrow> frame_mask client (hdr ! 0) (hdr ! 1) (unat (Uint16 ext)) s2)
                else if length7 = 127 then
                  (case ReadFull 8 s1 of
                     (_, Some e, s2) \<Rightarrow> (Inl e, s2)
                   | (ext, None, s2) \<Rightarrow>
                     let v = unat (Uint64 ext)
                     in if v > maxWSPayload then (Inl (ErrWSProtocol (FrameTooLong v)), s2)
                        else frame_mask client (hdr ! 0) (hdr ! 1) v s2)
                else frame_mask client (hdr ! 0) (hdr ! 1) length7 s1)"

definition readPayload :: "nat \<Rightarrow> bytes \<Rightarrow> bool \<Rightarrow> WSConn \<Rightarrow> (ws_error + bytes) \<times> WSConn" where
  "readPayload len key masked c =
     (if len = 0 then (Inr [], c)
      else case ReadFull len (ws_in c) of
             (_, Some e, s) \<Rightarrow> (Inl e, c\<lparr>ws_in := s\<rparr>)
           | (buf, None, s) \<Rightarrow> (Inr (if masked then mask_bytes key 0 buf else buf), c\<lparr>ws_in := s\<rparr>))"

definition ws_drain :: "nat \<Rightarrow> bytes \<Rightarrow> bool \<Rightarrow> WSConn \<Rightarrow> (ws_error + unit) \<times> WSConn" where
  "ws_drain len key masked c =
     (case readPayload len key masked c of (Inl e, c1) \<Rightarrow> (Inl e, c1) | (Inr _, c1) \<Rightarrow> (Inr (), c1))"

text \<open>One iteration of \<open>nextFrame\<close>; \<^const>\<open>None\<close> means that the loop goes on.\<close>

definition nextFrame_step :: "ws_env \<Rightarrow> WSConn \<Rightarrow> (ws_error + unit) option \<times> WSConn" where
  "nextFrame_step E c =
     (case nextFrame_head (ws_mask c) (ws_in c) of
        (Inl e, s) \<Rightarrow> (Some (Inl e), c\<lparr>ws_in := s\<rparr>)
      | (Inr h, s) \<Rightarrow>
        let c1 = c\<lparr>ws_in := s\<rparr>; len = fh_length h; key = fh_key h; masked = fh_masked h
        in if fh_opcode h = opBinary \<or> fh_opcode h = opContinuation then
             (if len = 0 then None else Some (Inr ()),
              c1\<lparr>ws_rem := len, ws_rmask := key, ws_rmasked := masked, ws_rmaskPos := 0\<rparr>)
           else if fh_opcode h = opText then (Some (Inl (ErrWSProtocol TextFrame)), c1)
           else if fh_opcode h = opClose then
             (case ws_drain len key masked c1 of
                (Inl e, c2) \<Rightarrow> (Some (Inl e), c2)
              | (Inr _, c2) \<Rightarrow> (Some (Inl WSEOF), snd (writeControl E opClose [] c2)))
           else if fh_opcode h = opPing then
             (if len > maxControlPayload \<or> \<not> fh_fin h then (Some (Inl (ErrWSProtocol MalformedPing)), c1)
              else case readPayload len key masked c1 of
                     (Inl e, c2) \<Rightarrow> (Some (Inl e), c2)
                   | (Inr payload, c2) \<Rightarrow>
                     (case writeControl E opPong payload c2 of
                        (Inl e, c3) \<Rightarrow> (Some (Inl e), c3)
                      | (Inr _, c3) \<Rightarrow> (None, c3)))
           else if fh_opcode h = opPong then
             (if len > maxControlPayload \<or> \<not> fh_fin h then (Some (Inl (ErrWSProtocol MalformedPong)), c1)
              else case ws_drain len key masked c1 of
                     (Inl e, c2) \<Rightarrow> (Some (Inl e), c2)
                   | (Inr _, c2) \<Rightarrow> (None, c2))
           else (Some (Inl (ErrWSProtocol (UnknownOpcode (fh_opcode h)))), c1))"

lemma ReadFull_length: "ReadFull n s = (b, None, s') \<Longrightarrow> length s = n + length s' \<and> length b = n"
  by (auto simp: ReadFull_def split: if_splits)

lemma frame_mask_shorter: "frame_mask client h0 h1 len s = (Inr h, s') \<Longrightarrow> length s' \<le> length s"
  by (auto simp: frame_mask_def ReadFull_def Let_def split: if_splits)

lemma head_shorter: "nextFrame_head client s = (Inr h, s') \<Longrightarrow> length s' + 2 \<le> length s"
  using frame_mask_shorter
  by (fastforce simp: nextFrame_head_def ReadFull_def Let_def split: if_splits)

lemma writeFrame_keeps: "ws_in (snd (writeFrame E opc p c)) = ws_in c" "ws_rem (snd (writeFrame E opc p c)) = ws_rem c"
  "ws_mask (snd (writeFrame E opc p c)) = ws_mask c"
  by (auto simp: writeFrame_def Let_def split: sum.splits option.splits)

lemma writeControl_keeps: "ws_in (snd (writeControl E opc p c)) = ws_in c" "ws_rem (snd (writeControl E opc p c)) = ws_rem c"
  "ws_mask (snd (writeControl E opc p c)) = ws_mask c"
  by (simp_all add: writeControl_def writeFrame_keeps)

lemma readPayload_shorter: "length (ws_in (snd (readPayload len key masked c))) \<le> length (ws_in c)"
  by (auto simp: readPayload_def ReadFull_def)

lemma readPayload_keeps: "ws_mask (snd (readPayload len key masked c)) = ws_mask c" "ws_rem (snd (readPayload len key masked c)) = ws_rem c"
  by (auto simp: readPayload_def split: prod.splits option.splits)

lemma drain_snd: "snd (ws_drain len key masked c) = snd (readPayload len key masked c)"
  by (auto simp: ws_drain_def split: prod.splits sum.splits)

text \<open>An iteration that does not end the loop has consumed a frame header at least.\<close>

lemma nextFrame_step_shorter:
  assumes "nextFrame_step E c = (r, c')" "r = None \<or> r = Some (Inr ())"
  shows "length (ws_in c') < length (ws_in c)"
proof -
  obtain h s where h: "nextFrame_head (ws_mask c) (ws_in c) = (Inr h, s)"
    using assms by (cases "nextFrame_head (ws_mask c) (ws_in c)"; cases "fst (nextFrame_head (ws_mask c) (ws_in c))")
      (auto simp: nextFrame_step_def)
  let ?c1 = "c\<lparr>ws_in := s\<rparr>"
  have p: "length (ws_in (snd (readPayload l k m ?c1))) \<le> length s" for l k m
    using readPayload_shorter [of l k m ?c1] by simp
  have "length (ws_in c') \<le> length s"
  proof -
    obtain q d where q: "readPayload (fh_length h) (fh_key h) (fh_masked h) ?c1 = (q, d)" by fastforce
    have d: "length (ws_in d) \<le> length s" using p [of "fh_length h" "fh_key h" "fh_masked h"] by (simp add: q)
    have dr: "ws_drain (fh_length h) (fh_key h) (fh_masked h) ?c1 = (map_sum id (\<lambda>_. ()) q, d)"
      by (cases q) (simp_all add: ws_drain_def q)
    have wc: "writeControl E opPong x d = (y, d') \<Longrightarrow> ws_in d' = ws_in d" for x y d'
      using writeControl_keeps(1) [of E opPong x d] by simp
    show ?thesis using assms d
      by (cases q) (auto simp: nextFrame_step_def h Let_def q dr dest: wc split: if_splits prod.splits sum.splits)
  qed
  then show ?thesis using head_shorter [OF h] by simp
qed

function nextFrame :: "ws_env \<Rightarrow> WSConn \<Rightarrow> (ws_error + unit) \<times> WSConn" where
  "nextFrame E c =
     (case nextFrame_step E c of (Some r, c') \<Rightarrow> (r, c') | (None, c') \<Rightarrow> nextFrame E c')"
  by pat_completeness auto
termination
  by (relation "measure (length \<circ> ws_in \<circ> snd)") (auto dest: nextFrame_step_shorter [OF sym])

declare nextFrame.simps [simp del]

lemma nextFrame_shorter: "nextFrame E c = (Inr (), c') \<Longrightarrow> length (ws_in c') < length (ws_in c)"
proof (induction E c rule: nextFrame.induct)
  case (1 E c)
  obtain r d where st: "nextFrame_step E c = (r, d)" by fastforce
  show ?case
  proof (cases r)
    case None
    then have "nextFrame E d = (Inr (), c')" using "1.prems" by (subst (asm) nextFrame.simps) (simp add: st)
    then have "length (ws_in c') < length (ws_in d)" using "1.IH" st None by auto
    then show ?thesis using nextFrame_step_shorter [OF st] None by simp
  next
    case (Some q)
    then have "d = c'" "q = Inr ()" using "1.prems" by (subst (asm) nextFrame.simps, simp add: st)+
    then show ?thesis using nextFrame_step_shorter [OF st] Some by simp
  qed
qed

text \<open>
  \<open>Read\<close> with a buffer of \<open>n\<close> bytes: the bytes returned, the error if there is one. \<open>p[i] ^= ...\<close>
  is applied to the bytes that were read, also when there are too few.
\<close>

function ws_Read :: "ws_env \<Rightarrow> nat \<Rightarrow> WSConn \<Rightarrow> (bytes \<times> ws_error option) \<times> WSConn" where
  "ws_Read E n c =
     (if ws_rem c > 0 then
        (case ReadFull (min n (ws_rem c)) (ws_in c) of
           (b, err, s) \<Rightarrow>
             ((if ws_rmasked c then mask_bytes (ws_rmask c) (ws_rmaskPos c) b else b, err),
              c\<lparr>ws_in := s, ws_rem := ws_rem c - length b,
                ws_rmaskPos := (if ws_rmasked c then ws_rmaskPos c + length b else ws_rmaskPos c)\<rparr>))
      else (case nextFrame E c of
              (Inl e, c') \<Rightarrow> (([], Some e), c')
            | (Inr _, c') \<Rightarrow> ws_Read E n c'))"
  by pat_completeness auto
termination
  by (relation "measure (length \<circ> ws_in \<circ> snd \<circ> snd)") (auto dest: nextFrame_shorter [OF sym])

declare ws_Read.simps [simp del]

definition ws_SendMessage :: "ws_env \<Rightarrow> json_msg \<Rightarrow> message \<Rightarrow> WSConn \<Rightarrow> (ws_error + unit) \<times> WSConn" where
  "ws_SendMessage E J m c =
     (case EncodeMessage J m of Inl e \<Rightarrow> (Inl (WSMessage e), c) | Inr buf \<Rightarrow> writeFrame E opBinary buf c)"

definition ws_RecvMessage :: "ws_env \<Rightarrow> json_msg \<Rightarrow> WSConn \<Rightarrow> (ws_error + message) \<times> WSConn" where
  "ws_RecvMessage E J c =
     (case ws_Read E MaxControlFrame c of
        ((_, Some e), c') \<Rightarrow> (Inl e, c')
      | ((b, None), c') \<Rightarrow>
        if ws_rem c' > 0 then (Inl (WSMessage ErrControlTooLarge), c')
        else case DecodeMessage J b of Inl e \<Rightarrow> (Inl (WSMessage e), c') | Inr m \<Rightarrow> (Inr m, c'))"

text \<open>\<open>Close\<close>: the frame is sent once, its outcome is ignored.\<close>

definition ws_Close :: "ws_env \<Rightarrow> WSConn \<Rightarrow> WSConn" where
  "ws_Close E c = (if ws_closed c then c else (snd (writeControl E opClose [0x03, 0xE8] c))\<lparr>ws_closed := True\<rparr>)"

section \<open>The upgrade\<close>

definition wsGUID :: string where "wsGUID = ''258EAFA5-E914-47DA-95CA-5AB0DC85B39A''"

text \<open>\<open>sha1\<close> gives the digest byte by byte. Headers are read with \<open>Header.Get\<close>, which is empty for an absent one.\<close>

type_synonym sha1_fun = "bytes \<Rightarrow> nat \<Rightarrow> byte"

definition acceptKey :: "sha1_fun \<Rightarrow> string \<Rightarrow> string" where
  "acceptKey sha1 key = b64_EncodeToString (fill (sha1 (str (key @ wsGUID))) 20)"

datatype ws_hs_error =
    HsRandom crypto_error | HsWrite | HsResponse | HsStatus nat | HsNoUpgrade | HsBadAccept
  | HsNotUpgrade | HsVersion | HsNoKey | HsNoHijack | HsHijack

definition crlf :: string where "crlf = [CHR 0x0D, CHR 0x0A]"

record http_response =
  hr_status :: nat
  hr_header :: "string \<Rightarrow> string"

definition upgrade_request :: "string \<Rightarrow> string \<Rightarrow> string \<Rightarrow> string" where
  "upgrade_request host path key =
     ''GET '' @ path @ '' HTTP/1.1'' @ crlf @ ''Host: '' @ host @ crlf @ ''Upgrade: websocket'' @ crlf @
     ''Connection: Upgrade'' @ crlf @ ''Sec-WebSocket-Key: '' @ key @ crlf @ ''Sec-WebSocket-Version: 13'' @ crlf @ crlf"

text \<open>
  \<open>ClientHandshake\<close>: \<open>wok\<close> is the outcome of the write and \<open>exchange\<close> what \<open>http.ReadResponse\<close>
  returns after the request was sent.
\<close>

definition ClientHandshake ::
    "sha1_fun \<Rightarrow> entropy \<Rightarrow> string \<Rightarrow> string \<Rightarrow> bool \<Rightarrow> (string \<Rightarrow> http_response option) \<Rightarrow> ws_hs_error + unit" where
  "ClientHandshake sha1 rnd host path wok exchange =
     (case RandomBytes rnd 16 of Inl e \<Rightarrow> Inl (HsRandom e)
      | Inr nonce \<Rightarrow>
        let key = b64_EncodeToString nonce; path = (if path = [] then ''/'' else path)
        in if \<not> wok then Inl HsWrite
           else case exchange (upgrade_request host path key) of
                  None \<Rightarrow> Inl HsResponse
                | Some resp \<Rightarrow>
                  if hr_status resp \<noteq> 101 then Inl (HsStatus (hr_status resp))
                  else if \<not> EqualFold (hr_header resp ''Upgrade'') ''websocket'' then Inl HsNoUpgrade
                  else if hr_header resp ''Sec-WebSocket-Accept'' \<noteq> acceptKey sha1 key then Inl HsBadAccept
                  else Inr ())"

definition headerContainsToken :: "string \<Rightarrow> string \<Rightarrow> bool" where
  "headerContainsToken header token = list_ex (\<lambda>part. EqualFold (TrimSpace part) token) (Split header CHR '','')"

definition upgrade_response :: "sha1_fun \<Rightarrow> string \<Rightarrow> string" where
  "upgrade_response sha1 key =
     ''HTTP/1.1 101 Switching Protocols'' @ crlf @ ''Upgrade: websocket'' @ crlf @ ''Connection: Upgrade'' @ crlf @
     ''Sec-WebSocket-Accept: '' @ acceptKey sha1 key @ crlf @ crlf"

text \<open>
  \<open>ServerHandshake\<close> on the headers of the request; \<open>hijack\<close> is \<^const>\<open>None\<close> when the writer is no
  \<open>Hijacker\<close>, otherwise whether \<open>Hijack\<close> succeeds and the bytes it hands over.
\<close>

definition ServerHandshake ::
    "sha1_fun \<Rightarrow> (string \<Rightarrow> string) \<Rightarrow> bytes option option \<Rightarrow> bool \<Rightarrow> ws_hs_error + string \<times> WSConn" where
  "ServerHandshake sha1 header hijack wok =
     (if \<not> EqualFold (header ''Upgrade'') ''websocket'' \<or> \<not> headerContainsToken (header ''Connection'') ''upgrade''
      then Inl HsNotUpgrade
      else if header ''Sec-WebSocket-Version'' \<noteq> ''13'' then Inl HsVersion
      else let key = header ''Sec-WebSocket-Key''
           in if key = [] then Inl HsNoKey
              else case hijack of None \<Rightarrow> Inl HsNoHijack
                   | Some None \<Rightarrow> Inl HsHijack
                   | Some (Some stream) \<Rightarrow>
                     if \<not> wok then Inl HsWrite else Inr (upgrade_response sha1 key, NewWSConn stream False))"

end
