(* ===== verification/WebSocketProps.thy ===== *)
theory WebSocketProps
  imports WebSocket
begin

text \<open>
  The WebSocket layer is a byte stream: what one end writes, in frames of any size with control
  frames between them, the other end reads back in pieces of any size.
\<close>

section \<open>Masking\<close>

lemma length_mask_bytes [simp]: "length (mask_bytes key pos b) = length b"
  by (simp add: mask_bytes_def)

lemma mask_bytes_Nil [simp]: "mask_bytes key pos [] = []"
  by (simp add: mask_bytes_def)

lemma mask_bytes_cancel [simp]: "mask_bytes key pos (mask_bytes key pos b) = b"
  by (rule nth_equalityI) (simp_all add: mask_bytes_def xor.assoc)

lemma mask_bytes_append: "mask_bytes key pos (a @ b) = mask_bytes key pos a @ mask_bytes key (pos + length a) b"
  by (rule nth_equalityI) (auto simp: mask_bytes_def nth_append ac_simps)

section \<open>The header of a frame\<close>

lemma low7: "n < 128 \<Longrightarrow> (word_of_nat n :: byte) AND 0x7F = word_of_nat n"
  "n < 128 \<Longrightarrow> ((word_of_nat n :: byte) OR 0x80) AND 0x7F = word_of_nat n"
  "n < 128 \<Longrightarrow> (word_of_nat n :: byte) AND 0x80 = 0"
  "((w :: byte) OR 0x80) AND 0x80 = 0x80"
proof -
  show m: "(word_of_nat n :: byte) AND 0x7F = word_of_nat n" if "n < 128" for n
  proof -
    have "(word_of_nat n :: byte) AND 0x7F = take_bit 7 (word_of_nat n)" by (simp add: take_bit_eq_mask mask_eq_exp_minus_1)
    also have "\<dots> = word_of_nat n"
      using that by (simp only: take_bit_of_nat) (simp add: take_bit_nat_eq_self)
    finally show ?thesis .
  qed
  have "(0x80 :: byte) AND 0x7F = 0" by simp
  then show "((word_of_nat n :: byte) OR 0x80) AND 0x7F = word_of_nat n" if "n < 128" for n
    using m [OF that] by (simp add: bit.conj_disj_distrib2)
  show "(word_of_nat n :: byte) AND 0x80 = 0" if "n < 128" for n
  proof -
    have "(word_of_nat n :: byte) AND 0x80 = (word_of_nat n AND 0x7F) AND 0x80" using m [OF that] by simp
    also have "\<dots> = 0" by (simp add: and.assoc)
    finally show ?thesis .
  qed
  show "(w OR 0x80) AND 0x80 = 0x80" for w :: byte
    by (simp add: bit.conj_disj_distrib2)
qed


definition ws_frame :: "bool \<Rightarrow> bytes \<Rightarrow> byte \<Rightarrow> bytes \<Rightarrow> bytes" where
  "ws_frame masked key opc p =
     (let hdr = frame_header opc (length p)
      in if masked then hdr[1 := hdr ! 1 OR 0x80] @ key @ mask_bytes key 0 p else hdr @ p)"

definition body :: "bool \<Rightarrow> bytes \<Rightarrow> bytes \<Rightarrow> bytes" where
  "body masked key p = (if masked then mask_bytes key 0 p else p)"

definition known_op :: "byte \<Rightarrow> bool" where
  "known_op opc \<longleftrightarrow> opc \<in> {opContinuation, opText, opBinary, opClose, opPing, opPong}"

definition head_of :: "bool \<Rightarrow> bytes \<Rightarrow> byte \<Rightarrow> nat \<Rightarrow> frame_head" where
  "head_of masked key opc n = \<lparr>fh_fin = True, fh_opcode = opc, fh_masked = masked, fh_length = n,
     fh_key = (if masked then key else [0, 0, 0, 0])\<rparr>"

lemma length_body [simp]: "length (body masked key p) = length p"
  by (simp add: body_def)

lemma body_Nil [simp]: "body masked key [] = []"
  by (simp add: body_def)

lemma b0_bits:
  "known_op opc \<Longrightarrow> (0x80 OR opc) AND 0x70 = 0" "known_op opc \<Longrightarrow> (0x80 OR opc) AND 0x80 \<noteq> 0"
  "known_op opc \<Longrightarrow> (0x80 OR opc) AND 0x0F = opc"
  by (auto simp: known_op_def opcodes)

lemma ReadFull_append [simp]: "length a = n \<Longrightarrow> ReadFull n (a @ s) = (a, None, s)"
  by (auto simp: ReadFull_def)

lemma head_cons:
  assumes "b0 AND 0x70 = 0" "unat (h1 AND 0x7F) = l"
  shows "l < 126 \<Longrightarrow> nextFrame_head client (b0 # h1 # s) = frame_mask client b0 h1 l s"
    and "l = 126 \<Longrightarrow> length x = 2 \<Longrightarrow> nextFrame_head client (b0 # h1 # x @ s) = frame_mask client b0 h1 (unat (Uint16 x)) s"
    and "l = 127 \<Longrightarrow> length y = 8 \<Longrightarrow> unat (Uint64 y) \<le> 2 ^ 20 + 1024 \<Longrightarrow>
      nextFrame_head client (b0 # h1 # y @ s) = frame_mask client b0 h1 (unat (Uint64 y)) s"
proof -
  have "ReadFull 2 (b0 # h1 # t) = ([b0, h1], None, t)" for t by (simp add: ReadFull_def)
  note hd = nextFrame_head_def this
  show "nextFrame_head client (b0 # h1 # s) = frame_mask client b0 h1 l s" if "l < 126"
    using that assms by (simp add: hd Let_def)
  show "nextFrame_head client (b0 # h1 # x @ s) = frame_mask client b0 h1 (unat (Uint16 x)) s" if "l = 126" "length x = 2"
    using that assms by (simp add: hd Let_def)
  show "nextFrame_head client (b0 # h1 # y @ s) = frame_mask client b0 h1 (unat (Uint64 y)) s"
    if "l = 127" "length y = 8" "unat (Uint64 y) \<le> 2 ^ 20 + 1024"
    using that assms by (simp add: hd Let_def)
qed

lemma frame_mask_frame:
  assumes "n \<le> 2 ^ 20 + 1024" "client = (\<not> masked)" "length key = 4" "known_op opc" "(h1 AND 0x80 \<noteq> 0) = masked"
  shows "frame_mask client (0x80 OR opc) h1 n ((if masked then key else []) @ s) = (Inr (head_of masked key opc n), s)"
  using assms b0_bits [OF assms(4)] by (auto simp: frame_mask_def head_of_def Let_def)

lemma head_frame:
  assumes "length p \<le> 2 ^ 20 + 1024" "client = (\<not> masked)" "length key = 4" "known_op opc"
  shows "nextFrame_head client (ws_frame masked key opc p @ s) = (Inr (head_of masked key opc (length p)), body masked key p @ s)"
proof -
  let ?n = "length p" and ?b0 = "0x80 OR opc" and ?k = "if masked then key else []" and ?rest = "body masked key p @ s"
  let ?m = "\<lambda>h :: byte. if masked then h OR 0x80 else h"
  have fm: "frame_mask client ?b0 h1 ?n (?k @ ?rest) = (Inr (head_of masked key opc ?n), ?rest)" if "(h1 AND 0x80 \<noteq> 0) = masked" for h1
    by (rule frame_mask_frame [OF assms that])
  note bits = b0_bits [OF assms(4)]
  consider "?n < 126" | "126 \<le> ?n" "?n \<le> 0xFFFF" | "0xFFFF < ?n" by linarith
  then show ?thesis
  proof cases
    case 1
    then have eq: "ws_frame masked key opc p @ s = ?b0 # ?m (word_of_nat ?n) # ?k @ ?rest"
      by (simp add: ws_frame_def frame_header_def Let_def body_def)
    have "(?m (word_of_nat ?n) AND 0x80 \<noteq> 0) = masked" using 1 low7(3) [of ?n] low7(4) [of "word_of_nat ?n"] by simp
    moreover have "unat (?m (word_of_nat ?n) AND 0x7F) = ?n" using 1 low7(1,2) [of ?n] by simp
    ultimately show ?thesis unfolding eq using head_cons(1) [OF bits(1) _ 1] fm by metis
  next
    case 2
    then have eq: "ws_frame masked key opc p @ s = ?b0 # ?m 126 # PutUint16 (word_of_nat ?n) @ ?k @ ?rest"
      by (simp add: ws_frame_def frame_header_def Let_def body_def)
    have "unat (Uint16 (PutUint16 (word_of_nat ?n))) = ?n"
      using 2 Uint16_Put [of "word_of_nat ?n" "[]"] by (simp add: unat_of_nat take_bit_nat_eq_self)
    moreover have "(?m 126 AND 0x80 \<noteq> 0) = masked" "unat (?m 126 AND 0x7F) = 126" by simp_all
    ultimately show ?thesis unfolding eq using head_cons(2) [OF bits(1) _ refl length_PutUint16] fm by metis
  next
    case 3
    then have eq: "ws_frame masked key opc p @ s = ?b0 # ?m 127 # PutUint64 (word_of_nat ?n) @ ?k @ ?rest"
      by (simp add: ws_frame_def frame_header_def Let_def body_def)
    have "unat (Uint64 (PutUint64 (word_of_nat ?n))) = ?n"
      using assms(1) Uint64_Put [of "word_of_nat ?n" "[]"] by (simp add: unat_of_nat take_bit_nat_eq_self)
    moreover have "(?m 127 AND 0x80 \<noteq> 0) = masked" "unat (?m 127 AND 0x7F) = 127" by simp_all
    ultimately show ?thesis unfolding eq using head_cons(3) [OF bits(1) _ refl length_PutUint64] fm assms(1) by metis
  qed
qed

section \<open>Streams that end early\<close>

text \<open>
  A reader that has consumed \<open>j\<close> bytes of a stream fails on a shorter prefix of it and does the same
  on a longer one.
\<close>

definition cut_at :: "(bytes \<Rightarrow> (ws_error + 'a) \<times> bytes) \<Rightarrow> bytes \<Rightarrow> 'a \<Rightarrow> bytes \<Rightarrow> nat \<Rightarrow> bool" where
  "cut_at f s h r j \<longleftrightarrow> j \<le> length s \<and> r = drop j s \<and>
     (\<forall>k. if k < j then \<exists>e t. f (take k s) = (Inl e, t) else f (take k s) = (Inr h, take (k - j) r))"

lemma ReadFull_cut:
  assumes "ReadFull n s = (b, None, r)"
  shows "n \<le> length s" "r = drop n s" "b = take n s" "n \<le> k \<Longrightarrow> ReadFull n (take k s) = (b, None, take (k - n) r)"
    and "k < n \<Longrightarrow> \<exists>x e t. ReadFull n (take k s) = (x, Some e, t)"
  using assms by (auto simp: ReadFull_def take_drop min_def split: if_splits)

lemma frame_mask_cut:
  assumes "frame_mask client h0 h1 len s = (Inr h, r)"
  shows "\<exists>j. cut_at (frame_mask client h0 h1 len) s h r j"
proof (cases "h1 AND 0x80 \<noteq> 0")
  case True
  then obtain key where rf: "ReadFull 4 s = (key, None, r)"
    using assms by (auto simp: frame_mask_def Let_def split: if_splits prod.splits option.splits)
  have "frame_mask client h0 h1 len (take k s) = (Inr h, take (k - 4) r)" if "4 \<le> k" for k
    using assms True rf ReadFull_cut(4) [OF rf that] by (auto simp: frame_mask_def Let_def split: if_splits)
  moreover have "\<exists>e t. frame_mask client h0 h1 len (take k s) = (Inl e, t)" if "k < 4" for k
    using True ReadFull_cut(5) [OF rf that] by (auto simp: frame_mask_def Let_def)
  ultimately show ?thesis using ReadFull_cut(1,2) [OF rf] by (intro exI [of _ 4]) (simp add: cut_at_def)
next
  case False
  then show ?thesis using assms by (intro exI [of _ 0]) (auto simp: cut_at_def frame_mask_def Let_def split: if_splits)
qed

lemma cut_after:
  assumes rf: "ReadFull n s = (b, None, s1)" and g: "cut_at g s1 h r j"
    and bad: "\<And>t x e t1. ReadFull n t = (x, Some e, t1) \<Longrightarrow> f t = (Inl e, t1)"
    and good: "\<And>t t1. ReadFull n t = (b, None, t1) \<Longrightarrow> f t = g t1"
  shows "cut_at f s h r (n + j)"
proof -
  note rc = ReadFull_cut [OF rf]
  have "if k < n + j then \<exists>e t. f (take k s) = (Inl e, t) else f (take k s) = (Inr h, take (k - (n + j)) r)" for k
  proof (cases "k < n")
    case True
    then show ?thesis using rc(5) [OF True] bad by fastforce
  next
    case False
    then have "f (take k s) = g (take (k - n) s1)" using rc(4) [of k] good by simp
    then show ?thesis using g False unfolding cut_at_def by (auto split: if_splits simp: less_diff_conv2)
  qed
  then show ?thesis using g rc(1,2) by (auto simp: cut_at_def drop_drop add.commute)
qed

lemma cut_choice:
  assumes "(case ReadFull n s of (_, Some e, t) \<Rightarrow> (Inl e, t) | (x, None, t) \<Rightarrow> q x t) = (Inr h, r)"
    and "\<And>x t. q x t = (Inr h, r) \<Longrightarrow> \<exists>j. cut_at (q x) t h r j"
  shows "\<exists>j. cut_at (\<lambda>s. case ReadFull n s of (_, Some e, t) \<Rightarrow> (Inl e, t) | (x, None, t) \<Rightarrow> q x t) s h r j"
proof -
  obtain x s1 where x: "ReadFull n s = (x, None, s1)" using assms(1) by (auto split: prod.splits option.splits)
  then have "q x s1 = (Inr h, r)" using assms(1) by simp
  then obtain j where "cut_at (q x) s1 h r j" using assms(2) by blast
  then show ?thesis by (intro exI, rule cut_after [OF x]) simp_all
qed

lemma frame_length_cut:
  assumes "(if v > maxWSPayload then (Inl e, s) else frame_mask client h0 h1 v s) = (Inr h, r)"
  shows "\<exists>j. cut_at (\<lambda>s. if v > maxWSPayload then (Inl e, s) else frame_mask client h0 h1 v s) s h r j"
  using assms frame_mask_cut by (auto split: if_splits)

lemma head_cut:
  assumes "nextFrame_head client s = (Inr h, r)"
  shows "\<exists>j. cut_at (nextFrame_head client) s h r j"
proof -
  define g where "g hdr s = (if hdr ! 0 AND 0x70 \<noteq> 0 then (Inl (ErrWSProtocol ReservedBits), s)
        else let length7 = unat (hdr ! 1 AND 0x7F)
             in if length7 = 126 then
                  (case ReadFull 2 s of
                     (_, Some e, s2) \<Rightarrow> (Inl e, s2)
                   | (ext, None, s2) \<Rightarrow> frame_mask client (hdr ! 0) (hdr ! 1) (unat (Uint16 ext)) s2)
                else if length7 = 127 then
                  (case ReadFull 8 s of
                     (_, Some e, s2) \<Rightarrow> (Inl e, s2)
                   | (ext, None, s2) \<Rightarrow>
                     let v = unat (Uint64 ext)
                     in if v > maxWSPayload then (Inl (ErrWSProtocol (FrameTooLong v)), s2)
                        else frame_mask client (hdr ! 0) (hdr ! 1) v s2)
                else frame_mask client (hdr ! 0) (hdr ! 1) length7 s)" for hdr s
  have head: "nextFrame_head client s = (case ReadFull 2 s of (_, Some e, t) \<Rightarrow> (Inl e, t) | (x, None, t) \<Rightarrow> g x t)" for s
    unfolding nextFrame_head_def g_def by (rule refl)
  have "\<exists>j. cut_at (g hdr) t h r j" if "g hdr t = (Inr h, r)" for hdr t
  proof -
    let ?l = "unat (hdr ! 1 AND 0x7F)"
    have res: "hdr ! 0 AND 0x70 = 0" using that by (auto simp: g_def split: if_splits)
    consider "?l = 126" | "?l = 127" | "?l \<noteq> 126" "?l \<noteq> 127" by blast
    then show ?thesis
    proof cases
      case 1
      then show ?thesis using that res cut_choice [OF _ frame_mask_cut, where n = 2 and s = t] by (simp add: Let_def g_def [abs_def])
    next
      case 2
      then show ?thesis using that res cut_choice [OF _ frame_length_cut, where n = 8 and s = t]
        unfolding Let_def g_def [abs_def] by simp
    next
      case 3
      then show ?thesis using that res frame_mask_cut by (simp add: Let_def g_def [abs_def])
    qed
  qed
  from cut_choice [where n = 2 and s = s and q = g, OF _ this] assms show ?thesis unfolding head [abs_def] by blast
qed

section \<open>Frames on the wire\<close>

type_synonym wframe = "byte \<times> bytes \<times> bytes" \<comment> \<open>opcode, masking key, payload\<close>

fun wire :: "bool \<Rightarrow> wframe list \<Rightarrow> bytes" where
  "wire m [] = []"
| "wire m ((opc, key, p) # fs) = ws_frame m key opc p @ wire m fs"

fun data_of :: "wframe list \<Rightarrow> bytes" where
  "data_of [] = []"
| "data_of ((opc, key, p) # fs) = (if opc = opBinary then p else []) @ data_of fs"

fun frame_ok :: "wframe \<Rightarrow> bool" where
  "frame_ok (opc, key, p) \<longleftrightarrow> length key = 4 \<and>
     (opc = opBinary \<and> length p \<le> maxWSPayload \<or> (opc = opPing \<or> opc = opPong) \<and> length p \<le> maxControlPayload)"

definition good_env :: "ws_env \<Rightarrow> bool" where
  "good_env E \<longleftrightarrow> (\<forall>n. we_write E n = None \<and> we_rand E n \<noteq> None)"

lemma head_prefix:
  assumes s: "prefix s (ws_frame m key opc p @ rest)" and f: "frame_ok (opc, key, p)"
  shows "(\<exists>e t. nextFrame_head (\<not> m) s = (Inl e, t) \<and> s \<noteq> ws_frame m key opc p @ rest) \<or>
    (\<exists>t. nextFrame_head (\<not> m) s = (Inr (head_of m key opc (length p)), t) \<and> prefix t (body m key p @ rest) \<and>
       (s = ws_frame m key opc p @ rest \<longrightarrow> t = body m key p @ rest))"
proof -
  let ?w = "ws_frame m key opc p @ rest"
  have "known_op opc" "length p \<le> 2 ^ 20 + 1024" "length key = 4" using f by (auto simp: known_op_def)
  then have hd: "nextFrame_head (\<not> m) ?w = (Inr (head_of m key opc (length p)), body m key p @ rest)"
    using head_frame by simp
  then obtain j where j: "cut_at (nextFrame_head (\<not> m)) ?w (head_of m key opc (length p)) (body m key p @ rest) j"
    using head_cut by blast
  have sw: "s = take (length s) ?w" using s by (metis append_eq_conv_conj prefixE)
  show ?thesis
  proof (cases "s = ?w")
    case True
    then show ?thesis using hd by simp
  next
    case False
    have "if length s < j then \<exists>e t. nextFrame_head (\<not> m) s = (Inl e, t)
        else nextFrame_head (\<not> m) s = (Inr (head_of m key opc (length p)), take (length s - j) (body m key p @ rest))"
      using j sw unfolding cut_at_def by metis
    then show ?thesis using False take_is_prefix by (cases "length s < j") (auto simp del: take_append)
  qed
qed

lemma payload_prefix:
  assumes s: "prefix (ws_in c) (body m key p @ rest)"
  shows "(\<exists>e c'. readPayload (length p) (if m then key else [0, 0, 0, 0]) m c = (Inl e, c') \<and> ws_in c \<noteq> body m key p @ rest) \<or>
    (\<exists>t. readPayload (length p) (if m then key else [0, 0, 0, 0]) m c = (Inr p, c\<lparr>ws_in := t\<rparr>) \<and> prefix t rest \<and>
       (ws_in c = body m key p @ rest \<longrightarrow> t = rest))"
proof (cases "length p \<le> length (ws_in c)")
  case True
  obtain u where u: "body m key p @ rest = ws_in c @ u" using s by (auto simp: prefix_def)
  then have "take (length p) (ws_in c) = body m key p"
    using True by (metis append_eq_conv_conj length_body take_all_iff take_append take_take min.absorb1 nle_le)
  then obtain t where t: "ws_in c = body m key p @ t" by (metis append_take_drop_id)
  then have "prefix t rest" using s by simp
  moreover have "readPayload (length p) (if m then key else [0, 0, 0, 0]) m c = (Inr p, c\<lparr>ws_in := t\<rparr>)"
    by (cases "p = []") (auto simp: readPayload_def t body_def)
  ultimately show ?thesis using t by (intro disjI2 exI [of _ t]) simp
next
  case False
  then have "p \<noteq> []" "ws_in c \<noteq> body m key p @ rest" by auto
  then show ?thesis using False by (auto simp: readPayload_def ReadFull_def)
qed


lemma writeControl_good:
  assumes "good_env E"
  shows "\<exists>c'. writeControl E opc p c = (Inr (), c')"
proof -
  have "we_write E (ws_writes c) = None" "we_rand E (ws_writes c) \<noteq> None" using assms by (simp_all add: good_env_def)
  then show ?thesis by (auto simp: writeControl_def writeFrame_def RandomBytes_def Let_def)
qed

text \<open>What one iteration does once the header of a frame is read.\<close>

lemma step_kinds:
  assumes "nextFrame_head (ws_mask c) (ws_in c) = (Inr (head_of m key opc (length p)), t)" "frame_ok (opc, key, p)"
  shows "opc = opBinary \<Longrightarrow> nextFrame_step E c = (if p = [] then None else Some (Inr ()), c\<lparr>ws_in := t, ws_rem := length p,
          ws_rmask := (if m then key else [0, 0, 0, 0]), ws_rmasked := m, ws_rmaskPos := 0\<rparr>)"
    and "opc = opPing \<Longrightarrow> nextFrame_step E c =
          (case readPayload (length p) (if m then key else [0, 0, 0, 0]) m (c\<lparr>ws_in := t\<rparr>) of (Inl e, c2) \<Rightarrow> (Some (Inl e), c2)
           | (Inr q, c2) \<Rightarrow> (case writeControl E opPong q c2 of (Inl e, c3) \<Rightarrow> (Some (Inl e), c3) | (Inr _, c3) \<Rightarrow> (None, c3)))"
    and "opc = opPong \<Longrightarrow> nextFrame_step E c =
          (case readPayload (length p) (if m then key else [0, 0, 0, 0]) m (c\<lparr>ws_in := t\<rparr>) of (Inl e, c2) \<Rightarrow> (Some (Inl e), c2)
           | (Inr _, c2) \<Rightarrow> (None, c2))"
  using assms
  by (simp_all add: nextFrame_step_def head_of_def Let_def opcodes ws_drain_def split: prod.split sum.split)

lemma step_control:
  assumes f: "frame_ok (opc, key, p)" and ctl: "opc = opPing \<or> opc = opPong" and c: "ws_mask c = (\<not> m)" "ws_rem c = 0"
    and head: "nextFrame_head (\<not> m) (ws_in c) = (Inr (head_of m key opc (length p)), t)" and t: "prefix t (body m key p @ wire m fs)"
  shows "(\<exists>e c'. nextFrame_step E c = (Some (Inl e), c') \<and> \<not> (good_env E \<and> t = body m key p @ wire m fs)) \<or>
    (\<exists>c'. nextFrame_step E c = (None, c') \<and> ws_mask c' = (\<not> m) \<and> ws_rem c' = 0 \<and> prefix (ws_in c') (wire m fs) \<and>
       (t = body m key p @ wire m fs \<longrightarrow> ws_in c' = wire m fs))"
proof -
  let ?k = "if m then key else [0, 0, 0, 0]"
  note kinds = step_kinds [OF head [folded c(1)] f]
  consider (cut) e c' where "readPayload (length p) ?k m (c\<lparr>ws_in := t\<rparr>) = (Inl e, c')" "t \<noteq> body m key p @ wire m fs"
    | (whole) u where "readPayload (length p) ?k m (c\<lparr>ws_in := t\<rparr>) = (Inr p, c\<lparr>ws_in := u\<rparr>)" "prefix u (wire m fs)"
        "t = body m key p @ wire m fs \<longrightarrow> u = wire m fs"
    using payload_prefix [of "c\<lparr>ws_in := t\<rparr>" m key p "wire m fs"] t by auto
  then show ?thesis
  proof cases
    case cut
    then show ?thesis using ctl kinds(2,3) [of E] by (intro disjI1) auto
  next
    case (whole u)
    obtain w d where w: "writeControl E opPong p (c\<lparr>ws_in := u\<rparr>) = (w, d)" by fastforce
    then have d: "ws_in d = u" "ws_mask d = (\<not> m)" "ws_rem d = 0"
      using writeControl_keeps [of E opPong p "c\<lparr>ws_in := u\<rparr>"] c by simp_all
    have bad: "\<not> good_env E" if "w = Inl e" for e using writeControl_good [of E opPong p "c\<lparr>ws_in := u\<rparr>"] w that by auto
    from ctl show ?thesis
    proof
      assume ping: "opc = opPing"
      show ?thesis
      proof (cases w)
        case (Inl e)
        then show ?thesis using kinds(2) [OF ping, of E] whole(1) w bad by (intro disjI1) simp
      next
        case (Inr x)
        then show ?thesis using kinds(2) [OF ping, of E] whole w d by (intro disjI2) simp
      qed
    next
      assume "opc = opPong"
      then show ?thesis using kinds(3) [of E] whole c by (intro disjI2) simp
    qed
  qed
qed

lemma step_frame:
  assumes s: "prefix (ws_in c) (wire m ((opc, key, p) # fs))" and f: "frame_ok (opc, key, p)"
    and c: "ws_mask c = (\<not> m)" "ws_rem c = 0"
  shows "(\<exists>e c'. nextFrame_step E c = (Some (Inl e), c') \<and> \<not> (good_env E \<and> ws_in c = wire m ((opc, key, p) # fs))) \<or>
    (opc = opBinary \<and> p \<noteq> [] \<and> (\<exists>t. nextFrame_step E c = (Some (Inr ()), c\<lparr>ws_in := t, ws_rem := length p,
          ws_rmask := (if m then key else [0, 0, 0, 0]), ws_rmasked := m, ws_rmaskPos := 0\<rparr>) \<and>
        prefix t (body m key p @ wire m fs) \<and> (ws_in c = wire m ((opc, key, p) # fs) \<longrightarrow> t = body m key p @ wire m fs))) \<or>
    ((opc = opBinary \<longrightarrow> p = []) \<and> (\<exists>c'. nextFrame_step E c = (None, c') \<and> ws_mask c' = (\<not> m) \<and> ws_rem c' = 0 \<and>
        prefix (ws_in c') (wire m fs) \<and> (ws_in c = wire m ((opc, key, p) # fs) \<longrightarrow> ws_in c' = wire m fs)))"
proof -
  let ?w = "wire m ((opc, key, p) # fs)" and ?h = "head_of m key opc (length p)" and ?k = "if m then key else [0, 0, 0, 0]"
  have s': "prefix (ws_in c) (ws_frame m key opc p @ wire m fs)" using s by simp
  consider (bad) e t where "nextFrame_head (\<not> m) (ws_in c) = (Inl e, t)" "ws_in c \<noteq> ?w"
    | (ok) t where "nextFrame_head (\<not> m) (ws_in c) = (Inr ?h, t)" "prefix t (body m key p @ wire m fs)"
        "ws_in c = ?w \<longrightarrow> t = body m key p @ wire m fs"
    using head_prefix [OF s' f] by auto
  then show ?thesis
  proof cases
    case bad
    then show ?thesis using c by (simp add: nextFrame_step_def)
  next
    case ok
    note kinds = step_kinds [OF ok(1) [folded c(1)] f]
    show ?thesis
    proof (cases "opc = opBinary")
      case False
      then have ctl: "opc = opPing \<or> opc = opPong" using f by auto
      from step_control [OF f ctl c ok(1,2), of E] show ?thesis using False ok(3) by blast
    next
      case bin: True
      show ?thesis
      proof (cases "p = []")
        case True
        then show ?thesis using kinds(1) [OF bin, of E] ok c by (intro disjI2) simp
      next
        case False
        have "nextFrame_step E c = (Some (Inr ()), c\<lparr>ws_in := t, ws_rem := length p, ws_rmask := ?k, ws_rmasked := m, ws_rmaskPos := 0\<rparr>)"
          using kinds(1) [OF bin, of E] False by (simp only: if_False)
        with bin False ok(2,3) show ?thesis by blast
      qed
    qed
  qed
qed

section \<open>Reading a stream\<close>

text \<open>
  The reader's state describes the data \<open>D\<close> still to come of the current frame and the frames
  \<open>fs\<close> after it; \<open>full\<close> says that the stream was not cut off.
\<close>

definition pending :: "bool \<Rightarrow> bool \<Rightarrow> WSConn \<Rightarrow> bytes \<Rightarrow> wframe list \<Rightarrow> bool" where
  "pending full m c D fs \<longleftrightarrow> ws_mask c = (\<not> m) \<and> length D = ws_rem c \<and> list_all frame_ok fs \<and>
     (let raw = (if ws_rmasked c then mask_bytes (ws_rmask c) (ws_rmaskPos c) D else D)
      in prefix (ws_in c) (raw @ wire m fs) \<and> (full \<longrightarrow> ws_in c = raw @ wire m fs))"

lemma pending_frames:
  "ws_rem c = 0 \<Longrightarrow> pending full m c D fs \<longleftrightarrow> D = [] \<and> ws_mask c = (\<not> m) \<and> list_all frame_ok fs \<and>
     prefix (ws_in c) (wire m fs) \<and> (full \<longrightarrow> ws_in c = wire m fs)"
  by (auto simp: pending_def Let_def)

text \<open>The first data frame that is not empty, and the frames after it.\<close>

fun first_data :: "wframe list \<Rightarrow> (bytes \<times> wframe list) option" where
  "first_data [] = None"
| "first_data ((opc, key, p) # fs) = (if opc = opBinary \<and> p \<noteq> [] then Some (p, fs) else first_data fs)"

lemma first_data_of: "first_data fs = Some (D, fs') \<Longrightarrow> data_of fs = D @ data_of fs'"
  by (induction fs rule: first_data.induct) (auto split: if_splits)

lemma first_data_skip: "data_of gs = [] \<Longrightarrow> first_data (gs @ fs) = first_data fs"
  by (induction gs rule: first_data.induct) (auto split: if_splits)

lemma nextFrame_pending:
  assumes "pending full m c [] fs"
  shows "(\<exists>e c'. nextFrame E c = (Inl e, c') \<and> (full \<longrightarrow> good_env E \<longrightarrow> data_of fs = [] \<and> e = WSEOF)) \<or>
    (\<exists>c' D fs'. nextFrame E c = (Inr (), c') \<and> pending full m c' D fs' \<and> D \<noteq> [] \<and> first_data fs = Some (D, fs'))"
  using assms
proof (induction fs arbitrary: c)
  case Nil
  then have "ws_in c = []" by (auto simp: pending_def Let_def split: if_splits)
  then have "nextFrame E c = (Inl WSEOF, c)"
    by (subst nextFrame.simps) (simp add: nextFrame_step_def nextFrame_head_def ReadFull_def)
  then show ?case by simp
next
  case (Cons x fs)
  obtain opc key p where x: "x = (opc, key, p)" by (cases x) auto
  have r0: "ws_rem c = 0" using Cons.prems by (simp add: pending_def)
  then have c: "prefix (ws_in c) (wire m (x # fs))" "full \<longrightarrow> ws_in c = wire m (x # fs)" "ws_mask c = (\<not> m)" "frame_ok x"
    "list_all frame_ok fs"
    using Cons.prems by (auto simp: pending_frames)
  have next_eq: "nextFrame E c = (case nextFrame_step E c of (Some r, c') \<Rightarrow> (r, c') | (None, c') \<Rightarrow> nextFrame E c')"
    by (rule nextFrame.simps)
  from step_frame [OF c(1) [unfolded x] c(4) [unfolded x] c(3) r0, of E] show ?case
  proof (elim disjE conjE exE)
    fix e c' assume "nextFrame_step E c = (Some (Inl e), c')" "\<not> (good_env E \<and> ws_in c = wire m ((opc, key, p) # fs))"
    then show ?thesis using next_eq c(2) x by (intro disjI1 exI [of _ e] exI [of _ c']) auto
  next
    fix t let ?c = "c\<lparr>ws_in := t, ws_rem := length p, ws_rmask := (if m then key else [0, 0, 0, 0]), ws_rmasked := m, ws_rmaskPos := 0\<rparr>"
    assume t: "nextFrame_step E c = (Some (Inr ()), ?c)" "prefix t (body m key p @ wire m fs)"
      "ws_in c = wire m ((opc, key, p) # fs) \<longrightarrow> t = body m key p @ wire m fs" and p: "opc = opBinary" "p \<noteq> []"
    have "pending full m ?c p fs" using t c x by (auto simp: pending_def Let_def body_def)
    then show ?thesis using next_eq t(1) p x by (intro disjI2 exI [of _ ?c] exI [of _ p] exI [of _ fs]) simp
  next
    fix c' assume d: "opc = opBinary \<longrightarrow> p = []" and
      c': "nextFrame_step E c = (None, c')" "ws_mask c' = (\<not> m)" "ws_rem c' = 0" "prefix (ws_in c') (wire m fs)"
      "ws_in c = wire m ((opc, key, p) # fs) \<longrightarrow> ws_in c' = wire m fs"
    have "pending full m c' [] fs" using c' c x by (simp add: pending_frames)
    moreover have "first_data (x # fs) = first_data fs" "data_of (x # fs) = data_of fs" using d x by auto
    ultimately show ?thesis using Cons.IH next_eq c'(1) by simp
  qed
qed

lemma ReadFull_prefix: "\<exists>k. fst (ReadFull n s) = take k s \<and> snd (snd (ReadFull n s)) = drop k s \<and> k \<le> n \<and> (n \<le> length s \<longrightarrow> k = n) \<and>
   (fst (snd (ReadFull n s)) = None \<longleftrightarrow> n \<le> length s)"
  by (auto simp: ReadFull_def intro: exI [of _ n] exI [of _ "length s"])

text \<open>\<open>Read\<close> returns the next bytes of the data, and the state describes the rest.\<close>

lemma Read_data:
  assumes "pending full m c D fs" "D \<noteq> []"
  shows "\<exists>b err c' D'. ws_Read E n c = ((b, err), c') \<and> D = b @ D' \<and> pending full m c' D' fs \<and>
    (n > 0 \<longrightarrow> err = None \<longrightarrow> b \<noteq> []) \<and> (full \<longrightarrow> err = None \<and> b = take n D)"
proof -
  let ?raw = "if ws_rmasked c then mask_bytes (ws_rmask c) (ws_rmaskPos c) D else D"
  let ?n = "min n (ws_rem c)"
  have len: "length D = ws_rem c" using assms(1) by (simp add: pending_def)
  then have pos: "ws_rem c > 0" "length ?raw = ws_rem c" using assms(2) by (auto simp: length_greater_0_conv [symmetric] simp del: length_greater_0_conv)
  obtain u where u: "?raw @ wire m fs = ws_in c @ u" "full \<longrightarrow> u = []"
    using assms(1) by (auto simp: pending_def Let_def prefix_def)
  obtain k where k: "fst (ReadFull ?n (ws_in c)) = take k (ws_in c)" "snd (snd (ReadFull ?n (ws_in c))) = drop k (ws_in c)"
    "k \<le> ?n" "?n \<le> length (ws_in c) \<longrightarrow> k = ?n" "fst (snd (ReadFull ?n (ws_in c))) = None \<longleftrightarrow> ?n \<le> length (ws_in c)"
    using ReadFull_prefix by blast
  obtain err where rf: "ReadFull ?n (ws_in c) = (take k (ws_in c), err, drop k (ws_in c))"
    using k(1,2) by (metis prod.collapse)
  define j where "j = length (take k (ws_in c))"
  have j: "j \<le> ws_rem c" "take k (ws_in c) = take j (ws_in c)" "drop k (ws_in c) = drop j (ws_in c)" "j \<le> length (ws_in c)"
    using k(3) by (cases "k \<le> length (ws_in c)"; simp add: j_def min_def; linarith)+
  have raw: "take j ?raw = take j (ws_in c)"
  proof -
    have "take j (?raw @ wire m fs) = take j (ws_in c @ u)" using u(1) by simp
    then show ?thesis using j(1,4) pos(2) by simp
  qed
  let ?b = "if ws_rmasked c then mask_bytes (ws_rmask c) (ws_rmaskPos c) (take j (ws_in c)) else take j (ws_in c)"
  have b: "?b = take j D"
    using arg_cong [OF mask_bytes_append [of "ws_rmask c" "ws_rmaskPos c" "take j D" "drop j D"], of "take j"] raw [symmetric] j(1) len
    by (auto simp: min_def)
  let ?c = "c\<lparr>ws_in := drop j (ws_in c), ws_rem := ws_rem c - j, ws_rmaskPos := (if ws_rmasked c then ws_rmaskPos c + j else ws_rmaskPos c)\<rparr>"
  have rd: "ws_Read E n c = ((?b, err), ?c)"
  proof -
    have "ReadFull ?n (ws_in c) = (take j (ws_in c), err, drop j (ws_in c))" using rf j(2,3) by simp
    moreover have "length (take j (ws_in c)) = j" using j(4) by simp
    ultimately show ?thesis using pos(1) by (subst ws_Read.simps) (simp del: length_take)
  qed
  have "pending full m ?c (drop j D) fs"
  proof -
    have "drop j (?raw @ wire m fs) = drop j (ws_in c @ u)" using u(1) by simp
    then have "drop j ?raw @ wire m fs = drop j (ws_in c) @ u" using j(1,4) pos(2) by simp
    moreover have "drop j ?raw = (if ws_rmasked ?c then mask_bytes (ws_rmask ?c) (ws_rmaskPos ?c) (drop j D) else drop j D)"
      using mask_bytes_append [of "ws_rmask c" "ws_rmaskPos c" "take j D" "drop j D"] j(1) len by (simp add: min_def)
    ultimately have eq: "(if ws_rmasked ?c then mask_bytes (ws_rmask ?c) (ws_rmaskPos ?c) (drop j D) else drop j D) @ wire m fs = ws_in ?c @ u"
      by simp
    have "ws_mask ?c = (\<not> m)" "length (drop j D) = ws_rem ?c" "list_all frame_ok fs"
      using assms(1) len by (simp_all add: pending_def)
    then show ?thesis unfolding pending_def Let_def eq using u(2) by simp
  qed
  moreover have "full \<longrightarrow> err = None"
    using u pos k(5) rf by (auto simp: dest!: arg_cong [of _ _ length])
  moreover have "full \<longrightarrow> ?b = take n D"
  proof
    assume full
    then have "?raw @ wire m fs = ws_in c" using u by simp
    then have "ws_rem c \<le> length (ws_in c)" using pos(2) by (metis le_add1 length_append)
    then have "j = ?n" using k(4) by (simp add: j_def)
    then show "?b = take n D" unfolding b using len by (simp add: min_def)
  qed
  moreover have "n > 0 \<longrightarrow> err = None \<longrightarrow> ?b \<noteq> []"
    using k(4,5) rf pos len j_def b by (auto simp: min_def)
  ultimately show ?thesis using rd b by (intro exI [of _ ?b] exI [of _ err] exI [of _ ?c] exI [of _ "drop j D"]) simp
qed

lemma Read_pending:
  assumes "pending full m c D fs"
  shows "\<exists>b err c' D' fs'. ws_Read E n c = ((b, err), c') \<and> D @ data_of fs = b @ D' @ data_of fs' \<and>
    (err = None \<longrightarrow> pending full m c' D' fs' \<and> (n > 0 \<longrightarrow> b \<noteq> [])) \<and>
    (full \<longrightarrow> good_env E \<longrightarrow> err = None \<or> err = Some WSEOF \<and> b = [] \<and> D' @ data_of fs' = [])"
proof (cases "D = []")
  case False
  from Read_data [OF assms False, of E n] obtain b err c' D' where "ws_Read E n c = ((b, err), c')" "D = b @ D'" "pending full m c' D' fs"
    "n > 0 \<longrightarrow> err = None \<longrightarrow> b \<noteq> []" "full \<longrightarrow> err = None" by blast
  then show ?thesis by (intro exI [of _ b] exI [of _ err] exI [of _ c'] exI [of _ D'] exI [of _ fs]) simp
next
  case True
  then have r0: "ws_rem c = 0" using assms by (simp add: pending_def)
  have rd: "ws_Read E n c = (case nextFrame E c of (Inl e, c') \<Rightarrow> (([], Some e), c') | (Inr _, c') \<Rightarrow> ws_Read E n c')"
    using r0 by (subst ws_Read.simps) simp
  from nextFrame_pending [OF assms [unfolded True], of E] show ?thesis
  proof (elim disjE exE conjE)
    fix e c' assume "nextFrame E c = (Inl e, c')" "full \<longrightarrow> good_env E \<longrightarrow> data_of fs = [] \<and> e = WSEOF"
    then show ?thesis using rd True by (intro exI [of _ "[]"] exI [of _ "Some e"] exI [of _ c'] exI [of _ fs]) simp
  next
    fix c' D' fs' assume d: "nextFrame E c = (Inr (), c')" "pending full m c' D' fs'" "D' \<noteq> []" "first_data fs = Some (D', fs')"
    from Read_data [OF d(2,3), of E n] obtain b err c2 D2 where "ws_Read E n c' = ((b, err), c2)" "D' = b @ D2" "pending full m c2 D2 fs'"
      "n > 0 \<longrightarrow> err = None \<longrightarrow> b \<noteq> []" "full \<longrightarrow> err = None" by blast
    then show ?thesis using rd d first_data_of [OF d(4)] True by (intro exI [of _ b] exI [of _ err] exI [of _ c2] exI [of _ D2] exI [of _ fs']) simp
  qed
qed

text \<open>A reader that reads with the given buffer sizes and stops at the first error.\<close>

fun read_seq :: "ws_env \<Rightarrow> nat list \<Rightarrow> WSConn \<Rightarrow> bytes \<times> ws_error option" where
  "read_seq E [] c = ([], None)"
| "read_seq E (n # ns) c =
     (case ws_Read E n c of
        ((b, Some e), _) \<Rightarrow> (b, Some e)
      | ((b, None), c') \<Rightarrow> (case read_seq E ns c' of (b', e) \<Rightarrow> (b @ b', e)))"

lemma read_seq_prefix:
  "pending full m c D fs \<Longrightarrow> prefix (fst (read_seq E ns c)) (D @ data_of fs)"
proof (induction ns arbitrary: c D fs)
  case (Cons n ns)
  obtain b err c' D' fs' where rd: "ws_Read E n c = ((b, err), c')" and eq: "D @ data_of fs = b @ D' @ data_of fs'"
    and nx: "err = None \<longrightarrow> pending full m c' D' fs'"
    using Read_pending [OF Cons.prems, of E n] by blast
  show ?case
  proof (cases err)
    case None
    then have "prefix (fst (read_seq E ns c')) (D' @ data_of fs')" using Cons.IH nx by blast
    then show ?thesis using rd eq None by (cases "read_seq E ns c'") simp
  qed (simp add: rd eq)
qed simp

lemma read_seq_complete:
  "pending True m c D fs \<Longrightarrow> good_env E \<Longrightarrow> list_all (\<lambda>n. n > 0) ns \<Longrightarrow> length (D @ data_of fs) < length ns \<Longrightarrow>
   read_seq E ns c = (D @ data_of fs, Some WSEOF)"
proof (induction ns arbitrary: c D fs)
  case (Cons n ns)
  obtain b err c' D' fs' where rd: "ws_Read E n c = ((b, err), c')" and eq: "D @ data_of fs = b @ D' @ data_of fs'"
    and nx: "err = None \<longrightarrow> pending True m c' D' fs' \<and> (n > 0 \<longrightarrow> b \<noteq> [])"
    and fl: "err = None \<or> err = Some WSEOF \<and> b = [] \<and> D' @ data_of fs' = []"
    using Read_pending [OF Cons.prems(1), of E n] Cons.prems(2) by blast
  show ?case
  proof (cases err)
    case None
    then have b: "b \<noteq> []" "pending True m c' D' fs'" using nx Cons.prems(3) by simp_all
    have "length (D @ data_of fs) = length b + length (D' @ data_of fs')" by (simp only: eq length_append)
    then have "length (D' @ data_of fs') < length ns" using Cons.prems(4) b(1) by (cases b) simp_all
    then have "read_seq E ns c' = (D' @ data_of fs', Some WSEOF)" using Cons.IH [OF b(2)] Cons.prems(2,3) by simp
    then show ?thesis using rd None by (simp add: eq)
  next
    case (Some e)
    then show ?thesis using rd fl by (simp add: eq)
  qed
qed simp

section \<open>Writing a stream\<close>

datatype ws_op = WsWrite bytes | WsPing | WsPong bytes

fun ws_do :: "ws_env \<Rightarrow> ws_op \<Rightarrow> WSConn \<Rightarrow> WSConn" where
  "ws_do E (WsWrite p) c = snd (ws_Write E p c)"
| "ws_do E WsPing c = snd (ws_Ping E c)"
| "ws_do E (WsPong p) c = snd (writeControl E opPong p c)"

text \<open>The data of a sequence of writes; a write beyond the limit is refused.\<close>

fun ws_payload :: "ws_op list \<Rightarrow> bytes" where
  "ws_payload [] = []"
| "ws_payload (WsWrite p # ops) = (if length p \<le> maxWSPayload then p else []) @ ws_payload ops"
| "ws_payload (_ # ops) = ws_payload ops"

lemma wire_append [simp]: "wire m (gs @ fs) = wire m gs @ wire m fs"
  by (induction gs) auto

lemma data_of_append [simp]: "data_of (gs @ fs) = data_of gs @ data_of fs"
  by (induction gs) auto

lemma writeFrame_good:
  assumes "good_env E"
  shows "\<exists>key. length key = 4 \<and> writeFrame E opc p c =
    (Inr (), c\<lparr>ws_writes := ws_writes c + 1, ws_out := ws_out c @ ws_frame (ws_mask c) key opc p\<rparr>)"
proof -
  obtain f where "we_write E (ws_writes c) = None" "we_rand E (ws_writes c) = Some f" using assms by (auto simp: good_env_def)
  then show ?thesis
    by (cases "ws_mask c"; intro exI [of _ "fill f 4"]) (simp_all add: writeFrame_def RandomBytes_def Let_def ws_frame_def)
qed

lemma writes_on_wire:
  assumes "good_env E"
  shows "\<exists>fs. list_all frame_ok fs \<and> data_of fs = ws_payload ops \<and>
    ws_out (fold (ws_do E) ops c) = ws_out c @ wire (ws_mask c) fs \<and> ws_mask (fold (ws_do E) ops c) = ws_mask c"
proof (induction ops arbitrary: c)
  case Nil
  then show ?case by (intro exI [of _ "[]"]) simp
next
  case (Cons x ops)
  have one: "\<exists>gs. list_all frame_ok gs \<and> data_of gs = ws_payload [x] \<and>
      ws_out (ws_do E x c) = ws_out c @ wire (ws_mask c) gs \<and> ws_mask (ws_do E x c) = ws_mask c"
  proof (cases "\<exists>p. x = WsWrite p \<and> length p > maxWSPayload")
    case True
    then show ?thesis by (intro exI [of _ "[]"]) (auto simp: ws_Write_def)
  next
    case False
    obtain opc q where x: "ws_do E x c = snd (writeFrame E opc q c)" "data_of [(opc, key, q)] = ws_payload [x]"
      "length key = 4 \<Longrightarrow> frame_ok (opc, key, q)" for key
      using False that [of opBinary "case x of WsWrite p \<Rightarrow> p"] that [of opPing "[]"] that [of opPong "take 125 (case x of WsPong p \<Rightarrow> p)"]
      by (cases x) (auto simp: ws_Write_def ws_Ping_def writeControl_def opcodes split: prod.split sum.split)
    obtain key where "length key = 4" "writeFrame E opc q c =
        (Inr (), c\<lparr>ws_writes := ws_writes c + 1, ws_out := ws_out c @ ws_frame (ws_mask c) key opc q\<rparr>)"
      using writeFrame_good [OF assms] by blast
    then show ?thesis using x(1) x(2,3) [of key] by (intro exI [of _ "[(opc, key, q)]"]) simp
  qed
  then obtain gs where gs: "list_all frame_ok gs" "data_of gs = ws_payload [x]"
    "ws_out (ws_do E x c) = ws_out c @ wire (ws_mask c) gs" "ws_mask (ws_do E x c) = ws_mask c" by blast
  obtain fs where fs: "list_all frame_ok fs" "data_of fs = ws_payload ops"
    "ws_out (fold (ws_do E) ops (ws_do E x c)) = ws_out (ws_do E x c) @ wire (ws_mask c) fs"
    "ws_mask (fold (ws_do E) ops (ws_do E x c)) = ws_mask c"
    using Cons.IH [of "ws_do E x c"] gs(4) by auto
  have "ws_payload (x # ops) = ws_payload [x] @ ws_payload ops" by (cases x) simp_all
  then show ?case using gs fs by (intro exI [of _ "gs @ fs"]) simp
qed

lemma NewWSConn_simps [simp]:
  "ws_in (NewWSConn s b) = s" "ws_out (NewWSConn s b) = []" "ws_mask (NewWSConn s b) = b" "ws_rem (NewWSConn s b) = 0"
  "ws_writes (NewWSConn s b) = 0" "ws_closed (NewWSConn s b) = False"
  by (simp_all add: NewWSConn_def)

lemma new_pending: "list_all frame_ok fs \<Longrightarrow> prefix s (wire m fs) \<Longrightarrow> (full \<longrightarrow> s = wire m fs) \<Longrightarrow>
   pending full m (NewWSConn s (\<not> m)) [] fs"
  by (simp add: pending_frames)

section \<open>Properties\<close>

text \<open>
  C13: the WebSocket connection is a byte stream. Whatever one end writes (data of any sizes, pings
  and pongs in between, masked or not), a reader at the other end with any sequence of buffer
  sizes gets a prefix of the written data, also when the stream is cut at any byte; when nothing is
  cut it gets all of the data and then the end of the stream. Answers to pings do not disturb this.
\<close>

theorem websocket_is_a_stream:
  assumes "good_env E" and "wirebytes = ws_out (fold (ws_do E) ops (NewWSConn [] client))"
  shows "prefix (fst (read_seq E' sizes (NewWSConn (take k wirebytes) (\<not> client)))) (ws_payload ops) \<and>
    (good_env E' \<longrightarrow> list_all (\<lambda>n. n > 0) sizes \<longrightarrow> length (ws_payload ops) < length sizes \<longrightarrow>
       read_seq E' sizes (NewWSConn wirebytes (\<not> client)) = (ws_payload ops, Some WSEOF))"
proof -
  obtain fs where fs: "list_all frame_ok fs" "data_of fs = ws_payload ops" "wirebytes = wire client fs"
    using writes_on_wire [OF assms(1), of ops "NewWSConn [] client"] assms(2) by auto
  have "pending False client (NewWSConn (take k wirebytes) (\<not> client)) [] fs"
    using fs by (intro new_pending) (simp_all add: take_is_prefix)
  from read_seq_prefix [OF this] have "prefix (fst (read_seq E' sizes (NewWSConn (take k wirebytes) (\<not> client)))) (ws_payload ops)"
    using fs(2) by simp
  moreover have "pending True client (NewWSConn wirebytes (\<not> client)) [] fs" using fs by (intro new_pending) simp_all
  from read_seq_complete [OF this] have "good_env E' \<longrightarrow> list_all (\<lambda>n. n > 0) sizes \<longrightarrow> length (ws_payload ops) < length sizes \<longrightarrow>
       read_seq E' sizes (NewWSConn wirebytes (\<not> client)) = (ws_payload ops, Some WSEOF)"
    using fs(2) by simp
  ultimately show ?thesis ..
qed

definition demo_env :: ws_env where
  "demo_env = \<lparr>we_rand = (\<lambda>n. Some (\<lambda>i. word_of_nat (n + i))), we_write = (\<lambda>_. None)\<rparr>"

lemma demo_env_good: "good_env demo_env"
  by (simp add: good_env_def demo_env_def)

theorem websocket_is_a_stream_witness:
  "read_seq demo_env [2, 2, 2, 2, 2, 2] (NewWSConn (ws_out (fold (ws_do demo_env)
     [WsWrite [1, 2, 3], WsPing, WsWrite [], WsWrite [4, 5]] (NewWSConn [] True))) False) = ([1, 2, 3, 4, 5], Some WSEOF)"
  using websocket_is_a_stream [OF demo_env_good refl, of demo_env "[2, 2, 2, 2, 2, 2]" 0 "[WsWrite [1, 2, 3], WsPing, WsWrite [], WsWrite [4, 5]]" True]
  by (simp add: demo_env_good)


section \<open>Well-formed connections\<close>

definition ws_ok :: "WSConn \<Rightarrow> bool" where
  "ws_ok c \<longleftrightarrow> ws_rem c \<le> maxWSPayload \<and> length (ws_rmask c) = 4 \<and> (ws_rem c > 0 \<longrightarrow> ws_rmasked c = (\<not> ws_mask c))"

definition ws_same :: "WSConn \<Rightarrow> WSConn \<Rightarrow> bool" where
  "ws_same c d \<longleftrightarrow> ws_mask d = ws_mask c \<and> ws_rem d = ws_rem c \<and> ws_rmask d = ws_rmask c \<and> ws_rmasked d = ws_rmasked c"

lemma ws_same_ok: "ws_same c d \<Longrightarrow> ws_ok c \<Longrightarrow> ws_ok d"
  by (simp add: ws_same_def ws_ok_def)

lemma ws_same_trans: "ws_same c d \<Longrightarrow> ws_same d e \<Longrightarrow> ws_same c e"
  by (simp add: ws_same_def)

lemma ws_same_in [simp]: "ws_same c (c\<lparr>ws_in := s\<rparr>)"
  by (simp add: ws_same_def)

lemma writeControl_same: "ws_same c (snd (writeControl E opc p c))"
  by (auto simp: ws_same_def writeControl_def writeFrame_def Let_def split: sum.splits option.splits)

lemma readPayload_same: "ws_same c (snd (readPayload len key masked c))"
  by (auto simp: ws_same_def readPayload_def split: prod.splits option.splits)

text \<open>A header that is accepted has the masking that the role requires, and a length within the limit.\<close>

lemma head_ok:
  assumes "nextFrame_head client s = (Inr h, t)"
  shows "fh_masked h = (\<not> client) \<and> fh_length h \<le> maxWSPayload \<and> length (fh_key h) = 4 \<and> length t + 2 \<le> length s"
proof -
  have "fh_masked g = (\<not> client) \<and> fh_length g \<le> maxWSPayload \<and> length (fh_key g) = 4"
    if "frame_mask client h0 h1 len u = (Inr g, v)" for h0 h1 len u g v
    using that by (auto simp: frame_mask_def ReadFull_def Let_def split: if_splits)
  then show ?thesis using assms head_shorter [OF assms]
    by (fastforce simp: nextFrame_head_def Let_def split: if_splits prod.splits option.splits)
qed

lemma nextFrame_step_ok:
  assumes "ws_ok c" "ws_rem c = 0" "nextFrame_step E c = (r, d)"
  shows "ws_ok d \<and> ws_mask d = ws_mask c \<and> (r = None \<longrightarrow> ws_rem d = 0 \<and> length (ws_in d) + 2 \<le> length (ws_in c))"
proof (cases "nextFrame_head (ws_mask c) (ws_in c)")
  case (Pair q s)
  show ?thesis
  proof (cases q)
    case (Inl e)
    then show ?thesis using assms Pair ws_same_ok [of c "c\<lparr>ws_in := s\<rparr>"] by (auto simp: nextFrame_step_def)
  next
    case (Inr h)
    note hd = head_ok [OF Pair [unfolded Inr]]
    let ?c1 = "c\<lparr>ws_in := s\<rparr>"
    have keep: "ws_ok e \<and> ws_mask e = ws_mask c \<and> ws_rem e = 0" if "ws_same ?c1 e" for e
      using that assms(1,2) by (auto simp: ws_same_def ws_ok_def)
    obtain q1 c2 where pl: "readPayload (fh_length h) (fh_key h) (fh_masked h) ?c1 = (q1, c2)" by fastforce
    then have c2: "ws_same ?c1 c2" "length (ws_in c2) \<le> length s"
      using readPayload_same [of ?c1 "fh_length h" "fh_key h" "fh_masked h"]
        readPayload_shorter [of "fh_length h" "fh_key h" "fh_masked h" ?c1] by simp_all
    have dr: "ws_drain (fh_length h) (fh_key h) (fh_masked h) ?c1 = (map_sum id (\<lambda>_. ()) q1, c2)"
      by (cases q1) (simp_all add: ws_drain_def pl)
    have wc: "ws_same ?c1 e \<and> length (ws_in e) \<le> length s" if "writeControl E opc x c2 = (y, e)" for opc x y e
      using that writeControl_same [of c2 E opc x] writeControl_keeps(1) [of E opc x c2] c2 ws_same_trans by auto
    have wc': "ws_same ?c1 (snd (writeControl E opc x c2))" for opc x
      using wc [of opc x] by (metis prod.collapse)
    have k1: "ws_ok ?c1 \<and> ws_mask ?c1 = ws_mask c" using keep by (simp add: ws_same_def)
    consider "fh_opcode h = opBinary \<or> fh_opcode h = opContinuation" | "fh_opcode h = opClose" | "fh_opcode h = opPing"
      | "fh_opcode h = opPong" | "fh_opcode h \<notin> {opBinary, opContinuation, opClose, opPing, opPong}" by blast
    then show ?thesis
    proof cases
      case 1
      then show ?thesis using assms Pair Inr hd by (auto simp: nextFrame_step_def Let_def ws_ok_def split: if_splits)
    next
      case 2
      then show ?thesis using assms(3) Pair Inr hd dr keep [OF c2(1)] keep [OF wc'] 
        by (cases q1) (auto simp: nextFrame_step_def Let_def opcodes)
    next
      case 3
      then show ?thesis using assms(3) Pair Inr hd pl c2 keep [OF c2(1)] k1 wc keep
        by (cases q1) (fastforce simp: nextFrame_step_def Let_def opcodes split: prod.splits sum.splits if_splits)+
    next
      case 4
      then show ?thesis using assms(3) Pair Inr hd dr c2 keep [OF c2(1)] k1
        by (cases q1) (auto simp: nextFrame_step_def Let_def opcodes split: if_splits)
    next
      case 5
      then show ?thesis using assms(3) Pair Inr k1
        by (auto simp: nextFrame_step_def Let_def split: if_splits)
    qed
  qed
qed


lemma nextFrame_ok:
  assumes "ws_ok c" "ws_rem c = 0"
  shows "ws_ok (snd (nextFrame E c)) \<and> ws_mask (snd (nextFrame E c)) = ws_mask c"
  using assms
proof (induction E c rule: nextFrame.induct)
  case (1 E c)
  obtain r d where st: "nextFrame_step E c = (r, d)" by fastforce
  note ok = nextFrame_step_ok [OF "1.prems" st]
  have eq: "nextFrame E c = (case r of Some q \<Rightarrow> (q, d) | None \<Rightarrow> nextFrame E d)"
    by (subst nextFrame.simps) (simp add: st split: option.split)
  show ?case using "1.IH" [OF st [symmetric]] ok eq by (cases r) simp_all
qed

lemma Read_ok:
  assumes "ws_ok c"
  shows "ws_ok (snd (ws_Read E n c)) \<and> ws_mask (snd (ws_Read E n c)) = ws_mask c"
  using assms
proof (induction E n c rule: ws_Read.induct)
  case (1 E n c)
  show ?case
  proof (cases "ws_rem c > 0")
    case True
    then show ?thesis using "1.prems"
      by (subst (1 2) ws_Read.simps) (auto simp: ws_ok_def split: prod.split)
  next
    case False
    obtain q d where nf: "nextFrame E c = (q, d)" by fastforce
    have d: "ws_ok d" "ws_mask d = ws_mask c" using nextFrame_ok [OF "1.prems", of E] False nf by simp_all
    have eq: "ws_Read E n c = (case q of Inl e \<Rightarrow> (([], Some e), d) | Inr _ \<Rightarrow> ws_Read E n d)"
      using False by (subst ws_Read.simps) (simp add: nf split: sum.split)
    show ?thesis using "1.IH" [OF False nf [symmetric]] d eq by (cases q) simp_all
  qed
qed

text \<open>The operations on a connection.\<close>

datatype conn_op = CRead nat | CWrite bytes | CPing | CClose | CSend message | CRecv

fun conn_step :: "ws_env \<Rightarrow> json_msg \<Rightarrow> conn_op \<Rightarrow> WSConn \<Rightarrow> WSConn" where
  "conn_step E J (CRead n) c = snd (ws_Read E n c)"
| "conn_step E J (CWrite p) c = snd (ws_Write E p c)"
| "conn_step E J CPing c = snd (ws_Ping E c)"
| "conn_step E J CClose c = ws_Close E c"
| "conn_step E J (CSend m) c = snd (ws_SendMessage E J m c)"
| "conn_step E J CRecv c = snd (ws_RecvMessage E J c)"

lemma writeFrame_same: "ws_same c (snd (writeFrame E opc p c))"
  by (auto simp: ws_same_def writeFrame_def Let_def split: sum.splits option.splits)

lemma conn_step_ok: "ws_ok c \<Longrightarrow> ws_ok (conn_step E J x c) \<and> ws_mask (conn_step E J x c) = ws_mask c"
proof (cases x)
  case CRecv
  assume "ws_ok c"
  then have "ws_ok (snd (ws_Read E MaxControlFrame c)) \<and> ws_mask (snd (ws_Read E MaxControlFrame c)) = ws_mask c" by (rule Read_ok)
  moreover have "snd (ws_RecvMessage E J c) = snd (ws_Read E MaxControlFrame c)"
    by (auto simp: ws_RecvMessage_def split: prod.split option.split sum.split)
  ultimately show ?thesis using CRecv by simp
next
  case CClose
  assume "ws_ok c"
  then show ?thesis using CClose writeControl_same [of c E opClose "[0x03, 0xE8]"]
    by (auto simp: ws_Close_def ws_same_def ws_ok_def)
next
  case (CWrite p)
  assume "ws_ok c"
  moreover have "snd (ws_Write E p c) = c \<or> snd (ws_Write E p c) = snd (writeFrame E opBinary p c)"
    by (auto simp: ws_Write_def split: prod.splits sum.splits)
  ultimately show ?thesis using CWrite writeFrame_same [of c E opBinary p] by (auto simp: ws_same_def ws_ok_def)
next
  case (CSend m)
  assume "ws_ok c"
  moreover have "snd (ws_SendMessage E J m c) = c \<or> (\<exists>p. snd (ws_SendMessage E J m c) = snd (writeFrame E opBinary p c))"
    by (auto simp: ws_SendMessage_def split: prod.splits sum.splits)
  ultimately show ?thesis using CSend writeFrame_same [of c E opBinary] by (auto simp: ws_same_def ws_ok_def)
next
  case CPing
  assume "ws_ok c"
  then show ?thesis using CPing writeControl_same [of c E opPing "[]"] by (auto simp: ws_Ping_def ws_same_def ws_ok_def)
qed (use Read_ok in simp)

interpretation ws_sys: op_system "conn_step E J" "\<lambda>c. ws_ok c \<and> ws_mask c = b" for E J b
  by unfold_locales (use conn_step_ok in blast)

text \<open>
  C39: a connection stays well formed, whatever the peer sends. Under every sequence of reads, writes,
  pings, messages and closes, on any input stream and with any failures, the remaining length of the
  current frame is within the limit, the mask has four bytes (so that every index
  \<open>rmask[pos & 3]\<close> is in range), and a frame that is being read was masked exactly when the role
  requires it.
\<close>

theorem connection_well_formed:
  "let c = fold (conn_step E J) ops (NewWSConn stream client) in
     ws_rem c \<le> maxWSPayload \<and> length (ws_rmask c) = 4 \<and> ws_mask c = client \<and> (ws_rem c = 0 \<or> ws_rmasked c = (\<not> client))"
proof -
  have "ws_ok (NewWSConn stream client) \<and> ws_mask (NewWSConn stream client) = client" by (simp add: ws_ok_def NewWSConn_def)
  from ws_sys.run_inv [OF this, of E J ops] show ?thesis by (auto simp: Let_def ws_ok_def)
qed

section \<open>Termination\<close>

text \<open>\<open>nextFrame\<close> with a bound on the number of iterations.\<close>

primrec nextFrame_fuel :: "nat \<Rightarrow> ws_env \<Rightarrow> WSConn \<Rightarrow> ((ws_error + unit) \<times> WSConn) option" where
  "nextFrame_fuel 0 E c = None"
| "nextFrame_fuel (Suc n) E c =
     (case nextFrame_step E c of (Some r, c') \<Rightarrow> Some (r, c') | (None, c') \<Rightarrow> nextFrame_fuel n E c')"

text \<open>
  C40: the loop of \<open>nextFrame\<close> ends. Whatever bytes the peer sends, with any interleaving of
  empty data frames, pings and pongs, it runs at most one iteration for every two bytes of input and one
  more.
\<close>

theorem nextFrame_terminates:
  assumes "ws_ok c" and "ws_rem c = 0"
  shows "nextFrame_fuel (length (ws_in c) div 2 + 1) E c = Some (nextFrame E c)"
proof -
  have "nextFrame_fuel (Suc n) E c = Some (nextFrame E c)" if "length (ws_in c) div 2 \<le> n" for n
    using assms that
  proof (induction n arbitrary: c)
    case (0 c)
    obtain r d where st: "nextFrame_step E c = (r, d)" by fastforce
    then have "r \<noteq> None" using nextFrame_step_ok [OF 0(1,2) st] 0(3) by auto
    then show ?case using st by (subst nextFrame.simps) auto
  next
    case (Suc n c)
    obtain r d where st: "nextFrame_step E c = (r, d)" by fastforce
    show ?case
    proof (cases r)
      case None
      then have "ws_ok d" "ws_rem d = 0" "length (ws_in d) div 2 \<le> n"
        using nextFrame_step_ok [OF Suc.prems(1,2) st] Suc.prems(3) by auto
      then have "nextFrame_fuel (Suc n) E d = Some (nextFrame E d)" by (rule Suc.IH)
      then show ?thesis using st None by (subst nextFrame.simps, subst nextFrame_fuel.simps(2)) simp
    next
      case (Some q)
      then show ?thesis using st by (subst nextFrame.simps) simp
    qed
  qed
  then show ?thesis by simp
qed

theorem nextFrame_terminates_witness:
  "nextFrame_fuel 3 demo_env (NewWSConn [0x89, 0, 0x8A, 0] True) = Some (nextFrame demo_env (NewWSConn [0x89, 0, 0x8A, 0] True))"
proof -
  let ?c = "NewWSConn [0x89, 0, 0x8A, 0] True"
  have "ws_ok ?c" "ws_rem ?c = 0" by (simp_all add: ws_ok_def NewWSConn_def)
  from nextFrame_terminates [OF this, of demo_env] show ?thesis by (simp add: numeral_3_eq_3 del: nextFrame_fuel.simps)
qed

section \<open>Control messages\<close>

text \<open>
  control messages arrive whole. A message that \<open>SendMessage\<close> writes is returned by
  \<open>RecvMessage\<close> at the other end, whatever pings and pongs were sent before it; the stream then stands
  at the next frame, and the data sent later is read from there.
\<close>

theorem control_message_delivered:
  assumes "good_env E" "good_env E'" and "ws_payload ops = []"
    and "ws_SendMessage E J m (fold (ws_do E) ops (NewWSConn [] client)) = (Inr (), c)"
    and "msg_unmarshal J (msg_marshal J m) = Some m" "msg_marshal J m \<noteq> []" "mg_Type m \<noteq> []"
  shows "\<exists>d. ws_RecvMessage E' J (NewWSConn (ws_out (fold (ws_do E) later c)) (\<not> client)) = (Inr m, d) \<and>
    (list_all (\<lambda>n. n > 0) sizes \<longrightarrow> length (ws_payload later) < length sizes \<longrightarrow>
       read_seq E' sizes d = (ws_payload later, Some WSEOF))"
proof -
  let ?c0 = "fold (ws_do E) ops (NewWSConn [] client)" and ?buf = "msg_marshal J m"
  obtain gs where gs: "list_all frame_ok gs" "data_of gs = []" "ws_out ?c0 = wire client gs" "ws_mask ?c0 = client"
    using writes_on_wire [OF assms(1), of ops "NewWSConn [] client"] assms(3) by auto
  have len: "length ?buf \<le> 8192" and send: "writeFrame E opBinary ?buf ?c0 = (Inr (), c)" and enc: "EncodeMessage J m = Inr ?buf"
    using assms(4) by (auto simp: ws_SendMessage_def EncodeMessage_def Let_def split: if_splits)
  obtain key where key: "length key = 4" "ws_out c = wire client (gs @ [(opBinary, key, ?buf)])" "ws_mask c = client"
    using writeFrame_good [OF assms(1), of opBinary ?buf ?c0] send gs(3,4) by auto
  obtain hs where hs: "list_all frame_ok hs" "data_of hs = ws_payload later" "ws_out (fold (ws_do E) later c) = ws_out c @ wire client hs"
    using writes_on_wire [OF assms(1), of later c] key(3) by auto
  let ?fs = "gs @ (opBinary, key, ?buf) # hs" and ?r = "NewWSConn (ws_out (fold (ws_do E) later c)) (\<not> client)"
  have "pending True client ?r [] ?fs"
    using gs(1) hs(1,3) key len by (intro new_pending) (simp_all)
  moreover have fd: "first_data ?fs = Some (?buf, hs)" using gs(2) assms(6) by (simp add: first_data_skip)
  ultimately obtain c1 where c1: "nextFrame E' ?r = (Inr (), c1)" "pending True client c1 ?buf hs"
    using nextFrame_pending [of True client ?r ?fs E'] assms(2,6) first_data_of [OF fd] by auto
  from Read_data [OF c1(2) assms(6), of E' 8192] len obtain d where
    d: "ws_Read E' 8192 c1 = ((?buf, None), d)" "pending True client d [] hs" by auto
  have "ws_Read E' 8192 ?r = ((?buf, None), d)" by (subst ws_Read.simps) (simp add: c1 d)
  moreover have "ws_rem d = 0" using d(2) by (simp add: pending_def)
  ultimately have "ws_RecvMessage E' J ?r = (Inr m, d)"
    using message_round_trip [OF assms(5,7) enc] by (simp add: ws_RecvMessage_def)
  then show ?thesis using read_seq_complete [OF d(2) assms(2)] hs(2) by simp
qed

definition demo_json_msg :: json_msg where
  "demo_json_msg = \<lparr>msg_marshal = (\<lambda>_. [123, 125]), msg_unmarshal = (\<lambda>_. Some (msg_of MsgBye))\<rparr>"

theorem control_message_delivered_witness:
  "\<exists>d. ws_RecvMessage demo_env demo_json_msg (NewWSConn (ws_out (fold (ws_do demo_env) [WsWrite [9]]
     (snd (ws_SendMessage demo_env demo_json_msg (msg_of MsgBye) (fold (ws_do demo_env) [WsPing] (NewWSConn [] True)))))) False) =
       (Inr (msg_of MsgBye), d) \<and> read_seq demo_env [1, 1] d = ([9], Some WSEOF)"
proof -
  let ?J = demo_json_msg and ?m = "msg_of MsgBye" and ?c0 = "fold (ws_do demo_env) [WsPing] (NewWSConn [] True)"
  have "EncodeMessage ?J ?m = Inr [123, 125]" by (simp add: EncodeMessage_def demo_json_msg_def)
  then have "fst (ws_SendMessage demo_env ?J ?m ?c0) = Inr ()"
    using writeFrame_good [OF demo_env_good, of opBinary "[123, 125]" ?c0] by (auto simp: ws_SendMessage_def simp del: fold_simps fold.simps)
  then obtain c where c: "ws_SendMessage demo_env ?J ?m ?c0 = (Inr (), c)" by (metis prod.collapse)
  have "\<exists>d. ws_RecvMessage demo_env ?J (NewWSConn (ws_out (fold (ws_do demo_env) [WsWrite [9]] c)) (\<not> True)) = (Inr ?m, d) \<and>
      (list_all (\<lambda>n. n > 0) [1, 1 :: nat] \<longrightarrow> length (ws_payload [WsWrite [9]]) < length [1, 1 :: nat] \<longrightarrow>
       read_seq demo_env [1, 1] d = (ws_payload [WsWrite [9]], Some WSEOF))"
    by (rule control_message_delivered [OF demo_env_good demo_env_good _ c]) (simp_all add: demo_json_msg_def msg_of_def msg_defs)
  then show ?thesis unfolding c snd_conv by simp
qed

section \<open>The upgrade\<close>

text \<open>
  A request with the headers the client writes is accepted, and the client accepts the answer; it
  accepts no answer that was computed for another key with a different digest.
\<close>

lemma b64_Nil: "b64_EncodeToString b = [] \<longleftrightarrow> b = []"
  using b64_round_trip [of b] by (cases "b = []") (auto simp: b64_EncodeToString_def b64_DecodeString_def)

lemma token_upgrade: "headerContainsToken ''Upgrade'' ''upgrade''"
proof -
  have "Split ''Upgrade'' CHR '','' = [''Upgrade'']" by (simp add: Split_def)
  moreover have "trim_left ''Upgrade'' = ''Upgrade''" by (subst trim_left.simps) (simp add: space_len_def is_space_def)
  moreover have "trim_right ''Upgrade'' = ''Upgrade''" by (subst trim_right.simps) (simp add: space_end_def is_space_def)
  moreover have "EqualFold ''Upgrade'' ''upgrade''" by code_simp
  ultimately show ?thesis by (simp only: headerContainsToken_def TrimSpace_def list_ex_iff list.set, simp)
qed

lemma server_accepts_upgrade:
  assumes "header ''Upgrade'' = ''websocket''" "header ''Connection'' = ''Upgrade''" "header ''Sec-WebSocket-Version'' = ''13''"
    and "header ''Sec-WebSocket-Key'' = b64_EncodeToString nonce" "nonce \<noteq> []"
  shows "ServerHandshake sha1 header (Some (Some stream)) True =
    Inr (upgrade_response sha1 (b64_EncodeToString nonce), NewWSConn stream False)"
  unfolding ServerHandshake_def assms(1-4) Let_def
  using assms(5) by (simp only: EqualFold_refl token_upgrade b64_Nil simp_thms if_True if_False option.case)

lemma client_accepts_iff:
  "ClientHandshake sha1 (Some f) host path True exchange = Inr () \<longleftrightarrow>
   (\<exists>resp. exchange (upgrade_request host (if path = [] then ''/'' else path) (b64_EncodeToString (fill f 16))) = Some resp \<and>
      hr_status resp = 101 \<and> EqualFold (hr_header resp ''Upgrade'') ''websocket'' \<and>
      hr_header resp ''Sec-WebSocket-Accept'' = acceptKey sha1 (b64_EncodeToString (fill f 16)))"
  unfolding ClientHandshake_def RandomBytes_def Let_def option.case sum.case
  by (cases "exchange (upgrade_request host (if path = [] then ''/'' else path) (b64_EncodeToString (fill f 16)))")
    (simp_all only: option.case option.inject option.distinct simp_thms if_True if_False ex_simps split: if_split, auto)

end
