(* ===== verification/RelayPipe.thy ===== *)
theory RelayPipe
  imports WebSocketProps RelayProps
begin

text \<open>
  A relayed connection from end to end: \<open>pump\<close> of \<open>internal/relay/server.go\<close> on the WebSocket
  connections of its two clients, with the clients' own framing on both sides.
\<close>

section \<open>The pump\<close>

definition pumpBuffer :: nat where [simp]: "pumpBuffer = 32768"

lemma Read_consumes:
  assumes "ws_Read E n c = ((b, None), c')" "n > 0"
  shows "length (ws_in c') < length (ws_in c)"
  using assms
proof (induction E n c rule: ws_Read.induct)
  case (1 E n c)
  show ?case
  proof (cases "ws_rem c > 0")
    case True
    obtain d e s where rf: "ReadFull (min n (ws_rem c)) (ws_in c) = (d, e, s)" by (metis prod_cases3)
    then have "e = None" "ws_in c' = s" using "1.prems"(1) True by (subst (asm) ws_Read.simps, auto)+
    then show ?thesis using ReadFull_length [of "min n (ws_rem c)" "ws_in c" d s] rf True "1.prems"(2) by simp
  next
    case False
    obtain q d where nf: "nextFrame E c = (q, d)" by fastforce
    have eq: "ws_Read E n c = (case q of Inl e \<Rightarrow> (([], Some e), d) | Inr _ \<Rightarrow> ws_Read E n d)"
      using False by (subst ws_Read.simps) (simp add: nf split: sum.split)
    then have q: "q = Inr ()" and rd: "ws_Read E n d = ((b, None), c')" using "1.prems"(1) by (cases q; simp)+
    have "length (ws_in c') < length (ws_in d)" using "1.IH" [OF False nf [symmetric] q rd "1.prems"(2)] .
    then show ?thesis using nextFrame_shorter nf q by fastforce
  qed
qed

text \<open>
  \<open>pump(dst, src)\<close>: the states of the source and of the destination when it returns. \<open>Es\<close> and
  \<open>Ed\<close> are the outside worlds of the two connections.
\<close>

function pump_conn :: "ws_env \<Rightarrow> ws_env \<Rightarrow> int \<Rightarrow> int \<Rightarrow> WSConn \<Rightarrow> WSConn \<Rightarrow> WSConn \<times> WSConn" where
  "pump_conn Es Ed limit tot src dst =
     (case ws_Read Es pumpBuffer src of
        ((b, err), src') \<Rightarrow>
          if b \<noteq> [] then
            let tot' = tot + int (length b)
            in if tot' > limit then (src', dst)
               else case ws_Write Ed b dst of
                      (Inl _, dst') \<Rightarrow> (src', dst')
                    | (Inr _, dst') \<Rightarrow> if err \<noteq> None then (src', dst') else pump_conn Es Ed limit tot' src' dst'
          else if err \<noteq> None then (src', dst) else pump_conn Es Ed limit tot src' dst)"
  by pat_completeness auto
termination
  by (relation "measure (\<lambda>(_, _, _, _, src, _). length (ws_in src))") (auto dest: Read_consumes [OF sym])

declare pump_conn.simps [simp del]

lemma Read_bound: "ws_Read E n c = ((b, e), c') \<Longrightarrow> length b \<le> n"
proof (induction E n c rule: ws_Read.induct)
  case (1 E n c)
  show ?case
  proof (cases "ws_rem c > 0")
    case True
    then show ?thesis using "1.prems"
      by (subst (asm) ws_Read.simps) (auto simp: ReadFull_def split: if_splits)
  next
    case False
    obtain q d where nf: "nextFrame E c = (q, d)" by fastforce
    have "ws_Read E n c = (case q of Inl e \<Rightarrow> (([], Some e), d) | Inr _ \<Rightarrow> ws_Read E n d)"
      using False by (subst ws_Read.simps) (simp add: nf split: sum.split)
    then show ?thesis using "1.IH" [OF False nf [symmetric]] "1.prems" by (cases q) auto
  qed
qed

lemma Write_good:
  assumes "good_env E" "length b \<le> maxWSPayload"
  shows "ws_Write E b c = (Inr (length b), ws_do E (WsWrite b) c)"
  using writeFrame_good [OF assms(1), of opBinary b c] assms(2) by (auto simp: ws_Write_def)

text \<open>What the pump forwards, as a sequence of writes to the destination.\<close>

lemma pump_forwards:
  assumes "pending full m src D fs" "good_env Ed" "tot \<le> limit"
  shows "\<exists>chunks. snd (pump_conn Es Ed limit tot src dst) = fold (ws_do Ed) (map WsWrite chunks) dst \<and>
    list_all (\<lambda>b. length b \<le> maxWSPayload) chunks \<and> prefix (concat chunks) (D @ data_of fs) \<and>
    tot + int (length (concat chunks)) \<le> limit \<and>
    (full \<longrightarrow> good_env Es \<longrightarrow> tot + int (length (D @ data_of fs)) \<le> limit \<longrightarrow> concat chunks = D @ data_of fs)"
  using assms(1,3)
proof (induction "length (ws_in src)" arbitrary: src dst tot D fs rule: less_induct)
  case less
  let ?data = "D @ data_of fs"
  obtain b err src' D' fs' where rd: "ws_Read Es pumpBuffer src = ((b, err), src')" and eq: "?data = b @ D' @ data_of fs'"
    and raw: "err = None \<longrightarrow> pending full m src' D' fs' \<and> (pumpBuffer > 0 \<longrightarrow> b \<noteq> [])"
      "full \<longrightarrow> good_env Es \<longrightarrow> err = None \<or> err = Some WSEOF \<and> b = [] \<and> D' @ data_of fs' = []"
    using Read_pending [OF less.prems(1), of Es pumpBuffer] by (elim exE conjE)
  have nx: "err = None \<Longrightarrow> pending full m src' D' fs'" "err = None \<Longrightarrow> b \<noteq> []" using raw(1) by simp_all
  have fl: "full \<Longrightarrow> good_env Es \<Longrightarrow> err \<noteq> None \<Longrightarrow> b = [] \<and> D' @ data_of fs' = []" using raw(2) by blast
  have bl: "length b \<le> maxWSPayload" using Read_bound [OF rd] by simp
  have len: "int (length ?data) = int (length b) + int (length (D' @ data_of fs'))" by (simp only: eq length_append of_nat_add)
  note pc = pump_conn.simps [of Es Ed limit tot src dst, unfolded rd prod.case Let_def]
  consider (stop) "b = []" | (limit) "b \<noteq> []" "tot + int (length b) > limit"
    | (last) "b \<noteq> []" "tot + int (length b) \<le> limit" "err \<noteq> None" | (go) "b \<noteq> []" "tot + int (length b) \<le> limit" "err = None"
    using linorder_not_le by metis
  then show ?case
  proof cases
    case stop
    then have e: "err \<noteq> None" using nx(2) by blast
    have "snd (pump_conn Es Ed limit tot src dst) = dst" using pc stop e by simp
    moreover have "?data = []" if full "good_env Es" using fl [OF that e] stop unfolding eq by simp
    ultimately show ?thesis using less.prems(2) by (intro exI [of _ "[]"]) simp
  next
    case limit
    then have "snd (pump_conn Es Ed limit tot src dst) = dst" using pc by simp
    moreover have "\<not> tot + int (length ?data) \<le> limit" using limit len by linarith
    ultimately show ?thesis using less.prems(2) by (intro exI [of _ "[]"]) simp
  next
    case last
    then have "snd (pump_conn Es Ed limit tot src dst) = ws_do Ed (WsWrite b) dst" using pc Write_good [OF assms(2) bl] by (simp del: ws_do.simps)
    moreover have "\<not> (full \<and> good_env Es)" using fl last by blast
    ultimately show ?thesis using last(2) bl unfolding eq by (intro exI [of _ "[b]"]) simp
  next
    case go
    have "length (ws_in src') < length (ws_in src)" using Read_consumes [of Es pumpBuffer src b src'] rd go(3) by simp
    from less.hyps [OF this nx(1) [OF go(3)] go(2), of "ws_do Ed (WsWrite b) dst"]
    obtain chunks where ch: "snd (pump_conn Es Ed limit (tot + int (length b)) src' (ws_do Ed (WsWrite b) dst)) =
        fold (ws_do Ed) (map WsWrite chunks) (ws_do Ed (WsWrite b) dst)"
      "list_all (\<lambda>b. length b \<le> maxWSPayload) chunks" "prefix (concat chunks) (D' @ data_of fs')"
      "tot + int (length b) + int (length (concat chunks)) \<le> limit"
      "full \<longrightarrow> good_env Es \<longrightarrow> tot + int (length b) + int (length (D' @ data_of fs')) \<le> limit \<longrightarrow> concat chunks = D' @ data_of fs'"
      by (elim exE conjE)
    have "snd (pump_conn Es Ed limit tot src dst) = fold (ws_do Ed) (map WsWrite (b # chunks)) dst"
      using pc Write_good [OF assms(2) bl] go ch(1) by (simp del: ws_do.simps)
    moreover have "prefix (concat (b # chunks)) (b @ D' @ data_of fs')" using ch(3) by simp
    moreover have "tot + int (length (concat (b # chunks))) \<le> limit" using ch(4) by simp
    moreover have "concat (b # chunks) = b @ D' @ data_of fs'"
      if full "good_env Es" "tot + int (length (b @ D' @ data_of fs')) \<le> limit"
      using ch(5) that by simp
    ultimately show ?thesis using ch(2) bl unfolding eq by (intro exI [of _ "b # chunks"]) simp
  qed
qed

section \<open>Properties\<close>

lemma pump_stream:
  assumes "good_env EA" "good_env ED" "0 \<le> limit" "a = ws_out (fold (ws_do EA) ops (NewWSConn [] True))"
    and "s = NewWSConn (take k a) False" "d = snd (pump_conn ES ED limit 0 s (NewWSConn [] False))"
  shows "\<exists>chunks. d = fold (ws_do ED) (map WsWrite chunks) (NewWSConn [] False) \<and> ws_payload (map WsWrite chunks) = concat chunks \<and>
    prefix (concat chunks) (ws_payload ops) \<and> int (length (concat chunks)) \<le> limit \<and>
    (good_env ES \<longrightarrow> length a \<le> k \<longrightarrow> int (length (ws_payload ops)) \<le> limit \<longrightarrow> concat chunks = ws_payload ops)"
proof -
  obtain fs where fs: "list_all frame_ok fs" "data_of fs = ws_payload ops" "a = wire True fs"
    using writes_on_wire [OF assms(1), of ops "NewWSConn [] True"] assms(4) by auto
  have "pending (length a \<le> k) True (NewWSConn (take k a) (\<not> True)) [] fs"
    using fs by (intro new_pending) (simp_all add: take_is_prefix)
  then have "pending (length a \<le> k) True s [] fs" using assms(5) by simp
  from pump_forwards [OF this assms(2,3), of ES "NewWSConn [] False"] obtain chunks where
    ch: "d = fold (ws_do ED) (map WsWrite chunks) (NewWSConn [] False)" "list_all (\<lambda>b. length b \<le> maxWSPayload) chunks"
      "prefix (concat chunks) (ws_payload ops)" "int (length (concat chunks)) \<le> limit"
      "length a \<le> k \<longrightarrow> good_env ES \<longrightarrow> int (length (ws_payload ops)) \<le> limit \<longrightarrow> concat chunks = ws_payload ops"
    using assms(6) fs(2) by auto
  have "ws_payload (map WsWrite chunks) = concat chunks" using ch(2) by (induction chunks) auto
  with ch show ?thesis by blast
qed

text \<open>
  C12: a relayed connection carries a session. A peer sends any frames of the transport through its
  WebSocket connection, cut into writes in any way, with pings in between; the relay pumps the stream to
  the other peer, which reads it with any buffer sizes. The receiver gets whole frames only, a
  prefix of those that were sent, wherever either stream breaks off and whatever the byte limit is;
  it gets all of them when neither breaks off and the bytes fit the limit. The relay never
  forwards more than the limit.
\<close>

theorem relay_carries_frames:
  assumes "good_env EA" "good_env ED" "0 \<le> limit" and "list_all (\<lambda>p. length p \<le> MaxFrameSize) ps" "ws_payload ops = send_all ps"
    and "a = ws_out (fold (ws_do EA) ops (NewWSConn [] True))"
    and "d = ws_out (snd (pump_conn ES ED limit 0 (NewWSConn (take k a) False) (NewWSConn [] False)))"
    and "got = fst (read_seq EB sizes (NewWSConn (take j d) True))"
  shows "int (length got) \<le> limit \<and> (\<exists>n e. recv_all got = (take n ps, e)) \<and>
    (good_env ES \<longrightarrow> good_env EB \<longrightarrow> length a \<le> k \<longrightarrow> length d \<le> j \<longrightarrow> int (length (send_all ps)) \<le> limit \<longrightarrow>
     list_all (\<lambda>n. n > 0) sizes \<longrightarrow> length (send_all ps) < length sizes \<longrightarrow> (\<exists>e. recv_all got = (ps, e)))"
proof -
  from pump_stream [OF assms(1-3,6) refl refl, where k = k and ES = ES] obtain chunks where
    ch: "snd (pump_conn ES ED limit 0 (NewWSConn (take k a) False) (NewWSConn [] False)) = fold (ws_do ED) (map WsWrite chunks) (NewWSConn [] False)"
      "ws_payload (map WsWrite chunks) = concat chunks" "prefix (concat chunks) (ws_payload ops)" "int (length (concat chunks)) \<le> limit"
      "good_env ES \<longrightarrow> length a \<le> k \<longrightarrow> int (length (ws_payload ops)) \<le> limit \<longrightarrow> concat chunks = ws_payload ops"
    by (elim exE conjE)
  have d: "d = ws_out (fold (ws_do ED) (map WsWrite chunks) (NewWSConn [] False))" using assms(7) ch(1) by simp
  obtain fs where fs: "list_all frame_ok fs" "data_of fs = concat chunks" "d = wire False fs"
    using writes_on_wire [OF assms(2), of "map WsWrite chunks" "NewWSConn [] False"] d ch(2) by auto
  have pd: "pending (length d \<le> j) False (NewWSConn (take j d) (\<not> False)) [] fs"
    using fs by (intro new_pending) (simp_all add: take_is_prefix)
  have got: "prefix got (concat chunks)" using read_seq_prefix [OF pd, of EB sizes] assms(8) fs(2) by simp
  then have "prefix got (send_all ps)" using ch(3) assms(5) prefix_order.trans by metis
  then obtain l where l: "got = take l (send_all ps)" by (metis append_eq_conv_conj prefixE)
  have "int (length got) \<le> limit" using prefix_length_le [OF got] ch(4) by linarith
  moreover have "\<exists>n e. recv_all got = (take n ps, e)" using recv_all_prefix [of ps l] assms(4) l by auto
  moreover have "\<exists>e. recv_all got = (ps, e)"
    if "good_env ES" "good_env EB" "length a \<le> k" "length d \<le> j" "int (length (send_all ps)) \<le> limit"
      "list_all (\<lambda>n. n > 0) sizes" "length (send_all ps) < length sizes"
  proof -
    have all: "concat chunks = send_all ps" using ch(5) that assms(5) by simp
    have "pending True False (NewWSConn (take j d) True) [] fs" using pd that(4) by simp
    from read_seq_complete [OF this that(2,6)] have "got = send_all ps" using all fs(2) that(7) assms(8) by simp
    then show ?thesis using recv_all_prefix [of ps "length (send_all ps)"] assms(4) by auto
  qed
  ultimately show ?thesis by blast
qed

text \<open>The demonstration: two frames through the relay, in three writes and a ping.\<close>

definition demo_sends :: "ws_op list" where
  "demo_sends = [WsWrite [0, 0], WsPing, WsWrite [0, 1, 7], WsWrite [0, 0, 0, 0]]"

theorem relay_carries_frames_witness:
  "\<exists>a d e. a = ws_out (fold (ws_do demo_env) demo_sends (NewWSConn [] True)) \<and>
     d = ws_out (snd (pump_conn demo_env demo_env 100 0 (NewWSConn a False) (NewWSConn [] False))) \<and>
     recv_all (fst (read_seq demo_env (replicate 10 2) (NewWSConn d True))) = ([[7], []], e)"
proof -
  obtain a where a: "a = ws_out (fold (ws_do demo_env) demo_sends (NewWSConn [] True))" by blast
  obtain d where d: "d = ws_out (snd (pump_conn demo_env demo_env 100 0 (NewWSConn (take (length a) a) False) (NewWSConn [] False)))" by blast
  obtain got where got: "got = fst (read_seq demo_env (replicate 10 2) (NewWSConn (take (length d) d) True))" by blast
  have four: "(4 :: nat) = Suc (Suc (Suc (Suc 0)))" by simp
  have "PutUint32 1 = [0, 0, 0, 1]" "PutUint32 0 = [0, 0, 0, 0]" unfolding PutUint32_def four by simp_all
  then have s: "send_all [[7], []] = [0, 0, 0, 1, 7, 0, 0, 0, 0]" by (simp add: fio_Send_def Let_def)
  have "ws_payload demo_sends = send_all [[7], []]" by (simp only: s demo_sends_def) simp
  from relay_carries_frames [OF demo_env_good demo_env_good _ _ this a d got]
  have "\<exists>e. recv_all got = ([[7], []], e)" by (simp add: demo_env_good s list_all_iff del: send_all.simps)
  moreover have "d = ws_out (snd (pump_conn demo_env demo_env 100 0 (NewWSConn a False) (NewWSConn [] False)))"
    "got = fst (read_seq demo_env (replicate 10 2) (NewWSConn d True))"
    using d got by (simp_all only: take_all order_refl)
  ultimately show ?thesis using a by blast
qed

end
