(* ===== verification/Candidates.thy ===== *)
theory Candidates
  imports Crypto Transport "HOL-Library.Sublist"
begin

text \<open>
  \<open>internal/rendezvous/candidates.go\<close>: the addresses a peer offers. \<open>net.ParseIP\<close> is the parameter
  \<open>ParseIP\<close> (the text of an address to its bytes) and \<open>encoding/json\<close> the parameter
  \<open>json_cands\<close>; the classification of addresses by \<open>net.IP\<close> is modelled byte by byte.
\<close>

type_synonym ip = bytes

section \<open>Addresses of the net package\<close>

definition v4InV6Prefix :: bytes where "v4InV6Prefix = replicate 10 0 @ [255, 255]"

definition To4 :: "ip \<Rightarrow> bytes option" where
  "To4 ip =
     (if length ip = 4 then Some ip
      else if length ip = 16 \<and> take 12 ip = v4InV6Prefix then Some (drop 12 ip)
      else None)"

definition IPv4 :: "byte \<Rightarrow> byte \<Rightarrow> byte \<Rightarrow> byte \<Rightarrow> ip" where
  "IPv4 a b c d = v4InV6Prefix @ [a, b, c, d]"

definition IP_Equal :: "ip \<Rightarrow> ip \<Rightarrow> bool" where
  "IP_Equal a b =
     (if length a = length b then a = b
      else if length a = 4 \<and> length b = 16 then take 12 b = v4InV6Prefix \<and> a = drop 12 b
      else if length a = 16 \<and> length b = 4 then take 12 a = v4InV6Prefix \<and> drop 12 a = b
      else False)"

definition IsUnspecified :: "ip \<Rightarrow> bool" where
  "IsUnspecified ip = (IP_Equal ip (IPv4 0 0 0 0) \<or> IP_Equal ip (replicate 16 0))"

definition IsLoopback :: "ip \<Rightarrow> bool" where
  "IsLoopback ip = (case To4 ip of Some ip4 \<Rightarrow> ip4 ! 0 = 127 | None \<Rightarrow> IP_Equal ip (replicate 15 0 @ [1]))"

definition IsPrivate :: "ip \<Rightarrow> bool" where
  "IsPrivate ip =
     (case To4 ip of
        Some ip4 \<Rightarrow> ip4 ! 0 = 10 \<or> (ip4 ! 0 = 172 \<and> ip4 ! 1 AND 0xF0 = 16) \<or> (ip4 ! 0 = 192 \<and> ip4 ! 1 = 168)
      | None \<Rightarrow> length ip = 16 \<and> ip ! 0 AND 0xFE = 0xFC)"

definition IsMulticast :: "ip \<Rightarrow> bool" where
  "IsMulticast ip =
     (case To4 ip of Some ip4 \<Rightarrow> ip4 ! 0 AND 0xF0 = 0xE0 | None \<Rightarrow> length ip = 16 \<and> ip ! 0 = 0xFF)"

definition IsInterfaceLocalMulticast :: "ip \<Rightarrow> bool" where
  "IsInterfaceLocalMulticast ip = (length ip = 16 \<and> ip ! 0 = 0xFF \<and> ip ! 1 AND 0x0F = 1)"

definition IsLinkLocalMulticast :: "ip \<Rightarrow> bool" where
  "IsLinkLocalMulticast ip =
     (case To4 ip of Some ip4 \<Rightarrow> ip4 ! 0 = 224 \<and> ip4 ! 1 = 0 \<and> ip4 ! 2 = 0
      | None \<Rightarrow> length ip = 16 \<and> ip ! 0 = 0xFF \<and> ip ! 1 AND 0x0F = 2)"

definition IsLinkLocalUnicast :: "ip \<Rightarrow> bool" where
  "IsLinkLocalUnicast ip =
     (case To4 ip of Some ip4 \<Rightarrow> ip4 ! 0 = 169 \<and> ip4 ! 1 = 254
      | None \<Rightarrow> length ip = 16 \<and> ip ! 0 = 0xFE \<and> ip ! 1 AND 0xC0 = 0x80)"

section \<open>Candidates\<close>

definition KindHost :: string where "KindHost = ''host''"
definition KindReflexive :: string where "KindReflexive = ''reflexive''"
definition MaxCandidates :: nat where [simp]: "MaxCandidates = 8"
definition MaxPrivateCandidates :: nat where [simp]: "MaxPrivateCandidates = 2"
definition MaxSealedCandidates :: nat where [simp]: "MaxSealedCandidates = 4096"

record candidate =
  Addr :: string
  Kind :: string

definition usableIP :: "ip \<Rightarrow> bool" where
  "usableIP ip =
     (if IsUnspecified ip \<or> IsLoopback ip \<or> IsLinkLocalUnicast ip \<or> IsLinkLocalMulticast ip \<or>
         IsInterfaceLocalMulticast ip \<or> IsMulticast ip then False
      else case To4 ip of Some ip4 \<Rightarrow> \<not> IP_Equal ip4 (IPv4 255 255 255 255) | None \<Rightarrow> True)"

text \<open>The loop of \<open>ValidateCandidates\<close>, with its local variables \<open>out\<close>, \<open>private\<close> and \<open>seen\<close>.\<close>

fun validate_loop ::
    "(string \<Rightarrow> ip option) \<Rightarrow> candidate list \<Rightarrow> candidate list \<Rightarrow> nat \<Rightarrow> string list \<Rightarrow> candidate list" where
  "validate_loop ParseIP [] out private seen = out"
| "validate_loop ParseIP (c # cs) out private seen =
     (if length out \<ge> MaxCandidates then out
      else case SplitHostPort (Addr c) of
        None \<Rightarrow> validate_loop ParseIP cs out private seen
      | Some (host, port) \<Rightarrow>
        (case ParseIP host of
           None \<Rightarrow> validate_loop ParseIP cs out private seen
         | Some ip \<Rightarrow>
           if \<not> usableIP ip then validate_loop ParseIP cs out private seen
           else if port = [] \<or> port = ''0'' then validate_loop ParseIP cs out private seen
           else if Addr c \<in> set seen then validate_loop ParseIP cs out private seen
           else if IsPrivate ip then
             if private \<ge> MaxPrivateCandidates then validate_loop ParseIP cs out private seen
             else validate_loop ParseIP cs (out @ [\<lparr>Addr = Addr c, Kind = Kind c\<rparr>]) (private + 1) (Addr c # seen)
           else validate_loop ParseIP cs (out @ [\<lparr>Addr = Addr c, Kind = Kind c\<rparr>]) private (Addr c # seen)))"

definition ValidateCandidates :: "(string \<Rightarrow> ip option) \<Rightarrow> candidate list \<Rightarrow> candidate list" where
  "ValidateCandidates ParseIP cs = validate_loop ParseIP cs [] 0 []"

record json_cands =
  cands_marshal :: "candidate list \<Rightarrow> bytes"
  cands_unmarshal :: "bytes \<Rightarrow> candidate list option"

datatype cand_error = CandTooLarge nat | CandCrypto crypto_error | CandAuth crypto_error | CandBadList

definition candidateAAD :: bytes where
  "candidateAAD = str ''heimdall v1 candidates''"

definition SealCandidates ::
    "prims \<Rightarrow> json_cands \<Rightarrow> entropy \<Rightarrow> bytes \<Rightarrow> candidate list \<Rightarrow> cand_error + bytes" where
  "SealCandidates P J rnd pairingKey cands =
     (case crypto_Seal P rnd pairingKey candidateAAD (cands_marshal J cands) of
        Inl e \<Rightarrow> Inl (CandCrypto e)
      | Inr blob \<Rightarrow> if length blob > MaxSealedCandidates then Inl (CandTooLarge (length blob)) else Inr blob)"

definition OpenCandidates ::
    "prims \<Rightarrow> json_cands \<Rightarrow> (string \<Rightarrow> ip option) \<Rightarrow> bytes \<Rightarrow> bytes \<Rightarrow> cand_error + candidate list" where
  "OpenCandidates P J ParseIP pairingKey blob =
     (if length blob > MaxSealedCandidates then Inl (CandTooLarge (length blob))
      else case crypto_Open P pairingKey candidateAAD blob of
        Inl e \<Rightarrow> Inl (CandAuth e)
      | Inr plain \<Rightarrow>
        (case cands_unmarshal J plain of None \<Rightarrow> Inl CandBadList
         | Some cands \<Rightarrow> Inr (ValidateCandidates ParseIP cands)))"

text \<open>
  \<open>LocalCandidates\<close>: what \<open>net.InterfaceAddrs\<close> returns is an argument, each address with the text
  \<open>IP.String\<close> gives for it (\<^const>\<open>None\<close> for an entry that is no \<open>IPNet\<close>).
\<close>

fun cand_itoa_loop :: "nat \<Rightarrow> string \<Rightarrow> string" where
  "cand_itoa_loop v buf = (if v > 0 then cand_itoa_loop (v div 10) (char_of (48 + v mod 10) # buf) else buf)"

declare cand_itoa_loop.simps [simp del]

definition cand_itoa :: "nat \<Rightarrow> string" where
  "cand_itoa v = (if v = 0 then ''0'' else cand_itoa_loop v [])"

definition JoinHostPort :: "string \<Rightarrow> string \<Rightarrow> string" where
  "JoinHostPort host port = (if CHR '':'' \<in> set host then ''['' @ host @ '']:'' @ port else host @ '':'' @ port)"

definition LocalCandidates ::
    "(string \<Rightarrow> ip option) \<Rightarrow> (ip \<times> string) option list option \<Rightarrow> int \<Rightarrow> candidate list" where
  "LocalCandidates ParseIP addrs port =
     (if port \<le> 0 then []
      else case addrs of None \<Rightarrow> []
      | Some l \<Rightarrow> ValidateCandidates ParseIP
          (List.map_filter (\<lambda>a. case a of None \<Rightarrow> None
             | Some (ip, txt) \<Rightarrow> if \<not> usableIP ip then None
                 else Some \<lparr>Addr = JoinHostPort txt (cand_itoa (nat port)), Kind = KindHost\<rparr>) l))"

section \<open>Lemmas\<close>

definition candidate_ok :: "(string \<Rightarrow> ip option) \<Rightarrow> candidate \<Rightarrow> bool" where
  "candidate_ok ParseIP c =
     (case SplitHostPort (Addr c) of None \<Rightarrow> False
      | Some (host, port) \<Rightarrow>
        (case ParseIP host of None \<Rightarrow> False | Some ip \<Rightarrow> usableIP ip \<and> port \<noteq> [] \<and> port \<noteq> ''0''))"

definition candidate_private :: "(string \<Rightarrow> ip option) \<Rightarrow> candidate \<Rightarrow> bool" where
  "candidate_private ParseIP c =
     (case SplitHostPort (Addr c) of None \<Rightarrow> False
      | Some (host, _) \<Rightarrow> (case ParseIP host of None \<Rightarrow> False | Some ip \<Rightarrow> IsPrivate ip))"

text \<open>The lists the code promises to return.\<close>

definition safe_list :: "(string \<Rightarrow> ip option) \<Rightarrow> candidate list \<Rightarrow> bool" where
  "safe_list ParseIP cs \<longleftrightarrow>
     length cs \<le> MaxCandidates \<and> list_all (candidate_ok ParseIP) cs \<and> distinct (map Addr cs) \<and>
     length (filter (candidate_private ParseIP) cs) \<le> MaxPrivateCandidates"

text \<open>One round of the loop keeps the candidate exactly when the list stays safe.\<close>

lemma validate_loop_Cons:
  assumes "safe_list Q out" and "set seen = Addr ` set out" and "npriv = length (filter (candidate_private Q) out)"
  shows "validate_loop Q (c # cs) out npriv seen =
    (if length out \<ge> 8 then out
     else if safe_list Q (out @ [c])
     then validate_loop Q cs (out @ [c]) (length (filter (candidate_private Q) (out @ [c]))) (Addr c # seen)
     else validate_loop Q cs out npriv seen)"
  using assms
  by (cases c) (auto simp: safe_list_def candidate_ok_def candidate_private_def split: option.splits if_splits)

lemma validate_loop_safe:
  "safe_list Q out \<Longrightarrow> set seen = Addr ` set out \<Longrightarrow> npriv = length (filter (candidate_private Q) out) \<Longrightarrow>
   \<exists>kept. validate_loop Q cs out npriv seen = out @ kept \<and> subseq kept cs \<and> safe_list Q (out @ kept)"
proof (induction cs arbitrary: out npriv seen)
  case (Cons c cs)
  show ?case
  proof (cases "length out \<ge> 8")
    case True
    then show ?thesis using Cons.prems by (auto intro!: exI [of _ "[]"])
  next
    case False
    show ?thesis
    proof (cases "safe_list Q (out @ [c])")
      case True
      obtain kept where "validate_loop Q cs (out @ [c]) (length (filter (candidate_private Q) (out @ [c]))) (Addr c # seen) = (out @ [c]) @ kept"
        "subseq kept cs" "safe_list Q ((out @ [c]) @ kept)"
        using Cons.IH [OF True, of "Addr c # seen"] Cons.prems by auto
      then show ?thesis using validate_loop_Cons [OF Cons.prems] False True
        by (intro exI [of _ "c # kept"]) simp
    next
      case unsafe: False
      then show ?thesis using validate_loop_Cons [OF Cons.prems] False Cons.IH [OF Cons.prems] by auto
    qed
  qed
qed simp

lemma safe_list_prefix: "safe_list Q (xs @ ys) \<Longrightarrow> safe_list Q xs"
  by (auto simp: safe_list_def)

lemma validate_loop_id:
  "safe_list Q (out @ cs) \<Longrightarrow> set seen = Addr ` set out \<Longrightarrow> npriv = length (filter (candidate_private Q) out) \<Longrightarrow>
   validate_loop Q cs out npriv seen = out @ cs"
proof (induction cs arbitrary: out npriv seen)
  case (Cons c cs)
  have s: "safe_list Q out" "safe_list Q (out @ [c])" using Cons.prems(1) safe_list_prefix [of Q "out @ [c]" cs] safe_list_prefix by auto
  have "\<not> 8 \<le> length out" using Cons.prems(1) by (simp add: safe_list_def)
  then show ?case
    using validate_loop_Cons [OF s(1) Cons.prems(2,3), of c cs] s(2) Cons.prems
      Cons.IH [of "out @ [c]" "Addr c # seen"] by simp
qed simp

lemma Validate_safe: "subseq (ValidateCandidates Q cs) cs \<and> safe_list Q (ValidateCandidates Q cs)"
  using validate_loop_safe [of Q "[]" "[]" 0 cs] by (auto simp: ValidateCandidates_def safe_list_def)

lemma Validate_id: "safe_list Q cs \<Longrightarrow> ValidateCandidates Q cs = cs"
  using validate_loop_id [of Q "[]" cs "[]" 0] by (simp add: ValidateCandidates_def)

lemma Open_safe: "OpenCandidates P J Q k blob = Inr out \<Longrightarrow> safe_list Q out"
  by (auto simp: OpenCandidates_def Validate_safe [THEN conjunct2] split: if_splits sum.splits option.splits)

lemma Open_of_Seal:
  assumes "SealCandidates P J rnd k cs = Inr blob" "cands_unmarshal J (cands_marshal J cs) = Some cs" "safe_list Q cs"
  shows "OpenCandidates P J Q k blob = Inr cs" "length blob \<le> 4096"
proof -
  have s: "crypto_Seal P rnd k candidateAAD (cands_marshal J cs) = Inr blob" "length blob \<le> 4096"
    using assms(1) by (auto simp: SealCandidates_def split: if_splits sum.splits)
  then show "OpenCandidates P J Q k blob = Inr cs" "length blob \<le> 4096"
    using crypto_Open_Seal [OF s(1)] assms(2) Validate_id [OF assms(3)] by (simp_all add: OpenCandidates_def)
qed

section \<open>Properties\<close>

text \<open>
  C30: what a peer can make this node dial. When \<open>OpenCandidates\<close> returns a list, the blob was sealed
  under the pairing key for this purpose, and the list is a subsequence of the offered one with at
  most eight entries, at most two of them in private ranges, no address twice, every one a
  usable address with a port, whatever the peer offered and however \<open>ParseIP\<close> reads a host.
\<close>

theorem candidates_safe:
  assumes "OpenCandidates P J ParseIP pairingKey blob = Inr out"
  shows "length out \<le> MaxCandidates \<and> list_all (candidate_ok ParseIP) out \<and> distinct (map Addr out) \<and>
    length (filter (candidate_private ParseIP) out) \<le> MaxPrivateCandidates \<and>
    (\<exists>nonce plain offered. length nonce = NonceSize \<and> blob = nonce @ gcm_seal P pairingKey nonce candidateAAD plain \<and>
       cands_unmarshal J plain = Some offered \<and> subseq out offered)"
proof -
  obtain plain offered where o: "crypto_Open P pairingKey candidateAAD blob = Inr plain"
    "cands_unmarshal J plain = Some offered" "out = ValidateCandidates ParseIP offered"
    using assms by (auto simp: OpenCandidates_def split: if_splits sum.splits option.splits)
  have "subseq out offered" "safe_list ParseIP out" using Validate_safe o(3) by auto
  with o(1,2) show ?thesis unfolding safe_list_def crypto_Open_sealed by auto
qed

definition demo_ParseIP :: "string \<Rightarrow> ip option" where
  "demo_ParseIP s = (if s = ''192.0.2.7'' then Some (IPv4 192 0 2 7)
     else if s = ''10.0.0.1'' then Some (IPv4 10 0 0 1) else if s = ''127.0.0.1'' then Some (IPv4 127 0 0 1) else None)"

definition demo_cands :: "candidate list" where
  "demo_cands = [\<lparr>Addr = ''10.0.0.1:8471'', Kind = KindHost\<rparr>, \<lparr>Addr = ''192.0.2.7:8471'', Kind = KindReflexive\<rparr>]"

definition demo_json_cands :: json_cands where
  "demo_json_cands = \<lparr>cands_marshal = (\<lambda>cs. if cs = demo_cands then [1] else [2]),
     cands_unmarshal = (\<lambda>b. if b = [1] then Some demo_cands else None)\<rparr>"

lemma demo_cands_ok: "list_all (candidate_ok demo_ParseIP) demo_cands"
  "safe_list demo_ParseIP demo_cands"
  by code_simp+

text \<open>
  an honest offer arrives. A list within the limits that \<open>SealCandidates\<close> accepts is opened by the
  holder of the same pairing key exactly as it was offered, and by the holder of any other key
  only if the authentication tags collide.
\<close>

theorem candidates_exchanged:
  assumes "SealCandidates P J rnd pairingKey cs = Inr blob"
    and "cands_unmarshal J (cands_marshal J cs) = Some cs"
    and "length cs \<le> MaxCandidates" and "list_all (candidate_ok ParseIP) cs" and "distinct (map Addr cs)"
    and "length (filter (candidate_private ParseIP) cs) \<le> MaxPrivateCandidates"
  shows "OpenCandidates P J ParseIP pairingKey blob = Inr cs \<and>
    (\<forall>other out. OpenCandidates P J ParseIP other blob = Inr out \<longrightarrow>
       (\<exists>pt nonce. gcm_seal P other nonce candidateAAD pt = gcm_seal P pairingKey nonce candidateAAD (cands_marshal J cs)))"
proof -
  obtain nonce where n: "length nonce = 12" "length pairingKey = 32"
    "blob = nonce @ gcm_seal P pairingKey nonce candidateAAD (cands_marshal J cs)"
    using assms(1)
    by (auto simp: SealCandidates_def crypto_Seal_def aead_cipher_def RandomBytes_def split: sum.splits if_splits option.splits)
  have "OpenCandidates P J ParseIP pairingKey blob = Inr cs"
    using assms(3-6) by (intro Open_of_Seal(1) [OF assms(1,2)]) (simp add: safe_list_def)
  moreover have "\<exists>pt nonce. gcm_seal P other nonce candidateAAD pt = gcm_seal P pairingKey nonce candidateAAD (cands_marshal J cs)"
    if h: "OpenCandidates P J ParseIP other blob = Inr out" for other out
  proof -
    obtain pt where "crypto_Open P other candidateAAD blob = Inr pt"
      using h by (cases "crypto_Open P other candidateAAD blob") (auto simp: OpenCandidates_def split: if_splits)
    then obtain nonce' where "length nonce' = 12" "blob = nonce' @ gcm_seal P other nonce' candidateAAD pt"
      using crypto_Open_sealed by blast
    with n show ?thesis by (metis append_eq_append_conv)
  qed
  ultimately show ?thesis by simp
qed

lemma demo_sealed:
  obtains blob where "SealCandidates demo_prims demo_json_cands (Some (\<lambda>_. 0)) (replicate 32 9) demo_cands = Inr blob"
    "cands_unmarshal demo_json_cands (cands_marshal demo_json_cands demo_cands) = Some demo_cands"
  by (auto simp: SealCandidates_def crypto_Seal_def aead_cipher_def RandomBytes_def demo_json_cands_def gcm_seal_def Let_def)

theorem candidates_exchanged_witness:
  "\<exists>blob. SealCandidates demo_prims demo_json_cands (Some (\<lambda>_. 0)) (replicate 32 9) demo_cands = Inr blob \<and>
     OpenCandidates demo_prims demo_json_cands demo_ParseIP (replicate 32 9) blob = Inr demo_cands"
proof -
  obtain blob where s: "SealCandidates demo_prims demo_json_cands (Some (\<lambda>_. 0)) (replicate 32 9) demo_cands = Inr blob"
    "cands_unmarshal demo_json_cands (cands_marshal demo_json_cands demo_cands) = Some demo_cands" by (rule demo_sealed)
  note ok = demo_cands_ok(2) [unfolded safe_list_def]
  from candidates_exchanged [OF s, of demo_ParseIP] ok s(1) show ?thesis by auto
qed

theorem candidates_safe_witness:
  "\<exists>blob. OpenCandidates demo_prims demo_json_cands demo_ParseIP (replicate 32 9) blob = Inr demo_cands \<and>
     list_all (candidate_ok demo_ParseIP) demo_cands"
proof -
  obtain blob where s: "SealCandidates demo_prims demo_json_cands (Some (\<lambda>_. 0)) (replicate 32 9) demo_cands = Inr blob"
    "cands_unmarshal demo_json_cands (cands_marshal demo_json_cands demo_cands) = Some demo_cands" by (rule demo_sealed)
  have "OpenCandidates demo_prims demo_json_cands demo_ParseIP (replicate 32 9) blob = Inr demo_cands"
    by (rule Open_of_Seal(1) [OF s demo_cands_ok(2)])
  with candidates_safe [OF this] show ?thesis by blast
qed

end
