(* ===== verification/Dialer.thy ===== *)
theory Dialer
  imports WebSocket Candidates
begin

text \<open>
  \<open>internal/rendezvous/dialer.go\<close> and \<open>proxy.go\<close>: relay addresses, the ladder of ways to reach the
  relay, TLS with pins and with the unverified fallback, HTTP CONNECT proxies.

  Sockets, \<open>crypto/tls\<close>, \<open>net/url\<close> and \<open>http.ReadResponse\<close> are the record \<open>net_env\<close>. Each
  call of the network has an outcome, and \<open>dial_log\<close> records what was dialled and which TLS
  configuration a handshake ran with.
\<close>

section \<open>Endpoints\<close>

datatype Rung = RungTLSDirect | RungTLSProxy | RungHTTPDirect

definition Rung_String :: "Rung \<Rightarrow> string" where
  "Rung_String r = (case r of RungTLSDirect \<Rightarrow> ''tls'' | RungTLSProxy \<Rightarrow> ''tls-via-proxy'' | RungHTTPDirect \<Rightarrow> ''http'')"

definition Ladder :: "Rung list" where "Ladder = [RungTLSDirect, RungTLSProxy, RungHTTPDirect]"

definition DefaultTLSPort :: int where [simp]: "DefaultTLSPort = 443"
definition DefaultHTTPPort :: int where [simp]: "DefaultHTTPPort = 80"
definition DefaultPath :: string where "DefaultPath = ''/hmdl''"

record endpoint =
  ep_Host :: string
  ep_TLSPort :: int
  ep_HTTPPort :: int
  ep_Path :: string
  ep_Pin :: string
  ep_Verify :: bool
  ep_Proxy :: string

text \<open>The parts of \<open>url.URL\<close> that the code reads, with \<open>Hostname()\<close>, \<open>Port()\<close> and the credentials.\<close>

record url =
  u_Scheme :: string
  u_Host :: string
  u_Hostname :: string
  u_Port :: string
  u_Path :: string
  u_User :: "(string \<times> string) option"

datatype dial_error =
    EmptyAddress | BadAddress string | BadPort string | NoHost string
  | ErrNoProxy | BadProxy string | ProxyNoHost string | ProxyDial string | ProxyWrite | ProxyResponse | ProxyRefused nat | ProxyData
  | DialFailed string | TLSFailed bool \<comment> \<open>whether \<open>isCertError\<close> holds of it\<close>
  | Upgrade ws_hs_error | NoRoute "(Rung \<times> dial_error) list"

text \<open>The port of a URL or of a \<open>host:port\<close> pair.\<close>

definition parse_port :: "string \<Rightarrow> int option" where
  "parse_port p = (case Atoi p of None \<Rightarrow> None | Some n \<Rightarrow> if n \<le> 0 \<or> n > 65535 then None else Some n)"

definition endpoint_finish :: "string \<Rightarrow> endpoint \<Rightarrow> dial_error + endpoint" where
  "endpoint_finish s ep =
     (if ep_Host ep = [] then Inl (NoHost s)
      else Inr (if HasPrefix (ep_Path ep) ''/'' then ep else ep\<lparr>ep_Path := ''/'' @ ep_Path ep\<rparr>))"

definition url_endpoint :: "string \<Rightarrow> url \<Rightarrow> endpoint \<Rightarrow> dial_error + endpoint" where
  "url_endpoint s u ep =
     (let ep1 = ep\<lparr>ep_Host := u_Hostname u\<rparr>;
          with_path = (\<lambda>ep. if u_Path u \<noteq> [] \<and> u_Path u \<noteq> ''/'' then ep\<lparr>ep_Path := u_Path u\<rparr> else ep)
      in if u_Port u = [] then endpoint_finish s (with_path ep1)
         else case parse_port (u_Port u) of None \<Rightarrow> Inl (BadPort (u_Port u))
              | Some n \<Rightarrow>
                endpoint_finish s (with_path (if u_Scheme u = ''http'' then ep1\<lparr>ep_HTTPPort := n\<rparr> else ep1\<lparr>ep_TLSPort := n\<rparr>)))"

definition ParseEndpoint :: "(string \<Rightarrow> url option) \<Rightarrow> string \<Rightarrow> dial_error + endpoint" where
  "ParseEndpoint parse_url s0 =
     (let s = TrimSpace s0;
          ep = \<lparr>ep_Host = [], ep_TLSPort = DefaultTLSPort, ep_HTTPPort = DefaultHTTPPort, ep_Path = DefaultPath,
                ep_Pin = [], ep_Verify = False, ep_Proxy = []\<rparr>
      in if s = [] then Inl EmptyAddress
         else if Contains s ''://'' then
           (case parse_url s of None \<Rightarrow> Inl (BadAddress s) | Some u \<Rightarrow> url_endpoint s u ep)
         else case SplitHostPort s of
                Some (host, port) \<Rightarrow>
                  (case parse_port port of None \<Rightarrow> Inl (BadPort port)
                   | Some n \<Rightarrow> endpoint_finish s (ep\<lparr>ep_Host := host, ep_TLSPort := n\<rparr>))
              | None \<Rightarrow> endpoint_finish s (ep\<lparr>ep_Host := s\<rparr>))"

section \<open>Certificates\<close>

text \<open>\<open>subtleEqual\<close> accumulates the differences; the caller compares the lengths first.\<close>

definition subtleEqual :: "bytes \<Rightarrow> bytes \<Rightarrow> bool" where
  "subtleEqual a b = (foldl (\<lambda>v i. v OR (a ! i XOR b ! i)) 0 [0..<length a] = 0)"

text \<open>A certificate is its DER bytes; \<open>spki\<close> is the public key info of one that parses.\<close>

fun verify_loop :: "prims \<Rightarrow> (bytes \<Rightarrow> bytes option) \<Rightarrow> bytes \<Rightarrow> bytes list \<Rightarrow> bool" where
  "verify_loop P spki want [] = False"
| "verify_loop P spki want (raw # rest) =
     (case spki raw of None \<Rightarrow> verify_loop P spki want rest
      | Some info \<Rightarrow>
        let sum = fill (sha256_byte P info) 32
        in if length want = length sum \<and> subtleEqual want sum then True else verify_loop P spki want rest)"

definition verifyPin :: "prims \<Rightarrow> (bytes \<Rightarrow> bytes option) \<Rightarrow> string \<Rightarrow> bytes list \<Rightarrow> bool" where
  "verifyPin P spki pin rawCerts =
     (case b64_DecodeString pin of None \<Rightarrow> False | Some want \<Rightarrow> verify_loop P spki want rawCerts)"

definition PinFor :: "prims \<Rightarrow> bytes \<Rightarrow> string" where
  "PinFor P info = b64_EncodeToString (fill (sha256_byte P info) 32)"

record tls_config =
  tc_ServerName :: string
  tc_InsecureSkipVerify :: bool
  tc_VerifyPin :: "string option" \<comment> \<open>the pin that \<open>VerifyPeerCertificate\<close> checks\<close>

definition tlsConfig :: "endpoint \<Rightarrow> bool \<Rightarrow> tls_config" where
  "tlsConfig e skipVerify =
     (let cfg = \<lparr>tc_ServerName = ep_Host e, tc_InsecureSkipVerify = False, tc_VerifyPin = None\<rparr>
      in if ep_Pin e \<noteq> [] then cfg\<lparr>tc_InsecureSkipVerify := True, tc_VerifyPin := Some (ep_Pin e)\<rparr>
         else cfg\<lparr>tc_InsecureSkipVerify := skipVerify\<rparr>)"

section \<open>Proxies\<close>

definition proxy_vars :: "string list" where
  "proxy_vars = [''HTTPS_PROXY'', ''https_proxy'', ''HTTP_PROXY'', ''http_proxy'']"

definition ProxyURL :: "(string \<Rightarrow> string) \<Rightarrow> (string \<Rightarrow> url option) \<Rightarrow> string \<Rightarrow> dial_error + url" where
  "ProxyURL getenv parse_url explicit =
     (let raw = (if explicit \<noteq> [] then explicit
                 else case filter (\<lambda>key. getenv key \<noteq> []) proxy_vars of [] \<Rightarrow> [] | key # _ \<Rightarrow> getenv key)
      in if raw = [] then Inl ErrNoProxy
         else let raw1 = (if Contains raw ''://'' then raw else ''http://'' @ raw)
              in case parse_url raw1 of None \<Rightarrow> Inl (BadProxy explicit)
                 | Some u \<Rightarrow>
                   if u_Host u = [] then Inl (ProxyNoHost explicit)
                   else if u_Port u = [] then Inr (u\<lparr>u_Host := JoinHostPort (u_Host u) ''8080''\<rparr>)
                   else Inr u)"

definition connect_request :: "url \<Rightarrow> string \<Rightarrow> string" where
  "connect_request proxy target =
     ''CONNECT '' @ target @ '' HTTP/1.1'' @ crlf @ ''Host: '' @ target @ crlf @ ''Proxy-Connection: Keep-Alive'' @ crlf @
     (case u_User proxy of None \<Rightarrow> []
      | Some (user, pass) \<Rightarrow> ''Proxy-Authorization: Basic '' @ b64_EncodeToString (str (user @ '':'' @ pass)) @ crlf) @ crlf"

section \<open>The network\<close>

text \<open>
  What happens outside: the \<open>n\<close>-th TCP dial and everything that happens on the connection it gave.
  A TLS handshake presents certificates; the system roots accept them for a server name or not.
\<close>

record net_env =
  ne_prims :: prims
  ne_spki :: "bytes \<Rightarrow> bytes option"
  ne_sha1 :: sha1_fun
  ne_getenv :: "string \<Rightarrow> string"
  ne_url :: "string \<Rightarrow> url option"
  ne_dial :: "nat \<Rightarrow> string \<Rightarrow> bool"
  ne_write :: "nat \<Rightarrow> bool"
  ne_proxy :: "nat \<Rightarrow> string \<Rightarrow> nat option" \<comment> \<open>status of the answer to this request\<close>
  ne_buffered :: "nat \<Rightarrow> bool" \<comment> \<open>data after that answer\<close>
  ne_tlsok :: "nat \<Rightarrow> bool" \<comment> \<open>the handshake reaches the certificates\<close>
  ne_certs :: "nat \<Rightarrow> bytes list"
  ne_roots :: "bytes list \<Rightarrow> string \<Rightarrow> bool"
  ne_rand :: "nat \<Rightarrow> entropy"
  ne_exchange :: "nat \<Rightarrow> string \<Rightarrow> http_response option"
  ne_stream :: "nat \<Rightarrow> bytes"
  ne_expired :: "nat \<Rightarrow> bool" \<comment> \<open>\<open>ctx.Err() != nil\<close> after so many dials\<close>

record net_state =
  ns_next :: nat
  ns_open :: "nat list"

definition tcp_dial :: "net_env \<Rightarrow> string \<Rightarrow> net_state \<Rightarrow> (dial_error + nat) \<times> net_state" where
  "tcp_dial N addr st =
     (let n = ns_next st; st1 = st\<lparr>ns_next := n + 1\<rparr>
      in if ne_dial N n addr then (Inr n, st1\<lparr>ns_open := n # ns_open st\<rparr>) else (Inl (DialFailed addr), st1))"

definition tcp_close :: "nat \<Rightarrow> net_state \<Rightarrow> net_state" where
  "tcp_close n st = st\<lparr>ns_open := removeAll n (ns_open st)\<rparr>"

text \<open>\<open>HandshakeContext\<close> with a configuration, on the certificates the peer presents.\<close>

definition tls_handshake :: "net_env \<Rightarrow> nat \<Rightarrow> tls_config \<Rightarrow> dial_error + unit" where
  "tls_handshake N n cfg =
     (if \<not> ne_tlsok N n then Inl (TLSFailed False)
      else if \<not> tc_InsecureSkipVerify cfg \<and> \<not> ne_roots N (ne_certs N n) (tc_ServerName cfg) then Inl (TLSFailed True)
      else case tc_VerifyPin cfg of
             None \<Rightarrow> Inr ()
           | Some pin \<Rightarrow> if verifyPin (ne_prims N) (ne_spki N) pin (ne_certs N n) then Inr () else Inl (TLSFailed False))"

definition isCertError :: "dial_error \<Rightarrow> bool" where
  "isCertError e = (case e of TLSFailed c \<Rightarrow> c | _ \<Rightarrow> False)"

section \<open>Dialling\<close>

definition DialViaProxy :: "net_env \<Rightarrow> url \<Rightarrow> string \<Rightarrow> net_state \<Rightarrow> (dial_error + nat) \<times> net_state" where
  "DialViaProxy N proxy target st =
     (case tcp_dial N (u_Host proxy) st of
        (Inl _, st1) \<Rightarrow> (Inl (ProxyDial (u_Host proxy)), st1)
      | (Inr n, st1) \<Rightarrow>
        if \<not> ne_write N n then (Inl ProxyWrite, tcp_close n st1)
        else case ne_proxy N n (connect_request proxy target) of
               None \<Rightarrow> (Inl ProxyResponse, tcp_close n st1)
             | Some code \<Rightarrow>
               if code \<noteq> 200 then (Inl (ProxyRefused code), tcp_close n st1)
               else if ne_buffered N n then (Inl ProxyData, tcp_close n st1)
               else (Inr n, st1))"

definition dialRaw :: "net_env \<Rightarrow> string \<Rightarrow> url option \<Rightarrow> net_state \<Rightarrow> (dial_error + nat) \<times> net_state" where
  "dialRaw N hostPort proxy st =
     (case proxy of Some p \<Rightarrow> DialViaProxy N p hostPort st | None \<Rightarrow> tcp_dial N hostPort st)"

text \<open>The connection that \<open>dialTLS\<close> returns, with the configuration its handshake ran with.\<close>

definition dialTLS ::
    "net_env \<Rightarrow> endpoint \<Rightarrow> string \<Rightarrow> url option \<Rightarrow> net_state \<Rightarrow> (dial_error + nat \<times> tls_config) \<times> net_state" where
  "dialTLS N e hostPort proxy st =
     (case dialRaw N hostPort proxy st of
        (Inl err, st1) \<Rightarrow> (Inl err, st1)
      | (Inr raw, st1) \<Rightarrow>
        (case tls_handshake N raw (tlsConfig e False) of
           Inr _ \<Rightarrow> (Inr (raw, tlsConfig e False), st1)
         | Inl err \<Rightarrow>
           if ep_Pin e \<noteq> [] \<or> ep_Verify e \<or> \<not> isCertError err then (Inl err, tcp_close raw st1)
           else (case dialRaw N hostPort proxy (tcp_close raw st1) of
                   (Inl err2, st2) \<Rightarrow> (Inl err2, st2)
                 | (Inr raw2, st2) \<Rightarrow>
                   (case tls_handshake N raw2 (tlsConfig e True) of
                      Inl err2 \<Rightarrow> (Inl err2, tcp_close raw2 st2)
                    | Inr _ \<Rightarrow> (Inr (raw2, tlsConfig e True), st2)))))"

text \<open>A dialled connection: the TCP connection, its TLS configuration unless it is in clear, and the WebSocket.\<close>

record link =
  lk_tcp :: nat
  lk_tls :: "tls_config option"
  lk_ws :: WSConn

definition itoa_port :: "int \<Rightarrow> string" where "itoa_port n = cand_itoa (nat n)"

definition upgrade_link :: "net_env \<Rightarrow> endpoint \<Rightarrow> nat \<Rightarrow> tls_config option \<Rightarrow> net_state \<Rightarrow> (dial_error + link) \<times> net_state" where
  "upgrade_link N e n tls st =
     (case ClientHandshake (ne_sha1 N) (ne_rand N n) (ep_Host e) (ep_Path e) (ne_write N n) (ne_exchange N n) of
        Inl err \<Rightarrow> (Inl (Upgrade err), tcp_close n st)
      | Inr _ \<Rightarrow> (Inr \<lparr>lk_tcp = n, lk_tls = tls, lk_ws = NewWSConn (ne_stream N n) True\<rparr>, st))"

definition DialRung :: "net_env \<Rightarrow> endpoint \<Rightarrow> Rung \<Rightarrow> net_state \<Rightarrow> (dial_error + link) \<times> net_state" where
  "DialRung N e rung st =
     (let tls = (\<lambda>proxy. case dialTLS N e (JoinHostPort (ep_Host e) (itoa_port (ep_TLSPort e))) proxy st of
                   (Inl err, st1) \<Rightarrow> (Inl err, st1)
                 | (Inr (n, cfg), st1) \<Rightarrow> upgrade_link N e n (Some cfg) st1)
      in case rung of
           RungTLSDirect \<Rightarrow> tls None
         | RungTLSProxy \<Rightarrow>
             (case ProxyURL (ne_getenv N) (ne_url N) (ep_Proxy e) of
                Inl err \<Rightarrow> (Inl err, st)
              | Inr proxy \<Rightarrow> tls (Some proxy))
         | RungHTTPDirect \<Rightarrow>
             (case tcp_dial N (JoinHostPort (ep_Host e) (itoa_port (ep_HTTPPort e))) st of
                (Inl err, st1) \<Rightarrow> (Inl err, st1)
              | (Inr n, st1) \<Rightarrow> upgrade_link N e n None st1))"

fun dial_loop ::
    "net_env \<Rightarrow> endpoint \<Rightarrow> Rung list \<Rightarrow> (Rung \<times> dial_error) list \<Rightarrow> net_state \<Rightarrow> (dial_error + link \<times> Rung) \<times> net_state" where
  "dial_loop N e [] errs st = (Inl (NoRoute errs), st)"
| "dial_loop N e (r # rs) errs st =
     (case DialRung N e r st of
        (Inr conn, st1) \<Rightarrow> (Inr (conn, r), st1)
      | (Inl err, st1) \<Rightarrow>
        if ne_expired N (ns_next st1) then (Inl (NoRoute (errs @ [(r, err)])), st1)
        else dial_loop N e rs (errs @ [(r, err)]) st1)"

definition endpoint_Dial :: "net_env \<Rightarrow> endpoint \<Rightarrow> net_state \<Rightarrow> (dial_error + link \<times> Rung) \<times> net_state" where
  "endpoint_Dial N e st = dial_loop N e Ladder [] st"

section \<open>No connection is lost\<close>

text \<open>
  A dialling operation is clean when the only connection it leaves open is the one it returns.
\<close>

definition fresh_state :: "net_state \<Rightarrow> bool" where
  "fresh_state st \<longleftrightarrow> (\<forall>n\<in>set (ns_open st). n < ns_next st)"

definition clean :: "('a \<Rightarrow> nat) \<Rightarrow> net_state \<Rightarrow> (dial_error + 'a) \<times> net_state \<Rightarrow> bool" where
  "clean tcp st res \<longleftrightarrow> fresh_state (snd res) \<and> ns_next st \<le> ns_next (snd res) \<and>
     (case fst res of
        Inl _ \<Rightarrow> ns_open (snd res) = ns_open st
      | Inr c \<Rightarrow> ns_open (snd res) = tcp c # ns_open st \<and> ns_next st \<le> tcp c)"

lemma clean_close:
  assumes "clean tcp st (Inr c, st1)" "fresh_state st" "n = tcp c"
  shows "clean f st (Inl e, tcp_close n st1)"
proof -
  have "n \<notin> set (ns_open st)" using assms by (auto simp: clean_def fresh_state_def)
  then show ?thesis using assms by (auto simp: clean_def fresh_state_def tcp_close_def)
qed

lemma clean_close_raw: "clean id st (Inr c, st1) \<Longrightarrow> fresh_state st \<Longrightarrow> clean f st (Inl e, tcp_close c st1)"
  using clean_close [of id st c st1 c f e] by simp

lemma clean_after:
  "clean f st (Inl e, st1) \<Longrightarrow> clean g st1 res \<Longrightarrow> clean g st res"
  by (auto simp: clean_def split: sum.splits)

lemma clean_error: "clean f st (Inl e, st1) \<Longrightarrow> clean g st (Inl e', st1)"
  by (simp add: clean_def)

lemma clean_same: "clean f st (Inr c, st1) \<Longrightarrow> f c = g d \<Longrightarrow> clean g st (Inr d, st1)"
  by (simp add: clean_def)

lemma clean_fresh: "clean f st res \<Longrightarrow> fresh_state (snd res)"
  by (simp add: clean_def)

lemma clean_tcp_dial: "fresh_state st \<Longrightarrow> clean id st (tcp_dial N addr st)"
  by (auto simp: tcp_dial_def clean_def fresh_state_def Let_def)

lemma clean_via_proxy: "fresh_state st \<Longrightarrow> clean id st (DialViaProxy N proxy target st)"
proof -
  assume f: "fresh_state st"
  obtain r st1 where d: "tcp_dial N (u_Host proxy) st = (r, st1)" by fastforce
  have c: "clean id st (r, st1)" using clean_tcp_dial [OF f, of N "u_Host proxy"] by (simp add: d)
  show ?thesis
  proof (cases r)
    case (Inl e)
    then show ?thesis using c clean_error by (auto simp: DialViaProxy_def d)
  next
    case (Inr n)
    have "clean id st (Inl e :: dial_error + nat, tcp_close n st1)" for e
      by (rule clean_close [OF c [unfolded Inr] f]) simp
    then show ?thesis using c Inr by (auto simp: DialViaProxy_def d split: option.split)
  qed
qed

lemma clean_raw: "fresh_state st \<Longrightarrow> clean id st (dialRaw N hostPort proxy st)"
  using clean_via_proxy clean_tcp_dial by (simp add: dialRaw_def split: option.split)

lemma clean_tls:
  assumes f: "fresh_state st"
  shows "clean fst st (dialTLS N e hostPort proxy st)"
proof -
  obtain r st1 where d: "dialRaw N hostPort proxy st = (r, st1)" by fastforce
  have c: "clean id st (r, st1)" using clean_raw [OF f, of N hostPort proxy] by (simp add: d)
  show ?thesis
  proof (cases r)
    case (Inl err)
    then show ?thesis using c clean_error by (auto simp: dialTLS_def d)
  next
    case (Inr raw)
    have shut: "clean g st (Inl e', tcp_close raw st1)" for e' and g :: "nat \<times> tls_config \<Rightarrow> nat"
      by (rule clean_close [OF c [unfolded Inr] f]) simp
    let ?st = "tcp_close raw st1"
    obtain r2 st2 where d2: "dialRaw N hostPort proxy ?st = (r2, st2)" by fastforce
    have "fresh_state ?st" using clean_fresh [OF shut] by simp
    then have "clean id ?st (r2, st2)" using clean_raw [of ?st N hostPort proxy] by (simp add: d2)
    then have c2: "clean id st (r2, st2)" using clean_after [OF shut] by blast
    have "clean fst st (case r2 of Inl err2 \<Rightarrow> (Inl err2, st2)
        | Inr raw2 \<Rightarrow> (case tls_handshake N raw2 (tlsConfig e True) of
             Inl err2 \<Rightarrow> (Inl err2, tcp_close raw2 st2) | Inr _ \<Rightarrow> (Inr (raw2, tlsConfig e True), st2)))"
      using c2 by (auto intro: clean_error clean_close_raw f clean_same split: sum.split)
    moreover have "clean fst st (Inr (raw, tlsConfig e False), st1)" by (rule clean_same [OF c [unfolded Inr]]) simp
    ultimately show ?thesis using Inr shut by (auto simp: dialTLS_def d d2 split: sum.split)
  qed
qed

lemma clean_upgrade:
  assumes "clean g st (Inr c, st1)" "fresh_state st" "n = g c"
  shows "clean lk_tcp st (upgrade_link N e n tls st1)"
  by (auto simp: upgrade_link_def assms(3) intro: clean_close [OF assms(1,2) refl] clean_same [OF assms(1)] split: sum.split)

lemma clean_rung:
  assumes f: "fresh_state st"
  shows "clean lk_tcp st (DialRung N e rung st)"
proof -
  have tls: "clean lk_tcp st (case dialTLS N e hp proxy st of (Inl err, st1) \<Rightarrow> (Inl err, st1)
      | (Inr (n, cfg), st1) \<Rightarrow> upgrade_link N e n (Some cfg) st1)" for hp proxy
  proof -
    obtain r st1 where d: "dialTLS N e hp proxy st = (r, st1)" by fastforce
    then have "clean fst st (r, st1)" using clean_tls [OF f, of N e hp proxy] by simp
    then show ?thesis by (cases r) (auto simp: d intro: clean_upgrade [OF _ f] clean_error)
  qed
  have plain: "clean lk_tcp st (case tcp_dial N hp st of (Inl err, st1) \<Rightarrow> (Inl err, st1)
      | (Inr n, st1) \<Rightarrow> upgrade_link N e n None st1)" for hp
  proof -
    obtain r st1 where d: "tcp_dial N hp st = (r, st1)" by fastforce
    then have "clean id st (r, st1)" using clean_tcp_dial [OF f, of N hp] by simp
    then show ?thesis by (cases r) (auto simp: d intro: clean_upgrade [OF _ f] clean_error)
  qed
  have "clean lk_tcp st (Inl err, st)" for err using f by (simp add: clean_def)
  then show ?thesis using tls plain by (auto simp: DialRung_def Let_def split: Rung.split sum.split)
qed

lemma clean_loop: "fresh_state st \<Longrightarrow> clean (\<lambda>a. lk_tcp (fst a)) st (dial_loop N e rs errs st)"
proof (induction rs arbitrary: errs st)
  case (Cons r rs)
  obtain q st1 where d: "DialRung N e r st = (q, st1)" by fastforce
  have c: "clean lk_tcp st (q, st1)" using clean_rung [OF Cons.prems, of N e r] by (simp add: d)
  show ?case
  proof (cases q)
    case (Inl err)
    have "clean (\<lambda>a. lk_tcp (fst a)) st1 (dial_loop N e rs (errs @ [(r, err)]) st1)"
      by (rule Cons.IH) (use clean_fresh [OF c] in simp)
    then have "clean (\<lambda>a. lk_tcp (fst a)) st (dial_loop N e rs (errs @ [(r, err)]) st1)" using clean_after c Inl by blast
    then show ?thesis using c by (simp add: d Inl clean_error)
  next
    case (Inr conn)
    have "clean (\<lambda>a. lk_tcp (fst a)) st (Inr (conn, r), st1)" by (rule clean_same [OF c [unfolded Inr]]) simp
    then show ?thesis by (simp add: d Inr)
  qed
qed (simp add: clean_def)

section \<open>Certificates that are accepted\<close>

lemma foldl_or_zero: "foldl (\<lambda>v i. v OR f i) (a :: byte) ns = 0 \<longleftrightarrow> a = 0 \<and> (\<forall>i\<in>set ns. f i = 0)"
  by (induction ns arbitrary: a) (auto simp: or_eq_0_iff)

text \<open>The constant-time comparison is equality on slices of the same length.\<close>

lemma subtleEqual_iff: "length a = length b \<Longrightarrow> subtleEqual a b \<longleftrightarrow> a = b"
proof -
  assume l: "length a = length b"
  have "x XOR y = 0 \<longleftrightarrow> x = y" for x y :: byte
    by (metis xor.assoc xor_self_eq xor.left_neutral xor.right_neutral)
  then have "subtleEqual a b \<longleftrightarrow> (\<forall>i < length a. a ! i = b ! i)" by (auto simp: subtleEqual_def foldl_or_zero)
  then show ?thesis using l nth_equalityI by blast
qed

lemma verify_loop_iff:
  "verify_loop P spki want certs \<longleftrightarrow> (\<exists>raw\<in>set certs. \<exists>info. spki raw = Some info \<and> want = fill (sha256_byte P info) 32)"
proof (induction certs)
  case (Cons raw rest)
  then show ?case using subtleEqual_iff [of want] by (cases "spki raw") (auto simp: Let_def)
qed simp

lemma verifyPin_iff:
  "verifyPin P spki pin certs \<longleftrightarrow>
   (\<exists>raw\<in>set certs. \<exists>info. spki raw = Some info \<and> b64_DecodeString pin = Some (fill (sha256_byte P info) 32))"
  by (auto simp: verifyPin_def verify_loop_iff split: option.split)

text \<open>What a TLS configuration demands of the certificates.\<close>

definition cert_checked :: "net_env \<Rightarrow> endpoint \<Rightarrow> bytes list \<Rightarrow> bool" where
  "cert_checked N e certs \<longleftrightarrow>
     (if ep_Pin e \<noteq> [] then verifyPin (ne_prims N) (ne_spki N) (ep_Pin e) certs
      else ep_Verify e \<longrightarrow> ne_roots N certs (ep_Host e))"

lemma handshake_checked:
  assumes "tls_handshake N n (tlsConfig e b) = Inr ()" "b \<longrightarrow> ep_Pin e = [] \<and> \<not> ep_Verify e"
  shows "cert_checked N e (ne_certs N n)"
  using assms by (auto simp: tls_handshake_def tlsConfig_def cert_checked_def Let_def split: if_splits option.splits)

lemma dialTLS_checked:
  assumes "dialTLS N e hp proxy st = (Inr (n, cfg), st')"
  shows "cert_checked N e (ne_certs N n)"
  using assms handshake_checked [of N _ e]
  by (auto simp: dialTLS_def split: prod.splits sum.splits if_splits)

lemma rung_checked:
  assumes "DialRung N e r st = (Inr c, st')"
  shows "r = RungHTTPDirect \<and> lk_tls c = None \<or> r \<noteq> RungHTTPDirect \<and> lk_tls c \<noteq> None \<and> cert_checked N e (ne_certs N (lk_tcp c))"
proof -
  have up: "lk_tcp c = n \<and> lk_tls c = tls" if "upgrade_link N e n tls s = (Inr c, s')" for n tls s s'
    using that by (auto simp: upgrade_link_def split: sum.splits)
  show ?thesis using assms up dialTLS_checked [of N e]
    by (cases r) (fastforce simp: DialRung_def Let_def split: prod.splits sum.splits)+
qed

lemma loop_checked:
  "dial_loop N e rs errs st = (Inr (c, r), st') \<Longrightarrow> r \<in> set rs \<and> (\<exists>s s'. DialRung N e r s = (Inr c, s'))"
proof (induction rs arbitrary: errs st)
  case (Cons x rs)
  obtain q st1 where d: "DialRung N e x st = (q, st1)" by fastforce
  show ?case
  proof (cases q)
    case (Inl err)
    then have "dial_loop N e rs (errs @ [(x, err)]) st1 = (Inr (c, r), st')" using Cons.prems by (auto simp: d split: if_splits)
    then show ?thesis using Cons.IH by auto
  next
    case (Inr conn)
    then show ?thesis using Cons.prems d by auto
  qed
qed simp

section \<open>Properties\<close>

text \<open>
  C31: dialling the relay. Whatever the network does, \<open>Dial\<close> leaves no connection open but the one it
  returns. A connection over TLS has presented a certificate that matches the pin when one is
  configured, and one that the system roots accept when strict verification is on.
\<close>

theorem dial_checks_certificates:
  assumes "fresh_state st" and "endpoint_Dial N e st = (res, st')"
  shows "(case res of
       Inl _ \<Rightarrow> ns_open st' = ns_open st
     | Inr (c, r) \<Rightarrow> ns_open st' = lk_tcp c # ns_open st \<and>
         (lk_tls c \<noteq> None \<longrightarrow>
            (ep_Pin e \<noteq> [] \<longrightarrow> verifyPin (ne_prims N) (ne_spki N) (ep_Pin e) (ne_certs N (lk_tcp c))) \<and>
            (ep_Pin e = [] \<and> ep_Verify e \<longrightarrow> ne_roots N (ne_certs N (lk_tcp c)) (ep_Host e))))"
proof -
  have "clean (\<lambda>a. lk_tcp (fst a)) st (res, st')"
    using clean_loop [OF assms(1), of N e Ladder "[]"] assms(2) by (simp add: endpoint_Dial_def)
  moreover have "lk_tls c = None \<or> cert_checked N e (ne_certs N (lk_tcp c))" if "res = Inr (c, r)" for c r
    using loop_checked [of N e Ladder "[]" st c r st'] rung_checked [of N e r _ c] assms(2) that by (auto simp: endpoint_Dial_def)
  ultimately show ?thesis by (fastforce simp: clean_def cert_checked_def split: sum.split)
qed

text \<open>A network on which everything succeeds except, on request, the TLS handshakes.\<close>

definition demo_answer :: "sha1_fun \<Rightarrow> http_response" where
  "demo_answer sha1 = \<lparr>hr_status = 101, hr_header = (\<lambda>h. if h = ''Upgrade'' then ''websocket''
     else if h = ''Sec-WebSocket-Accept'' then acceptKey sha1 (b64_EncodeToString (fill (\<lambda>_. 0) 16)) else [])\<rparr>"

definition demo_net :: "bool \<Rightarrow> net_env" where
  "demo_net tls = \<lparr>ne_prims = undefined, ne_spki = (\<lambda>_. None), ne_sha1 = (\<lambda>_ _. 0), ne_getenv = (\<lambda>_. []), ne_url = (\<lambda>_. None),
     ne_dial = (\<lambda>_ _. True), ne_write = (\<lambda>_. True), ne_proxy = (\<lambda>_ _. Some 200), ne_buffered = (\<lambda>_. False), ne_tlsok = (\<lambda>_. tls),
     ne_certs = (\<lambda>_. [[1]]), ne_roots = (\<lambda>_ _. True), ne_rand = (\<lambda>_. Some (\<lambda>_. 0)),
     ne_exchange = (\<lambda>_ _. Some (demo_answer (\<lambda>_ _. 0))), ne_stream = (\<lambda>_. []), ne_expired = (\<lambda>_. False)\<rparr>"

definition demo_endpoint :: endpoint where
  "demo_endpoint = \<lparr>ep_Host = ''relay'', ep_TLSPort = 443, ep_HTTPPort = 80, ep_Path = ''/hmdl'', ep_Pin = [], ep_Verify = True, ep_Proxy = []\<rparr>"

lemma demo_upgrade: "ClientHandshake (\<lambda>_ _. 0) (Some (\<lambda>_. 0)) host path True (\<lambda>_. Some (demo_answer (\<lambda>_ _. 0))) = Inr ()"
proof -
  have "EqualFold ''websocket'' ''websocket''" by (rule EqualFold_refl)
  moreover have "''Sec-WebSocket-Accept'' \<noteq> ''Upgrade''" by simp
  ultimately show ?thesis
    by (simp only: ClientHandshake_def RandomBytes_def demo_answer_def http_response.simps option.case sum.case Let_def
        simp_thms if_True if_False)
qed

theorem dial_checks_certificates_witness:
  "\<exists>c r st'. endpoint_Dial (demo_net True) demo_endpoint \<lparr>ns_next = 0, ns_open = []\<rparr> = (Inr (c, r), st') \<and>
     lk_tls c \<noteq> None \<and> ns_open st' = [lk_tcp c] \<and> ne_roots (demo_net True) (ne_certs (demo_net True) (lk_tcp c)) ''relay''"
proof -
  let ?st = "\<lparr>ns_next = 0, ns_open = []\<rparr>"
  obtain c st' where d: "endpoint_Dial (demo_net True) demo_endpoint ?st = (Inr (c, RungTLSDirect), st')" "lk_tls c \<noteq> None"
    by (simp add: endpoint_Dial_def Ladder_def DialRung_def dialTLS_def dialRaw_def tcp_dial_def tls_handshake_def tlsConfig_def
        demo_net_def demo_endpoint_def upgrade_link_def demo_upgrade Let_def)
  have "fresh_state ?st" by (simp add: fresh_state_def)
  from dial_checks_certificates [OF this d(1)] d show ?thesis by (auto simp: demo_endpoint_def)
qed

text \<open>
  C32: strict verification does not keep the client from an unverified relay. When the TLS handshakes
  are made to fail (by anyone who can cut connections) and plain HTTP is let through, \<open>Dial\<close>
  returns a connection in clear text, without any certificate, even though a pin or strict verification is
  configured.
\<close>

theorem strict_relay_downgraded:
  assumes "ep_Pin e \<noteq> [] \<or> ep_Verify e"
    and "\<forall>n. \<not> ne_tlsok N n \<and> \<not> ne_expired N n \<and> (\<forall>a. ne_dial N n a)"
    and "\<forall>n. ClientHandshake (ne_sha1 N) (ne_rand N n) (ep_Host e) (ep_Path e) (ne_write N n) (ne_exchange N n) = Inr ()"
  shows "\<exists>c st'. endpoint_Dial N e st = (Inr (c, RungHTTPDirect), st') \<and> lk_tls c = None"
proof -
  have tls: "\<exists>err s'. dialTLS N e hp proxy s = (Inl err, s')" for hp proxy s
  proof -
    have "tls_handshake N n cfg = Inl (TLSFailed False)" for n cfg using assms(2) by (simp add: tls_handshake_def)
    then show ?thesis by (auto simp: dialTLS_def isCertError_def split: prod.split sum.split)
  qed
  obtain e1 s1 where r1: "DialRung N e RungTLSDirect st = (Inl e1, s1)"
    using tls [of "JoinHostPort (ep_Host e) (itoa_port (ep_TLSPort e))" None st] by (auto simp: DialRung_def Let_def)
  obtain e2 s2 where r2: "DialRung N e RungTLSProxy s1 = (Inl e2, s2)"
  proof (cases "ProxyURL (ne_getenv N) (ne_url N) (ep_Proxy e)")
    case (Inl err)
    then show ?thesis using that by (simp add: DialRung_def)
  next
    case (Inr proxy)
    then show ?thesis
      using tls [of "JoinHostPort (ep_Host e) (itoa_port (ep_TLSPort e))" "Some proxy" s1] that by (auto simp: DialRung_def Let_def)
  qed
  obtain c s3 where r3: "DialRung N e RungHTTPDirect s2 = (Inr c, s3)" "lk_tls c = None"
    using assms(2,3) by (simp add: DialRung_def tcp_dial_def upgrade_link_def Let_def)
  show ?thesis using assms(2) r1 r2 r3 by (simp add: endpoint_Dial_def Ladder_def)
qed

theorem strict_relay_downgraded_witness:
  "ep_Verify demo_endpoint \<and>
   (\<exists>c st'. endpoint_Dial (demo_net False) demo_endpoint \<lparr>ns_next = 0, ns_open = []\<rparr> = (Inr (c, RungHTTPDirect), st') \<and> lk_tls c = None)"
proof
  show v: "ep_Verify demo_endpoint" by (simp add: demo_endpoint_def)
  show "\<exists>c st'. endpoint_Dial (demo_net False) demo_endpoint \<lparr>ns_next = 0, ns_open = []\<rparr> = (Inr (c, RungHTTPDirect), st') \<and> lk_tls c = None"
    by (rule strict_relay_downgraded) (simp_all add: v, simp_all add: demo_net_def demo_upgrade)
qed


section \<open>Addresses\<close>

text \<open>
  a relay address that is accepted can be dialled. Whatever the user typed and however the URL is
  parsed, \<open>ParseEndpoint\<close> returns an endpoint with a host, ports between 1 and 65535 and a path
  that begins with a slash, or an error.
\<close>

theorem endpoint_well_formed:
  assumes "ParseEndpoint parse_url s = Inr ep"
  shows "ep_Host ep \<noteq> [] \<and> 1 \<le> ep_TLSPort ep \<and> ep_TLSPort ep \<le> 65535 \<and> 1 \<le> ep_HTTPPort ep \<and> ep_HTTPPort ep \<le> 65535 \<and>
    prefix ''/'' (ep_Path ep)"
proof -
  have port: "1 \<le> n \<and> n \<le> 65535" if "parse_port p = Some n" for p n
    using that by (auto simp: parse_port_def split: option.splits if_splits)
  have fin: "ep_Host ep \<noteq> [] \<and> ep_TLSPort ep = ep_TLSPort e \<and> ep_HTTPPort ep = ep_HTTPPort e \<and> prefix ''/'' (ep_Path ep)"
    if "endpoint_finish t e = Inr ep" for t e
    using that by (auto simp: endpoint_finish_def HasPrefix_def split: if_splits)
  let ?ok = "\<lambda>e :: endpoint. 1 \<le> ep_TLSPort e \<and> ep_TLSPort e \<le> 65535 \<and> 1 \<le> ep_HTTPPort e \<and> ep_HTTPPort e \<le> 65535"
  have url: "\<exists>t e'. endpoint_finish t e' = Inr ep \<and> ?ok e'" if g: "url_endpoint t u e = Inr ep" "?ok e" for t u e
  proof (cases "u_Port u = []")
    case True
    then show ?thesis using g by (auto simp: url_endpoint_def Let_def intro!: exI split: if_splits)
  next
    case False
    then obtain n where "parse_port (u_Port u) = Some n" using g by (auto simp: url_endpoint_def Let_def split: option.splits)
    then show ?thesis using g False port [of "u_Port u" n]
      by (auto simp: url_endpoint_def Let_def intro!: exI split: if_splits)
  qed
  have "\<exists>t e'. endpoint_finish t e' = Inr ep \<and> ?ok e'"
  proof (cases "Contains (TrimSpace s) ''://''")
    case True
    then show ?thesis using assms url by (auto simp: ParseEndpoint_def Let_def split: option.splits if_splits)
  next
    case False
    show ?thesis
    proof (cases "SplitHostPort (TrimSpace s)")
      case None
      then show ?thesis using assms False by (auto simp: ParseEndpoint_def Let_def intro!: exI split: if_splits)
    next
      case (Some hp)
      obtain host q where hp: "hp = (host, q)" by fastforce
      then obtain n where n: "parse_port q = Some n"
        using assms False Some by (auto simp: ParseEndpoint_def Let_def split: option.splits if_splits)
      then show ?thesis using assms False Some hp port [OF n]
        by (auto simp: ParseEndpoint_def Let_def intro!: exI split: if_splits)
    qed
  qed
  then show ?thesis using fin by auto
qed

theorem endpoint_well_formed_witness:
  "\<exists>ep. ParseEndpoint (\<lambda>_. None) ''relay:8443'' = Inr ep \<and> ep_Host ep \<noteq> [] \<and> ep_TLSPort ep = 8443 \<and> prefix ''/'' (ep_Path ep)"
proof -
  have "TrimSpace ''relay:8443'' = ''relay:8443''" "\<not> Contains ''relay:8443'' ''://''"
    "SplitHostPort ''relay:8443'' = Some (''relay'', ''8443'')" "Atoi ''8443'' = Some 8443"
    by code_simp+
  then obtain ep where ep: "ParseEndpoint (\<lambda>_. None) ''relay:8443'' = Inr ep" "ep_TLSPort ep = 8443"
    by (simp add: ParseEndpoint_def parse_port_def endpoint_finish_def Let_def)
  from endpoint_well_formed [OF ep(1)] ep show ?thesis by blast
qed


text \<open>
  a pin works. The pin that an operator prints for a certificate is accepted for every chain that
  contains a certificate with that public key, and for no chain in which every parsed key has another
  digest.
\<close>

theorem printed_pin_accepted:
  "verifyPin P spki (PinFor P info) certs \<longleftrightarrow>
   (\<exists>raw info'. raw \<in> set certs \<and> spki raw = Some info' \<and> fill (sha256_byte P info') 32 = fill (sha256_byte P info) 32)"
proof -
  have "b64_DecodeString (PinFor P info) = Some (fill (sha256_byte P info) 32)" by (simp add: PinFor_def b64_round_trip)
  then show ?thesis by (auto simp: verifyPin_iff) metis
qed

text \<open>
  a proxy with an IPv6 address and no port can not be used. \<open>ProxyURL\<close> joins the default port to
  the bracketed host, which gives doubled brackets, an address that \<open>net.SplitHostPort\<close> refuses.
\<close>

theorem ipv6_proxy_unusable:
  assumes "parse_url (''http://['' @ v6 @ '']'') = Some u" and "u_Host u = ''['' @ v6 @ '']''" "u_Port u = []"
    and "CHR '':'' \<in> set v6" "CHR '']'' \<notin> set v6"
  shows "\<exists>w. ProxyURL getenv parse_url (''http://['' @ v6 @ '']'') = Inr w \<and> SplitHostPort (u_Host w) = None"
proof -
  have c: "Contains (''http://['' @ v6 @ '']'') ''://''"
    unfolding Contains_def sublist_def by (intro exI [of _ "''http''"] exI [of _ "''['' @ v6 @ '']''"]) simp
  have "CHR '':'' \<in> set (u_Host u)" using assms(2,4) by simp
  then have "ProxyURL getenv parse_url (''http://['' @ v6 @ '']'') = Inr (u\<lparr>u_Host := ''[['' @ v6 @ '']]:8080''\<rparr>)"
    using assms(1-3) c by (simp add: ProxyURL_def Let_def JoinHostPort_def)
  moreover have "SplitHostPort (''[['' @ v6 @ '']]:8080'') = None"
  proof -
    have "colon_last (''[['' @ v6 @ '']]:8080'') = Some (length v6 + 4)"
      using colon_last_append [of "''8080''" "''[['' @ v6 @ '']]''"] by simp
    moreover have "bracket_end (''[['' @ v6 @ '']]:8080'') = Some (length v6 + 2)"
      using assms(5) by (simp add: bracket_end_def takeWhile_append)
    ultimately show ?thesis by (simp add: SplitHostPort_def)
  qed
  ultimately show ?thesis by simp
qed

definition demo_url :: url where
  "demo_url = \<lparr>u_Scheme = ''http'', u_Host = ''[::1]'', u_Hostname = ''::1'', u_Port = [], u_Path = [], u_User = None\<rparr>"

theorem ipv6_proxy_unusable_witness:
  "\<exists>w. ProxyURL (\<lambda>_. []) (\<lambda>_. Some demo_url) ''http://[::1]'' = Inr w \<and> SplitHostPort (u_Host w) = None"
  using ipv6_proxy_unusable [of "\<lambda>_. Some demo_url" "''::1''" demo_url "\<lambda>_. []"] by (simp add: demo_url_def)

end
