(* ===== verification/Client.thy ===== *)
theory Client
  imports Dialer Relay
begin

text \<open>
  \<open>internal/rendezvous/client.go\<close>: the supervised control connection, outstanding invite codes and
  claims, and circuits.

  The client is one record; a waiter is a cell of its heap, because \<open>Publish\<close>, \<open>Claim\<close> and
  \<open>Invite\<close> keep the pointer after the map has dropped it. The goroutines (the supervisor, the
  callers of \<open>resendWaiters\<close>, the users waiting for an answer) move in atomic steps, one for each
  critical section or channel operation.
\<close>

section \<open>Data\<close>

definition PingInterval :: int where "PingInterval = 20 * second"
definition minBackoff :: int where [simp]: "minBackoff = 1 * second"
definition maxBackoff :: int where [simp]: "maxBackoff = 30 * second"

datatype client_error =
    ErrClosed | ErrCtx | ErrRelay string | ErrOutstanding | ErrMsg msg_error | ErrCand cand_error | ErrMalformedTicket
  | ErrDial dial_error | ErrWS ws_error | ErrUnexpectedAnswer string

record waiter =
  wt_published :: "message list" \<comment> \<open>a channel of capacity one\<close>
  wt_paired :: "message list"
  wt_sealed :: bytes
  wt_claim :: bool
  wt_sent :: bool

text \<open>
  Where the supervisor is: with its local \<open>backoff\<close> while it has no connection, in its call number
  \<open>k\<close> of \<open>resendWaiters\<close>, in \<open>readPump\<close>, or past it with the connection closed. A call of \<open>resendWaiters\<close>
  has not taken its list yet, is about to send the next request, or has sent the request of a
  waiter and is about to mark it.
\<close>

datatype sv_phase =
    SvCheck int | SvDialing int | SvBackoff int | SvResend nat nat | SvConnected nat | SvLost nat | SvStopped

datatype resender = RsStart | RsSending nat "(string \<times> nat) list" | RsMark nat nat "(string \<times> nat) list"

record client =
  cl_conn :: "nat option"
  cl_rung :: Rung
  cl_observed :: string
  cl_waiters :: "(string \<times> nat) list"
  cl_heap :: "waiter list"
  cl_connected :: bool \<comment> \<open>the channel \<open>connected\<close> is closed\<close>
  cl_closed :: bool
  cl_phase :: sv_phase
  cl_tasks :: "resender list"
  cl_open :: "nat list" \<comment> \<open>control connections that are not closed\<close>
  cl_out :: "(nat \<times> message) list" \<comment> \<open>messages written, with their connection\<close>

record pairing =
  pr_Role :: string
  pr_PeerCandidates :: "candidate list"
  pr_PeerObserved :: string
  pr_Observed :: string
  pr_PunchIn :: int
  pr_Ticket :: bytes
  pr_Rung :: Rung

definition Initiator :: "pairing \<Rightarrow> bool" where
  "Initiator p = (pr_Role p = RoleClaimer)"

record invite =
  iv_rid :: string
  iv_waiter :: nat
  iv_observed :: string

definition NewClient :: client where
  "NewClient = \<lparr>cl_conn = None, cl_rung = RungTLSDirect, cl_observed = [], cl_waiters = [], cl_heap = [], cl_connected = False,
     cl_closed = False, cl_phase = SvCheck minBackoff, cl_tasks = [], cl_open = [], cl_out = []\<rparr>"

section \<open>Messages from the relay\<close>

text \<open>A send that does not block: a full channel keeps its message.\<close>

definition offer :: "message \<Rightarrow> message list \<Rightarrow> message list" where
  "offer m ch = (if ch = [] then [m] else ch)"

definition upd_waiter :: "nat \<Rightarrow> (waiter \<Rightarrow> waiter) \<Rightarrow> client \<Rightarrow> client" where
  "upd_waiter i f c = c\<lparr>cl_heap := (cl_heap c)[i := f (cl_heap c ! i)]\<rparr>"

definition dispatch :: "message \<Rightarrow> client \<Rightarrow> client" where
  "dispatch msg c =
     (let to_waiter = (\<lambda>f c. case map_of (cl_waiters c) (mg_RendezvousID msg) of None \<Rightarrow> c | Some i \<Rightarrow> upd_waiter i f c)
      in if mg_Type msg = MsgPublished then
           to_waiter (\<lambda>w. w\<lparr>wt_published := offer msg (wt_published w)\<rparr>)
             (if mg_Observed msg \<noteq> [] then c\<lparr>cl_observed := mg_Observed msg\<rparr> else c)
         else if mg_Type msg = MsgPaired then
           to_waiter (\<lambda>w. w\<lparr>wt_paired := offer msg (wt_paired w)\<rparr>) c
         else if mg_Type msg = MsgError then
           to_waiter (\<lambda>w. w\<lparr>wt_published := offer msg (wt_published w), wt_paired := offer msg (wt_paired w)\<rparr>) c
         else c)"

section \<open>Requests\<close>

definition request_of :: "string \<Rightarrow> waiter \<Rightarrow> message" where
  "request_of rid w =
     (msg_of (if wt_claim w then MsgClaim else MsgPublish))\<lparr>mg_RendezvousID := rid, mg_Candidates := b64 (wt_sealed w)\<rparr>"

definition unsent :: "client \<Rightarrow> (string \<times> nat) list" where
  "unsent c = filter (\<lambda>(_, i). \<not> wt_sent (cl_heap c ! i)) (cl_waiters c)"

text \<open>
  \<open>resendWaiters\<close>: the list is made under the lock, in the order in which Go happens to iterate the
  map (\<open>order\<close>); then each request is sent and, under the lock again, its waiter marked, until a
  send fails.
\<close>

definition resend_snapshot :: "nat \<Rightarrow> (string \<times> nat) list \<Rightarrow> client \<Rightarrow> client" where
  "resend_snapshot k order c =
     (if k < length (cl_tasks c) \<and> cl_tasks c ! k = RsStart \<and> distinct order \<and> set order = set (unsent c) then
        c\<lparr>cl_tasks := (cl_tasks c)[k := (case cl_conn c of None \<Rightarrow> RsSending 0 [] | Some n \<Rightarrow> RsSending n order)]\<rparr>
      else c)"

definition resend_one :: "nat \<Rightarrow> bool \<Rightarrow> client \<Rightarrow> client" where
  "resend_one k ok c =
     (if k < length (cl_tasks c) then
        case cl_tasks c ! k of
          RsSending n ((rid, i) # rest) \<Rightarrow>
            if ok \<and> n \<in> set (cl_open c) then
              c\<lparr>cl_tasks := (cl_tasks c)[k := RsMark n i rest], cl_out := cl_out c @ [(n, request_of rid (cl_heap c ! i))]\<rparr>
            else c\<lparr>cl_tasks := (cl_tasks c)[k := RsSending n []]\<rparr>
        | _ \<Rightarrow> c
      else c)"

definition resend_mark :: "nat \<Rightarrow> client \<Rightarrow> client" where
  "resend_mark k c =
     (if k < length (cl_tasks c) then
        case cl_tasks c ! k of
          RsMark n i rest \<Rightarrow> (upd_waiter i (\<lambda>w. w\<lparr>wt_sent := True\<rparr>) c)\<lparr>cl_tasks := (cl_tasks c)[k := RsSending n rest]\<rparr>
        | _ \<Rightarrow> c
      else c)"

definition client_register :: "string \<Rightarrow> waiter \<Rightarrow> client \<Rightarrow> (client_error + nat) \<times> client" where
  "client_register rid w c =
     (if map_of (cl_waiters c) rid \<noteq> None then (Inl ErrOutstanding, c)
      else (Inr (length (cl_heap c)),
            c\<lparr>cl_heap := cl_heap c @ [w], cl_waiters := (rid, length (cl_heap c)) # cl_waiters c, cl_tasks := cl_tasks c @ [RsStart]\<rparr>))"

definition client_unregister :: "string \<Rightarrow> client \<Rightarrow> client" where
  "client_unregister rid c = c\<lparr>cl_waiters := filter (\<lambda>(r, _). r \<noteq> rid) (cl_waiters c)\<rparr>"

definition new_waiter :: "bytes \<Rightarrow> bool \<Rightarrow> waiter" where
  "new_waiter sealed claim = \<lparr>wt_published = [], wt_paired = [], wt_sealed = sealed, wt_claim = claim, wt_sent = False\<rparr>"

section \<open>Waiting for an answer\<close>

text \<open>
  \<open>await\<close> returns what the \<open>select\<close> picked; \<^const>\<open>None\<close> means that this branch is not ready.
\<close>

datatype wake = WakeMessage | WakeClosed | WakeCtx

definition await :: "wake \<Rightarrow> message list \<Rightarrow> client \<Rightarrow> (client_error + message) option" where
  "await wk ch c =
     (case wk of
        WakeMessage \<Rightarrow> (case ch of [] \<Rightarrow> None | m # _ \<Rightarrow> Some (Inr m))
      | WakeClosed \<Rightarrow> if cl_closed c then Some (Inl ErrClosed) else None
      | WakeCtx \<Rightarrow> Some (Inl ErrCtx))"

text \<open>\<open>Publish\<close> from its \<open>register\<close> on, and from its \<open>await\<close> on.\<close>

definition client_Publish :: "bytes \<Rightarrow> bytes \<Rightarrow> client \<Rightarrow> (client_error + nat) \<times> client" where
  "client_Publish rid sealed c = client_register (b64 rid) (new_waiter sealed False) c"

definition publish_answer :: "string \<Rightarrow> nat \<Rightarrow> wake \<Rightarrow> client \<Rightarrow> ((client_error + invite) \<times> client) option" where
  "publish_answer key i wk c =
     (case await wk (wt_published (cl_heap c ! i)) c of
        None \<Rightarrow> None
      | Some (Inl e) \<Rightarrow> Some (Inl e, client_unregister key c)
      | Some (Inr m) \<Rightarrow>
        let c1 = upd_waiter i (\<lambda>w. w\<lparr>wt_published := tl (wt_published w)\<rparr>) c
        in if mg_Type m = MsgError then Some (Inl (ErrRelay (mg_Reason m)), client_unregister key c1)
           else Some (Inr \<lparr>iv_rid = key, iv_waiter = i, iv_observed = mg_Observed m\<rparr>, c1))"

text \<open>\<open>time.Duration(ms) * time.Millisecond\<close> wraps at 64 bits.\<close>

definition punch_delay :: "int \<Rightarrow> int" where
  "punch_delay ms =
     (let d = sint (word_of_int ms * word_of_int millisecond :: 64 word)
      in if d < 0 \<or> d > 30 * second then 0 else d)"

definition toPairing ::
    "prims \<Rightarrow> json_cands \<Rightarrow> (string \<Rightarrow> ip option) \<Rightarrow> client \<Rightarrow> message \<Rightarrow> bytes \<Rightarrow> client_error + pairing" where
  "toPairing P J ParseIP c msg pairingKey =
     (case unb64 (mg_PeerCandidates msg) MaxSealedCandidates of Inl e \<Rightarrow> Inl (ErrMsg e)
      | Inr sealed \<Rightarrow>
        (case OpenCandidates P J ParseIP pairingKey sealed of Inl e \<Rightarrow> Inl (ErrCand e)
         | Inr cands \<Rightarrow>
           (case unb64 (mg_Ticket msg) TicketSize of Inl e \<Rightarrow> Inl (ErrMsg e)
            | Inr ticket \<Rightarrow>
              if length ticket \<noteq> TicketSize then Inl ErrMalformedTicket
              else Inr \<lparr>pr_Role = mg_Role msg, pr_PeerCandidates = cands, pr_PeerObserved = mg_PeerObserved msg,
                        pr_Observed = cl_observed c, pr_PunchIn = punch_delay (mg_PunchInMS msg), pr_Ticket = ticket,
                        pr_Rung = cl_rung c\<rparr>)))"

text \<open>The tails of \<open>Claim\<close> and of \<open>Invite.Wait\<close>; the deferred \<open>unregister\<close> runs whatever happens.\<close>

definition pairing_answer ::
    "prims \<Rightarrow> json_cands \<Rightarrow> (string \<Rightarrow> ip option) \<Rightarrow> string \<Rightarrow> nat \<Rightarrow> bytes \<Rightarrow> wake \<Rightarrow> client \<Rightarrow>
     ((client_error + pairing) \<times> client) option" where
  "pairing_answer P J ParseIP key i pairingKey wk c =
     (case await wk (wt_paired (cl_heap c ! i)) c of
        None \<Rightarrow> None
      | Some (Inl e) \<Rightarrow> Some (Inl e, client_unregister key c)
      | Some (Inr m) \<Rightarrow>
        let c1 = upd_waiter i (\<lambda>w. w\<lparr>wt_paired := tl (wt_paired w)\<rparr>) c
        in Some (if mg_Type m = MsgError then Inl (ErrRelay (mg_Reason m)) else toPairing P J ParseIP c1 m pairingKey,
                 client_unregister key c1))"

definition client_Claim :: "bytes \<Rightarrow> bytes \<Rightarrow> client \<Rightarrow> (client_error + nat) \<times> client" where
  "client_Claim rid sealed c = client_register (b64 rid) (new_waiter sealed True) c"

definition invite_Wait ::
    "prims \<Rightarrow> json_cands \<Rightarrow> (string \<Rightarrow> ip option) \<Rightarrow> invite \<Rightarrow> bytes \<Rightarrow> wake \<Rightarrow> client \<Rightarrow>
     ((client_error + pairing) \<times> client) option" where
  "invite_Wait P J ParseIP iv pairingKey wk c = pairing_answer P J ParseIP (iv_rid iv) (iv_waiter iv) pairingKey wk c"

definition invite_Cancel :: "invite \<Rightarrow> client \<Rightarrow> client" where
  "invite_Cancel iv c = client_unregister (iv_rid iv) c"

text \<open>\<open>Wait\<close>: which error, if the connection is not up; the context may expire at any time.\<close>

definition client_Wait :: "wake \<Rightarrow> client \<Rightarrow> (client_error + unit) option" where
  "client_Wait wk c =
     (case wk of
        WakeMessage \<Rightarrow> if cl_connected c then Some (Inr ()) else None
      | WakeClosed \<Rightarrow> if cl_closed c then Some (Inl ErrClosed) else None
      | WakeCtx \<Rightarrow> Some (Inl ErrCtx))"

section \<open>The supervisor\<close>

definition client_Close :: "client \<Rightarrow> client" where
  "client_Close c =
     (let c1 = c\<lparr>cl_closed := True, cl_conn := None\<rparr>
      in case cl_conn c of None \<Rightarrow> c1 | Some n \<Rightarrow> c1\<lparr>cl_open := removeAll n (cl_open c)\<rparr>)"

text \<open>The top of the loop.\<close>

definition sv_check :: "client \<Rightarrow> client" where
  "sv_check c =
     (case cl_phase c of
        SvCheck b \<Rightarrow> c\<lparr>cl_phase := (if cl_closed c then SvStopped else SvDialing b)\<rparr>
      | _ \<Rightarrow> c)"

definition sv_dial_failed :: "client \<Rightarrow> client" where
  "sv_dial_failed c = (case cl_phase c of SvDialing b \<Rightarrow> c\<lparr>cl_phase := SvBackoff b\<rparr> | _ \<Rightarrow> c)"

text \<open>The wait is over: because the client is closed, or because the timer fired.\<close>

definition sv_backoff :: "bool \<Rightarrow> client \<Rightarrow> client" where
  "sv_backoff timer c =
     (case cl_phase c of
        SvBackoff b \<Rightarrow>
          if timer then c\<lparr>cl_phase := SvCheck (if b * 2 > maxBackoff then maxBackoff else b * 2)\<rparr>
          else if cl_closed c then c\<lparr>cl_phase := SvStopped\<rparr> else c
      | _ \<Rightarrow> c)"

text \<open>The dial succeeded with a new connection \<open>n\<close>; \<open>resendWaiters\<close> begins.\<close>

definition sv_dialled :: "nat \<Rightarrow> Rung \<Rightarrow> client \<Rightarrow> client" where
  "sv_dialled n rung c =
     (case cl_phase c of
        SvDialing b \<Rightarrow>
          c\<lparr>cl_open := n # cl_open c, cl_conn := Some n, cl_rung := rung, cl_connected := True, cl_phase := SvResend n (length (cl_tasks c)),
            cl_tasks := cl_tasks c @ [RsStart]\<rparr>
      | _ \<Rightarrow> c)"

text \<open>\<open>readPump\<close> begins when the supervisor's own call of \<open>resendWaiters\<close> has returned.\<close>

definition sv_pump :: "client \<Rightarrow> client" where
  "sv_pump c =
     (case cl_phase c of
        SvResend n k \<Rightarrow>
          (if k < length (cl_tasks c) then
             case cl_tasks c ! k of RsSending _ [] \<Rightarrow> c\<lparr>cl_phase := SvConnected n\<rparr> | _ \<Rightarrow> c
           else c)
      | _ \<Rightarrow> c)"

text \<open>\<open>readPump\<close>: a message, or the end of the connection, which is then closed.\<close>

definition sv_recv :: "message \<Rightarrow> client \<Rightarrow> client" where
  "sv_recv msg c = (case cl_phase c of SvConnected n \<Rightarrow> dispatch msg c | _ \<Rightarrow> c)"

definition sv_lost :: "client \<Rightarrow> client" where
  "sv_lost c =
     (case cl_phase c of
        SvConnected n \<Rightarrow> c\<lparr>cl_open := removeAll n (cl_open c), cl_phase := SvLost n\<rparr>
      | _ \<Rightarrow> c)"

text \<open>The critical section at the end of the loop.\<close>

definition sv_reset :: "client \<Rightarrow> client" where
  "sv_reset c =
     (case cl_phase c of
        SvLost n \<Rightarrow>
          c\<lparr>cl_conn := None, cl_connected := False,
            cl_heap := fold (\<lambda>(_, i) h. h[i := (h ! i)\<lparr>wt_sent := False\<rparr>]) (cl_waiters c) (cl_heap c),
            cl_phase := SvCheck minBackoff\<rparr>
      | _ \<Rightarrow> c)"

datatype client_op =
    CoRegister string bytes bool
  | CoUnregister string
  | CoPublishAnswer string nat wake
  | CoPairingAnswer string nat wake
  | CoSnapshot nat "(string \<times> nat) list"
  | CoSend nat bool
  | CoMark nat
  | CoCheck
  | CoDialFailed
  | CoBackoff bool
  | CoDialled nat Rung
  | CoRecv message
  | CoPump
  | CoLost
  | CoReset
  | CoClose

text \<open>
  The state after \<open>pairing_answer\<close>, which does not depend on how the message is read; a waiter that
  does not exist and a connection number that is not new change nothing.
\<close>

definition take_pairing :: "string \<Rightarrow> nat \<Rightarrow> wake \<Rightarrow> client \<Rightarrow> client" where
  "take_pairing key i wk c =
     (case await wk (wt_paired (cl_heap c ! i)) c of
        None \<Rightarrow> c
      | Some (Inl e) \<Rightarrow> client_unregister key c
      | Some (Inr m) \<Rightarrow> client_unregister key (upd_waiter i (\<lambda>w. w\<lparr>wt_paired := tl (wt_paired w)\<rparr>) c))"

fun client_step :: "client_op \<Rightarrow> client \<Rightarrow> client" where
  "client_step (CoRegister rid sealed claim) c = snd (client_register rid (new_waiter sealed claim) c)"
| "client_step (CoUnregister rid) c = client_unregister rid c"
| "client_step (CoPublishAnswer key i wk) c =
     (if i < length (cl_heap c) then case publish_answer key i wk c of None \<Rightarrow> c | Some (_, c1) \<Rightarrow> c1 else c)"
| "client_step (CoPairingAnswer key i wk) c = (if i < length (cl_heap c) then take_pairing key i wk c else c)"
| "client_step (CoSnapshot k order) c = resend_snapshot k order c"
| "client_step (CoSend k ok) c = resend_one k ok c"
| "client_step (CoMark k) c = resend_mark k c"
| "client_step CoCheck c = sv_check c"
| "client_step CoDialFailed c = sv_dial_failed c"
| "client_step (CoBackoff timer) c = sv_backoff timer c"
| "client_step (CoDialled n rung) c = (if n \<in> set (cl_open c) then c else sv_dialled n rung c)"
| "client_step (CoRecv msg) c = sv_recv msg c"
| "client_step CoPump c = sv_pump c"
| "client_step CoLost c = sv_lost c"
| "client_step CoReset c = sv_reset c"
| "client_step CoClose c = client_Close c"

definition client_run :: "client_op list \<Rightarrow> client \<Rightarrow> client" where
  "client_run ops c = fold client_step ops c"

section \<open>Circuits\<close>

text \<open>
  \<open>OpenCircuit\<close> over the network and the WebSocket; \<open>E\<close> is the outside world of the new connection.
\<close>

definition OpenCircuit ::
    "net_env \<Rightarrow> ws_env \<Rightarrow> json_msg \<Rightarrow> endpoint \<Rightarrow> bytes \<Rightarrow> client \<Rightarrow> net_state \<Rightarrow> (client_error + link) \<times> net_state" where
  "OpenCircuit N E J ep ticket c st =
     (case DialRung N ep (cl_rung c) st of
        (Inl e, st1) \<Rightarrow> (Inl (ErrDial e), st1)
      | (Inr lk, st1) \<Rightarrow>
        (case ws_SendMessage E J ((msg_of MsgCircuit)\<lparr>mg_Ticket := b64 ticket\<rparr>) (lk_ws lk) of
           (Inl e, _) \<Rightarrow> (Inl (ErrWS e), tcp_close (lk_tcp lk) st1)
         | (Inr _, ws1) \<Rightarrow>
           (case ws_RecvMessage E J ws1 of
              (Inl e, _) \<Rightarrow> (Inl (ErrWS e), tcp_close (lk_tcp lk) st1)
            | (Inr msg, ws2) \<Rightarrow>
              if mg_Type msg = MsgCircuitOK then (Inr (lk\<lparr>lk_ws := ws2\<rparr>), st1)
              else if mg_Type msg = MsgError then (Inl (ErrRelay (mg_Reason msg)), tcp_close (lk_tcp lk) st1)
              else (Inl (ErrUnexpectedAnswer (mg_Type msg)), tcp_close (lk_tcp lk) st1))))"

end
