(* ===== verification/ClientProps.thy ===== *)
theory ClientProps
  imports Client "HOL-Library.Sublist"
begin

text \<open>
  What the rendezvous client promises: over every run of its goroutines, for every sequence of
  messages and failures.
\<close>

section \<open>The invariant\<close>

definition backoff_ok :: "int \<Rightarrow> bool" where
  "backoff_ok b \<longleftrightarrow> minBackoff \<le> b \<and> b \<le> maxBackoff"

text \<open>The waiters a call of \<open>resendWaiters\<close> still has to write to.\<close>

fun task_cells :: "resender \<Rightarrow> nat set" where
  "task_cells RsStart = {}"
| "task_cells (RsSending n l) = snd ` set l"
| "task_cells (RsMark n i l) = insert i (snd ` set l)"

text \<open>Waiters that are in the map or about to be sent exist; channels hold one message at most.\<close>

definition waiters_ok :: "client \<Rightarrow> bool" where
  "waiters_ok c \<longleftrightarrow> distinct (map fst (cl_waiters c)) \<and> (\<forall>p\<in>set (cl_waiters c). snd p < length (cl_heap c)) \<and>
     (\<forall>w\<in>set (cl_heap c). length (wt_published w) \<le> 1 \<and> length (wt_paired w) \<le> 1) \<and>
     (\<forall>t\<in>set (cl_tasks c). \<forall>i\<in>task_cells t. i < length (cl_heap c))"

text \<open>One control connection at most, and it is the one of the supervisor.\<close>

definition sup_ok :: "sv_phase \<Rightarrow> nat list \<Rightarrow> nat option \<Rightarrow> bool \<Rightarrow> bool" where
  "sup_ok ph opn conn up \<longleftrightarrow>
     (case ph of
        SvConnected n \<Rightarrow> opn = [] \<or> opn = [n]
      | SvResend n _ \<Rightarrow> opn = [] \<or> opn = [n]
      | SvLost n \<Rightarrow> opn = []
      | SvCheck b \<Rightarrow> backoff_ok b \<and> opn = []
      | SvDialing b \<Rightarrow> backoff_ok b \<and> opn = []
      | SvBackoff b \<Rightarrow> backoff_ok b \<and> opn = []
      | SvStopped \<Rightarrow> opn = []) \<and>
     (\<forall>n. conn = Some n \<longrightarrow> (ph = SvConnected n \<or> (\<exists>k. ph = SvResend n k)) \<and> opn = [n] \<or> ph = SvLost n) \<and>
     (up \<longleftrightarrow> (\<exists>n. ph = SvConnected n \<or> (\<exists>k. ph = SvResend n k) \<or> ph = SvLost n))"

abbreviation supervised :: "client \<Rightarrow> bool" where
  "supervised c \<equiv> sup_ok (cl_phase c) (cl_open c) (cl_conn c) (cl_connected c)"

definition client_inv :: "client \<Rightarrow> bool" where
  "client_inv c \<longleftrightarrow> waiters_ok c \<and> supervised c"

lemma backoff_start: "backoff_ok minBackoff"
  by (simp add: backoff_ok_def second_def)

lemma backoff_next: "backoff_ok b \<Longrightarrow> backoff_ok (if b * 2 > maxBackoff then maxBackoff else b * 2)"
  by (auto simp: backoff_ok_def second_def)

lemma length_upd [simp]: "length (cl_heap (upd_waiter i f c)) = length (cl_heap c)"
  by (simp add: upd_waiter_def)

lemma upd_keeps [simp]: "cl_waiters (upd_waiter i f c) = cl_waiters c" "cl_tasks (upd_waiter i f c) = cl_tasks c"
  "cl_phase (upd_waiter i f c) = cl_phase c" "cl_open (upd_waiter i f c) = cl_open c" "cl_conn (upd_waiter i f c) = cl_conn c"
  "cl_connected (upd_waiter i f c) = cl_connected c" "cl_closed (upd_waiter i f c) = cl_closed c" "cl_out (upd_waiter i f c) = cl_out c"
  "cl_rung (upd_waiter i f c) = cl_rung c" "cl_observed (upd_waiter i f c) = cl_observed c"
  by (simp_all add: upd_waiter_def)

lemma upd_heap: "cl_heap (upd_waiter i f c) = (cl_heap c)[i := f (cl_heap c ! i)]"
  by (simp add: upd_waiter_def)

text \<open>An update that keeps the channels short keeps the first part of the invariant.\<close>

definition keeps_short :: "(waiter \<Rightarrow> waiter) \<Rightarrow> bool" where
  "keeps_short f \<longleftrightarrow> (\<forall>w. length (wt_published w) \<le> 1 \<and> length (wt_paired w) \<le> 1 \<longrightarrow>
     length (wt_published (f w)) \<le> 1 \<and> length (wt_paired (f w)) \<le> 1)"

lemma waiters_upd:
  assumes "waiters_ok c" "keeps_short f" "i < length (cl_heap c)"
  shows "waiters_ok (upd_waiter i f c)"
proof -
  have "\<forall>w\<in>set ((cl_heap c)[i := f (cl_heap c ! i)]). length (wt_published w) \<le> 1 \<and> length (wt_paired w) \<le> 1"
  proof
    fix w assume w: "w \<in> set ((cl_heap c)[i := f (cl_heap c ! i)])"
    have "w \<in> insert (f (cl_heap c ! i)) (set (cl_heap c))" using w set_update_subset_insert by (rule subsetD [rotated])
    then show "length (wt_published w) \<le> 1 \<and> length (wt_paired w) \<le> 1"
      using assms nth_mem [OF assms(3)] unfolding waiters_ok_def keeps_short_def by blast
  qed
  then show ?thesis using assms(1) by (simp add: waiters_ok_def upd_heap)
qed

lemma keeps_short_intros:
  "keeps_short (\<lambda>w. w\<lparr>wt_published := offer m (wt_published w)\<rparr>)" "keeps_short (\<lambda>w. w\<lparr>wt_paired := offer m (wt_paired w)\<rparr>)"
  "keeps_short (\<lambda>w. w\<lparr>wt_published := offer m (wt_published w), wt_paired := offer m (wt_paired w)\<rparr>)"
  "keeps_short (\<lambda>w. w\<lparr>wt_published := tl (wt_published w)\<rparr>)" "keeps_short (\<lambda>w. w\<lparr>wt_paired := tl (wt_paired w)\<rparr>)"
  "keeps_short (\<lambda>w. w\<lparr>wt_sent := b\<rparr>)"
  by (auto simp: keeps_short_def offer_def)

lemma waiters_field: "waiters_ok c \<Longrightarrow> cl_waiters d = cl_waiters c \<Longrightarrow> cl_heap d = cl_heap c \<Longrightarrow> cl_tasks d = cl_tasks c \<Longrightarrow> waiters_ok d"
  by (simp add: waiters_ok_def)

lemma waiter_index: "waiters_ok c \<Longrightarrow> map_of (cl_waiters c) rid = Some i \<Longrightarrow> i < length (cl_heap c)"
  using map_of_SomeD [of "cl_waiters c" rid i] by (fastforce simp: waiters_ok_def)

lemma unregister_ok: "client_inv c \<Longrightarrow> client_inv (client_unregister rid c)"
  by (auto simp: client_inv_def waiters_ok_def client_unregister_def distinct_map_filter)

lemma upd_ok: "client_inv c \<Longrightarrow> keeps_short f \<Longrightarrow> i < length (cl_heap c) \<Longrightarrow> client_inv (upd_waiter i f c)"
  using waiters_upd by (simp add: client_inv_def)

section \<open>The steps\<close>

lemma dispatch_ok:
  assumes "client_inv c"
  shows "client_inv (dispatch msg c)"
proof -
  have to: "client_inv (case map_of (cl_waiters d) (mg_RendezvousID msg) of None \<Rightarrow> d | Some i \<Rightarrow> upd_waiter i f d)"
    if "client_inv d" "keeps_short f" for d f
    using that upd_ok waiter_index by (auto simp: client_inv_def split: option.split)
  have "client_inv (if mg_Observed msg \<noteq> [] then c\<lparr>cl_observed := mg_Observed msg\<rparr> else c)"
    using assms waiters_field by (auto simp: client_inv_def)
  then show ?thesis using assms to keeps_short_intros by (simp add: dispatch_def Let_def)
qed

lemma register_ok: "client_inv c \<Longrightarrow> client_inv (snd (client_register rid (new_waiter sealed claim) c))"
  by (auto simp: client_inv_def waiters_ok_def client_register_def new_waiter_def map_of_eq_None_iff less_SucI)

lemma tasks_update:
  assumes "waiters_ok c" "k < length (cl_tasks c)" "\<forall>i\<in>task_cells t. i < length (cl_heap c)"
  shows "waiters_ok (c\<lparr>cl_tasks := (cl_tasks c)[k := t]\<rparr>)"
  using assms set_update_subset_insert [of "cl_tasks c" k t] by (auto simp: waiters_ok_def)

lemma task_range:
  assumes "client_inv c" "k < length (cl_tasks c)" "i \<in> task_cells (cl_tasks c ! k)"
  shows "i < length (cl_heap c)"
  using assms nth_mem [OF assms(2)] by (auto simp: client_inv_def waiters_ok_def)

lemma snapshot_ok: "client_inv c \<Longrightarrow> client_inv (resend_snapshot k order c)"
proof -
  assume inv: "client_inv c"
  show ?thesis
  proof (cases "k < length (cl_tasks c) \<and> cl_tasks c ! k = RsStart \<and> distinct order \<and> set order = set (unsent c)")
    case True
    let ?t = "case cl_conn c of None \<Rightarrow> RsSending 0 [] | Some n \<Rightarrow> RsSending n order"
    have "\<forall>p\<in>set order. snd p < length (cl_heap c)" using True inv by (auto simp: unsent_def client_inv_def waiters_ok_def)
    then have "waiters_ok (c\<lparr>cl_tasks := (cl_tasks c)[k := ?t]\<rparr>)"
      using inv True by (intro tasks_update) (auto simp: client_inv_def split: option.splits)
    then show ?thesis using inv True by (simp add: resend_snapshot_def client_inv_def)
  qed (use inv in \<open>auto simp: resend_snapshot_def\<close>)
qed

lemma send_ok:
  assumes inv: "client_inv c"
  shows "client_inv (resend_one k ok c)"
proof (cases "k < length (cl_tasks c) \<and> (\<exists>n rid i rest. cl_tasks c ! k = RsSending n ((rid, i) # rest))")
  case True
  then obtain n rid i rest where t: "k < length (cl_tasks c)" "cl_tasks c ! k = RsSending n ((rid, i) # rest)" by blast
  have "waiters_ok (c\<lparr>cl_tasks := (cl_tasks c)[k := RsMark n i rest]\<rparr>)" "waiters_ok (c\<lparr>cl_tasks := (cl_tasks c)[k := RsSending n []]\<rparr>)"
    using inv t task_range [OF inv t(1)] by (auto simp: client_inv_def intro!: tasks_update)
  then show ?thesis using t inv by (simp add: resend_one_def client_inv_def waiters_ok_def)
next
  case False
  then have "resend_one k ok c = c" by (auto simp: resend_one_def split: resender.split list.split)
  then show ?thesis using inv by simp
qed

lemma mark_ok:
  assumes inv: "client_inv c"
  shows "client_inv (resend_mark k c)"
proof (cases "k < length (cl_tasks c) \<and> (\<exists>n i rest. cl_tasks c ! k = RsMark n i rest)")
  case True
  then obtain n i rest where t: "k < length (cl_tasks c)" "cl_tasks c ! k = RsMark n i rest" by blast
  let ?d = "upd_waiter i (\<lambda>w. w\<lparr>wt_sent := True\<rparr>) c"
  have range: "j < length (cl_heap c)" if "j = i \<or> j \<in> snd ` set rest" for j
    using task_range [OF inv t(1), of j] t(2) that by auto
  have d: "client_inv ?d" using range by (intro upd_ok [OF inv keeps_short_intros(6)]) simp
  then have "waiters_ok (?d\<lparr>cl_tasks := (cl_tasks ?d)[k := RsSending n rest]\<rparr>)"
    using t range by (intro tasks_update) (auto simp: client_inv_def)
  then show ?thesis using t d by (simp add: resend_mark_def client_inv_def)
next
  case False
  then have "resend_mark k c = c" by (auto simp: resend_mark_def split: resender.split)
  then show ?thesis using inv by simp
qed

lemma lost_heap:
  assumes "\<forall>w\<in>set h. length (wt_published w) \<le> 1 \<and> length (wt_paired w) \<le> 1" "\<forall>p\<in>set l. snd p < length h"
  shows "length (fold (\<lambda>(_, i) h. h[i := (h ! i)\<lparr>wt_sent := False\<rparr>]) l h) = length h \<and>
    (\<forall>w\<in>set (fold (\<lambda>(_, i) h. h[i := (h ! i)\<lparr>wt_sent := False\<rparr>]) l h). length (wt_published w) \<le> 1 \<and> length (wt_paired w) \<le> 1)"
  using assms
proof (induction l arbitrary: h)
  case (Cons p l)
  obtain r i where p: "p = (r, i)" by fastforce
  let ?h = "h[i := (h ! i)\<lparr>wt_sent := False\<rparr>]"
  have "\<forall>w\<in>set ?h. length (wt_published w) \<le> 1 \<and> length (wt_paired w) \<le> 1"
    using Cons.prems set_update_subset_insert [of h i "(h ! i)\<lparr>wt_sent := False\<rparr>"] nth_mem [of i h] p by fastforce
  then show ?case using Cons.IH [of ?h] Cons.prems(2) p by simp
qed simp

lemma reset_ok: "client_inv c \<Longrightarrow> client_inv (sv_reset c)"
proof -
  assume inv: "client_inv c"
  let ?h = "fold (\<lambda>(_, i) h. h[i := (h ! i)\<lparr>wt_sent := False\<rparr>]) (cl_waiters c) (cl_heap c)"
  have "length ?h = length (cl_heap c) \<and> (\<forall>w\<in>set ?h. length (wt_published w) \<le> 1 \<and> length (wt_paired w) \<le> 1)"
    by (rule lost_heap) (use inv in \<open>simp_all add: client_inv_def waiters_ok_def\<close>)
  then show ?thesis using inv backoff_start
    by (cases "cl_phase c") (auto simp: sv_reset_def client_inv_def waiters_ok_def sup_ok_def)
qed

lemma supervisor_ok:
  assumes "client_inv c"
  shows "client_inv (sv_check c)" "client_inv (sv_dial_failed c)" "client_inv (sv_backoff timer c)"
    and "n \<notin> set (cl_open c) \<Longrightarrow> client_inv (sv_dialled n rung c)" "client_inv (client_Close c)"
    and "client_inv (sv_pump c)" "client_inv (sv_lost c)"
proof -
  show "client_inv (sv_check c)" "client_inv (sv_dial_failed c)"
    using assms by (cases "cl_phase c"; auto simp: sv_check_def sv_dial_failed_def client_inv_def waiters_ok_def sup_ok_def)+
  show "client_inv (sv_backoff timer c)"
    using assms backoff_next by (cases "cl_phase c") (auto simp: sv_backoff_def client_inv_def waiters_ok_def sup_ok_def)
  show "client_inv (sv_dialled n rung c)" if "n \<notin> set (cl_open c)"
    using assms that by (cases "cl_phase c") (auto simp: sv_dialled_def client_inv_def waiters_ok_def sup_ok_def)
  show "client_inv (sv_pump c)" "client_inv (sv_lost c)"
    using assms by (cases "cl_phase c"; auto simp: sv_pump_def sv_lost_def client_inv_def waiters_ok_def sup_ok_def
        split: resender.split list.split)+
  show "client_inv (client_Close c)"
    using assms by (cases "cl_conn c"; cases "cl_phase c") (auto simp: client_Close_def client_inv_def waiters_ok_def sup_ok_def Let_def)
qed

lemma answer_ok:
  assumes "client_inv c" "i < length (cl_heap c)"
  shows "publish_answer key i wk c = Some (r, c1) \<Longrightarrow> client_inv c1" "client_inv (take_pairing key i wk c)"
proof -
  have u: "client_inv (upd_waiter i (\<lambda>w. w\<lparr>wt_published := tl (wt_published w)\<rparr>) c)"
    "client_inv (upd_waiter i (\<lambda>w. w\<lparr>wt_paired := tl (wt_paired w)\<rparr>) c)"
    by (rule upd_ok [OF assms(1) _ assms(2)], rule keeps_short_intros)+
  show "client_inv c1" if "publish_answer key i wk c = Some (r, c1)"
    using that assms u unregister_ok by (auto simp: publish_answer_def Let_def split: option.splits sum.splits if_splits)
  show "client_inv (take_pairing key i wk c)"
    using assms u unregister_ok by (simp add: take_pairing_def split: option.split sum.split)
qed

lemma client_step_ok: "client_inv c \<Longrightarrow> client_inv (client_step x c)"
proof (cases x)
  case (CoPublishAnswer key i wk)
  assume "client_inv c"
  then show ?thesis using CoPublishAnswer answer_ok(1) by (auto split: option.split)
next
  case (CoRecv msg)
  assume "client_inv c"
  then show ?thesis using CoRecv dispatch_ok by (simp add: sv_recv_def split: sv_phase.split)
qed (simp_all add: register_ok unregister_ok snapshot_ok send_ok mark_ok supervisor_ok reset_ok answer_ok(2))

interpretation client_sys: op_system client_step client_inv
  by unfold_locales (rule client_step_ok)

lemma client_start: "client_inv NewClient"
  using backoff_start by (simp add: client_inv_def waiters_ok_def sup_ok_def NewClient_def)

lemma client_run_inv: "client_inv (client_run ops NewClient)"
  unfolding client_run_def by (rule client_sys.run_inv [OF client_start])


section \<open>Properties\<close>

text \<open>
  C35: the control connection is supervised. Over every run of the client's goroutines there is at most
  one control connection open, no code is outstanding twice, every answer channel holds one
  message at most, and the delay before a new dial is between one and thirty seconds.
\<close>

theorem client_supervised:
  "let c = client_run ops NewClient in
     length (cl_open c) \<le> 1 \<and> distinct (map fst (cl_waiters c)) \<and>
     list_all (\<lambda>w. length (wt_published w) \<le> 1 \<and> length (wt_paired w) \<le> 1) (cl_heap c) \<and>
     (case cl_phase c of SvBackoff b \<Rightarrow> 1 * second \<le> b \<and> b \<le> 30 * second | _ \<Rightarrow> True)"
proof -
  have "client_inv (client_run ops NewClient)" by (rule client_run_inv)
  then show ?thesis
    by (cases "cl_phase (client_run ops NewClient)")
      (auto simp: Let_def client_inv_def waiters_ok_def sup_ok_def list_all_iff backoff_ok_def)
qed

text \<open>Requests do not depend on whether they were sent.\<close>

lemma request_sent: "request_of rid ((h[j := (h ! j)\<lparr>wt_sent := b\<rparr>]) ! i) = request_of rid (h ! i)"
  by (cases "i = j"; cases "i < length h") (auto simp: request_of_def list_update_beyond)

lemma lost_requests:
  "request_of rid (fold (\<lambda>(_, i) h. h[i := (h ! i)\<lparr>wt_sent := False\<rparr>]) l h ! j) = request_of rid (h ! j)"
proof (induction l arbitrary: h)
  case (Cons p l)
  obtain r i where p: "p = (r, i)" by fastforce
  show ?case using Cons.IH [of "h[i := (h ! i)\<lparr>wt_sent := False\<rparr>]"] request_sent by (simp add: p)
qed simp

lemma lost_unsent:
  assumes "\<forall>p\<in>set l. snd p < length h" "j \<in> snd ` set l \<or> \<not> wt_sent (h ! j)"
  shows "\<not> wt_sent (fold (\<lambda>(_, i) h. h[i := (h ! i)\<lparr>wt_sent := False\<rparr>]) l h ! j)"
  using assms
proof (induction l arbitrary: h)
  case (Cons p l)
  obtain r i where p: "p = (r, i)" by fastforce
  show ?case using Cons.IH [of "h[i := (h ! i)\<lparr>wt_sent := False\<rparr>]"] Cons.prems by (cases "i = j") (auto simp: p)
qed simp

text \<open>Requests of known waiters and messages that were written stay as they are.\<close>

definition carries :: "client \<Rightarrow> client \<Rightarrow> bool" where
  "carries c d \<longleftrightarrow> length (cl_heap c) \<le> length (cl_heap d) \<and> set (cl_out c) \<subseteq> set (cl_out d) \<and>
     (\<forall>i < length (cl_heap c). \<forall>rid. request_of rid (cl_heap d ! i) = request_of rid (cl_heap c ! i))"

lemma carries_upd:
  assumes "\<And>w. wt_sealed (f w) = wt_sealed w \<and> wt_claim (f w) = wt_claim w"
  shows "carries c (upd_waiter j f c)"
proof -
  have "request_of rid ((cl_heap c)[j := f (cl_heap c ! j)] ! i) = request_of rid (cl_heap c ! i)" if "i < length (cl_heap c)" for i rid
    using that assms by (cases "i = j") (simp_all add: request_of_def)
  then show ?thesis by (simp add: carries_def upd_heap)
qed

lemma carries_same: "cl_heap d = cl_heap c \<Longrightarrow> set (cl_out c) \<subseteq> set (cl_out d) \<Longrightarrow> carries c d"
  by (simp add: carries_def)

lemma carries_then: "carries c d \<Longrightarrow> cl_heap e = cl_heap d \<Longrightarrow> cl_out e = cl_out d \<Longrightarrow> carries c e"
  by (simp add: carries_def)

lemma lost_length: "length (fold (\<lambda>(_, i) h. h[i := (h ! i)\<lparr>wt_sent := False\<rparr>]) l h) = length h"
  by (induction l arbitrary: h) auto

lemma carries_step: "carries c (client_step x c)"
proof (cases x)
  case (CoRegister rid sealed claim)
  then show ?thesis by (auto simp: carries_def client_register_def nth_append)
next
  case (CoPublishAnswer key i wk)
  have "carries c (upd_waiter i (\<lambda>w. w\<lparr>wt_published := tl (wt_published w)\<rparr>) c)" by (rule carries_upd) simp
  with CoPublishAnswer show ?thesis
    by (auto simp: publish_answer_def client_unregister_def Let_def intro: carries_same carries_then split: option.split sum.split)
next
  case (CoPairingAnswer key i wk)
  have "carries c (upd_waiter i (\<lambda>w. w\<lparr>wt_paired := tl (wt_paired w)\<rparr>) c)" by (rule carries_upd) simp
  with CoPairingAnswer show ?thesis
    by (auto simp: take_pairing_def client_unregister_def intro: carries_same carries_then split: option.split sum.split)
next
  case (CoMark k)
  have "carries c ((upd_waiter i (\<lambda>w. w\<lparr>wt_sent := True\<rparr>) c)\<lparr>cl_tasks := ts\<rparr>)" for i ts
    by (rule carries_then [OF carries_upd]) simp_all
  with CoMark show ?thesis by (auto simp: resend_mark_def intro: carries_same split: resender.split)
next
  case (CoRecv msg)
  have u: "carries c (upd_waiter i f d)" if "cl_heap d = cl_heap c" "cl_out d = cl_out c"
    "\<And>w. wt_sealed (f w) = wt_sealed w \<and> wt_claim (f w) = wt_claim w" for i f d
    using carries_upd [of f d i] that by (simp add: carries_def)
  show ?thesis unfolding CoRecv
    by (auto simp: sv_recv_def dispatch_def Let_def intro!: u intro: carries_same split: sv_phase.split option.split)
next
  case CoReset
  then show ?thesis using lost_requests by (auto simp: carries_def sv_reset_def lost_length split: sv_phase.split)
qed (rule carries_same; auto simp: client_unregister_def resend_snapshot_def resend_one_def sv_pump_def sv_lost_def sv_check_def
    sv_dial_failed_def sv_backoff_def sv_dialled_def client_Close_def Let_def split: sv_phase.split option.split resender.split list.split)+

interpretation carried: op_relation client_step "\<lambda>_. True" carries
proof unfold_locales
  fix c d e :: client and x
  show "carries c c" by (simp add: carries_same)
  show "carries c e" if "carries c d" "carries d e" using that unfolding carries_def by (auto dest: less_le_trans)
  show "carries c (client_step x c)" by (rule carries_step)
qed

text \<open>
  The supervisor's call number \<open>k\<close> of \<open>resendWaiters\<close> on connection \<open>n\<close> is under way; what the others do does
  not disturb it. The connection can not be lost meanwhile, since \<open>readPump\<close> has not begun.
\<close>

definition calling :: "nat \<Rightarrow> nat \<Rightarrow> resender \<Rightarrow> client \<Rightarrow> bool" where
  "calling n k t c \<longleftrightarrow> cl_phase c = SvResend n k \<and> n \<in> set (cl_open c) \<and> k < length (cl_tasks c) \<and> cl_tasks c ! k = t"

lemma calling_others:
  assumes "calling n k t c" and t: "t \<noteq> RsStart" "\<And>m. t \<noteq> RsSending m []"
    and "x \<noteq> CoSend k True" "x \<noteq> CoSend k False" "x \<noteq> CoMark k" "x \<noteq> CoClose"
  shows "calling n k t (client_step x c)"
proof (cases x)
  case (CoSend j ok)
  then have "j \<noteq> k" using assms(4,5) by (cases ok) auto
  then show ?thesis using CoSend assms(1) by (auto simp: calling_def resend_one_def split: resender.split list.split)
next
  case (CoSnapshot j order)
  then show ?thesis using assms(1) t(1) by (cases "j = k") (auto simp: calling_def resend_snapshot_def)
qed (use assms in \<open>auto simp: calling_def client_register_def client_unregister_def publish_answer_def take_pairing_def resend_snapshot_def
    resend_mark_def sv_pump_def sv_lost_def sv_reset_def sv_check_def sv_dial_failed_def sv_backoff_def sv_dialled_def sv_recv_def
    dispatch_def nth_append Let_def split: option.split sum.split resender.split list.split\<close>)

text \<open>A call whose sends succeed writes every request of its list.\<close>

definition resend_ops :: "nat \<Rightarrow> nat \<Rightarrow> client_op list" where
  "resend_ops k m = concat (replicate m [CoSend k True, CoMark k])"

text \<open>What the call at point \<open>t\<close> with the list \<open>l\<close> before it still has to do is among the later operations.\<close>

definition owes :: "nat \<Rightarrow> nat \<Rightarrow> (string \<times> nat) list \<Rightarrow> resender \<Rightarrow> client_op list \<Rightarrow> bool" where
  "owes n k l t later \<longleftrightarrow> t = RsSending n l \<and> subseq (resend_ops k (length l)) later \<or>
     (\<exists>i. t = RsMark n i l \<and> subseq (CoMark k # resend_ops k (length l)) later)"

lemma call_step:
  assumes call: "calling n k t c" and owes: "owes n k l t (x # later)" and x: "x \<noteq> CoSend k False" "x \<noteq> CoClose" and l: "l = (r, j) # rest"
  shows "\<exists>t' l'. calling n k t' (client_step x c) \<and> owes n k l' t' later \<and>
    (l' = l \<or> l' = rest \<and> (n, request_of r (cl_heap c ! j)) \<in> set (cl_out (client_step x c)))"
proof (cases "x = CoSend k True \<or> x = CoMark k")
  case False
  have "calling n k t (client_step x c)"
    by (rule calling_others [OF call]) (use owes l False x in \<open>auto simp: owes_def\<close>)
  moreover have "owes n k l t later" using owes False by (auto simp: owes_def l resend_ops_def)
  ultimately show ?thesis by blast
next
  case True
  show ?thesis
  proof (cases "t = RsSending n l")
    case sending: True
    show ?thesis
    proof (cases "x = CoMark k")
      case True
      have "client_step x c = c" using call sending True by (simp add: calling_def resend_mark_def)
      moreover have "owes n k l t later" using owes sending True by (auto simp: owes_def l resend_ops_def)
      ultimately show ?thesis using call by auto
    next
      case False
      then have "client_step x c = c\<lparr>cl_tasks := (cl_tasks c)[k := RsMark n j rest], cl_out := cl_out c @ [(n, request_of r (cl_heap c ! j))]\<rparr>"
        using call sending True by (simp add: calling_def resend_one_def l)
      moreover have "owes n k rest (RsMark n j rest) later"
        using owes sending False True by (auto simp: owes_def l resend_ops_def)
      ultimately show ?thesis using call by (intro exI [of _ "RsMark n j rest"] exI [of _ rest]) (simp add: calling_def)
    qed
  next
    case marking: False
    then obtain w where w: "t = RsMark n w l" "subseq (CoMark k # resend_ops k (length l)) (x # later)" using owes by (auto simp: owes_def)
    show ?thesis
    proof (cases "x = CoMark k")
      case True
      have "calling n k (RsSending n l) (client_step x c)" using call w(1) True by (simp add: calling_def resend_mark_def)
      moreover have "owes n k l (RsSending n l) later" using w(2) True by (simp add: owes_def)
      ultimately show ?thesis by blast
    next
      case False
      have "client_step x c = c" using True False call w(1) by (simp add: calling_def resend_one_def)
      moreover have "owes n k l t later" using w False by (auto simp: owes_def)
      ultimately show ?thesis using call by auto
    qed
  qed
qed

lemma call_writes:
  assumes "calling n k t c" "owes n k l t later" "list_all (\<lambda>x. x \<noteq> CoSend k False \<and> x \<noteq> CoClose) later"
    and "\<forall>p\<in>set l. snd p < length (cl_heap c)" "(rid, i) \<in> set l"
  shows "(n, request_of rid (cl_heap c ! i)) \<in> set (cl_out (client_run later c))"
  using assms
proof (induction later arbitrary: c t l)
  case Nil
  then show ?case by (cases l) (auto simp: owes_def resend_ops_def)
next
  case (Cons x later)
  let ?c = "client_step x c"
  have eq: "request_of rid (cl_heap ?c ! i) = request_of rid (cl_heap c ! i)" and len: "length (cl_heap c) \<le> length (cl_heap ?c)"
    using carries_step [of c x] Cons.prems(4,5) by (auto simp: carries_def)
  have run: "client_run (x # later) c = client_run later ?c" by (simp add: client_run_def)
  obtain r j rest where l: "l = (r, j) # rest" using Cons.prems(5) by (cases l) auto
  obtain t' l' where t': "calling n k t' ?c" "owes n k l' t' later"
    "l' = l \<or> l' = rest \<and> (n, request_of r (cl_heap c ! j)) \<in> set (cl_out ?c)"
    using call_step [OF Cons.prems(1,2) _ _ l] Cons.prems(3) by auto
  show ?case
  proof (cases "(rid, i) \<in> set l'")
    case True
    have "set l' \<subseteq> set l" using t'(3) l by auto
    then have "\<forall>p\<in>set l'. snd p < length (cl_heap ?c)" using Cons.prems(4) len by (meson less_le_trans subsetD)
    from Cons.IH [OF t'(1,2) _ this True] Cons.prems(3) show ?thesis by (simp add: eq run)
  next
    case False
    then have "(n, request_of rid (cl_heap c ! i)) \<in> set (cl_out ?c)" using t'(3) Cons.prems(5) l by auto
    moreover have "carries ?c (client_run later ?c)" using carried.run_rel by (simp add: client_run_def)
    ultimately show ?thesis using run by (auto simp: carries_def)
  qed
qed

text \<open>Only a mark makes an outstanding waiter sent.\<close>

definition all_unsent :: "client \<Rightarrow> bool" where
  "all_unsent c \<longleftrightarrow> (\<forall>p\<in>set (cl_waiters c). \<not> wt_sent (cl_heap c ! snd p))"

lemma all_unsent_upd: "(\<And>w. wt_sent (f w) = wt_sent w) \<Longrightarrow> all_unsent c \<Longrightarrow> all_unsent (upd_waiter i f c)"
proof -
  assume f: "\<And>w. wt_sent (f w) = wt_sent w" and "all_unsent c"
  moreover have "wt_sent ((cl_heap c)[i := f (cl_heap c ! i)] ! j) = wt_sent (cl_heap c ! j)" for j
    using f by (cases "i = j"; cases "i < length (cl_heap c)") (simp_all add: list_update_beyond)
  ultimately show "all_unsent (upd_waiter i f c)" by (simp add: all_unsent_def upd_heap)
qed

lemma all_unsent_fields: "all_unsent c \<Longrightarrow> set (cl_waiters d) \<subseteq> set (cl_waiters c) \<Longrightarrow> cl_heap d = cl_heap c \<Longrightarrow> all_unsent d"
  by (auto simp: all_unsent_def)

lemma all_unsent_step:
  assumes "client_inv c" "all_unsent c" "\<And>k. x \<noteq> CoMark k"
  shows "all_unsent (client_step x c)"
proof (cases x)
  case (CoRegister rid sealed claim)
  then show ?thesis using assms(1,2)
    by (auto simp: all_unsent_def client_register_def new_waiter_def nth_append client_inv_def waiters_ok_def)
next
  case (CoPublishAnswer key i wk)
  have "all_unsent (upd_waiter i (\<lambda>w. w\<lparr>wt_published := tl (wt_published w)\<rparr>) c)" by (rule all_unsent_upd) (use assms(2) in simp_all)
  with CoPublishAnswer assms(2) show ?thesis
    by (auto simp: publish_answer_def client_unregister_def Let_def all_unsent_def split: option.split sum.split)
next
  case (CoPairingAnswer key i wk)
  have "all_unsent (upd_waiter i (\<lambda>w. w\<lparr>wt_paired := tl (wt_paired w)\<rparr>) c)" by (rule all_unsent_upd) (use assms(2) in simp_all)
  with CoPairingAnswer assms(2) show ?thesis
    by (auto simp: take_pairing_def client_unregister_def all_unsent_def split: option.split sum.split)
next
  case (CoRecv msg)
  have "all_unsent (c\<lparr>cl_observed := v\<rparr>)" for v using assms(2) by (simp add: all_unsent_def)
  with assms(2) show ?thesis unfolding CoRecv
    by (auto simp: sv_recv_def dispatch_def Let_def intro!: all_unsent_upd split: sv_phase.split option.split)
next
  case CoReset
  have "\<not> wt_sent (fold (\<lambda>(_, i) h. h[i := (h ! i)\<lparr>wt_sent := False\<rparr>]) (cl_waiters c) (cl_heap c) ! snd p)" if "p \<in> set (cl_waiters c)" for p
    using lost_unsent [of "cl_waiters c" "cl_heap c" "snd p"] assms(1) that by (auto simp: client_inv_def waiters_ok_def)
  with CoReset assms(2) show ?thesis by (auto simp: sv_reset_def all_unsent_def split: sv_phase.split)
qed (rule all_unsent_fields [OF assms(2)]; use assms(3) in \<open>auto simp: client_unregister_def resend_snapshot_def resend_one_def sv_pump_def sv_lost_def sv_check_def
    sv_dial_failed_def sv_backoff_def sv_dialled_def client_Close_def Let_def split: sv_phase.split option.split resender.split list.split\<close>)+

lemma all_unsent_run:
  "client_inv c \<Longrightarrow> all_unsent c \<Longrightarrow> list_all (\<lambda>x. \<forall>k. x \<noteq> CoMark k) ops \<Longrightarrow> all_unsent (client_run ops c)"
proof (induction ops arbitrary: c)
  case (Cons x ops)
  then show ?case using Cons.IH [of "client_step x c"] all_unsent_step [of c x] client_step_ok [of c x] by (simp add: client_run_def)
qed (simp add: client_run_def)

text \<open>
  C36: outstanding codes survive a lost connection. In any run, let the supervisor be past a lost
  connection. It clears the marks; then anything may happen (failed dials, pauses, new codes,
  cancellations, answers, other callers of \<open>resendWaiters\<close>) except that a caller of \<open>resendWaiters\<close> marks a
  waiter, until the supervisor has a new connection and its own call of \<open>resendWaiters\<close> takes its list, in
  whatever order the map is iterated. When this call has made its sends, interleaved with anything but a
  failing send of its own or \<open>Close\<close>, the request of every code and claim that was outstanding at the list
  has been sent on the new connection. What a mark in between can do is shown below.
\<close>

theorem outstanding_codes_resent:
  assumes "c = client_run ops NewClient" and "cl_phase c = SvLost n"
    and "list_all (\<lambda>x. \<forall>j. x \<noteq> CoMark j) mid" and "d = client_run (CoReset # mid) c"
    and "cl_phase d = SvResend n' k" "cl_conn d = Some n'" "k < length (cl_tasks d)" "cl_tasks d ! k = RsStart"
    and "distinct order" "set order = set (unsent d)"
    and "subseq (resend_ops k (length order)) later" and "list_all (\<lambda>x. x \<noteq> CoSend k False \<and> x \<noteq> CoClose) later"
  shows "\<forall>rid i. map_of (cl_waiters d) rid = Some i \<longrightarrow>
    (n', request_of rid (cl_heap d ! i)) \<in> set (cl_out (client_run (CoSnapshot k order # later) d))"
proof (intro allI impI)
  fix rid i assume m: "map_of (cl_waiters d) rid = Some i"
  have inv: "client_inv c" using client_run_inv [of ops] assms(1) by simp
  have dinv: "client_inv d" using client_run_inv [of "ops @ CoReset # mid"] assms(1,4) by (simp add: client_run_def)
  have "all_unsent (client_step CoReset c)"
    using lost_unsent [of "cl_waiters c" "cl_heap c"] inv assms(2) by (auto simp: sv_reset_def all_unsent_def client_inv_def waiters_ok_def)
  then have "all_unsent d" using all_unsent_run [OF client_step_ok [OF inv, of CoReset] _ assms(3)] assms(4) by (simp add: client_run_def)
  then have mem: "(rid, i) \<in> set order" using map_of_SomeD [OF m] assms(10) by (auto simp: all_unsent_def unsent_def)
  have snap: "resend_snapshot k order d = d\<lparr>cl_tasks := (cl_tasks d)[k := RsSending n' order]\<rparr>"
    using assms(6-10) by (simp add: resend_snapshot_def)
  have "cl_open d = [n']" using dinv assms(5,6) by (auto simp: client_inv_def sup_ok_def)
  then have call: "calling n' k (RsSending n' order) (resend_snapshot k order d)" using assms(5,7) by (simp add: calling_def snap)
  have "\<forall>p\<in>set order. snd p < length (cl_heap (resend_snapshot k order d))"
    using dinv assms(10) by (auto simp: snap unsent_def client_inv_def waiters_ok_def)
  from call_writes [OF call _ assms(12) this mem] assms(11)
  show "(n', request_of rid (cl_heap d ! i)) \<in> set (cl_out (client_run (CoSnapshot k order # later) d))"
    by (simp add: client_run_def snap owes_def)
qed

text \<open>A client that is connected and has just registered a code.\<close>

definition demo_client :: client where
  "demo_client = client_run [CoCheck, CoDialled 0 RungTLSDirect, CoSnapshot 0 [], CoPump, CoRegister ''code'' [7] False] NewClient"

lemmas client_defs = client_run_def NewClient_def sv_check_def sv_dialled_def sv_pump_def sv_lost_def sv_reset_def client_register_def
  resend_snapshot_def resend_one_def resend_mark_def unsent_def upd_waiter_def new_waiter_def resend_ops_def

lemma demo_client_values:
  "cl_phase demo_client = SvConnected 0" "\<not> cl_closed demo_client" "cl_waiters demo_client = [(''code'', 0)]"
  "cl_heap demo_client = [new_waiter [7] False]" "length (cl_tasks demo_client) = 2"
  by (simp_all add: demo_client_def client_defs)

text \<open>
  The connection is lost, the first dial fails, another code is registered during the pause, and the
  supervisor's call is interleaved with that of the other caller.
\<close>

definition demo_gap :: "client_op list" where
  "demo_gap = [CoCheck, CoDialFailed, CoRegister ''other'' [8] True, CoBackoff True, CoCheck, CoDialled 5 RungTLSDirect]"

definition demo_later :: "client_op list" where
  "demo_later = [CoSend 3 True, CoSnapshot 2 [(''other'', 1), (''code'', 0)], CoMark 3, CoSend 2 True, CoSend 3 True, CoMark 3, CoPump, CoLost]"

lemma demo_gap_values:
  fixes d defines "d \<equiv> client_run (CoReset # demo_gap) (sv_lost demo_client)"
  shows "cl_phase d = SvResend 5 3" "cl_conn d = Some 5" "length (cl_tasks d) = 4" "cl_tasks d ! 3 = RsStart"
    "cl_waiters d = [(''other'', 1), (''code'', 0)]" "cl_heap d = [new_waiter [7] False, new_waiter [8] True]"
  by (simp_all add: d_def demo_gap_def demo_client_def client_defs sv_dial_failed_def sv_backoff_def second_def)

theorem outstanding_codes_resent_witness:
  "let d = client_run (CoReset # demo_gap) (sv_lost demo_client);
       sent = set (cl_out (client_run (CoSnapshot 3 [(''code'', 0), (''other'', 1)] # demo_later) d))
   in (5, request_of ''code'' (new_waiter [7] False)) \<in> sent \<and> (5, request_of ''other'' (new_waiter [8] True)) \<in> sent"
proof -
  let ?ops = "[CoCheck, CoDialled 0 RungTLSDirect, CoSnapshot 0 [], CoPump, CoRegister ''code'' [7] False, CoLost]"
  let ?d = "client_run (CoReset # demo_gap) (sv_lost demo_client)" and ?order = "[(''code'', 0), (''other'', 1 :: nat)]"
  have c: "sv_lost demo_client = client_run ?ops NewClient" by (simp add: demo_client_def client_run_def)
  have lost: "cl_phase (sv_lost demo_client) = SvLost 0" by (simp add: demo_client_values sv_lost_def)
  have gap: "list_all (\<lambda>x. \<forall>j. x \<noteq> CoMark j) demo_gap" by (simp add: demo_gap_def)
  have order: "distinct ?order" "set ?order = set (unsent ?d)" by (auto simp: unsent_def demo_gap_values new_waiter_def)
  have later: "subseq (resend_ops 3 (length ?order)) demo_later" "list_all (\<lambda>x. x \<noteq> CoSend 3 False \<and> x \<noteq> CoClose) demo_later"
    by (simp_all add: resend_ops_def demo_later_def)
  have "3 < length (cl_tasks ?d)" by (simp add: demo_gap_values)
  from outstanding_codes_resent [OF c lost gap refl demo_gap_values(1,2) this demo_gap_values(4) order later]
  have all: "map_of (cl_waiters ?d) rid = Some i \<Longrightarrow>
      (5, request_of rid (cl_heap ?d ! i)) \<in> set (cl_out (client_run (CoSnapshot 3 ?order # demo_later) ?d))" for rid i by blast
  from all [of "''code''" 0] all [of "''other''" 1] show ?thesis unfolding Let_def demo_gap_values(5,6) by simp
qed

text \<open>
  A waiter that is marked as sent and in nobody's list: its request is not written on connection \<open>n\<close>
  until the marks are cleared.
\<close>

fun task_list :: "resender \<Rightarrow> (string \<times> nat) list" where
  "task_list RsStart = []"
| "task_list (RsSending _ l) = l"
| "task_list (RsMark _ _ l) = l"

definition forgotten :: "nat \<Rightarrow> string \<Rightarrow> nat \<Rightarrow> client \<Rightarrow> bool" where
  "forgotten n rid i c \<longleftrightarrow>
     i < length (cl_heap c) \<and> wt_sent (cl_heap c ! i) \<and> (\<forall>j. (rid, j) \<in> set (cl_waiters c) \<longrightarrow> j = i) \<and>
     (\<forall>t\<in>set (cl_tasks c). rid \<notin> fst ` set (task_list t)) \<and> (\<forall>m. (n, m) \<in> set (cl_out c) \<longrightarrow> mg_RendezvousID m \<noteq> rid)"

definition renews :: "string \<Rightarrow> client_op \<Rightarrow> bool" where
  "renews rid x \<longleftrightarrow> x = CoReset \<or> (\<exists>sealed claim. x = CoRegister rid sealed claim)"

lemma upd_sent: "(\<And>w. wt_sent w \<Longrightarrow> wt_sent (f w)) \<Longrightarrow> i < length (cl_heap c) \<Longrightarrow> wt_sent (cl_heap c ! i) \<Longrightarrow>
    wt_sent (cl_heap (upd_waiter j f c) ! i)"
  by (cases "i = j") (auto simp: upd_heap)

lemma forgotten_upd: "(\<And>w. wt_sent w \<Longrightarrow> wt_sent (f w)) \<Longrightarrow> forgotten n rid i c \<Longrightarrow> forgotten n rid i (upd_waiter j f c)"
  using upd_sent [of f i c j] by (simp add: forgotten_def upd_waiter_def)

lemma forgotten_unregister: "forgotten n rid i c \<Longrightarrow> forgotten n rid i (client_unregister key c)"
  by (auto simp: forgotten_def client_unregister_def)

lemma forgotten_task:
  "forgotten n rid i c \<Longrightarrow> rid \<notin> fst ` set (task_list t) \<Longrightarrow> forgotten n rid i (c\<lparr>cl_tasks := (cl_tasks c)[k := t]\<rparr>)"
  by (auto simp: forgotten_def dest!: subsetD [OF set_update_subset_insert])

lemma forgotten_snapshot:
  assumes "forgotten n rid i c"
  shows "forgotten n rid i (resend_snapshot k order c)"
proof -
  have "rid \<notin> fst ` set (unsent c)" using assms by (auto simp: unsent_def forgotten_def)
  then show ?thesis using assms by (auto simp: resend_snapshot_def intro!: forgotten_task split: option.split)
qed

lemma forgotten_send:
  assumes "forgotten n rid i c"
  shows "forgotten n rid i (resend_one k ok c)"
proof (cases "k < length (cl_tasks c) \<and> (\<exists>n' r j rest. cl_tasks c ! k = RsSending n' ((r, j) # rest))")
  case True
  then obtain n' r j rest where t: "k < length (cl_tasks c)" "cl_tasks c ! k = RsSending n' ((r, j) # rest)" by blast
  then have "rid \<notin> fst ` set (task_list (RsSending n' ((r, j) # rest)))" using assms unfolding forgotten_def by (metis nth_mem)
  then have r: "rid \<noteq> r" "rid \<notin> fst ` set (task_list (RsMark n' j rest))" "rid \<notin> fst ` set (task_list (RsSending n' []))" by auto
  have "mg_RendezvousID (request_of r w) = r" for w by (simp add: request_of_def)
  then show ?thesis
    using t r(1) forgotten_task [OF assms r(2), of k] forgotten_task [OF assms r(3), of k]
    by (auto simp: resend_one_def) (auto simp: forgotten_def)
qed (use assms in \<open>auto simp: resend_one_def split: resender.split list.split\<close>)

lemma forgotten_mark:
  assumes "forgotten n rid i c"
  shows "forgotten n rid i (resend_mark k c)"
proof (cases "k < length (cl_tasks c) \<and> (\<exists>n' j rest. cl_tasks c ! k = RsMark n' j rest)")
  case True
  then obtain n' j rest where t: "k < length (cl_tasks c)" "cl_tasks c ! k = RsMark n' j rest" by blast
  then have "rid \<notin> fst ` set (task_list (RsMark n' j rest))" using assms unfolding forgotten_def by (metis nth_mem)
  then have r: "rid \<notin> fst ` set (task_list (RsSending n' rest))" by simp
  have "forgotten n rid i (upd_waiter j (\<lambda>w. w\<lparr>wt_sent := True\<rparr>) c)" by (rule forgotten_upd) (simp_all add: assms)
  from forgotten_task [OF this r, of k] t show ?thesis by (simp add: resend_mark_def upd_waiter_def)
qed (use assms in \<open>auto simp: resend_mark_def split: resender.split\<close>)

lemma forgotten_start: "forgotten n rid i c \<Longrightarrow> forgotten n rid i (c\<lparr>cl_tasks := cl_tasks c @ [RsStart]\<rparr>)"
  by (auto simp: forgotten_def)

lemma forgotten_step:
  assumes f: "forgotten n rid i c" and "\<not> renews rid x"
  shows "forgotten n rid i (client_step x c)"
proof (cases x)
  case (CoRegister r sealed claim)
  then show ?thesis using assms by (auto simp: client_register_def forgotten_def renews_def nth_append)
next
  case (CoPublishAnswer key j wk)
  then show ?thesis
    using f by (auto simp: publish_answer_def Let_def intro!: forgotten_unregister forgotten_upd split: option.split sum.split)
next
  case (CoPairingAnswer key j wk)
  then show ?thesis
    using f by (auto simp: take_pairing_def intro!: forgotten_unregister forgotten_upd split: option.split sum.split)
next
  case (CoRecv msg)
  have "forgotten n rid i (c\<lparr>cl_observed := v\<rparr>)" for v using f by (simp add: forgotten_def)
  then show ?thesis
    using CoRecv f by (auto simp: sv_recv_def dispatch_def Let_def intro!: forgotten_upd split: sv_phase.split option.split)
qed (use assms in \<open>auto simp: forgotten_unregister forgotten_snapshot forgotten_send forgotten_mark renews_def,
    auto simp: sv_check_def sv_dial_failed_def sv_backoff_def sv_dialled_def sv_pump_def sv_lost_def client_Close_def Let_def forgotten_def
      split: sv_phase.split resender.split list.split option.split\<close>)

lemma forgotten_run:
  "forgotten n rid i c \<Longrightarrow> list_all (\<lambda>x. \<not> renews rid x) later \<Longrightarrow> forgotten n rid i (client_run later c)"
  by (induction later arbitrary: c) (simp_all add: client_run_def forgotten_step)

text \<open>
  C37: a mark that comes too late loses the code. A caller of \<open>resendWaiters\<close> sends the request of a
  code on the first connection; the connection is lost, the supervisor clears the marks, and only then the
  caller marks the waiter as sent. On the next connection the code is outstanding and marked, and
  whatever happens from then on, until the marks are cleared again by the loss of that connection or
  the code is registered anew, no request for it is written there. Had the caller marked the waiter
  before the loss, \<open>resendWaiters\<close> would have sent the request on the next connection.
\<close>

theorem late_mark_loses_code:
  "\<exists>before after send. let late = before @ [CoSend 1 True, CoLost, CoReset, CoMark 1] @ after;
       early = before @ [CoSend 1 True, CoMark 1, CoLost, CoReset] @ after;
       c = client_run late NewClient; d = client_run (early @ send) NewClient
     in cl_phase c = SvConnected 1 \<and> cl_open c = [1] \<and> map_of (cl_waiters c) ''code'' = Some 0 \<and> wt_sent (cl_heap c ! 0) \<and>
        (0, request_of ''code'' (cl_heap c ! 0)) \<in> set (cl_out c) \<and>
        (\<forall>later m. list_all (\<lambda>x. \<not> renews ''code'' x) later \<and> (1, m) \<in> set (cl_out (client_run later c)) \<longrightarrow> mg_RendezvousID m \<noteq> ''code'') \<and>
        (1, request_of ''code'' (cl_heap d ! 0)) \<in> set (cl_out d)"
proof -
  let ?before = "[CoCheck, CoDialled 0 RungTLSDirect, CoSnapshot 0 [], CoPump, CoRegister ''code'' [7] False, CoSnapshot 1 [(''code'', 0)]]"
  let ?after = "[CoCheck, CoDialled 1 RungTLSDirect, CoSnapshot 2 [], CoPump]"
  let ?send = "[CoSnapshot 2 [(''code'', 0)], CoSend 2 True]"
  let ?c = "client_run (?before @ [CoSend 1 True, CoLost, CoReset, CoMark 1] @ ?after) NewClient"
  let ?d = "client_run ((?before @ [CoSend 1 True, CoMark 1, CoLost, CoReset] @ ?after) @ ?send) NewClient"
  have c: "cl_phase ?c = SvConnected 1" "cl_open ?c = [1]" "map_of (cl_waiters ?c) ''code'' = Some 0" "wt_sent (cl_heap ?c ! 0)"
    "(0, request_of ''code'' (cl_heap ?c ! 0)) \<in> set (cl_out ?c)"
    by (simp_all add: client_defs request_of_def)
  have "forgotten 1 ''code'' 0 ?c" by (simp add: client_defs forgotten_def request_of_def)
  then have "\<forall>later m. list_all (\<lambda>x. \<not> renews ''code'' x) later \<and> (1, m) \<in> set (cl_out (client_run later ?c)) \<longrightarrow> mg_RendezvousID m \<noteq> ''code''"
    using forgotten_run unfolding forgotten_def by blast
  moreover have "(1, request_of ''code'' (cl_heap ?d ! 0)) \<in> set (cl_out ?d)" by (simp add: client_defs request_of_def)
  ultimately show ?thesis using c unfolding Let_def by blast
qed

text \<open>The run that \<open>late_mark_loses_code\<close> exhibits.\<close>

theorem late_mark_loses_code_witness:
  "\<exists>c. cl_phase c = SvConnected 1 \<and> map_of (cl_waiters c) ''code'' = Some 0 \<and> wt_sent (cl_heap c ! 0) \<and>
     (\<forall>m. (1, m) \<in> set (cl_out (client_run [CoRecv (msg_of MsgPublished), CoRegister ''other'' [8] False] c)) \<longrightarrow> mg_RendezvousID m \<noteq> ''code'')"
proof -
  have "list_all (\<lambda>x. \<not> renews ''code'' x) [CoRecv (msg_of MsgPublished), CoRegister ''other'' [8] False]" by (simp add: renews_def)
  then show ?thesis using late_mark_loses_code unfolding Let_def by blast
qed

definition takes_pairing :: "nat \<Rightarrow> client_op \<Rightarrow> bool" where
  "takes_pairing i x \<longleftrightarrow> (\<exists>key. x = CoPairingAnswer key i WakeMessage)"

lemma lost_paired: "wt_paired (fold (\<lambda>(_, i) h. h[i := (h ! i)\<lparr>wt_sent := False\<rparr>]) l h ! j) = wt_paired (h ! j)"
proof (induction l arbitrary: h)
  case (Cons p l)
  obtain r i where p: "p = (r, i)" by fastforce
  have "wt_paired ((h[i := (h ! i)\<lparr>wt_sent := False\<rparr>]) ! j) = wt_paired (h ! j)"
    by (cases "i = j"; cases "i < length h") (simp_all add: list_update_beyond)
  then show ?case using Cons.IH [of "h[i := (h ! i)\<lparr>wt_sent := False\<rparr>]"] by (simp add: p)
qed simp

lemma upd_paired:
  "wt_paired (cl_heap (upd_waiter j f c) ! i) = wt_paired (if i = j \<and> j < length (cl_heap c) then f (cl_heap c ! j) else cl_heap c ! i)"
  by (cases "i = j"; cases "j < length (cl_heap c)") (simp_all add: upd_heap list_update_beyond)

lemma paired_step:
  assumes "i < length (cl_heap c)" "wt_paired (cl_heap c ! i) = [m]" "\<not> takes_pairing i x"
  shows "i < length (cl_heap (client_step x c)) \<and> wt_paired (cl_heap (client_step x c) ! i) = [m]"
proof (cases x)
  case (CoRegister rid sealed claim)
  then show ?thesis using assms by (simp add: client_register_def nth_append)
next
  case (CoPublishAnswer key j wk)
  then show ?thesis using assms
    by (auto simp: publish_answer_def Let_def client_unregister_def upd_paired split: option.split sum.split)
next
  case (CoPairingAnswer key j wk)
  then show ?thesis using assms
    by (cases wk) (auto simp: take_pairing_def takes_pairing_def await_def client_unregister_def upd_paired split: option.split sum.split list.split)
next
  case (CoMark k)
  then show ?thesis using assms by (auto simp: resend_mark_def upd_paired split: resender.split)
next
  case (CoRecv msg)
  then show ?thesis using assms
    by (auto simp: sv_recv_def dispatch_def Let_def offer_def upd_paired split: sv_phase.split option.split)
next
  case CoReset
  then show ?thesis using assms by (auto simp: sv_reset_def lost_paired lost_length split: sv_phase.split)
qed (use assms in \<open>auto simp: client_unregister_def resend_snapshot_def resend_one_def sv_pump_def sv_lost_def sv_check_def sv_dial_failed_def sv_backoff_def sv_dialled_def
    client_Close_def Let_def split: sv_phase.split option.split resender.split list.split\<close>)

text \<open>
  the first answer counts. Once a pairing, or the relay's refusal, has been delivered to a waiter, no
  later message, reconnection or cancellation removes or replaces it: it is what the waiting
  call returns.
\<close>

theorem first_answer_counts:
  assumes "i < length (cl_heap c)" "wt_paired (cl_heap c ! i) = [m]" and "list_all (\<lambda>x. \<not> takes_pairing i x) ops"
  shows "await WakeMessage (wt_paired (cl_heap (client_run ops c) ! i)) (client_run ops c) = Some (Inr m)"
proof -
  have "i < length (cl_heap (client_run ops c)) \<and> wt_paired (cl_heap (client_run ops c) ! i) = [m]"
    using assms
  proof (induction ops arbitrary: c)
    case (Cons x ops)
    then show ?case using paired_step [of i c m x] by (simp add: client_run_def)
  qed (simp add: client_run_def)
  then show ?thesis by (simp add: await_def)
qed

theorem first_answer_counts_witness:
  "let m = (msg_of MsgPaired)\<lparr>mg_RendezvousID := ''code''\<rparr>; c = client_run [CoRecv m] demo_client;
       ops = [CoRecv ((msg_of MsgError)\<lparr>mg_RendezvousID := ''code''\<rparr>), CoLost]
   in await WakeMessage (wt_paired (cl_heap (client_run ops c) ! 0)) (client_run ops c) = Some (Inr m)"
  unfolding Let_def
  by (rule first_answer_counts)
    (simp_all add: client_run_def demo_client_values sv_recv_def dispatch_def msg_defs msg_of_def upd_waiter_def new_waiter_def
      offer_def takes_pairing_def Let_def)

text \<open>
  a client that is closed while it dials keeps its connection. When \<open>Close\<close> runs between a dial and
  its success, the new connection is used as if nothing had happened and stays open, whatever follows,
  until the relay ends it or \<open>Close\<close> is called once more.
\<close>

theorem close_during_dial_leaks:
  assumes "cl_phase c = SvDialing b" "n \<notin> set (cl_open c)" "cl_conn c = None"
    and "list_all (\<lambda>x. x \<noteq> CoLost \<and> x \<noteq> CoClose) later"
  shows "let d = client_run ([CoClose, CoDialled n rung] @ later) c in cl_closed d \<and> n \<in> set (cl_open d)"
proof -
  have step: "cl_closed (client_step x d) \<and> n \<in> set (cl_open (client_step x d))"
    if "cl_closed d" "n \<in> set (cl_open d)" "x \<noteq> CoLost" "x \<noteq> CoClose" for x d
    using that
    by (cases x) (auto simp: client_register_def client_unregister_def publish_answer_def take_pairing_def resend_snapshot_def resend_one_def resend_mark_def
        sv_pump_def sv_reset_def sv_check_def sv_dial_failed_def sv_backoff_def sv_dialled_def sv_recv_def dispatch_def Let_def
        split: option.splits sum.splits sv_phase.splits resender.splits list.splits)
  have run: "cl_closed (client_run later d) \<and> n \<in> set (cl_open (client_run later d))" if "cl_closed d" "n \<in> set (cl_open d)" for d
    using that assms(4)
  proof (induction later arbitrary: d)
    case (Cons x later)
    then show ?case using step [of d x] by (simp add: client_run_def)
  qed (simp add: client_run_def)
  let ?d = "client_run [CoClose, CoDialled n rung] c"
  have "cl_closed ?d" "n \<in> set (cl_open ?d)" using assms(1-3) by (simp_all add: client_run_def client_Close_def sv_dialled_def)
  from run [OF this] show ?thesis by (simp add: client_run_def Let_def)
qed

theorem close_during_dial_leaks_witness:
  "let d = client_run ([CoClose, CoDialled 3 RungTLSDirect] @ [CoCheck]) (client_run [CoCheck] NewClient) in cl_closed d \<and> 3 \<in> set (cl_open d)"
  by (rule close_during_dial_leaks [of _ minBackoff]) (simp_all add: client_run_def sv_check_def NewClient_def)


text \<open>An honest paired message is understood: the pairing is the message's, with the peer's list as it was sealed.\<close>

lemma toPairing_honest:
  assumes "SealCandidates P J rnd k cs = Inr sealed" "cands_unmarshal J (cands_marshal J cs) = Some cs" "safe_list ParseIP cs"
    and "mg_PeerCandidates msg = b64 sealed" "mg_Ticket msg = b64 ticket" "length ticket = TicketSize"
  shows "toPairing P J ParseIP c msg k = Inr \<lparr>pr_Role = mg_Role msg, pr_PeerCandidates = cs, pr_PeerObserved = mg_PeerObserved msg,
    pr_Observed = cl_observed c, pr_PunchIn = punch_delay (mg_PunchInMS msg), pr_Ticket = ticket, pr_Rung = cl_rung c\<rparr>"
  using Open_of_Seal [OF assms(1-3)] assms(4-6) by (simp add: toPairing_def bounded_field.dec_enc)

text \<open>
  what the relay can make a client believe. Whatever a paired message contains, a pairing that is
  accepted delays the hole punch by at most thirty seconds (also when the multiplication by a
  millisecond overflows 64 bits), carries a ticket of 32 bytes and a peer list within the limits.
\<close>

theorem pairing_is_bounded:
  assumes "toPairing P J ParseIP c msg pairingKey = Inr p"
  shows "0 \<le> pr_PunchIn p \<and> pr_PunchIn p \<le> 30 * second \<and> length (pr_Ticket p) = TicketSize \<and>
    length (pr_PeerCandidates p) \<le> MaxCandidates \<and> list_all (candidate_ok ParseIP) (pr_PeerCandidates p)"
proof -
  obtain sealed where o: "OpenCandidates P J ParseIP pairingKey sealed = Inr (pr_PeerCandidates p)"
    "length (pr_Ticket p) = TicketSize" "pr_PunchIn p = punch_delay (mg_PunchInMS msg)"
    using assms by (auto simp: toPairing_def split: sum.splits if_splits)
  show ?thesis using o(2,3) Open_safe [OF o(1)] by (auto simp: safe_list_def punch_delay_def Let_def second_def)
qed

theorem pairing_is_bounded_witness:
  "\<exists>msg p. toPairing demo_prims demo_json_cands demo_ParseIP demo_client msg (replicate 32 9) = Inr p \<and>
     mg_PunchInMS msg = 2 ^ 62 \<and> pr_PeerCandidates p = demo_cands \<and> pr_PunchIn p \<le> 30 * second"
proof -
  obtain blob where s: "SealCandidates demo_prims demo_json_cands (Some (\<lambda>_. 0)) (replicate 32 9) demo_cands = Inr blob"
    "cands_unmarshal demo_json_cands (cands_marshal demo_json_cands demo_cands) = Some demo_cands" by (rule demo_sealed)
  let ?m = "(msg_of MsgPaired)\<lparr>mg_PeerCandidates := b64 blob, mg_Ticket := b64 (replicate 32 5), mg_PunchInMS := 2 ^ 62\<rparr>"
  have "mg_PeerCandidates ?m = b64 blob" "mg_Ticket ?m = b64 (replicate 32 5)" "length (replicate 32 (5 :: byte)) = TicketSize"
    by simp_all
  then obtain p where p: "toPairing demo_prims demo_json_cands demo_ParseIP demo_client ?m (replicate 32 9) = Inr p"
    "pr_PeerCandidates p = demo_cands" using toPairing_honest [OF s demo_cands_ok(2)] by force
  from pairing_is_bounded [OF p(1)] p show ?thesis by (intro exI [of _ ?m] exI [of _ p]) simp
qed

text \<open>
  circuits. Whatever the network and the relay do, \<open>OpenCircuit\<close> leaves no connection open but the one
  it returns, and it returns one only after the relay's first message accepted the ticket.
\<close>

theorem circuit_opened_only_if_accepted:
  assumes "fresh_state st" and "OpenCircuit N E J ep ticket c st = (res, st')"
  shows "(case res of
       Inl _ \<Rightarrow> ns_open st' = ns_open st
     | Inr lk \<Rightarrow> ns_open st' = lk_tcp lk # ns_open st \<and>
         (\<exists>ws msg. ws_RecvMessage E J ws = (Inr msg, lk_ws lk) \<and> mg_Type msg = MsgCircuitOK))"
proof -
  obtain r st1 where d: "DialRung N ep (cl_rung c) st = (r, st1)" by fastforce
  have cl: "clean lk_tcp st (r, st1)" using clean_rung [OF assms(1), of N ep "cl_rung c"] by (simp add: d)
  show ?thesis
  proof (cases r)
    case (Inl e)
    then show ?thesis using assms(2) cl d by (auto simp: OpenCircuit_def clean_def)
  next
    case (Inr lk)
    have "clean lk_tcp st (Inl x, tcp_close (lk_tcp lk) st1)" for x
      by (rule clean_close [OF cl [unfolded Inr] assms(1) refl])
    then have shut: "ns_open (tcp_close (lk_tcp lk) st1) = ns_open st" by (simp add: clean_def)
    have opn: "ns_open st1 = lk_tcp lk # ns_open st" using cl Inr by (simp add: clean_def)
    obtain a ws1 where s: "ws_SendMessage E J ((msg_of MsgCircuit)\<lparr>mg_Ticket := b64 ticket\<rparr>) (lk_ws lk) = (a, ws1)" by fastforce
    obtain b ws2 where v: "ws_RecvMessage E J ws1 = (b, ws2)" by fastforce
    show ?thesis
      using assms(2) d Inr s v shut opn
      by (cases a; cases b) (auto simp: OpenCircuit_def split: if_splits intro!: exI [of _ ws1])
  qed
qed

end
