(* ===== verification/Rendezvous.thy ===== *)
theory Rendezvous
  imports ClientProps
begin

text \<open>
  A rendezvous from end to end: the claim of one client, the relay's handler that pairs it with the
  pending code of another, and the two clients that read the relay's answers.
\<close>

section \<open>The relay pairs\<close>

lemma length_b64: "length (b64 b) \<le> 4 * ((length b + 2) div 3)"
proof -
  have "length (b64_enc b) = 4 * ((length b + 2) div 3)"
    by (induction b rule: b64_enc.induct) (simp_all add: enc_group_def, presburger)
  then show ?thesis by (simp add: b64_def b64_EncodeToString_def)
qed

text \<open>What the relay sends to the publisher and to the claimer.\<close>

definition paired_msg :: "relay \<Rightarrow> string \<Rightarrow> string \<Rightarrow> string \<Rightarrow> string \<Rightarrow> string \<Rightarrow> message" where
  "paired_msg s rid role sealed observed ticket =
     (msg_of MsgPaired)\<lparr>mg_RendezvousID := rid, mg_PunchInMS := Milliseconds (PunchDelay (rl_limits s)), mg_Role := role,
       mg_PeerCandidates := sealed, mg_PeerObserved := observed, mg_Ticket := ticket\<rparr>"

lemma relay_pairs:
  assumes "map_of (rl_pending (w_relay w)) rid = Some p" "pc_conn p \<noteq> i" "rl_circuits (w_relay w) < MaxCircuits (rl_limits (w_relay w))"
    and "i < length (w_handlers w)" "decodeExact rid rendezvousIDSize = Inr x" "length (mg_Candidates msg) \<le> MaxControlFrame"
    and "mg_RendezvousID msg = rid"
  obtains w1 c where "w1 = notify_step True True i (issue_step now (Some f) (Some g) ok i (claim_step True ok i msg w))"
    "rl_out (w_relay w1) = rl_out (w_relay w) @
       [(i, (msg_of MsgPublished)\<lparr>mg_RendezvousID := rid, mg_Observed := h_addr (w_handlers w ! i)\<rparr>),
        (pc_conn p, paired_msg (w_relay w) rid RolePublisher (mg_Candidates msg) (h_addr (w_handlers w ! i)) (encode (fill f 32))),
        (i, paired_msg (w_relay w) rid RoleClaimer (pc_sealed p) (pc_observed p) (encode (fill g 32)))]"
    "rl_tickets (w_relay w1) = (rl_tickets (w_relay w))
       (encode (fill f 32) \<mapsto> \<lparr>tr_circuit = c, tr_side = 0\<rparr>, encode (fill g 32) \<mapsto> \<lparr>tr_circuit = c, tr_side = 1\<rparr>)"
    "map_of (rl_pending (w_relay w1)) rid = None"
proof -
  let ?w1 = "claim_step True ok i msg w"
  have w1: "h_phase (w_handlers ?w1 ! i) = PairClaimed rid (mg_Candidates msg) p" "h_addr (w_handlers ?w1 ! i) = h_addr (w_handlers w ! i)"
    "w_relay ?w1 = (w_relay w)\<lparr>rl_out := rl_out (w_relay w) @
         [(i, (msg_of MsgPublished)\<lparr>mg_RendezvousID := rid, mg_Observed := h_addr (w_handlers w ! i)\<rparr>)],
       rl_pending := AList.delete rid (rl_pending (w_relay w)), rl_circuits := rl_circuits (w_relay w) + 1\<rparr>"
    "length (w_handlers ?w1) = length (w_handlers w)"
    using assms by (simp_all add: claim_step_def checkRID_def send_message_def pair_claim_def goto_def set_handler_def Let_def)
  let ?w2 = "issue_step now (Some f) (Some g) ok i ?w1" and ?c = "length (rl_heap (w_relay w))"
  have w2: "h_phase (w_handlers ?w2 ! i) = PairIssued rid (mg_Candidates msg) p ?c (encode (fill f 32)) (encode (fill g 32))"
    "h_addr (w_handlers ?w2 ! i) = h_addr (w_handlers w ! i)" "rl_limits (w_relay ?w2) = rl_limits (w_relay w)"
    "rl_out (w_relay ?w2) = rl_out (w_relay ?w1)" "rl_pending (w_relay ?w2) = rl_pending (w_relay ?w1)"
    "rl_tickets (w_relay ?w2) = (rl_tickets (w_relay w))
       (encode (fill f 32) \<mapsto> \<lparr>tr_circuit = ?c, tr_side = 0\<rparr>, encode (fill g 32) \<mapsto> \<lparr>tr_circuit = ?c, tr_side = 1\<rparr>)"
    using w1 assms(4) by (simp_all add: issue_step_def pair_issue_def NewTicket_def RandomBytes_def goto_def set_handler_def Let_def)
  let ?w3 = "notify_step True True i ?w2"
  have "w_relay ?w3 = (w_relay ?w2)\<lparr>rl_out := rl_out (w_relay ?w2) @
        [(pc_conn p, paired_msg (w_relay w) rid RolePublisher (mg_Candidates msg) (h_addr (w_handlers w ! i)) (encode (fill f 32))),
         (i, paired_msg (w_relay w) rid RoleClaimer (pc_sealed p) (pc_observed p) (encode (fill g 32)))]\<rparr>"
    using w2 by (simp add: notify_step_def pair_notify_def send_message_def goto_def set_handler_def paired_msg_def Let_def)
  then show thesis using w1 w2 by (intro that [OF refl, of ?c]) (simp_all add: delete_conv)
qed

section \<open>A client reads\<close>

lemma dispatch_paired:
  assumes "map_of (cl_waiters c) rid = Some k" "k < length (cl_heap c)" "wt_paired (cl_heap c ! k) = []"
    and "mg_Type m = MsgPaired" "mg_RendezvousID m = rid"
  shows "wt_paired (cl_heap (dispatch m c) ! k) = [m]"
    "cl_observed (dispatch m c) = cl_observed c" "cl_rung (dispatch m c) = cl_rung c" "length (cl_heap (dispatch m c)) = length (cl_heap c)"
  using assms by (simp_all add: dispatch_def upd_waiter_def offer_def msg_defs Let_def)

lemma answer_read:
  assumes "map_of (cl_waiters c) rid = Some k" "k < length (cl_heap c)" "wt_paired (cl_heap c ! k) = []"
    and "mg_Type m = MsgPaired" "mg_RendezvousID m = rid"
    and "SealCandidates P J rnd key cs = Inr sealed" "cands_unmarshal J (cands_marshal J cs) = Some cs" "safe_list ParseIP cs"
    and "mg_PeerCandidates m = b64 sealed" "mg_Ticket m = b64 ticket" "length ticket = TicketSize"
  shows "\<exists>c1. pairing_answer P J ParseIP rid k key WakeMessage (dispatch m c) = Some (Inr
    \<lparr>pr_Role = mg_Role m, pr_PeerCandidates = cs, pr_PeerObserved = mg_PeerObserved m, pr_Observed = cl_observed c,
     pr_PunchIn = punch_delay (mg_PunchInMS m), pr_Ticket = ticket, pr_Rung = cl_rung c\<rparr>, c1) \<and> map_of (cl_waiters c1) rid = None"
proof -
  note d = dispatch_paired [OF assms(1-5)]
  have "map_of (filter (\<lambda>(r, _). r \<noteq> rid) l) rid = None" for l :: "(string \<times> nat) list"
    by (induction l) auto
  then show ?thesis using d toPairing_honest [OF assms(6-11)] assms(4)
    by (simp add: pairing_answer_def await_def client_unregister_def msg_defs Let_def)
qed


section \<open>Properties\<close>

text \<open>
  C19: a rendezvous brings two clients together. One client has published a code and another claims it: the
  relay's handler pairs them with two tickets for the two sides of one new circuit, and the code
  is spent. When each client reads the relay's message, the publisher's \<open>Invite.Wait\<close> and the claimer's
  \<open>Claim\<close> return pairings with opposite roles, each with the other's candidates exactly as they were offered, the
  address under which the relay saw the other, and the ticket that the relay registered for its side.
\<close>

theorem rendezvous_completes:
  assumes relay: "map_of (rl_pending (w_relay w)) rid = Some p" "pc_conn p \<noteq> i" "i < length (w_handlers w)"
      "rl_circuits (w_relay w) < MaxCircuits (rl_limits (w_relay w))" "rid = b64 rawid" "length rawid = rendezvousIDSize"
    and offers: "SealCandidates P J rndA key csA = Inr sealedA" "cands_unmarshal J (cands_marshal J csA) = Some csA" "safe_list ParseIP csA"
      "SealCandidates P J rndB key csB = Inr sealedB" "cands_unmarshal J (cands_marshal J csB) = Some csB" "safe_list ParseIP csB"
      "pc_sealed p = b64 sealedA"
    and pub: "map_of (cl_waiters a) rid = Some ka" "ka < length (cl_heap a)" "wt_paired (cl_heap a ! ka) = []"
    and claim: "map_of (cl_waiters b) rid = Some kb" "kb < length (cl_heap b)" "wt_paired (cl_heap b ! kb) = []"
    and req: "msg = request_of rid (new_waiter sealedB True)" and tickets: "fill f 32 \<noteq> fill g 32"
  shows "\<exists>w1 mA mB pA pB a1 b1 c. w1 = notify_step True True i (issue_step now (Some f) (Some g) ok i (claim_step True ok i msg w)) \<and>
    (\<exists>first. rl_out (w_relay w1) = rl_out (w_relay w) @ [first, (pc_conn p, mA), (i, mB)]) \<and> map_of (rl_pending (w_relay w1)) rid = None \<and>
    invite_Wait P J ParseIP \<lparr>iv_rid = rid, iv_waiter = ka, iv_observed = obs\<rparr> key WakeMessage (dispatch mA a) = Some (Inr pA, a1) \<and>
    pairing_answer P J ParseIP rid kb key WakeMessage (dispatch mB b) = Some (Inr pB, b1) \<and>
    \<not> Initiator pA \<and> Initiator pB \<and> pr_PeerCandidates pA = csB \<and> pr_PeerCandidates pB = csA \<and>
    pr_PeerObserved pA = h_addr (w_handlers w ! i) \<and> pr_PeerObserved pB = pc_observed p \<and>
    rl_tickets (w_relay w1) (encode (pr_Ticket pA)) = Some \<lparr>tr_circuit = c, tr_side = 0\<rparr> \<and>
    rl_tickets (w_relay w1) (encode (pr_Ticket pB)) = Some \<lparr>tr_circuit = c, tr_side = 1\<rparr>"
proof -
  have rid: "decodeExact rid rendezvousIDSize = Inr rawid"
    using exact_field.dec_enc [of rawid] relay(5,6) by (simp add: encode_def b64_def)
  have msg: "mg_RendezvousID msg = rid" "mg_Candidates msg = b64 sealedB" by (simp_all add: req request_of_def new_waiter_def)
  have "length sealedB \<le> 4096" by (rule Open_of_Seal(2) [OF offers(4-6)])
  then have "length (mg_Candidates msg) \<le> MaxControlFrame" using length_b64 [of sealedB] msg(2) by simp
  then obtain w1 c where w1: "w1 = notify_step True True i (issue_step now (Some f) (Some g) ok i (claim_step True ok i msg w))"
    "rl_out (w_relay w1) = rl_out (w_relay w) @
       [(i, (msg_of MsgPublished)\<lparr>mg_RendezvousID := rid, mg_Observed := h_addr (w_handlers w ! i)\<rparr>),
        (pc_conn p, paired_msg (w_relay w) rid RolePublisher (mg_Candidates msg) (h_addr (w_handlers w ! i)) (encode (fill f 32))),
        (i, paired_msg (w_relay w) rid RoleClaimer (pc_sealed p) (pc_observed p) (encode (fill g 32)))]"
    "rl_tickets (w_relay w1) = (rl_tickets (w_relay w))
       (encode (fill f 32) \<mapsto> \<lparr>tr_circuit = c, tr_side = 0\<rparr>, encode (fill g 32) \<mapsto> \<lparr>tr_circuit = c, tr_side = 1\<rparr>)"
    "map_of (rl_pending (w_relay w1)) rid = None"
    by (rule relay_pairs [OF relay(1,2,4,3) rid _ msg(1), of now f g ok])
  let ?mA = "paired_msg (w_relay w) rid RolePublisher (mg_Candidates msg) (h_addr (w_handlers w ! i)) (encode (fill f 32))"
  let ?mB = "paired_msg (w_relay w) rid RoleClaimer (pc_sealed p) (pc_observed p) (encode (fill g 32))"
  have m: "mg_Type ?mA = MsgPaired" "mg_RendezvousID ?mA = rid" "mg_PeerCandidates ?mA = b64 sealedB" "mg_Ticket ?mA = b64 (fill f 32)"
    "mg_Type ?mB = MsgPaired" "mg_RendezvousID ?mB = rid" "mg_PeerCandidates ?mB = b64 sealedA" "mg_Ticket ?mB = b64 (fill g 32)"
    "length (fill f 32) = TicketSize" "length (fill g 32) = TicketSize"
    using msg(2) offers(7) by (simp_all add: paired_msg_def msg_of_def encode_def b64_def)
  obtain a1 where a1: "pairing_answer P J ParseIP rid ka key WakeMessage (dispatch ?mA a) = Some (Inr
    \<lparr>pr_Role = RolePublisher, pr_PeerCandidates = csB, pr_PeerObserved = h_addr (w_handlers w ! i), pr_Observed = cl_observed a,
     pr_PunchIn = punch_delay (mg_PunchInMS ?mA), pr_Ticket = fill f 32, pr_Rung = cl_rung a\<rparr>, a1)" (is "_ = Some (Inr ?pA, _)")
    using answer_read [OF pub m(1,2) offers(4-6) m(3,4,9)] by (auto simp: paired_msg_def)
  obtain b1 where b1: "pairing_answer P J ParseIP rid kb key WakeMessage (dispatch ?mB b) = Some (Inr
    \<lparr>pr_Role = RoleClaimer, pr_PeerCandidates = csA, pr_PeerObserved = pc_observed p, pr_Observed = cl_observed b,
     pr_PunchIn = punch_delay (mg_PunchInMS ?mB), pr_Ticket = fill g 32, pr_Rung = cl_rung b\<rparr>, b1)" (is "_ = Some (Inr ?pB, _)")
    using answer_read [OF claim m(5,6) offers(1-3) m(7,8,10)] by (auto simp: paired_msg_def)
  have ne: "encode (fill f 32) \<noteq> encode (fill g 32)"
    using tickets exact_field.enc_inject [of "fill f 32" 32 "fill g 32"] by simp
  have "\<not> Initiator ?pA \<and> Initiator ?pB" by (simp add: Initiator_def RolePublisher_def RoleClaimer_def)
  moreover have "rl_tickets (w_relay w1) (encode (pr_Ticket ?pA)) = Some \<lparr>tr_circuit = c, tr_side = 0\<rparr> \<and>
      rl_tickets (w_relay w1) (encode (pr_Ticket ?pB)) = Some \<lparr>tr_circuit = c, tr_side = 1\<rparr>" using w1(3) ne by simp
  ultimately show ?thesis using w1(1,2,4) a1 b1
    by (intro exI [of _ w1] exI [of _ ?mA] exI [of _ ?mB] exI [of _ ?pA] exI [of _ ?pB] exI [of _ a1] exI [of _ b1] exI [of _ c])
      (simp add: invite_Wait_def)
qed


theorem rendezvous_completes_witness:
  "\<exists>blob w w1 mB pB b1. SealCandidates demo_prims demo_json_cands (Some (\<lambda>_. 0)) (replicate 32 9) demo_cands = Inr blob \<and>
    w = \<lparr>w_relay = (relay_New DefaultLimits)\<lparr>rl_pending := [(b64 (replicate 16 1),
            \<lparr>pc_conn = 0, pc_sealed = b64 blob, pc_observed = ''192.0.2.7:8471'', pc_created = 0\<rparr>)]\<rparr>,
         w_handlers = replicate 2 \<lparr>h_addr = ''192.0.2.8:99'', h_published = [], h_phase = Control\<rparr>\<rparr> \<and>
    w1 = notify_step True True 1 (issue_step 0 (Some (\<lambda>_. 1)) (Some (\<lambda>_. 2)) True 1
           (claim_step True True 1 (request_of (b64 (replicate 16 1)) (new_waiter blob True)) w)) \<and>
    pairing_answer demo_prims demo_json_cands demo_ParseIP (b64 (replicate 16 1)) 0 (replicate 32 9) WakeMessage
      (dispatch mB (NewClient\<lparr>cl_waiters := [(b64 (replicate 16 1), 0)], cl_heap := [new_waiter blob True]\<rparr>)) = Some (Inr pB, b1) \<and>
    Initiator pB \<and> pr_PeerCandidates pB = demo_cands \<and> rl_tickets (w_relay w1) (encode (pr_Ticket pB)) \<noteq> None"
proof -
  obtain blob where s: "SealCandidates demo_prims demo_json_cands (Some (\<lambda>_. 0)) (replicate 32 9) demo_cands = Inr blob"
    "cands_unmarshal demo_json_cands (cands_marshal demo_json_cands demo_cands) = Some demo_cands" by (rule demo_sealed)
  let ?rid = "b64 (replicate 16 1)"
  define p where "p = \<lparr>pc_conn = 0, pc_sealed = b64 blob, pc_observed = ''192.0.2.7:8471'', pc_created = 0\<rparr>"
  define w where "w = \<lparr>w_relay = (relay_New DefaultLimits)\<lparr>rl_pending := [(?rid, p)]\<rparr>,
         w_handlers = replicate 2 \<lparr>h_addr = ''192.0.2.8:99'', h_published = [], h_phase = Control\<rparr>\<rparr>"
  define a where "a = NewClient\<lparr>cl_waiters := [(?rid, 0)], cl_heap := [new_waiter blob True]\<rparr>"
  have r: "map_of (rl_pending (w_relay w)) ?rid = Some p" "pc_conn p \<noteq> 1" "1 < length (w_handlers w)"
    "rl_circuits (w_relay w) < MaxCircuits (rl_limits (w_relay w))" "length (replicate 16 (1 :: byte)) = rendezvousIDSize" "pc_sealed p = b64 blob"
    by (simp_all add: w_def p_def relay_New_def DefaultLimits_def)
  have c: "map_of (cl_waiters a) ?rid = Some 0" "0 < length (cl_heap a)" "wt_paired (cl_heap a ! 0) = []"
    by (simp_all add: a_def new_waiter_def)
  have t: "fill (\<lambda>_. 1) 32 \<noteq> fill (\<lambda>_. 2 :: byte) 32"
  proof
    assume "fill (\<lambda>_. 1) 32 = fill (\<lambda>_. 2 :: byte) 32"
    then have "fill (\<lambda>_. 1) 32 ! 0 = fill (\<lambda>_. 2 :: byte) 32 ! 0" by simp
    then show False by (simp add: fill_def)
  qed
  from rendezvous_completes [OF r(1-4) refl r(5) s demo_cands_ok(2) s demo_cands_ok(2) r(6) c c refl t, of 0 True "[]"] s(1)
  show ?thesis unfolding w_def p_def a_def by blast
qed

end
