(* ===== verification/Punch.thy ===== *)
theory Punch
  imports Transport
begin

text \<open>
  \<open>Punch\<close> and \<open>dialLoop\<close> of \<open>internal/transport/punch.go\<close>: one punch, its background dial loop, the
  accept loop of the listener and the other punches on the same listener, in any order of their
  steps.
\<close>

definition PunchInterval :: int where "PunchInterval = 250 * millisecond"
definition PunchDuration :: int where "PunchDuration = 5 * second"
definition punchDialTimeout :: int where "punchDialTimeout = 1500 * millisecond"

datatype punch_error = PunchNoAddress | PunchCtx | ErrPunchFailed

text \<open>
  A new listener, with or without a fallback, and its accept loop on the connections that the operating
  system delivers until \<open>Close\<close>. \<open>port\<close> is what \<open>ListenReuse\<close> bound.
\<close>

definition NewPunchListener :: "nat option \<Rightarrow> bool \<Rightarrow> (nat \<times> punchListener) option" where
  "NewPunchListener bound fallback =
     (case bound of None \<Rightarrow> None
      | Some port \<Rightarrow>
        Some (port, \<lparr>pl_waiters = Map.empty, pl_chan = (\<lambda>_. []), pl_next = 0, pl_fallback = (if fallback then Some [] else None), pl_dropped = []\<rparr>))"

definition punch_acceptLoop :: "netconn list \<Rightarrow> punchListener \<Rightarrow> punchListener" where
  "punch_acceptLoop accepted p = fold route accepted p"

text \<open>
  A punch waits for its delay, then for a connection; then its result is fixed and the deferred
  \<open>unregister\<close> is about to run, or has run. The dial loop has not started, dials, waits for its
  ticker, or has returned.
\<close>

datatype punch_phase = PnDelay | PnRacing | PnLeaving "punch_error + netconn" | PnReturned "punch_error + netconn"

datatype dial_phase = DlIdle | DlDialing | DlWaiting | DlEnded

record punch =
  pc_pl :: punchListener
  pc_ch :: nat \<comment> \<open>the channel \<open>inbound\<close>\<close>
  pc_phase :: punch_phase
  pc_dialed :: "netconn list" \<comment> \<open>the channel \<open>dialed\<close>, of capacity one\<close>
  pc_dial :: dial_phase
  pc_expired :: bool \<comment> \<open>the context is done\<close>
  pc_closed :: "netconn list" \<comment> \<open>connections the dial loop closed\<close>
  pc_routing :: "(netconn \<times> nat option) option" \<comment> \<open>what the accept loop looked up and has not delivered yet\<close>
  pc_accepted :: "netconn list" \<comment> \<open>all connections the accept loop took, in order\<close>
  pc_made :: "netconn list" \<comment> \<open>all connections the dial loop of this punch made\<close>

definition punch_start :: "string \<Rightarrow> int \<Rightarrow> punchListener \<Rightarrow> punch_error + punch" where
  "punch_start remote delay p =
     (let ip = addrIP remote
      in if ip = [] then Inl PunchNoAddress
         else case punch_register ip p of
                (ch, p1) \<Rightarrow>
                  Inr \<lparr>pc_pl = p1, pc_ch = ch, pc_phase = (if delay > 0 then PnDelay else PnRacing), pc_dialed = [],
                       pc_dial = (if delay > 0 then DlIdle else DlDialing), pc_expired = False, pc_closed = [],
                       pc_routing = None, pc_accepted = [], pc_made = []\<rparr>)"

abbreviation inbound_chan :: "punch \<Rightarrow> netconn list" where
  "inbound_chan s \<equiv> pl_chan (pc_pl s) (pc_ch s)"

text \<open>A receive from one of the two channels, and the result it leads to.\<close>

definition take_inbound :: "punch \<Rightarrow> punch" where
  "take_inbound s =
     (case inbound_chan s of [] \<Rightarrow> s
      | c # r \<Rightarrow> s\<lparr>pc_pl := (pc_pl s)\<lparr>pl_chan := (pl_chan (pc_pl s))(pc_ch s := r)\<rparr>, pc_phase := PnLeaving (Inr c), pc_expired := True\<rparr>)"

definition take_dialed :: "punch \<Rightarrow> punch" where
  "take_dialed s =
     (case pc_dialed s of [] \<Rightarrow> s
      | c # r \<Rightarrow> s\<lparr>pc_dialed := r, pc_phase := PnLeaving (Inr c), pc_expired := True\<rparr>)"

definition dial_done :: "netconn \<Rightarrow> punch \<Rightarrow> punch" where
  "dial_done c s =
     (if length (pc_dialed s) < 1 then s\<lparr>pc_dialed := pc_dialed s @ [c], pc_dial := DlEnded, pc_made := pc_made s @ [c]\<rparr>
      else s\<lparr>pc_closed := pc_closed s @ [c], pc_dial := DlEnded, pc_made := pc_made s @ [c]\<rparr>)"

text \<open>The accept loop takes a connection and looks up who waits for it; later it delivers it.\<close>

definition accept_conn :: "netconn \<Rightarrow> punch \<Rightarrow> punch" where
  "accept_conn c s = s\<lparr>pc_routing := Some (c, route_lookup c (pc_pl s)), pc_accepted := pc_accepted s @ [c]\<rparr>"

definition deliver_conn :: "punch \<Rightarrow> punch" where
  "deliver_conn s =
     (case pc_routing s of None \<Rightarrow> s
      | Some (c, found) \<Rightarrow> s\<lparr>pc_pl := route_deliver c found (pc_pl s), pc_routing := None\<rparr>)"

inductive punch_step :: "string \<Rightarrow> punch \<Rightarrow> punch \<Rightarrow> bool" for remote where
  accept: "pc_routing s = None \<Longrightarrow> punch_step remote s (accept_conn c s)"
| deliver: "pc_routing s \<noteq> None \<Longrightarrow> punch_step remote s (deliver_conn s)"
| other_register: "punch_step remote s (s\<lparr>pc_pl := snd (punch_register ip (pc_pl s))\<rparr>)"
| other_unregister: "punch_step remote s (s\<lparr>pc_pl := punch_unregister ip (pc_pl s)\<rparr>)"
| delay_over: "pc_phase s = PnDelay \<Longrightarrow> punch_step remote s (s\<lparr>pc_phase := PnRacing, pc_dial := DlDialing\<rparr>)"
| delay_ctx: "pc_phase s = PnDelay \<Longrightarrow> punch_step remote s (s\<lparr>pc_phase := PnLeaving (Inl PunchCtx), pc_expired := True\<rparr>)"
| inbound_won: "pc_phase s \<in> {PnDelay, PnRacing} \<Longrightarrow> inbound_chan s \<noteq> [] \<Longrightarrow> punch_step remote s (take_inbound s)"
| dialed_won: "pc_phase s = PnRacing \<Longrightarrow> pc_dialed s \<noteq> [] \<Longrightarrow> punch_step remote s (take_dialed s)"
| expire: "pc_phase s = PnRacing \<Longrightarrow> punch_step remote s (s\<lparr>pc_expired := True\<rparr>)"
| give_up:
    "pc_phase s = PnRacing \<Longrightarrow> pc_expired s \<Longrightarrow> inbound_chan s = [] \<Longrightarrow> pc_dialed s = [] \<Longrightarrow>
     punch_step remote s (s\<lparr>pc_phase := PnLeaving (Inl ErrPunchFailed)\<rparr>)"
| leave:
    "pc_phase s = PnLeaving r \<Longrightarrow>
     punch_step remote s (s\<lparr>pc_phase := PnReturned r, pc_pl := punch_unregister (addrIP remote) (pc_pl s)\<rparr>)"
| dial_ok: "pc_dial s = DlDialing \<Longrightarrow> punch_step remote s (dial_done c s)"
| dial_failed: "pc_dial s = DlDialing \<Longrightarrow> punch_step remote s (s\<lparr>pc_dial := DlWaiting\<rparr>)"
| dial_again: "pc_dial s = DlWaiting \<Longrightarrow> punch_step remote s (s\<lparr>pc_dial := DlDialing\<rparr>)"
| dial_stopped: "pc_dial s = DlWaiting \<Longrightarrow> pc_expired s \<Longrightarrow> punch_step remote s (s\<lparr>pc_dial := DlEnded\<rparr>)"

section \<open>The invariant\<close>

text \<open>
  The punch's channel belongs to its address, channels hold one connection at most, and every connection that the
  punch can return was accepted from the remote host or made by its own dial loop.
\<close>

definition arrived :: "string \<Rightarrow> punch \<Rightarrow> netconn \<Rightarrow> bool" where
  "arrived remote s c \<longleftrightarrow> c \<in> set (pc_accepted s) \<and> addrIP (snd c) = addrIP remote"

definition origin :: "string \<Rightarrow> punch \<Rightarrow> netconn \<Rightarrow> bool" where
  "origin remote s c \<longleftrightarrow> arrived remote s c \<or> c \<in> set (pc_made s)"

definition listener_inv :: "string \<Rightarrow> punch \<Rightarrow> bool" where
  "listener_inv remote s \<longleftrightarrow>
     pc_ch s < pl_next (pc_pl s) \<and> (\<forall>ip. pl_waiters (pc_pl s) ip = Some (pc_ch s) \<longrightarrow> ip = addrIP remote) \<and>
     length (inbound_chan s) \<le> 1 \<and> (\<forall>c\<in>set (inbound_chan s). arrived remote s c) \<and>
     (\<forall>c. pc_routing s = Some (c, Some (pc_ch s)) \<longrightarrow> arrived remote s c)"

definition phase_inv :: "string \<Rightarrow> punch \<Rightarrow> bool" where
  "phase_inv remote s \<longleftrightarrow>
     (\<forall>c. pc_phase s = PnLeaving (Inr c) \<or> pc_phase s = PnReturned (Inr c) \<longrightarrow> origin remote s c) \<and>
     length (pc_dialed s) \<le> 1 \<and> set (pc_dialed s) \<subseteq> set (pc_made s)"

definition punch_inv :: "string \<Rightarrow> punch \<Rightarrow> bool" where
  "punch_inv remote s \<longleftrightarrow> listener_inv remote s \<and> phase_inv remote s"

lemmas punch_inv_defs = punch_inv_def listener_inv_def phase_inv_def origin_def arrived_def

lemma accept_conn_inv: "punch_inv remote s \<Longrightarrow> punch_inv remote (accept_conn c s)"
  by (auto simp: punch_inv_defs accept_conn_def route_lookup_def list_all_iff)

lemma deliver_inv:
  assumes "punch_inv remote s"
  shows "punch_inv remote (deliver_conn s)"
proof (cases "pc_routing s")
  case (Some x)
  obtain c found where x: "x = (c, found)" by (cases x)
  let ?p = "route_deliver c found (pc_pl s)"
  have p: "pl_waiters ?p = pl_waiters (pc_pl s)" "pl_next ?p = pl_next (pc_pl s)"
    "pl_chan ?p (pc_ch s) = inbound_chan s \<or> found = Some (pc_ch s) \<and> inbound_chan s = [] \<and> pl_chan ?p (pc_ch s) = [c]"
    by (auto simp: route_deliver_def Let_def split: option.split)
  show ?thesis using p(3)
  proof
    assume "pl_chan ?p (pc_ch s) = inbound_chan s"
    then show ?thesis using assms p(1,2) Some x by (simp add: punch_inv_defs deliver_conn_def)
  next
    assume h: "found = Some (pc_ch s) \<and> inbound_chan s = [] \<and> pl_chan ?p (pc_ch s) = [c]"
    then have "arrived remote s c" using assms Some x by (simp add: punch_inv_def listener_inv_def)
    then show ?thesis using assms p(1,2) Some x h [THEN conjunct2, THEN conjunct2] by (simp add: punch_inv_defs deliver_conn_def)
  qed
qed (use assms in \<open>simp add: deliver_conn_def\<close>)

lemma take_inbound_inv: "punch_inv remote s \<Longrightarrow> punch_inv remote (take_inbound s)"
  by (cases "inbound_chan s") (auto simp: take_inbound_def punch_inv_defs)

lemma take_dialed_inv: "punch_inv remote s \<Longrightarrow> punch_inv remote (take_dialed s)"
  by (cases "pc_dialed s") (auto simp: take_dialed_def punch_inv_defs)

lemma dial_done_inv: "punch_inv remote s \<Longrightarrow> punch_inv remote (dial_done c s)"
  by (auto simp: dial_done_def punch_inv_defs list_all_iff)

lemma punch_step_inv: "punch_step remote s t \<Longrightarrow> punch_inv remote s \<Longrightarrow> punch_inv remote t"
proof (induction rule: punch_step.induct)
  case (other_register s ip)
  then show ?case by (auto simp: punch_inv_defs punch_register_def Let_def list_all_iff)
next
  case (other_unregister s ip)
  then show ?case by (auto simp: punch_inv_defs punch_unregister_def list_all_iff)
next
  case (leave s r)
  then show ?case by (auto simp: punch_inv_defs punch_unregister_def list_all_iff)
qed (simp_all add: accept_conn_inv deliver_inv take_inbound_inv take_dialed_inv dial_done_inv, simp_all add: punch_inv_defs)

interpretation punch_sys: step_system "punch_step remote" "punch_inv remote" for remote
  by unfold_locales (rule punch_step_inv)

lemma punch_start_inv:
  assumes "punch_start remote delay p = Inr s" "\<And>ip. pl_waiters p ip \<noteq> Some (pl_next p)"
  shows "punch_inv remote s"
  using assms by (auto simp: punch_start_def punch_register_def punch_inv_defs Let_def split: if_splits)

abbreviation punch_reaches :: "string \<Rightarrow> punch \<Rightarrow> punch \<Rightarrow> bool" where
  "punch_reaches remote \<equiv> rtranclp (punch_step remote)"

text \<open>Nobody reads the channel of the dial loop once the punch has its result and the loop has ended.\<close>

definition abandoned :: "netconn \<Rightarrow> netconn \<Rightarrow> punch \<Rightarrow> bool" where
  "abandoned c d s \<longleftrightarrow> pc_phase s = PnReturned (Inr c) \<and> pc_dial s = DlEnded \<and> pc_dialed s = [d]"

lemma dial_abandoned: "punch_step remote s t \<Longrightarrow> abandoned c d s \<Longrightarrow> abandoned c d t"
  by (induction rule: punch_step.induct)
    (simp_all add: abandoned_def accept_conn_def, simp add: deliver_conn_def split: option.split prod.split)

interpretation abandoned_sys: step_system "punch_step remote" "abandoned c d" for remote c d
  by unfold_locales (rule dial_abandoned)

section \<open>Properties\<close>

text \<open>
  a punch returns a connection of its own. Whatever arrives at the listener, whatever other punches do and
  however the lookup and the delivery of the accept loop interleave with them, a connection that \<open>Punch\<close>
  returns was accepted by the listener from the address of the remote host, or made by the dial loop
  of this punch; and each of its channels holds one connection at most, so that neither the accept
  loop nor the dial loop ever blocks.
\<close>

theorem punch_returns_peer:
  assumes "punch_start remote delay p = Inr s0" and "\<And>ip. pl_waiters p ip \<noteq> Some (pl_next p)" and "punch_reaches remote s0 s"
  shows "length (pl_chan (pc_pl s) (pc_ch s)) \<le> 1 \<and> length (pc_dialed s) \<le> 1 \<and>
    (case pc_phase s of
       PnReturned (Inr c) \<Rightarrow> c \<in> set (pc_accepted s) \<and> addrIP (snd c) = addrIP remote \<or> c \<in> set (pc_made s)
     | _ \<Rightarrow> True)"
proof -
  have "punch_inv remote s" by (rule punch_sys.reached_inv [OF assms(3) punch_start_inv [OF assms(1,2)]])
  then show ?thesis by (auto simp: punch_inv_defs split: punch_phase.split sum.split)
qed

text \<open>A punch that an arriving connection wins.\<close>

lemma inbound_run:
  assumes "punch_start remote delay p = Inr s0" and "delay \<le> 0" and "addrIP (snd c) = addrIP remote"
  obtains s where "punch_reaches remote s0 s" "pc_phase s = PnReturned (Inr c)" "pc_dial s = DlDialing" "pc_dialed s = []"
proof -
  define s1 where "s1 = accept_conn c s0"
  define s2 where "s2 = deliver_conn s1"
  define s3 where "s3 = take_inbound s2"
  define s4 where "s4 = s3\<lparr>pc_phase := PnReturned (Inr c), pc_pl := punch_unregister (addrIP remote) (pc_pl s3)\<rparr>"
  have s0: "pc_phase s0 = PnRacing" "pc_dial s0 = DlDialing" "pc_dialed s0 = []" "inbound_chan s0 = []"
    "pl_waiters (pc_pl s0) (addrIP remote) = Some (pc_ch s0)" "pc_routing s0 = None"
    using assms(1,2) by (auto simp: punch_start_def punch_register_def Let_def split: if_splits)
  then have r: "pc_routing s1 = Some (c, Some (pc_ch s0))" using assms(3) by (simp add: s1_def accept_conn_def route_lookup_def)
  have ch: "inbound_chan s2 = [c]" "pc_phase s2 = PnRacing" "pc_dial s2 = DlDialing" "pc_dialed s2 = []"
    using r s0 by (simp_all add: s2_def deliver_conn_def route_deliver_def s1_def accept_conn_def)
  have s3: "pc_phase s3 = PnLeaving (Inr c)" "pc_dial s3 = DlDialing" "pc_dialed s3 = []"
    using ch by (simp_all add: s3_def take_inbound_def)
  have "punch_step remote s0 s1" unfolding s1_def by (rule punch_step.accept) (rule s0)
  moreover have "punch_step remote s1 s2" unfolding s2_def by (rule punch_step.deliver) (simp add: r)
  moreover have "punch_step remote s2 s3" unfolding s3_def by (rule punch_step.inbound_won) (simp_all add: ch)
  moreover have "punch_step remote s3 s4" unfolding s4_def by (rule punch_step.leave) (rule s3)
  ultimately have "punch_reaches remote s0 s4" by (meson converse_rtranclp_into_rtranclp rtranclp.rtrancl_refl)
  then show thesis by (rule that) (simp_all add: s4_def s3)
qed

text \<open>
  a punch that wins by an arriving connection can lose the one it dialled. If the dial succeeds after the
  inbound connection was taken, it is put into a channel that nobody reads any more: in all that
  follows it is neither returned nor closed.
\<close>

theorem dialled_connection_leaks:
  assumes start: "punch_start remote delay p = Inr s0" and "delay \<le> 0" and "addrIP (snd c) = addrIP remote"
  shows "\<exists>s. punch_reaches remote s0 s \<and>
    (\<forall>t. punch_reaches remote s t \<longrightarrow> pc_phase t = PnReturned (Inr c) \<and> pc_dial t = DlEnded \<and> pc_dialed t = [d])"
proof -
  obtain s where s: "punch_reaches remote s0 s" "pc_phase s = PnReturned (Inr c)" "pc_dial s = DlDialing" "pc_dialed s = []"
    by (rule inbound_run [OF assms])
  have "punch_reaches remote s0 (dial_done d s)"
    using s(1) punch_step.dial_ok [OF s(3)] by (rule rtranclp.rtrancl_into_rtrancl)
  moreover have "abandoned c d (dial_done d s)" using s by (simp add: abandoned_def dial_done_def)
  ultimately show ?thesis using abandoned_sys.reached_inv [of remote _ _ c d] by (auto simp: abandoned_def)
qed

text \<open>Once the accept loop has found the channel of a punch, the punch may return before the delivery.\<close>

definition stranded :: "netconn \<Rightarrow> netconn \<Rightarrow> punch \<Rightarrow> bool" where
  "stranded c d s \<longleftrightarrow> pc_phase s = PnReturned (Inr d) \<and> inbound_chan s = [c] \<and> pc_ch s < pl_next (pc_pl s)"

lemma stranded_step: "punch_step remote s t \<Longrightarrow> stranded c d s \<Longrightarrow> stranded c d t"
proof (induction rule: punch_step.induct)
  case (deliver s)
  then show ?case
    by (auto simp: stranded_def deliver_conn_def route_deliver_def Let_def split: option.split prod.split)
qed (simp_all add: stranded_def accept_conn_def dial_done_def punch_register_def punch_unregister_def Let_def)

interpretation stranded_sys: step_system "punch_step remote" "stranded c d" for remote c d
  by unfold_locales (rule stranded_step)

text \<open>
  an accepted connection can be lost with the punch it was meant for. The accept loop looks up the
  channel, the punch then returns the connection it dialled, and the delivery puts the accepted
  connection into a channel that nobody reads any more: it is neither returned nor given to the
  fallback nor closed.
\<close>

theorem accepted_connection_leaks:
  assumes start: "punch_start remote delay p = Inr s0" and "delay \<le> 0" and "addrIP (snd c) = addrIP remote"
    and "\<And>ip. pl_waiters p ip \<noteq> Some (pl_next p)"
  shows "\<exists>s. punch_reaches remote s0 s \<and>
    (\<forall>t. punch_reaches remote s t \<longrightarrow> pc_phase t = PnReturned (Inr d) \<and> c \<in> set (inbound_chan t))"
proof -
  define s1 where "s1 = accept_conn c s0"
  define s2 where "s2 = dial_done d s1"
  define s3 where "s3 = take_dialed s2"
  define s4 where "s4 = s3\<lparr>pc_phase := PnReturned (Inr d), pc_pl := punch_unregister (addrIP remote) (pc_pl s3)\<rparr>"
  have s0: "pc_phase s0 = PnRacing" "pc_dial s0 = DlDialing" "pc_dialed s0 = []" "inbound_chan s0 = []"
    "pl_waiters (pc_pl s0) (addrIP remote) = Some (pc_ch s0)" "pc_routing s0 = None"
    using assms(1,2) by (auto simp: punch_start_def punch_register_def Let_def split: if_splits)
  have lt: "pc_ch s0 < pl_next (pc_pl s0)" using punch_start_inv [OF start assms(4)] by (simp add: punch_inv_defs)
  have s3: "pc_phase s3 = PnLeaving (Inr d)" "pc_routing s3 = Some (c, Some (pc_ch s0))" "pc_pl s3 = pc_pl s0" "pc_ch s3 = pc_ch s0"
    using s0 assms(3) by (simp_all add: s3_def take_dialed_def s2_def dial_done_def s1_def accept_conn_def route_lookup_def)
  have "punch_step remote s0 s1" unfolding s1_def by (rule punch_step.accept) (rule s0)
  moreover have "punch_step remote s1 s2" unfolding s2_def by (rule punch_step.dial_ok) (simp add: s1_def accept_conn_def s0)
  moreover have "punch_step remote s2 s3" unfolding s3_def
    by (rule punch_step.dialed_won) (simp_all add: s2_def dial_done_def s1_def accept_conn_def s0)
  moreover have "punch_step remote s3 s4" unfolding s4_def by (rule punch_step.leave) (rule s3)
  moreover have "punch_step remote s4 (deliver_conn s4)" by (rule punch_step.deliver) (simp add: s4_def s3)
  ultimately have "punch_reaches remote s0 (deliver_conn s4)" by (meson converse_rtranclp_into_rtranclp rtranclp.rtrancl_refl)
  moreover have "stranded c d (deliver_conn s4)"
    using s0(4) lt by (simp add: stranded_def deliver_conn_def s4_def s3 route_deliver_def punch_unregister_def)
  ultimately show ?thesis using stranded_sys.reached_inv [of remote _ _ c d] by (fastforce simp: stranded_def)
qed

definition demo_listener :: punchListener where
  "demo_listener = \<lparr>pl_waiters = Map.empty, pl_chan = (\<lambda>_. []), pl_next = 0, pl_fallback = None, pl_dropped = []\<rparr>"

lemma demo_punch:
  obtains s0 where "punch_start ''10.0.0.7:99'' 0 demo_listener = Inr s0" "addrIP (snd (1 :: nat, ''10.0.0.7:5'')) = addrIP ''10.0.0.7:99''"
    "\<forall>ip. pl_waiters demo_listener ip \<noteq> Some (pl_next demo_listener)"
proof -
  have a: "addrIP ''10.0.0.7:99'' = ''10.0.0.7''" "addrIP ''10.0.0.7:5'' = ''10.0.0.7''"
    by (simp_all add: addrIP_def SplitHostPort_def colon_last_def)
  show thesis by (rule that) (simp_all add: punch_start_def a punch_register_def Let_def demo_listener_def)
qed

theorem dialled_connection_leaks_witness:
  "\<exists>s0 s. punch_start ''10.0.0.7:99'' 0 demo_listener = Inr s0 \<and> punch_reaches ''10.0.0.7:99'' s0 s \<and>
     pc_phase s = PnReturned (Inr (1, ''10.0.0.7:5'')) \<and> pc_dialed s = [(2, ''10.0.0.7:99'')]"
proof -
  obtain s0 where s0: "punch_start ''10.0.0.7:99'' 0 demo_listener = Inr s0" "addrIP (snd (1 :: nat, ''10.0.0.7:5'')) = addrIP ''10.0.0.7:99''"
    by (rule demo_punch)
  from dialled_connection_leaks [OF s0(1) _ s0(2), of "(2, ''10.0.0.7:99'')"] s0(1) show ?thesis by blast
qed

theorem accepted_connection_leaks_witness:
  "\<exists>s0 s. punch_start ''10.0.0.7:99'' 0 demo_listener = Inr s0 \<and> punch_reaches ''10.0.0.7:99'' s0 s \<and>
     pc_phase s = PnReturned (Inr (2, ''10.0.0.7:99'')) \<and> (1, ''10.0.0.7:5'') \<in> set (inbound_chan s)"
proof -
  obtain s0 where s0: "punch_start ''10.0.0.7:99'' 0 demo_listener = Inr s0" "addrIP (snd (1 :: nat, ''10.0.0.7:5'')) = addrIP ''10.0.0.7:99''"
    "\<forall>ip. pl_waiters demo_listener ip \<noteq> Some (pl_next demo_listener)" by (rule demo_punch)
  from accepted_connection_leaks [OF s0(1) _ s0(2) s0(3) [rule_format], of "(2, ''10.0.0.7:99'')"] s0(1) show ?thesis by blast
qed

theorem punch_returns_peer_witness:
  "\<exists>s0 s. punch_start ''10.0.0.7:99'' 0 demo_listener = Inr s0 \<and> punch_reaches ''10.0.0.7:99'' s0 s \<and>
     pc_phase s = PnReturned (Inr (1, ''10.0.0.7:5'')) \<and> ((1, ''10.0.0.7:5'') \<in> set (pc_accepted s) \<or> (1, ''10.0.0.7:5'') \<in> set (pc_made s))"
proof -
  obtain s0 where s0: "punch_start ''10.0.0.7:99'' 0 demo_listener = Inr s0" "addrIP (snd (1 :: nat, ''10.0.0.7:5'')) = addrIP ''10.0.0.7:99''"
    "\<forall>ip. pl_waiters demo_listener ip \<noteq> Some (pl_next demo_listener)" by (rule demo_punch)
  obtain s where s: "punch_reaches ''10.0.0.7:99'' s0 s" "pc_phase s = PnReturned (Inr (1, ''10.0.0.7:5''))"
    by (rule inbound_run [OF s0(1) _ s0(2)]) simp
  from punch_returns_peer [OF s0(1) s0(3) [rule_format] s(1)] s s0(1) show ?thesis by auto
qed

section \<open>The accept loop\<close>

text \<open>Where a connection that was accepted can be.\<close>

definition holders :: "punchListener \<Rightarrow> netconn set" where
  "holders p = (\<Union>ch. set (pl_chan p ch)) \<union> set (case pl_fallback p of None \<Rightarrow> [] | Some l \<Rightarrow> l) \<union> set (pl_dropped p)"

lemma route_holders: "holders (route c p) = insert c (holders p)"
proof -
  have u: "(\<Union>ch. set (((pl_chan p)(k := pl_chan p k @ [c])) ch)) = insert c (\<Union>ch. set (pl_chan p ch))" for k
    by (auto split: if_splits)
  have other: "holders (case pl_fallback p of Some l \<Rightarrow> p\<lparr>pl_fallback := Some (l @ [c])\<rparr> | None \<Rightarrow> p\<lparr>pl_dropped := pl_dropped p @ [c]\<rparr>) =
      insert c (holders p)"
    by (auto simp: holders_def split: option.split)
  show ?thesis
  proof (cases "\<exists>k. pl_waiters p (addrIP (snd c)) = Some k \<and> length (pl_chan p k) < 1")
    case True
    then obtain k where "pl_waiters p (addrIP (snd c)) = Some k" "length (pl_chan p k) < 1" by blast
    then have "route c p = p\<lparr>pl_chan := (pl_chan p)(k := pl_chan p k @ [c])\<rparr>" by (simp add: route_def route_lookup_def route_deliver_def)
    then show ?thesis using u [of k] by (simp add: holders_def del: fun_upd_apply)
  next
    case False
    then show ?thesis using other by (auto simp: route_def route_lookup_def route_deliver_def Let_def split: option.split)
  qed
qed

text \<open>
  no accepted connection is lost. Whatever punches wait, the accept loop hands every connection to a punch or to the fallback,
  or closes it when there is none, and nothing else appears anywhere.
\<close>

theorem accepted_not_lost:
  "holders (punch_acceptLoop accepted p) = set accepted \<union> holders p"
  by (induction accepted arbitrary: p) (simp_all add: punch_acceptLoop_def route_holders)

end
