(* ===== verification/Frame.thy ===== *)
theory Frame
  imports Crypto
begin

text \<open>
  \<open>internal/proto/frame.go\<close>: the session frame, its serialisation and the chat payload. Both
  serialisations are interpreted as codecs; the frame codec is canonical, so a parsed frame
  determines the bytes it came from.
\<close>

section \<open>Frames\<close>

definition ProtocolVersion :: byte where [simp]: "ProtocolVersion = 1"

definition TypeChat :: byte where [simp]: "TypeChat = 1"
definition TypePing :: byte where [simp]: "TypePing = 2"
definition TypePong :: byte where [simp]: "TypePong = 3"
definition TypeClose :: byte where [simp]: "TypeClose = 4"
definition TypePairConfirm :: byte where [simp]: "TypePairConfirm = 5"

definition headerSize :: nat where [simp]: "headerSize = 22"
definition MaxPlaintext :: nat where [simp]: "MaxPlaintext = 4096"
definition maxFrame :: nat where [simp]: "maxFrame = headerSize + MaxPlaintext + 64"

text \<open>
  The errors of package \<open>proto\<close>. A wrapped sentinel carries the text that is wrapped around it;
  \<open>NilDeref\<close> stands for the runtime panic of a nil pointer and \<open>BadKeyLength\<close> for the one
  of \<open>ed25519.Verify\<close>.
\<close>

datatype proto_error =
    ErrMalformed string
  | ErrAuth
  | ErrReplay
  | ErrBadSession
  | ErrBadEpoch
  | ErrSessionClosed
  | ErrPayloadTooLarge nat
  | ErrHandshake string
  | ErrBadSignature
  | ErrSelfConnection
  | ErrNoPrivateKey
  | ErrNotInitiator
  | ErrPairConfirm
  | ErrEmptyPairingKey
  | ErrEmptyTranscript
  | ErrCrypto crypto_error
  | NilDeref
  | BadKeyLength

record frame =
  f_typ :: byte
  f_session :: "64 word"
  f_sequence :: "64 word"
  f_rotation :: "32 word"
  f_blob :: bytes

definition marshalFrame :: "frame \<Rightarrow> bytes" where
  "marshalFrame f =
     [ProtocolVersion, f_typ f] @ PutUint64 (f_session f) @ PutUint64 (f_sequence f) @
     PutUint32 (f_rotation f) @ f_blob f"

definition knownType :: "byte \<Rightarrow> bool" where
  "knownType t \<longleftrightarrow> t \<in> {TypeChat, TypePing, TypePong, TypeClose, TypePairConfirm}"

definition parseFrame :: "bytes \<Rightarrow> proto_error + frame" where
  "parseFrame buf =
     (if length buf < headerSize then Inl (ErrMalformed ''too short'')
      else if length buf > maxFrame then Inl (ErrMalformed ''too large'')
      else if buf ! 0 \<noteq> ProtocolVersion then Inl (ErrMalformed ''bad version'')
      else if \<not> knownType (buf ! 1) then Inl (ErrMalformed ''bad type'')
      else Inr \<lparr>f_typ = buf ! 1,
                f_session = Uint64 (drop 2 buf),
                f_sequence = Uint64 (drop 10 buf),
                f_rotation = Uint32 (drop 18 buf),
                f_blob = drop headerSize buf\<rparr>)"

section \<open>Chat payloads\<close>

definition encodeChatPayload :: "string \<Rightarrow> bytes" where
  "encodeChatPayload text = PutUint16 (word_of_nat (length text)) @ str text"

definition decodeChatPayload :: "bytes \<Rightarrow> proto_error + string" where
  "decodeChatPayload b =
     (if length b < 2 then Inl (ErrMalformed ''chat payload too short'')
      else let n = unat (Uint16 (take 2 b))
           in if length b - 2 < n then Inl (ErrMalformed ''chat payload truncated'')
              else Inr (unstr (take n (drop 2 b))))"

section \<open>Both serialisations are codecs\<close>

definition frame_ok :: "frame \<Rightarrow> bool" where
  "frame_ok f \<longleftrightarrow> knownType (f_typ f) \<and> headerSize + length (f_blob f) \<le> maxFrame"

lemma length_marshalFrame [simp]: "length (marshalFrame f) = 22 + length (f_blob f)"
  by (simp add: marshalFrame_def)

lemma parse_marshal: "frame_ok f \<Longrightarrow> parseFrame (marshalFrame f) = Inr f"
  by (simp add: frame_ok_def parseFrame_def) (simp add: marshalFrame_def be_simps)

lemma marshal_parse:
  assumes "parseFrame b = Inr f"
  shows "frame_ok f \<and> marshalFrame f = b"
proof -
  from assms have len: "22 \<le> length b" "length b \<le> 4182"
    and b0: "b ! 0 = 1" and ty: "knownType (b ! 1)"
    and f: "f = \<lparr>f_typ = b ! 1, f_session = Uint64 (drop 2 b), f_sequence = Uint64 (drop 10 b),
                f_rotation = Uint32 (drop 18 b), f_blob = drop 22 b\<rparr>"
    by (auto simp: parseFrame_def split: if_splits)
  have "b = [b ! 0, b ! 1] @ drop 2 b"
    using len(1) by (intro two_prefix) simp
  moreover have "drop 2 b = take 8 (drop 2 b) @ drop 10 b"
    using append_take_drop_id [of 8 "drop 2 b"] by simp
  moreover have "drop 10 b = take 8 (drop 10 b) @ drop 18 b"
    using append_take_drop_id [of 8 "drop 10 b"] by simp
  moreover have "drop 18 b = take 4 (drop 18 b) @ drop 22 b"
    using append_take_drop_id [of 4 "drop 18 b"] by simp
  ultimately have "b = [1, b ! 1] @ take 8 (drop 2 b) @ take 8 (drop 10 b) @ take 4 (drop 18 b) @ drop 22 b"
    using b0 by simp
  moreover have "frame_ok f"
    using len ty f by (simp add: frame_ok_def)
  moreover have "marshalFrame f =
      [1, b ! 1] @ take 8 (drop 2 b) @ take 8 (drop 10 b) @ take 4 (drop 18 b) @ drop 22 b"
    using len f by (simp add: marshalFrame_def PutUint64_get PutUint32_get)
  ultimately show ?thesis by simp
qed

interpretation frame_codec: canonical_codec marshalFrame parseFrame frame_ok
  by unfold_locales (use parse_marshal marshal_parse in blast)+

lemma decode_encodeChat: "length text \<le> 65535 \<Longrightarrow> decodeChatPayload (encodeChatPayload text) = Inr text"
  by (simp add: decodeChatPayload_def encodeChatPayload_def Let_def Uint16_def PutUint16_def
      be_get_put unat_of_nat take_bit_nat_eq_self)

interpretation chat_codec: codec encodeChatPayload decodeChatPayload "\<lambda>t. length t \<le> 65535"
  by unfold_locales (rule decode_encodeChat)

section \<open>Properties\<close>

text \<open>
  the frame format is unambiguous in both directions. \<open>parseFrame\<close> returns a frame for a byte
  string exactly when the frame is well formed (a known type, a blob within the limit) and the byte
  string is its serialisation.
\<close>

theorem parseFrame_canonical:
  "parseFrame b = Inr f \<longleftrightarrow>
     knownType (f_typ f) \<and> headerSize + length (f_blob f) \<le> maxFrame \<and> b = marshalFrame f"
  using frame_codec.dec_iff [of b f] by (simp add: frame_ok_def)

end
