(* ===== verification/Replay.thy ===== *)
theory Replay
  imports Prelude
begin

text \<open>
  \<open>internal/proto/replay.go\<close>: the sliding replay window over 64-bit sequence numbers, a bitmap of
  sixteen 64-bit words in which bit \<open>k\<close> stands for the sequence number \<open>highest - k\<close>. An index
  out of the array's range would be a runtime panic, modelled as \<^const>\<open>None\<close>.

  The bitmap is related to the set of sequence numbers it represents (\<open>abs_window\<close>), the window
  check to a check on sets (\<open>spec_check\<close>), and both to the interface \<open>replay_filter\<close> that the
  session relies on.
\<close>

section \<open>The code\<close>

definition windowSize :: nat where [simp]: "windowSize = 1024"

record replayWindow =
  rw_highest :: "64 word"
  rw_started :: bool
  rw_bitmap :: "64 word list"

definition newWindow :: replayWindow where
  "newWindow = \<lparr>rw_highest = 0, rw_started = False, rw_bitmap = replicate 16 0\<rparr>"

definition bitIndex :: "replayWindow \<Rightarrow> 64 word \<Rightarrow> 64 word \<times> 64 word" where
  "bitIndex w s = (let age = rw_highest w - s in (age div 64, age mod 64))"

definition mark :: "replayWindow \<Rightarrow> 64 word \<Rightarrow> replayWindow option" where
  "mark w s =
     (let (i, b) = bitIndex w s
      in if unat i < length (rw_bitmap w)
         then Some (w\<lparr>rw_bitmap := (rw_bitmap w)[unat i := rw_bitmap w ! unat i OR push_bit (unat b) 1]\<rparr>)
         else None)"

definition seen :: "replayWindow \<Rightarrow> 64 word \<Rightarrow> bool option" where
  "seen w s =
     (let (i, b) = bitIndex w s
      in if unat i < length (rw_bitmap w)
         then Some (rw_bitmap w ! unat i AND push_bit (unat b) 1 \<noteq> 0)
         else None)"

text \<open>
  The loop of \<open>slide\<close> runs from the last word down to the first and overwrites the bitmap in place;
  \<open>slide_loop words bits (Suc i)\<close> is its iteration at index \<open>i\<close> and the ones after it.
\<close>

definition slide_word :: "nat \<Rightarrow> nat \<Rightarrow> 64 word list \<Rightarrow> nat \<Rightarrow> 64 word" where
  "slide_word words bits bm i =
     (if words \<le> i
      then (let v = push_bit bits (bm ! (i - words))
            in if bits \<noteq> 0 \<and> words < i then v OR drop_bit (64 - bits) (bm ! (i - words - 1)) else v)
      else 0)"

primrec slide_loop :: "nat \<Rightarrow> nat \<Rightarrow> nat \<Rightarrow> 64 word list \<Rightarrow> 64 word list" where
  "slide_loop words bits 0 bm = bm"
| "slide_loop words bits (Suc i) bm =
     slide_loop words bits i (bm[i := slide_word words bits bm i])"

definition slide :: "replayWindow \<Rightarrow> 64 word \<Rightarrow> replayWindow" where
  "slide w shift =
     (if unat shift \<ge> windowSize
      then w\<lparr>rw_bitmap := replicate (length (rw_bitmap w)) 0\<rparr>
      else let words = shift div 64; bits = shift mod 64
           in w\<lparr>rw_bitmap := slide_loop (unat words) (unat bits) (length (rw_bitmap w)) (rw_bitmap w)\<rparr>)"

definition check :: "replayWindow \<Rightarrow> 64 word \<Rightarrow> (bool \<times> replayWindow) option" where
  "check w s =
     (if \<not> rw_started w then
        (let w1 = w\<lparr>rw_started := True, rw_highest := s\<rparr>
         in case mark w1 s of None \<Rightarrow> None | Some w2 \<Rightarrow> Some (True, w2))
      else if s > rw_highest w then
        (let shift = s - rw_highest w;
             w1 = slide w shift;
             w2 = w1\<lparr>rw_highest := s\<rparr>
         in case mark w2 s of None \<Rightarrow> None | Some w3 \<Rightarrow> Some (True, w3))
      else if s = rw_highest w then Some (False, w)
      else
        (let age = rw_highest w - s
         in if unat age \<ge> windowSize then Some (False, w)
            else case seen w s of None \<Rightarrow> None
              | Some True \<Rightarrow> Some (False, w)
              | Some False \<Rightarrow>
                (case mark w s of None \<Rightarrow> None | Some w1 \<Rightarrow> Some (True, w1))))"

section \<open>The interface\<close>

text \<open>
  What a client of a replay filter relies on: the check always answers, accepts exactly the values
  that are not spent, spends what it accepted and never forgets a spent value.
\<close>

locale replay_filter =
  fixes chk :: "'w \<Rightarrow> 'q \<Rightarrow> (bool \<times> 'w) option"
    and spent :: "'w \<Rightarrow> 'q \<Rightarrow> bool"
    and wf :: "'w \<Rightarrow> bool"
  assumes chk_total: "wf w \<Longrightarrow> \<exists>w'. chk w q = Some (\<not> spent w q, w') \<and> wf w'"
    and chk_spends: "wf w \<Longrightarrow> chk w q = Some (b, w') \<Longrightarrow> spent w' q"
    and chk_keeps: "wf w \<Longrightarrow> chk w q = Some (b, w') \<Longrightarrow> spent w r \<Longrightarrow> spent w' r"
    and chk_refuses: "wf w \<Longrightarrow> chk w q = Some (False, w') \<Longrightarrow> w' = w"
begin

lemma chk_wf: "wf w \<Longrightarrow> chk w q = Some (b, w') \<Longrightarrow> wf w'"
  using chk_total [of w q] by auto

lemma chk_accepts_iff: "wf w \<Longrightarrow> chk w q = Some (b, w') \<Longrightarrow> b = (\<not> spent w q)"
  using chk_total [of w q] by auto

lemma feed_keeps:
  "wf w \<Longrightarrow> spent w q \<Longrightarrow>
   wf (fold (\<lambda>r v. snd (the (chk v r))) rs w) \<and> spent (fold (\<lambda>r v. snd (the (chk v r))) rs w) q"
proof (induction rs arbitrary: w)
  case Nil
  then show ?case by simp
next
  case (Cons r rs)
  obtain b w' where "chk w r = Some (b, w')" using chk_total [OF Cons.prems(1)] by blast
  with Cons show ?case by (auto intro: chk_wf chk_keeps)
qed

lemma accept_once:
  assumes "wf w" and "chk w q = Some (True, w')"
  shows "\<exists>v. chk (fold (\<lambda>r v. snd (the (chk v r))) rs w') q = Some (False, v)"
proof -
  have "wf w'" "spent w' q" using assms by (auto intro: chk_wf chk_spends)
  then have "wf (fold (\<lambda>r v. snd (the (chk v r))) rs w')"
    and "spent (fold (\<lambda>r v. snd (the (chk v r))) rs w') q"
    using feed_keeps [of w' q rs] by auto
  then show ?thesis using chk_total [of "fold (\<lambda>r v. snd (the (chk v r))) rs w'" q] by auto
qed

end

section \<open>The bitmap, bit by bit\<close>

definition window_ok :: "replayWindow \<Rightarrow> bool" where
  "window_ok w \<longleftrightarrow> length (rw_bitmap w) = 16 \<and> (rw_started w \<longrightarrow> bit (rw_bitmap w ! 0) 0)
     \<and> (\<not> rw_started w \<longrightarrow> rw_bitmap w = replicate 16 0)"

definition bm_bit :: "64 word list \<Rightarrow> nat \<Rightarrow> bool" where
  "bm_bit bm k = bit (bm ! (k div 64)) (k mod 64)"

lemma length_slide_loop [simp]: "length (slide_loop ws bs n bm) = length bm"
  by (induction n arbitrary: bm) auto

lemma slide_word_cong:
  "(\<And>j. j \<le> i \<Longrightarrow> bm ! j = bm' ! j) \<Longrightarrow> slide_word ws bs bm i = slide_word ws bs bm' i"
  by (simp add: slide_word_def Let_def)

lemma slide_loop_nth:
  "n \<le> length bm \<Longrightarrow> i < length bm \<Longrightarrow>
   slide_loop ws bs n bm ! i = (if i < n then slide_word ws bs bm i else bm ! i)"
proof (induction n arbitrary: bm)
  case 0
  then show ?case by simp
next
  case (Suc n)
  let ?bm = "bm[n := slide_word ws bs bm n]"
  have "slide_loop ws bs (Suc n) bm ! i = (if i < n then slide_word ws bs ?bm i else ?bm ! i)"
    using Suc.prems Suc.IH [of ?bm] by simp
  moreover have "i < n \<Longrightarrow> slide_word ws bs ?bm i = slide_word ws bs bm i"
    by (rule slide_word_cong) auto
  moreover have "\<not> i < n \<Longrightarrow> ?bm ! i = (if i < Suc n then slide_word ws bs bm i else bm ! i)"
    using Suc.prems by (auto simp: nth_list_update less_Suc_eq)
  ultimately show ?case by (auto simp: less_Suc_eq)
qed

lemma bit_slide_word:
  assumes "bs < 64" and "b < 64" and "i < length bm"
  shows "bit (slide_word ws bs bm i) b \<longleftrightarrow>
    64 * ws + bs \<le> 64 * i + b \<and> bm_bit bm (64 * i + b - (64 * ws + bs))"
proof (cases "ws \<le> i")
  case False
  then have "\<not> 64 * ws + bs \<le> 64 * i + b" using assms by linarith
  with False show ?thesis by (simp add: slide_word_def)
next
  case True
  show ?thesis
  proof (cases "bs \<le> b")
    case above: True
    have "64 * i + b - (64 * ws + bs) = 64 * (i - ws) + (b - bs)" using True above by (simp add: algebra_simps)
    then have "bm_bit bm (64 * i + b - (64 * ws + bs)) = bit (bm ! (i - ws)) (b - bs)"
      using assms by (simp add: bm_bit_def)
    moreover have "\<not> bit (drop_bit (64 - bs) (bm ! (i - ws - 1))) b"
      using above assms by (auto simp: bit_drop_bit_eq bit_imp_le_length dest: bit_imp_le_length)
    ultimately show ?thesis
      using True above assms by (auto simp: slide_word_def Let_def bit_or_iff bit_push_bit_iff)
  next
    case below: False
    show ?thesis
    proof (cases "ws < i")
      case lt: True
      have "64 * i + b - (64 * ws + bs) = 64 * (i - ws - 1) + (64 - bs + b)"
        using lt below assms by (simp add: algebra_simps)
      moreover have "64 - bs + b < 64" using below assms by simp
      ultimately have "bm_bit bm (64 * i + b - (64 * ws + bs)) = bit (bm ! (i - ws - 1)) (64 - bs + b)"
        by (simp add: bm_bit_def)
      moreover have "64 * ws + bs \<le> 64 * i + b" using lt assms by simp
      ultimately show ?thesis
        using True below lt assms
        by (auto simp: slide_word_def Let_def bit_or_iff bit_push_bit_iff bit_drop_bit_eq)
    next
      case False
      then have "ws = i" using True by simp
      then show ?thesis
        using below assms by (auto simp: slide_word_def Let_def bit_push_bit_iff)
    qed
  qed
qed

lemma bm_bit_slide:
  assumes "length (rw_bitmap w) = 16" and "k < 1024"
  shows "bm_bit (rw_bitmap (slide w shift)) k \<longleftrightarrow>
    unat shift \<le> k \<and> bm_bit (rw_bitmap w) (k - unat shift)"
proof (cases "1024 \<le> unat shift")
  case True
  with assms show ?thesis by (simp add: slide_def bm_bit_def)
next
  case False
  let ?ws = "unat shift div 64" and ?bs = "unat shift mod 64"
  have "k div 64 < 16" using assms by simp
  then have "bm_bit (rw_bitmap (slide w shift)) k = bit (slide_word ?ws ?bs (rw_bitmap w) (k div 64)) (k mod 64)"
    using assms False
    by (simp add: slide_def Let_def bm_bit_def slide_loop_nth unat_div_distrib unat_mod_distrib)
  also have "\<dots> \<longleftrightarrow> 64 * ?ws + ?bs \<le> 64 * (k div 64) + k mod 64 \<and>
      bm_bit (rw_bitmap w) (64 * (k div 64) + k mod 64 - (64 * ?ws + ?bs))"
    using assms by (intro bit_slide_word) auto
  finally show ?thesis by simp
qed

lemma slide_simps [simp]:
  "rw_highest (slide w n) = rw_highest w" "rw_started (slide w n) = rw_started w"
  "length (rw_bitmap (slide w n)) = length (rw_bitmap w)"
  by (simp_all add: slide_def Let_def)

lemma mark_bits:
  assumes "length (rw_bitmap w) = 16" and "unat (rw_highest w - s) < 1024"
  obtains bm where "mark w s = Some (w\<lparr>rw_bitmap := bm\<rparr>)" "length bm = 16"
    "\<And>k. k < 1024 \<Longrightarrow> bm_bit bm k \<longleftrightarrow> k = unat (rw_highest w - s) \<or> bm_bit (rw_bitmap w) k"
proof
  let ?a = "unat (rw_highest w - s)"
  let ?bm = "(rw_bitmap w)[?a div 64 := rw_bitmap w ! (?a div 64) OR push_bit (?a mod 64) 1]"
  show "mark w s = Some (w\<lparr>rw_bitmap := ?bm\<rparr>)"
    using assms by (simp add: mark_def bitIndex_def Let_def unat_div_distrib unat_mod_distrib)
  show "length ?bm = 16" using assms by simp
  fix k :: nat assume "k < 1024"
  moreover have "k = ?a \<longleftrightarrow> k div 64 = ?a div 64 \<and> k mod 64 = ?a mod 64"
    by (metis mult_div_mod_eq)
  ultimately show "bm_bit ?bm k \<longleftrightarrow> k = ?a \<or> bm_bit (rw_bitmap w) k"
    using assms
    by (auto simp: bm_bit_def nth_list_update bit_or_iff bit_exp_iff)
qed

lemma seen_bit:
  assumes "length (rw_bitmap w) = 16" and "unat (rw_highest w - s) < 1024"
  shows "seen w s = Some (bm_bit (rw_bitmap w) (unat (rw_highest w - s)))"
proof -
  have "x AND push_bit n 1 \<noteq> 0 \<longleftrightarrow> bit x n" if "n < 64" for x :: "64 word" and n
    using that by (simp add: and_exp_eq_0_iff_not_bit)
  then show ?thesis
    using assms
    by (simp add: seen_def bitIndex_def Let_def bm_bit_def unat_div_distrib unat_mod_distrib)
qed

section \<open>The specification on sets\<close>

text \<open>
  The abstract window is nothing before the first message, and afterwards the highest accepted
  sequence number together with the accepted ones among the last 1024.
\<close>

type_synonym spec_window = "(nat \<times> nat set) option"

fun spec_check :: "spec_window \<Rightarrow> nat \<Rightarrow> bool \<times> spec_window" where
  "spec_check None q = (True, Some (q, {q}))"
| "spec_check (Some (h, S)) q =
     (if h < q then (True, Some (q, insert q {x \<in> S. q - x < 1024}))
      else if 1024 \<le> h - q \<or> q \<in> S then (False, Some (h, S))
      else (True, Some (h, insert q S)))"

definition abs_window :: "replayWindow \<Rightarrow> spec_window" where
  "abs_window w =
     (if rw_started w
      then Some (unat (rw_highest w),
             {q. q \<le> unat (rw_highest w) \<and> unat (rw_highest w) - q < 1024 \<and>
                 bm_bit (rw_bitmap w) (unat (rw_highest w) - q)})
      else None)"

fun spec_spent :: "spec_window \<Rightarrow> nat \<Rightarrow> bool" where
  "spec_spent None q = False"
| "spec_spent (Some (h, S)) q = (q \<le> h \<and> (1024 \<le> h - q \<or> q \<in> S))"

lemma spec_check_accepts: "fst (spec_check a q) = (\<not> spec_spent a q)"
  by (cases "(a, q)" rule: spec_check.cases) auto

lemma spec_check_spends: "spec_spent (snd (spec_check a q)) q"
  by (cases "(a, q)" rule: spec_check.cases) auto

lemma spec_check_keeps: "spec_spent a r \<Longrightarrow> spec_spent (snd (spec_check a q)) r"
  by (cases "(a, q)" rule: spec_check.cases) auto

section \<open>The code implements the specification\<close>

lemma abs_window_Some:
  "rw_started w \<Longrightarrow> abs_window w = Some (unat (rw_highest w),
     {q. q \<le> unat (rw_highest w) \<and> unat (rw_highest w) - q < 1024 \<and>
         bm_bit (rw_bitmap w) (unat (rw_highest w) - q)})"
  by (simp add: abs_window_def)

lemma window_ok_bit0: "window_ok w \<Longrightarrow> rw_started w \<Longrightarrow> bm_bit (rw_bitmap w) 0"
  by (simp add: window_ok_def bm_bit_def)

lemma check_first:
  assumes "window_ok w" and "\<not> rw_started w"
  shows "\<exists>w'. check w s = Some (True, w') \<and> window_ok w' \<and> abs_window w' = Some (unat s, {unat s})"
proof -
  let ?w = "w\<lparr>rw_started := True, rw_highest := s\<rparr>"
  have len: "length (rw_bitmap ?w) = 16" and age: "unat (rw_highest ?w - s) < 1024"
    using assms by (simp_all add: window_ok_def)
  have zero: "\<not> bm_bit (rw_bitmap w) k" if "k < 1024" for k
    using assms that by (simp add: window_ok_def bm_bit_def)
  from mark_bits [OF len age] obtain bm
    where bm: "mark ?w s = Some (?w\<lparr>rw_bitmap := bm\<rparr>)" "length bm = 16"
      "\<And>k. k < 1024 \<Longrightarrow> bm_bit bm k \<longleftrightarrow> k = 0 \<or> bm_bit (rw_bitmap w) k" by auto
  then have bits: "\<And>k. k < 1024 \<Longrightarrow> bm_bit bm k \<longleftrightarrow> k = 0" using zero by simp
  have "check w s = Some (True, ?w\<lparr>rw_bitmap := bm\<rparr>)"
    using assms(2) bm(1) by (simp add: check_def)
  moreover have "window_ok (?w\<lparr>rw_bitmap := bm\<rparr>)"
    using bm(2) bits [of 0] by (simp add: window_ok_def bm_bit_def)
  moreover have "abs_window (?w\<lparr>rw_bitmap := bm\<rparr>) = Some (unat s, {unat s})"
    using bits by (auto simp: abs_window_def)
  ultimately show ?thesis by blast
qed

lemma check_newer:
  assumes ok: "window_ok w" "rw_started w" and gt: "rw_highest w < s"
  shows "\<exists>w'. check w s = Some (fst (spec_check (abs_window w) (unat s)), w') \<and> window_ok w'
     \<and> abs_window w' = snd (spec_check (abs_window w) (unat s))"
proof -
  let ?h = "unat (rw_highest w)"
  have lt: "?h < unat s" using gt by (simp add: word_less_nat_alt)
  have shift: "unat (s - rw_highest w) = unat s - ?h"
    using gt by (simp add: unat_sub order_less_imp_le)
  let ?w = "(slide w (s - rw_highest w))\<lparr>rw_highest := s\<rparr>"
  have len: "length (rw_bitmap ?w) = 16" and age: "unat (rw_highest ?w - s) < 1024"
    using ok by (simp_all add: window_ok_def)
  from mark_bits [OF len age] obtain bm
    where bm: "mark ?w s = Some (?w\<lparr>rw_bitmap := bm\<rparr>)" "length bm = 16"
      "\<And>k. k < 1024 \<Longrightarrow> bm_bit bm k \<longleftrightarrow> k = 0 \<or> bm_bit (rw_bitmap ?w) k" by auto
  have bits: "bm_bit bm k \<longleftrightarrow> k = 0 \<or> (unat s - ?h \<le> k \<and> bm_bit (rw_bitmap w) (k - (unat s - ?h)))"
    if "k < 1024" for k
    using bm(3) [OF that] bm_bit_slide [of w k "s - rw_highest w"] ok that shift
    by (simp add: window_ok_def)
  have "check w s = Some (True, ?w\<lparr>rw_bitmap := bm\<rparr>)"
    using ok gt bm(1) by (simp add: check_def Let_def)
  moreover have "window_ok (?w\<lparr>rw_bitmap := bm\<rparr>)"
    using ok bm(2) bits [of 0] by (simp add: window_ok_def bm_bit_def)
  moreover have "abs_window (?w\<lparr>rw_bitmap := bm\<rparr>) = snd (spec_check (abs_window w) (unat s))"
    using ok lt bits by (auto simp: abs_window_def)
  ultimately show ?thesis
    using ok lt by (auto simp: abs_window_Some)
qed

lemma check_older:
  assumes ok: "window_ok w" "rw_started w" and le: "s \<le> rw_highest w"
  shows "\<exists>w'. check w s = Some (fst (spec_check (abs_window w) (unat s)), w') \<and> window_ok w'
     \<and> abs_window w' = snd (spec_check (abs_window w) (unat s))"
proof -
  let ?h = "unat (rw_highest w)"
  have le': "unat s \<le> ?h" using le by (simp add: word_le_nat_alt)
  have age: "unat (rw_highest w - s) = ?h - unat s" using le by (simp add: unat_sub)
  have len: "length (rw_bitmap w) = 16" using ok by (simp add: window_ok_def)
  show ?thesis
  proof (cases "s = rw_highest w \<or> 1024 \<le> ?h - unat s \<or> bm_bit (rw_bitmap w) (?h - unat s)")
    case True
    then have "check w s = Some (False, w)"
      using ok le le' age len seen_bit [of w s] by (auto simp: check_def Let_def)
    moreover have "spec_check (abs_window w) (unat s) = (False, abs_window w)"
      using True ok le' window_ok_bit0 [of w] by (auto simp: abs_window_Some)
    ultimately show ?thesis using ok by simp
  next
    case False
    then have fresh: "s < rw_highest w" "?h - unat s < 1024" "\<not> bm_bit (rw_bitmap w) (?h - unat s)"
      using le by auto
    obtain bm where bm: "mark w s = Some (w\<lparr>rw_bitmap := bm\<rparr>)" "length bm = 16"
      "\<And>k. k < 1024 \<Longrightarrow> bm_bit bm k \<longleftrightarrow> k = ?h - unat s \<or> bm_bit (rw_bitmap w) k"
      using mark_bits [of w s] len age fresh(2) by auto
    have "check w s = Some (True, w\<lparr>rw_bitmap := bm\<rparr>)"
      using ok fresh age len seen_bit [of w s] bm(1) by (auto simp: check_def Let_def)
    moreover have "window_ok (w\<lparr>rw_bitmap := bm\<rparr>)"
      using ok bm(2) bm(3) [of 0] by (simp add: window_ok_def bm_bit_def)
    moreover have "{q. q \<le> ?h \<and> ?h - q < 1024 \<and> bm_bit bm (?h - q)} =
        insert (unat s) {q. q \<le> ?h \<and> ?h - q < 1024 \<and> bm_bit (rw_bitmap w) (?h - q)}"
      using bm(3) le' fresh(2) by auto
    ultimately show ?thesis
      using ok le' fresh by (auto simp: abs_window_Some)
  qed
qed

lemma check_spec:
  assumes "window_ok w"
  shows "\<exists>w'. check w s = Some (fst (spec_check (abs_window w) (unat s)), w') \<and> window_ok w'
     \<and> abs_window w' = snd (spec_check (abs_window w) (unat s))"
proof (cases "rw_started w")
  case False
  then show ?thesis using check_first [OF assms] by (auto simp: abs_window_def)
next
  case True
  then show ?thesis using check_newer [OF assms] check_older [OF assms] by (meson not_less)
qed

lemma check_refused: "check w s = Some (False, w') \<Longrightarrow> w' = w"
  by (auto simp: check_def Let_def split: if_splits option.splits bool.splits)

definition window_spent :: "replayWindow \<Rightarrow> 64 word \<Rightarrow> bool" where
  "window_spent w s = spec_spent (abs_window w) (unat s)"

interpretation window_filter: replay_filter check window_spent window_ok
proof
  fix w q assume "window_ok w"
  then show "\<exists>w'. check w q = Some (\<not> window_spent w q, w') \<and> window_ok w'"
    using check_spec [of w q] by (auto simp: window_spent_def spec_check_accepts)
next
  fix w q b w' assume "window_ok w" "check w q = Some (b, w')"
  then show "window_spent w' q"
    using check_spec [of w q] by (auto simp: window_spent_def spec_check_spends)
next
  fix w q b w' r assume "window_ok w" "check w q = Some (b, w')" "window_spent w r"
  then show "window_spent w' r"
    using check_spec [of w q] by (auto simp: window_spent_def spec_check_keeps)
qed (rule check_refused)

lemma check_case:
  assumes "window_ok w"
  shows "(case check w q of None \<Rightarrow> a | Some (False, v) \<Rightarrow> b v | Some (True, v) \<Rightarrow> c v) =
    (if window_spent w q then b w else c (snd (the (check w q))))"
proof -
  obtain v where v: "check w q = Some (\<not> window_spent w q, v)"
    using window_filter.chk_total [OF assms] by blast
  then show ?thesis by (cases "window_spent w q") (auto dest: check_refused)
qed

lemma window_ok_check: "window_ok w \<Longrightarrow> window_ok (snd (the (check w q)))"
  using window_filter.chk_total [of w q] by auto

lemma window_ok_new: "window_ok newWindow"
  by (simp add: window_ok_def newWindow_def)

section \<open>Properties\<close>

text \<open>The answers of a sequence of checks, by the code and by the specification.\<close>

fun run_checks :: "replayWindow \<Rightarrow> 64 word list \<Rightarrow> bool option list" where
  "run_checks w [] = []"
| "run_checks w (q # qs) =
     (case check w q of None \<Rightarrow> [None] | Some (b, w1) \<Rightarrow> Some b # run_checks w1 qs)"

fun spec_run :: "spec_window \<Rightarrow> nat list \<Rightarrow> bool list" where
  "spec_run a [] = []"
| "spec_run a (q # qs) = fst (spec_check a q) # spec_run (snd (spec_check a q)) qs"

lemma run_checks_spec:
  "window_ok w \<Longrightarrow> run_checks w qs = map Some (spec_run (abs_window w) (map unat qs))"
proof (induction qs arbitrary: w)
  case Nil
  then show ?case by simp
next
  case (Cons q qs)
  then show ?case using check_spec [OF Cons.prems, of q] by auto
qed

text \<open>
  C6: for every sequence of sequence numbers, the bitmap window started empty gives the answers of
  the specification on sets: a number above the highest is accepted, one at least 1024 below it is
  refused, one in between is accepted exactly if it was not accepted before. No check indexes the
  bitmap out of its range.
\<close>

theorem replay_window_refines_set:
  "run_checks newWindow qs = map Some (spec_run None (map unat qs))"
  using run_checks_spec [OF window_ok_new] by (simp add: abs_window_def newWindow_def)

text \<open>
  a sequence number that the window accepted is refused ever after, whatever is checked in
  between.
\<close>

theorem replay_window_accepts_once:
  assumes "window_ok w" and "check w q = Some (True, w')"
  shows "\<exists>v. check (fold (\<lambda>r v. snd (the (check v r))) rs w') q = Some (False, v)"
  using assms by (rule window_filter.accept_once)

theorem replay_window_accepts_once_witness:
  "\<exists>w'. check newWindow 7 = Some (True, w') \<and>
     (\<exists>v. check (fold (\<lambda>r v. snd (the (check v r))) [3, 2000, 977] w') 7 = Some (False, v))"
proof -
  obtain w' where w': "check newWindow 7 = Some (True, w')"
    using check_first [OF window_ok_new, of 7] by (auto simp: newWindow_def)
  show ?thesis using w' replay_window_accepts_once [OF window_ok_new w'] by blast
qed

end
