(* ===== verification/Session.thy ===== *)
theory Session
  imports Frame Replay
begin

text \<open>
  \<open>internal/proto/session.go\<close>, \<open>chatframe.go\<close> and \<open>pairing.go\<close>: the established channel.
  Its keys are a function of the session root, the rotation epoch, the direction and the sequence
  number; \<open>session_Seal\<close> and \<open>session_Open\<close> return their result together with the new state,
  because the code keeps an epoch rotation even when the call fails afterwards.

  The mutex is not modelled: every method holds it from its first to its last line, so the methods
  of one session run one after the other.
\<close>

section \<open>Labels and state\<close>

definition infoRoot :: string where "infoRoot = ''heimdall v1 root''"
definition infoHS2 :: string where "infoHS2 = ''heimdall v1 hs2''"
definition infoHS3 :: string where "infoHS3 = ''heimdall v1 hs3''"
definition infoSendAB :: string where "infoSendAB = ''heimdall v1 send A-to-B''"
definition infoSendBA :: string where "infoSendBA = ''heimdall v1 send B-to-A''"
definition infoMsg :: string where "infoMsg = ''heimdall v1 msg''"
definition infoRotate :: string where "infoRotate = ''heimdall v1 rotate''"
definition infoSession :: string where "infoSession = ''heimdall v1 session id''"
definition infoPairConfirm :: string where "infoPairConfirm = ''heimdall v1 pairing confirm''"

definition rotationInterval :: "64 word" where [simp]: "rotationInterval = 1000"

record chain =
  c_key :: bytes

text \<open>A nil pointer to a chain is \<^const>\<open>None\<close>, the nil root is the empty list.\<close>

record session =
  s_SessionID :: "64 word"
  s_send :: "chain option"
  s_recv :: "chain option"
  s_recvOld :: "chain option"
  s_epoch :: "32 word"
  s_sendSeq :: "64 word"
  s_recvWin :: replayWindow
  s_closed :: bool
  s_initiator :: bool
  s_root :: bytes

section \<open>Operations\<close>

definition messageKey :: "prims \<Rightarrow> chain \<Rightarrow> 64 word \<Rightarrow> crypto_error + bytes" where
  "messageKey P c seq = DeriveKey P (c_key c) (PutUint64 seq) infoMsg KeySize"

function itoa_loop :: "32 word \<Rightarrow> string \<Rightarrow> string" where
  "itoa_loop v buf =
     (if v > 0 then itoa_loop (v div 10) (char_of (48 + unat (v mod 10)) # buf) else buf)"
  by pat_completeness auto
termination
  by (relation "measure (\<lambda>(v, buf). unat v)")
    (auto simp: unat_div_distrib word_gt_0 unat_gt_0)

declare itoa_loop.simps [simp del]

definition itoa :: "32 word \<Rightarrow> string" where
  "itoa v = (if v = 0 then ''0'' else itoa_loop v [])"

definition epochSeed :: "prims \<Rightarrow> session \<Rightarrow> 32 word \<Rightarrow> crypto_error + bytes" where
  "epochSeed P s epoch = DeriveKey P (s_root s) [] (infoRotate @ '' '' @ itoa epoch) KeySize"

text \<open>
  Every error of \<open>installEpochLocked\<close> is returned before the first assignment, so a failing call
  leaves the session as it was.
\<close>

definition installEpochLocked :: "prims \<Rightarrow> 32 word \<Rightarrow> session \<Rightarrow> proto_error + session" where
  "installEpochLocked P epoch s =
     (case epochSeed P s epoch of Inl e \<Rightarrow> Inl (ErrCrypto e)
      | Inr seed \<Rightarrow>
     (case DeriveKey P seed [] infoSendAB KeySize of Inl e \<Rightarrow> Inl (ErrCrypto e)
      | Inr ab \<Rightarrow>
     (case DeriveKey P seed [] infoSendBA KeySize of Inl e \<Rightarrow> Inl (ErrCrypto e)
      | Inr ba \<Rightarrow>
        let wiped = map_option (\<lambda>c. c\<lparr>c_key := Zeroise (c_key c)\<rparr>) (s_recvOld s);
            old = (case s_recv s of Some c \<Rightarrow> Some c | None \<Rightarrow> wiped)
        in Inr (s\<lparr>s_recvOld := old,
                  s_send := Some \<lparr>c_key = (if s_initiator s then ab else ba)\<rparr>,
                  s_recv := Some \<lparr>c_key = (if s_initiator s then ba else ab)\<rparr>,
                  s_epoch := epoch\<rparr>))))"

definition newSession :: "prims \<Rightarrow> bytes \<Rightarrow> bytes \<Rightarrow> bool \<Rightarrow> proto_error + session" where
  "newSession P shared transcript initiator =
     (case DeriveKey P shared transcript infoRoot KeySize of Inl e \<Rightarrow> Inl (ErrCrypto e)
      | Inr root \<Rightarrow>
     (case DeriveKey P root [] infoSession 8 of Inl e \<Rightarrow> Inl (ErrCrypto e)
      | Inr sidBytes \<Rightarrow>
        installEpochLocked P 0
          \<lparr>s_SessionID = Uint64 sidBytes, s_send = None, s_recv = None, s_recvOld = None,
           s_epoch = 0, s_sendSeq = 0, s_recvWin = newWindow, s_closed = False,
           s_initiator = initiator, s_root = root\<rparr>))"

definition marshalHeaderOnly :: "frame \<Rightarrow> bytes" where
  "marshalHeaderOnly f =
     [ProtocolVersion, f_typ f] @ PutUint64 (f_session f) @ PutUint64 (f_sequence f) @
     PutUint32 (f_rotation f)"

definition session_Seal ::
    "prims \<Rightarrow> entropy \<Rightarrow> byte \<Rightarrow> bytes \<Rightarrow> session \<Rightarrow> (proto_error + bytes) \<times> session" where
  "session_Seal P rnd typ plaintext s =
     (if s_closed s then (Inl ErrSessionClosed, s)
      else if length plaintext > MaxPlaintext then (Inl (ErrPayloadTooLarge (length plaintext)), s)
      else
        case (if s_sendSeq s > 0 \<and> s_sendSeq s mod rotationInterval = 0
              then installEpochLocked P (s_epoch s + 1) s else Inr s) of
          Inl e \<Rightarrow> (Inl e, s)
        | Inr s1 \<Rightarrow>
          (case s_send s1 of None \<Rightarrow> (Inl NilDeref, s1)
           | Some c \<Rightarrow>
          (case messageKey P c (s_sendSeq s1) of Inl e \<Rightarrow> (Inl (ErrCrypto e), s1)
           | Inr msgKey \<Rightarrow>
             let f = \<lparr>f_typ = typ, f_session = s_SessionID s1, f_sequence = s_sendSeq s1,
                      f_rotation = s_epoch s1, f_blob = []\<rparr>;
                 hdr = marshalHeaderOnly f
             in (case crypto_Seal P rnd msgKey hdr plaintext of Inl e \<Rightarrow> (Inl (ErrCrypto e), s1)
                 | Inr blob \<Rightarrow>
                   (Inr (marshalFrame (f\<lparr>f_blob := blob\<rparr>)),
                    s1\<lparr>s_sendSeq := s_sendSeq s1 + 1\<rparr>)))))"

text \<open>
  \<open>chainForEpochLocked\<close> returns the pointer it selected, which the caller dereferences, and the
  session, which it changes when it rolls forward.
\<close>

definition chainForEpochLocked ::
    "prims \<Rightarrow> 32 word \<Rightarrow> session \<Rightarrow> (proto_error + chain option) \<times> session" where
  "chainForEpochLocked P epoch s =
     (if epoch = s_epoch s then (Inr (s_recv s), s)
      else if epoch = s_epoch s + 1 then
        (case installEpochLocked P epoch s of Inl e \<Rightarrow> (Inl e, s)
         | Inr s1 \<Rightarrow> (Inr (s_recv s1), s1))
      else if epoch + 1 = s_epoch s \<and> s_recvOld s \<noteq> None then (Inr (s_recvOld s), s)
      else (Inl ErrBadEpoch, s))"

definition session_Open :: "prims \<Rightarrow> bytes \<Rightarrow> session \<Rightarrow> (proto_error + byte \<times> bytes) \<times> session" where
  "session_Open P buf s =
     (if s_closed s then (Inl ErrSessionClosed, s)
      else
        case parseFrame buf of Inl e \<Rightarrow> (Inl e, s)
        | Inr f \<Rightarrow>
          if f_session f \<noteq> s_SessionID s then (Inl ErrBadSession, s)
          else
            (case chainForEpochLocked P (f_rotation f) s of
               (Inl e, s1) \<Rightarrow> (Inl e, s1)
             | (Inr None, s1) \<Rightarrow> (Inl NilDeref, s1)
             | (Inr (Some recv), s1) \<Rightarrow>
               (case messageKey P recv (f_sequence f) of Inl e \<Rightarrow> (Inl (ErrCrypto e), s1)
                | Inr msgKey \<Rightarrow>
                  let hdr = marshalHeaderOnly f
                  in case crypto_Open P msgKey hdr (f_blob f) of Inl e \<Rightarrow> (Inl ErrAuth, s1)
                     | Inr pt \<Rightarrow>
                       (case check (s_recvWin s1) (f_sequence f) of
                          None \<Rightarrow> (Inl NilDeref, s1)
                        | Some (False, w) \<Rightarrow> (Inl ErrReplay, s1\<lparr>s_recvWin := w\<rparr>)
                        | Some (True, w) \<Rightarrow> (Inr (f_typ f, pt), s1\<lparr>s_recvWin := w\<rparr>)))))"

definition session_Close :: "session \<Rightarrow> session" where
  "session_Close s =
     (let wipe = map_option (\<lambda>c. c\<lparr>c_key := Zeroise (c_key c)\<rparr>)
      in s\<lparr>s_closed := True, s_send := wipe (s_send s), s_recv := wipe (s_recv s),
           s_recvOld := wipe (s_recvOld s), s_root := []\<rparr>)"

definition session_Closed :: "session \<Rightarrow> bool" where
  "session_Closed s = s_closed s"

definition cloneKey :: "bytes \<Rightarrow> (string + bytes)" where
  "cloneKey k = (if length k \<noteq> KeySize then Inl ''proto: bad chain key size'' else Inr k)"

definition transcriptHash :: "prims \<Rightarrow> bytes list \<Rightarrow> bytes" where
  "transcriptHash P parts = fill (sha256_byte P (concat parts)) 32"

definition SealChat :: "prims \<Rightarrow> entropy \<Rightarrow> string \<Rightarrow> session \<Rightarrow> (proto_error + bytes) \<times> session" where
  "SealChat P rnd text s = session_Seal P rnd TypeChat (encodeChatPayload text) s"

definition DecodeChat :: "bytes \<Rightarrow> proto_error + string" where
  "DecodeChat plaintext = decodeChatPayload plaintext"

section \<open>Pairing confirmation\<close>

definition PairConfirmSize :: nat where [simp]: "PairConfirmSize = 32"

definition PairConfirm :: "prims \<Rightarrow> bytes \<Rightarrow> bytes \<Rightarrow> proto_error + bytes" where
  "PairConfirm P pairingKey transcript =
     (if pairingKey = [] then Inl ErrEmptyPairingKey
      else if transcript = [] then Inl ErrEmptyTranscript
      else case DeriveKey P pairingKey transcript infoPairConfirm PairConfirmSize of
             Inl e \<Rightarrow> Inl (ErrCrypto e) | Inr k \<Rightarrow> Inr k)"

definition VerifyPairConfirm :: "prims \<Rightarrow> bytes \<Rightarrow> bytes \<Rightarrow> bytes \<Rightarrow> bool" where
  "VerifyPairConfirm P pairingKey transcript got =
     (case PairConfirm P pairingKey transcript of Inl _ \<Rightarrow> False | Inr want \<Rightarrow> want = got)"

definition SealPairConfirm ::
    "prims \<Rightarrow> entropy \<Rightarrow> bytes \<Rightarrow> bytes \<Rightarrow> session \<Rightarrow> (proto_error + bytes) \<times> session" where
  "SealPairConfirm P rnd pairingKey transcript s =
     (case PairConfirm P pairingKey transcript of Inl e \<Rightarrow> (Inl e, s)
      | Inr confirm \<Rightarrow> session_Seal P rnd TypePairConfirm confirm s)"

section \<open>Decimal labels\<close>

definition dec_value :: "nat \<Rightarrow> string \<Rightarrow> nat" where
  "dec_value = foldl (\<lambda>a c. a * 10 + (of_char c - 48))"

lemma dec_value_Cons: "dec_value a (c # cs) = dec_value (a * 10 + (of_char c - 48)) cs"
  by (simp add: dec_value_def)

lemma dec_value_itoa_loop: "dec_value 0 (itoa_loop v buf) = dec_value (unat v) buf"
proof (induction v buf rule: itoa_loop.induct)
  case (1 v buf)
  show ?case
  proof (cases "v > 0")
    case True
    have "unat v mod 10 < 10" by simp
    then have "48 + unat v mod 10 < 256" by linarith
    then have "of_char (char_of (48 + unat (v mod 10))) - 48 = unat v mod (10 :: nat)"
      by (simp add: unat_mod_distrib)
    then have "dec_value (unat (v div 10)) (char_of (48 + unat (v mod 10)) # buf) = dec_value (unat v) buf"
      by (simp add: dec_value_Cons unat_div_distrib)
    with "1.IH" True show ?thesis by (simp add: itoa_loop.simps [of v buf])
  next
    case False
    then show ?thesis by (simp add: itoa_loop.simps [of 0 buf] word_gt_0)
  qed
qed

lemma dec_value_itoa: "dec_value 0 (itoa v) = unat v"
  by (simp add: itoa_def dec_value_itoa_loop) (simp add: dec_value_def)

lemma length_itoa_loop: "unat v < 10 ^ n \<Longrightarrow> length (itoa_loop v buf) \<le> n + length buf"
proof (induction v buf arbitrary: n rule: itoa_loop.induct)
  case (1 v buf)
  show ?case
  proof (cases "v > 0")
    case True
    then obtain m where n: "n = Suc m"
      using "1.prems" by (cases n) (auto simp: word_gt_0 unat_eq_0)
    then have "unat (v div 10) < 10 ^ m"
      using "1.prems" by (simp add: unat_div_distrib less_mult_imp_div_less mult.commute)
    with "1.IH" True n show ?thesis by (fastforce simp: itoa_loop.simps [of v buf])
  next
    case False
    then show ?thesis by (simp add: itoa_loop.simps [of v buf])
  qed
qed

section \<open>Derived keys\<close>

text \<open>
  The keys of a session as functions of its root: the seed of an epoch, the chain key of an epoch
  and a direction (\<open>True\<close> for initiator to responder), and the key of one message.
\<close>

definition rootKey :: "prims \<Rightarrow> bytes \<Rightarrow> bytes \<Rightarrow> bytes" where
  "rootKey P shared transcript = fill (hkdf_stream P shared transcript infoRoot) 32"

definition sidKey :: "prims \<Rightarrow> bytes \<Rightarrow> 64 word" where
  "sidKey P root = Uint64 (fill (hkdf_stream P root [] infoSession) 8)"

definition seedKey :: "prims \<Rightarrow> bytes \<Rightarrow> 32 word \<Rightarrow> bytes" where
  "seedKey P root e = fill (hkdf_stream P root [] (infoRotate @ '' '' @ itoa e)) 32"

definition dirKey :: "prims \<Rightarrow> bytes \<Rightarrow> 32 word \<Rightarrow> bool \<Rightarrow> bytes" where
  "dirKey P root e ab = fill (hkdf_stream P (seedKey P root e) [] (if ab then infoSendAB else infoSendBA)) 32"

definition msgKey :: "prims \<Rightarrow> bytes \<Rightarrow> 32 word \<Rightarrow> bool \<Rightarrow> 64 word \<Rightarrow> bytes" where
  "msgKey P root e ab q = fill (hkdf_stream P (dirKey P root e ab) (PutUint64 q) infoMsg) 32"

lemma length_keys [simp]:
  "length (seedKey P root e) = 32" "length (dirKey P root e ab) = 32" "length (msgKey P root e ab q) = 32"
  by (simp_all add: seedKey_def dirKey_def msgKey_def)

lemma keys_nonempty [simp]: "seedKey P root e \<noteq> []" "dirKey P root e ab \<noteq> []"
  by (simp_all add: seedKey_def dirKey_def)

lemma messageKey_dirKey [simp]: "messageKey P \<lparr>c_key = dirKey P root e ab\<rparr> q = Inr (msgKey P root e ab q)"
  by (simp add: messageKey_def DeriveKey_ok msgKey_def)

section \<open>The state invariant\<close>

text \<open>
  An open session holds the chains of its current epoch for its role and, once it has rotated, the
  receive chain of the epoch before.
\<close>

definition session_ok :: "prims \<Rightarrow> session \<Rightarrow> bool" where
  "session_ok P s \<longleftrightarrow>
     \<not> s_closed s \<and> s_root s \<noteq> [] \<and> window_ok (s_recvWin s) \<and>
     s_send s = Some \<lparr>c_key = dirKey P (s_root s) (s_epoch s) (s_initiator s)\<rparr> \<and>
     s_recv s = Some \<lparr>c_key = dirKey P (s_root s) (s_epoch s) (\<not> s_initiator s)\<rparr> \<and>
     s_recvOld s \<in> {None, Some \<lparr>c_key = dirKey P (s_root s) (s_epoch s - 1) (\<not> s_initiator s)\<rparr>}"

definition session_inv :: "prims \<Rightarrow> session \<Rightarrow> bool" where
  "session_inv P s \<longleftrightarrow> s_closed s \<or> session_ok P s"

text \<open>The session after its keys have been rolled to the next epoch.\<close>

definition rolled :: "prims \<Rightarrow> session \<Rightarrow> session" where
  "rolled P s =
     s\<lparr>s_recvOld := s_recv s,
       s_send := Some \<lparr>c_key = dirKey P (s_root s) (s_epoch s + 1) (s_initiator s)\<rparr>,
       s_recv := Some \<lparr>c_key = dirKey P (s_root s) (s_epoch s + 1) (\<not> s_initiator s)\<rparr>,
       s_epoch := s_epoch s + 1\<rparr>"

lemma rolled_simps [simp]:
  "s_root (rolled P s) = s_root s" "s_SessionID (rolled P s) = s_SessionID s"
  "s_epoch (rolled P s) = s_epoch s + 1" "s_sendSeq (rolled P s) = s_sendSeq s"
  "s_recvWin (rolled P s) = s_recvWin s" "s_closed (rolled P s) = s_closed s"
  "s_initiator (rolled P s) = s_initiator s"
  by (simp_all add: rolled_def)

lemma epochSeed_ok: "s_root s \<noteq> [] \<Longrightarrow> epochSeed P s e = Inr (seedKey P (s_root s) e)"
  by (simp add: epochSeed_def DeriveKey_ok seedKey_def)

lemma install_next:
  "session_ok P s \<Longrightarrow> installEpochLocked P (s_epoch s + 1) s = Inr (rolled P s)"
  by (auto simp: installEpochLocked_def epochSeed_ok DeriveKey_ok session_ok_def rolled_def dirKey_def Let_def)

lemma session_ok_rolled: "session_ok P s \<Longrightarrow> session_ok P (rolled P s)"
  by (auto simp: session_ok_def rolled_def)

lemma newSession_eq:
  assumes "shared \<noteq> []"
  shows "newSession P shared transcript i = Inr
    \<lparr>s_SessionID = sidKey P (rootKey P shared transcript),
     s_send = Some \<lparr>c_key = dirKey P (rootKey P shared transcript) 0 i\<rparr>,
     s_recv = Some \<lparr>c_key = dirKey P (rootKey P shared transcript) 0 (\<not> i)\<rparr>,
     s_recvOld = None, s_epoch = 0, s_sendSeq = 0, s_recvWin = newWindow, s_closed = False,
     s_initiator = i, s_root = rootKey P shared transcript\<rparr>"
  using assms
  by (auto simp: newSession_def DeriveKey_ok installEpochLocked_def epochSeed_def dirKey_def Let_def
      rootKey_def sidKey_def seedKey_def)

lemma newSession_ok: "newSession P shared transcript i = Inr s \<Longrightarrow> session_ok P s"
proof -
  assume "newSession P shared transcript i = Inr s"
  moreover from this have "shared \<noteq> []" by (auto simp: newSession_def DeriveKey_def)
  ultimately show ?thesis by (auto simp: newSession_eq session_ok_def window_ok_new rootKey_def)
qed

section \<open>Sealing and opening under the invariant\<close>

definition header_bytes :: "byte \<Rightarrow> 64 word \<Rightarrow> 64 word \<Rightarrow> 32 word \<Rightarrow> bytes" where
  "header_bytes typ sid q e = [1, typ] @ PutUint64 sid @ PutUint64 q @ PutUint32 e"

lemma marshalHeaderOnly_eq:
  "marshalHeaderOnly f = header_bytes (f_typ f) (f_session f) (f_sequence f) (f_rotation f)"
  by (simp add: marshalHeaderOnly_def header_bytes_def)

definition honest_frame ::
    "prims \<Rightarrow> bytes \<Rightarrow> bool \<Rightarrow> 64 word \<Rightarrow> byte \<Rightarrow> 64 word \<Rightarrow> 32 word \<Rightarrow> bytes \<Rightarrow> bytes \<Rightarrow> frame" where
  "honest_frame P root ab sid typ q e nonce pt =
     \<lparr>f_typ = typ, f_session = sid, f_sequence = q, f_rotation = e,
      f_blob = nonce @ gcm_seal P (msgKey P root e ab q) nonce (header_bytes typ sid q e) pt\<rparr>"

lemma honest_frame_simps [simp]:
  "f_typ (honest_frame P root ab sid typ q e nonce pt) = typ"
  "f_session (honest_frame P root ab sid typ q e nonce pt) = sid"
  "f_sequence (honest_frame P root ab sid typ q e nonce pt) = q"
  "f_rotation (honest_frame P root ab sid typ q e nonce pt) = e"
  "length (f_blob (honest_frame P root ab sid typ q e nonce pt)) = length nonce + length pt + 16"
  by (simp_all add: honest_frame_def gcm.length_seal)

lemma crypto_Open_honest:
  "length nonce = 12 \<Longrightarrow> f = honest_frame P root ab sid typ q e nonce pt \<Longrightarrow>
   crypto_Open P (msgKey P root e ab q) (marshalHeaderOnly f) (f_blob f) = Inr pt"
  by (simp add: crypto_Open_iff honest_frame_def marshalHeaderOnly_eq)

lemma crypto_Open_honest_iff:
  "crypto_Open P (msgKey P root (f_rotation f) ab (f_sequence f)) (marshalHeaderOnly f) (f_blob f) = Inr pt \<longleftrightarrow>
     (\<exists>nonce. length nonce = 12 \<and>
        f = honest_frame P root ab (f_session f) (f_typ f) (f_sequence f) (f_rotation f) nonce pt)"
    (is "?lhs \<longleftrightarrow> ?rhs")
proof
  let ?n = "take 12 (f_blob f)"
  let ?c = "gcm_seal P (msgKey P root (f_rotation f) ab (f_sequence f)) ?n
      (header_bytes (f_typ f) (f_session f) (f_sequence f) (f_rotation f)) pt"
  assume ?lhs
  then have len: "12 \<le> length (f_blob f)" and blob: "drop 12 (f_blob f) = ?c"
    by (auto simp: crypto_Open_iff marshalHeaderOnly_eq)
  have "f_blob f = ?n @ ?c" by (simp flip: blob)
  then have "f = honest_frame P root ab (f_session f) (f_typ f) (f_sequence f) (f_rotation f) ?n pt"
    by (simp add: honest_frame_def)
  with len show ?rhs by (intro exI [of _ ?n]) simp
next
  assume ?rhs
  then show ?lhs using crypto_Open_honest by metis
qed

definition rotates :: "session \<Rightarrow> bool" where
  "rotates s \<longleftrightarrow> s_sendSeq s > 0 \<and> s_sendSeq s mod 1000 = 0"

definition presend :: "prims \<Rightarrow> session \<Rightarrow> session" where
  "presend P s = (if rotates s then rolled P s else s)"

lemma presend_simps [simp]:
  "s_root (presend P s) = s_root s" "s_SessionID (presend P s) = s_SessionID s"
  "s_epoch (presend P s) = (if rotates s then s_epoch s + 1 else s_epoch s)"
  "s_sendSeq (presend P s) = s_sendSeq s" "s_recvWin (presend P s) = s_recvWin s"
  "s_closed (presend P s) = s_closed s" "s_initiator (presend P s) = s_initiator s"
  by (simp_all add: presend_def)

lemma session_ok_presend: "session_ok P s \<Longrightarrow> session_ok P (presend P s)"
  by (simp add: presend_def session_ok_rolled)

lemma session_ok_sendSeq [simp]: "session_ok P (s\<lparr>s_sendSeq := q\<rparr>) = session_ok P s"
  by (simp add: session_ok_def)

lemma Seal_rotation:
  "session_ok P s \<Longrightarrow>
   (if s_sendSeq s > 0 \<and> s_sendSeq s mod rotationInterval = 0
    then installEpochLocked P (s_epoch s + 1) s else Inr s) = Inr (presend P s)"
  by (simp add: presend_def rotates_def install_next)

lemma Seal_ok:
  assumes "session_ok P s" and "length pt \<le> 4096"
  shows "session_Seal P (Some f) typ pt s =
    (Inr (marshalFrame (honest_frame P (s_root s) (s_initiator s) (s_SessionID s) typ (s_sendSeq s)
            (s_epoch (presend P s)) (fill f 12) pt)),
     (presend P s)\<lparr>s_sendSeq := s_sendSeq s + 1\<rparr>)"
proof -
  have open_s: "\<not> s_closed s" using assms(1) by (simp add: session_ok_def)
  have send: "s_send (presend P s) =
      Some \<lparr>c_key = dirKey P (s_root s) (s_epoch (presend P s)) (s_initiator s)\<rparr>"
    using session_ok_presend [OF assms(1)] by (simp add: session_ok_def)
  have "length pt \<le> MaxPlaintext" using assms(2) by simp
  then show ?thesis
    unfolding session_Seal_def Seal_rotation [OF assms(1)] sum.case send option.case
      presend_simps messageKey_dirKey
    using open_s by (simp add: Let_def crypto_Seal_ok honest_frame_def marshalHeaderOnly_eq)
qed

lemma Seal_no_entropy:
  assumes "session_ok P s" and "length pt \<le> 4096"
  shows "session_Seal P None typ pt s = (Inl (ErrCrypto ErrCSPRNG), presend P s)"
proof -
  have open_s: "\<not> s_closed s" using assms(1) by (simp add: session_ok_def)
  have send: "s_send (presend P s) =
      Some \<lparr>c_key = dirKey P (s_root s) (s_epoch (presend P s)) (s_initiator s)\<rparr>"
    using session_ok_presend [OF assms(1)] by (simp add: session_ok_def)
  have "length pt \<le> MaxPlaintext" using assms(2) by simp
  then show ?thesis
    unfolding session_Seal_def Seal_rotation [OF assms(1)] sum.case send option.case
      presend_simps messageKey_dirKey
    using open_s by (simp add: Let_def crypto_Seal_def aead_cipher_def RandomBytes_def)
qed

definition epoch_ok :: "session \<Rightarrow> 32 word \<Rightarrow> bool" where
  "epoch_ok s e \<longleftrightarrow> e = s_epoch s \<or> e = s_epoch s + 1 \<or> e + 1 = s_epoch s \<and> s_recvOld s \<noteq> None"

definition postepoch :: "prims \<Rightarrow> 32 word \<Rightarrow> session \<Rightarrow> session" where
  "postepoch P e s = (if e = s_epoch s + 1 then rolled P s else s)"

lemma postepoch_simps [simp]:
  "s_root (postepoch P e s) = s_root s" "s_SessionID (postepoch P e s) = s_SessionID s"
  "s_epoch (postepoch P e s) = (if e = s_epoch s + 1 then e else s_epoch s)"
  "s_sendSeq (postepoch P e s) = s_sendSeq s" "s_recvWin (postepoch P e s) = s_recvWin s"
  "s_closed (postepoch P e s) = s_closed s" "s_initiator (postepoch P e s) = s_initiator s"
  by (simp_all add: postepoch_def)

lemma session_ok_postepoch: "session_ok P s \<Longrightarrow> session_ok P (postepoch P e s)"
  by (simp add: postepoch_def session_ok_rolled)

lemma chainForEpoch_ok:
  assumes "session_ok P s"
  shows "chainForEpochLocked P e s =
    (if epoch_ok s e
     then (Inr (Some \<lparr>c_key = dirKey P (s_root s) e (\<not> s_initiator s)\<rparr>), postepoch P e s)
     else (Inl ErrBadEpoch, s))"
proof -
  have "e + 1 = s_epoch s \<Longrightarrow> s_epoch s - 1 = e" by (metis add_diff_cancel_right')
  moreover have "s_recv (rolled P s) = Some \<lparr>c_key = dirKey P (s_root s) (s_epoch s + 1) (\<not> s_initiator s)\<rparr>"
    by (simp add: rolled_def)
  ultimately show ?thesis
    using assms
    by (auto simp: chainForEpochLocked_def epoch_ok_def postepoch_def install_next session_ok_def)
qed

lemma Open_eq:
  assumes "session_ok P s"
  shows "session_Open P buf s =
    (case parseFrame buf of Inl e \<Rightarrow> (Inl e, s)
     | Inr f \<Rightarrow>
       if f_session f \<noteq> s_SessionID s then (Inl ErrBadSession, s)
       else if \<not> epoch_ok s (f_rotation f) then (Inl ErrBadEpoch, s)
       else (case crypto_Open P (msgKey P (s_root s) (f_rotation f) (\<not> s_initiator s) (f_sequence f))
                   (marshalHeaderOnly f) (f_blob f) of
               Inl _ \<Rightarrow> (Inl ErrAuth, postepoch P (f_rotation f) s)
             | Inr pt \<Rightarrow>
               if window_spent (s_recvWin s) (f_sequence f)
               then (Inl ErrReplay, postepoch P (f_rotation f) s)
               else (Inr (f_typ f, pt),
                     (postepoch P (f_rotation f) s)
                       \<lparr>s_recvWin := snd (the (check (s_recvWin s) (f_sequence f)))\<rparr>)))"
proof -
  have open_s: "\<not> s_closed s" and win: "window_ok (s_recvWin s)"
    using assms by (simp_all add: session_ok_def)
  have keep: "(postepoch P e s)\<lparr>s_recvWin := s_recvWin s\<rparr> = postepoch P e s" for e
    by (simp add: postepoch_def rolled_def)
  show ?thesis
    using open_s
    by (simp add: session_Open_def chainForEpoch_ok [OF assms] check_case [OF win] keep
        split: sum.split)
qed

section \<open>Runs of a session\<close>

datatype session_op = OpSeal entropy byte bytes | OpOpen bytes | OpClose

fun session_step :: "prims \<Rightarrow> session_op \<Rightarrow> session \<Rightarrow> session" where
  "session_step P (OpSeal rnd typ pt) s = snd (session_Seal P rnd typ pt s)"
| "session_step P (OpOpen buf) s = snd (session_Open P buf s)"
| "session_step P OpClose s = session_Close s"

text \<open>The frames that the \<open>Seal\<close> calls of a run put on the wire.\<close>

fun emitted :: "prims \<Rightarrow> session_op list \<Rightarrow> session \<Rightarrow> bytes list" where
  "emitted P [] s = []"
| "emitted P (OpSeal rnd typ pt # ops) s =
     (case session_Seal P rnd typ pt s of
        (Inl _, s1) \<Rightarrow> emitted P ops s1
      | (Inr buf, s1) \<Rightarrow> buf # emitted P ops s1)"
| "emitted P (x # ops) s = emitted P ops (session_step P x s)"

definition wire_seq :: "bytes \<Rightarrow> nat" where "wire_seq buf = unat (Uint64 (drop 10 buf))"
definition wire_epoch :: "bytes \<Rightarrow> nat" where "wire_epoch buf = unat (Uint32 (drop 18 buf))"

lemma Seal_closed: "s_closed s \<Longrightarrow> session_Seal P rnd typ pt s = (Inl ErrSessionClosed, s)"
  and Open_closed: "s_closed s \<Longrightarrow> session_Open P buf s = (Inl ErrSessionClosed, s)"
  by (simp_all add: session_Seal_def session_Open_def)

lemma Seal_too_large:
  "\<not> s_closed s \<Longrightarrow> 4096 < length pt \<Longrightarrow>
   session_Seal P rnd typ pt s = (Inl (ErrPayloadTooLarge (length pt)), s)"
  by (simp add: session_Seal_def)

lemma session_ok_open: "session_ok P s \<Longrightarrow> \<not> s_closed s"
  by (simp add: session_ok_def)

lemma session_ok_window: "session_ok P s \<Longrightarrow> window_ok (s_recvWin s)"
  by (simp add: session_ok_def)

lemma session_ok_recvWin: "session_ok P s \<Longrightarrow> window_ok w \<Longrightarrow> session_ok P (s\<lparr>s_recvWin := w\<rparr>)"
  by (simp add: session_ok_def)

lemma Seal_cases:
  assumes "session_ok P s"
  shows "snd (session_Seal P rnd typ pt s) \<in> {s, presend P s, (presend P s)\<lparr>s_sendSeq := s_sendSeq s + 1\<rparr>}"
  using assms Seal_ok [OF assms, of pt] Seal_no_entropy [OF assms, of pt] Seal_too_large [of s pt]
  by (cases rnd; cases "length pt \<le> 4096") (auto simp: session_ok_open)

lemma Open_state:
  assumes "session_ok P s"
  shows "\<exists>e w. window_ok w \<and> (\<forall>q. window_spent (s_recvWin s) q \<longrightarrow> window_spent w q) \<and>
    snd (session_Open P buf s) \<in> {s, (postepoch P e s)\<lparr>s_recvWin := w\<rparr>}"
proof -
  have win: "window_ok (s_recvWin s)" using assms by (rule session_ok_window)
  have same: "postepoch P e s = (postepoch P e s)\<lparr>s_recvWin := s_recvWin s\<rparr>" for e
    by (simp add: postepoch_def rolled_def)
  have mono: "window_spent (snd (the (check (s_recvWin s) q))) r" if "window_spent (s_recvWin s) r" for q r
    using window_filter.chk_total [OF win, of q] window_filter.chk_keeps [OF win _ that] by auto
  show ?thesis
  proof (cases "parseFrame buf")
    case (Inl e)
    then show ?thesis using win by (auto simp: Open_eq [OF assms])
  next
    case (Inr f)
    show ?thesis
    proof (cases "\<exists>r. fst (session_Open P buf s) = Inr r")
      case True
      then have "snd (session_Open P buf s) = (postepoch P (f_rotation f) s)
          \<lparr>s_recvWin := snd (the (check (s_recvWin s) (f_sequence f)))\<rparr>"
        using Inr by (auto simp: Open_eq [OF assms] split: if_splits sum.splits)
      then show ?thesis using window_ok_check [OF win] mono by blast
    next
      case False
      then have "snd (session_Open P buf s) \<in> {s, postepoch P (f_rotation f) s}"
        using Inr by (auto simp: Open_eq [OF assms] split: if_splits sum.splits)
      then have "snd (session_Open P buf s) \<in>
          {s, (postepoch P (f_rotation f) s)\<lparr>s_recvWin := s_recvWin s\<rparr>}"
        by (simp flip: same)
      then show ?thesis using win by blast
    qed
  qed
qed

lemma session_ok_Seal: "session_ok P s \<Longrightarrow> session_ok P (snd (session_Seal P rnd t pt s))"
  using Seal_cases [of P s rnd t pt] session_ok_presend [of P s] by auto

lemma session_ok_Open: "session_ok P s \<Longrightarrow> session_ok P (snd (session_Open P buf s))"
  using Open_state session_ok_recvWin [OF session_ok_postepoch] by (metis insertE singletonD)

lemma session_inv_step: "session_inv P s \<Longrightarrow> session_inv P (session_step P x s)"
proof (cases x)
  case OpClose
  then show ?thesis by (simp add: session_inv_def session_Close_def Let_def)
qed (auto simp: session_inv_def Seal_closed Open_closed intro: session_ok_Seal session_ok_Open)

definition spends_more :: "session \<Rightarrow> session \<Rightarrow> bool" where
  "spends_more s t \<longleftrightarrow> (\<forall>q. window_spent (s_recvWin s) q \<longrightarrow> window_spent (s_recvWin t) q)"

lemma step_spends_more: "session_inv P s \<Longrightarrow> spends_more s (session_step P x s)"
proof (cases "s_closed s")
  case True
  then show ?thesis
    by (cases x) (auto simp: spends_more_def Seal_closed Open_closed session_Close_def Let_def)
next
  case False
  assume "session_inv P s"
  with False have ok: "session_ok P s" by (simp add: session_inv_def)
  show ?thesis
  proof (cases x)
    case (OpSeal rnd t pt)
    then show ?thesis using Seal_cases [OF ok, of rnd t pt] by (auto simp: spends_more_def)
  next
    case (OpOpen buf)
    then show ?thesis using Open_state [OF ok, of buf] by (auto simp: spends_more_def)
  next
    case OpClose
    then show ?thesis by (simp add: spends_more_def session_Close_def Let_def)
  qed
qed

interpretation session_run: op_relation "session_step P" "session_inv P" spends_more for P
proof
  show "spends_more s t \<Longrightarrow> spends_more t u \<Longrightarrow> spends_more s u" for s t u
    by (simp add: spends_more_def)
  show "session_inv P s \<Longrightarrow> spends_more s (session_step P x s)" for s x
    by (rule step_spends_more)
qed (simp_all add: session_inv_step spends_more_def)

section \<open>Two ends of one session\<close>

text \<open>
  The next sequence number of a sender is above everything the receiver's window has accepted.
\<close>

definition ahead :: "replayWindow \<Rightarrow> 64 word \<Rightarrow> bool" where
  "ahead w q \<longleftrightarrow> (case abs_window w of None \<Rightarrow> True | Some (h, _) \<Rightarrow> h < unat q)"

definition in_sync :: "prims \<Rightarrow> session \<Rightarrow> session \<Rightarrow> bool" where
  "in_sync P a b \<longleftrightarrow>
     session_ok P a \<and> session_ok P b \<and> s_root a = s_root b \<and> s_SessionID a = s_SessionID b \<and>
     s_initiator a = (\<not> s_initiator b) \<and> s_epoch a = s_epoch b \<and>
     ahead (s_recvWin b) (s_sendSeq a) \<and> ahead (s_recvWin a) (s_sendSeq b)"

lemma in_sync_sym: "in_sync P a b \<Longrightarrow> in_sync P b a"
  by (simp add: in_sync_def)

lemma ahead_fresh: "ahead w q \<Longrightarrow> \<not> window_spent w q"
  by (auto simp: ahead_def window_spent_def split: option.splits)

lemma ahead_check:
  assumes "window_ok w" and "ahead w q" and "unat q < 2 ^ 64 - 1"
  shows "ahead (snd (the (check w q))) (q + 1)"
proof -
  have "abs_window (snd (the (check w q))) = snd (spec_check (abs_window w) (unat q))"
    using check_spec [OF assms(1), of q] by auto
  moreover have "\<exists>S. snd (spec_check (abs_window w) (unat q)) = Some (unat q, S)"
    using assms(2) by (auto simp: ahead_def split: option.splits)
  moreover have "unat (q + 1) = unat q + 1"
    using assms(3) by (simp add: unat_word_ariths)
  ultimately show ?thesis by (auto simp: ahead_def)
qed

text \<open>One message: the sender seals it, the receiver opens the frame.\<close>

definition deliver ::
    "prims \<Rightarrow> entropy \<Rightarrow> byte \<Rightarrow> bytes \<Rightarrow> session \<Rightarrow> session \<Rightarrow> (proto_error + byte \<times> bytes) \<times> session \<times> session" where
  "deliver P rnd t pt a b =
     (case session_Seal P rnd t pt a of
        (Inl e, a1) \<Rightarrow> (Inl e, a1, b)
      | (Inr buf, a1) \<Rightarrow> (case session_Open P buf b of (r, b1) \<Rightarrow> (r, a1, b1)))"

lemma frame_ok_honest:
  "knownType t \<Longrightarrow> length nonce = 12 \<Longrightarrow> length pt \<le> 4096 \<Longrightarrow>
   frame_ok (honest_frame P root ab sid t q e nonce pt)"
  by (simp add: frame_ok_def)

lemma Open_honest:
  assumes ok: "session_ok P b" and t: "knownType t" and len: "length pt \<le> 4096" "length nonce = 12"
    and e: "epoch_ok b e" and fresh: "\<not> window_spent (s_recvWin b) q"
  shows "session_Open P (marshalFrame
      (honest_frame P (s_root b) (\<not> s_initiator b) (s_SessionID b) t q e nonce pt)) b =
    (Inr (t, pt), (postepoch P e b)\<lparr>s_recvWin := snd (the (check (s_recvWin b) q))\<rparr>)"
  using frame_codec.dec_enc [OF frame_ok_honest [OF t len(2,1)]] e fresh
    crypto_Open_honest [OF len(2) refl]
  by (simp add: Open_eq [OF ok])

lemma Seal_then_Open:
  assumes "in_sync P a b" and "knownType t" and "length pt \<le> 4096"
  obtains buf a' b' fr where "session_Seal P (Some f) t pt a = (Inr buf, a')" "parseFrame buf = Inr fr"
    "f_session fr = s_SessionID a" "f_sequence fr = s_sendSeq a" "f_rotation fr = s_epoch (presend P a)"
    "session_Open P buf b = (Inr (t, pt), b')"
proof -
  have sync: "session_ok P a" "session_ok P b" "s_root a = s_root b" "s_SessionID a = s_SessionID b"
      "s_initiator a = (\<not> s_initiator b)" "s_epoch a = s_epoch b" "ahead (s_recvWin b) (s_sendSeq a)"
    using assms(1) by (simp_all add: in_sync_def)
  have e: "epoch_ok b (s_epoch (presend P a))" using sync by (simp add: epoch_ok_def)
  let ?fr = "honest_frame P (s_root a) (s_initiator a) (s_SessionID a) t (s_sendSeq a)
      (s_epoch (presend P a)) (fill f 12) pt"
  have "parseFrame (marshalFrame ?fr) = Inr ?fr"
    using assms by (intro frame_codec.dec_enc frame_ok_honest) simp_all
  moreover obtain b' where "session_Open P (marshalFrame ?fr) b = (Inr (t, pt), b')"
    using Open_honest [OF sync(2) assms(2,3) _ e ahead_fresh [OF sync(7)], of "fill f 12"] sync by simp
  ultimately show ?thesis
    using that Seal_ok [OF sync(1) assms(3), of f t] by (metis honest_frame_simps(2,3,4))
qed

lemma deliver_in_sync:
  assumes sync: "in_sync P a b" and t: "knownType t" and len: "length pt \<le> 4096"
    and bound: "unat (s_sendSeq a) < 2 ^ 64 - 1"
  obtains a' b' where "deliver P (Some f) t pt a b = (Inr (t, pt), a', b')" "in_sync P a' b'"
    "s_sendSeq a' = s_sendSeq a + 1" "s_sendSeq b' = s_sendSeq b"
proof -
  let ?e = "s_epoch (presend P a)"
  let ?a = "(presend P a)\<lparr>s_sendSeq := s_sendSeq a + 1\<rparr>"
  let ?b = "(postepoch P ?e b)\<lparr>s_recvWin := snd (the (check (s_recvWin b) (s_sendSeq a)))\<rparr>"
  have ok: "session_ok P a" "session_ok P b" and eq: "s_root a = s_root b"
      "s_SessionID a = s_SessionID b" "s_initiator a = (\<not> s_initiator b)" "s_epoch a = s_epoch b"
    and ah: "ahead (s_recvWin b) (s_sendSeq a)" "ahead (s_recvWin a) (s_sendSeq b)"
    using sync by (simp_all add: in_sync_def)
  have e: "epoch_ok b ?e" using eq by (simp add: epoch_ok_def)
  have "deliver P (Some f) t pt a b = (Inr (t, pt), ?a, ?b)"
    using Open_honest [OF ok(2) t len _ e ahead_fresh [OF ah(1)], of "fill f 12"] eq
    by (simp add: deliver_def Seal_ok [OF ok(1) len])
  moreover have "in_sync P ?a ?b"
    using ok eq ah ahead_check [OF session_ok_window [OF ok(2)] ah(1) bound]
      session_ok_presend [OF ok(1)] window_ok_check [OF session_ok_window [OF ok(2)]]
      session_ok_recvWin [OF session_ok_postepoch [OF ok(2)]]
    by (simp add: in_sync_def)
  ultimately show ?thesis by (rule that) simp_all
qed

text \<open>
  A conversation: each entry says which end sends (\<^const>\<open>True\<close> for the first), the randomness
  drawn, the frame type and the payload. Every frame is opened before the next one is sealed.
\<close>

fun converse :: "prims \<Rightarrow> (bool \<times> (nat \<Rightarrow> byte) \<times> byte \<times> bytes) list \<Rightarrow> session \<Rightarrow> session \<Rightarrow>
    (proto_error + byte \<times> bytes) list" where
  "converse P [] a b = []"
| "converse P ((True, f, t, pt) # ms) a b =
     (case deliver P (Some f) t pt a b of (r, a1, b1) \<Rightarrow> r # converse P ms a1 b1)"
| "converse P ((False, f, t, pt) # ms) a b =
     (case deliver P (Some f) t pt b a of (r, b1, a1) \<Rightarrow> r # converse P ms a1 b1)"

definition sendable :: "bool \<times> (nat \<Rightarrow> byte) \<times> byte \<times> bytes \<Rightarrow> bool" where
  "sendable m = (case m of (_, _, t, pt) \<Rightarrow> knownType t \<and> length pt \<le> 4096)"

lemma unat_Suc64: "unat (q :: 64 word) < 2 ^ 64 - 1 \<Longrightarrow> unat (q + 1) = Suc (unat q)"
  by (simp add: unat_word_ariths)

lemma converse_in_sync:
  "in_sync P a b \<Longrightarrow> list_all sendable ms \<Longrightarrow>
   unat (s_sendSeq a) + length ms < 2 ^ 64 \<Longrightarrow> unat (s_sendSeq b) + length ms < 2 ^ 64 \<Longrightarrow>
   converse P ms a b = map (\<lambda>(_, _, t, pt). Inr (t, pt)) ms"
proof (induction P ms a b rule: converse.induct)
  case (1 P a b)
  then show ?case by simp
next
  case (2 P f t pt ms a b)
  then have v: "knownType t" "length pt \<le> 4096" and bd: "unat (s_sendSeq a) < 2 ^ 64 - 1"
    by (simp_all add: sendable_def)
  obtain a' b' where d: "deliver P (Some f) t pt a b = (Inr (t, pt), a', b')" "in_sync P a' b'"
    "s_sendSeq a' = s_sendSeq a + 1" "s_sendSeq b' = s_sendSeq b"
    using deliver_in_sync [OF "2.prems"(1) v bd] by blast
  have "converse P ms a' b' = map (\<lambda>(_, _, t, pt). Inr (t, pt)) ms"
    using "2.IH" [OF d(1) [symmetric] refl] "2.prems" d unat_Suc64 [OF bd] by auto
  then show ?case using d(1) by simp
next
  case (3 P f t pt ms a b)
  then have v: "knownType t" "length pt \<le> 4096" and bd: "unat (s_sendSeq b) < 2 ^ 64 - 1"
    by (simp_all add: sendable_def)
  obtain b' a' where d: "deliver P (Some f) t pt b a = (Inr (t, pt), b', a')" "in_sync P b' a'"
    "s_sendSeq b' = s_sendSeq b + 1" "s_sendSeq a' = s_sendSeq a"
    using deliver_in_sync [OF in_sync_sym [OF "3.prems"(1)] v bd] by blast
  have "converse P ms a' b' = map (\<lambda>(_, _, t, pt). Inr (t, pt)) ms"
    using "3.IH" [OF d(1) [symmetric] refl] "3.prems" d unat_Suc64 [OF bd] in_sync_sym [OF d(2)] by auto
  then show ?case using d(1) by simp
qed

lemma newSession_in_sync:
  "newSession P shared transcript True = Inr a \<Longrightarrow> newSession P shared transcript False = Inr b \<Longrightarrow>
   in_sync P a b"
proof -
  assume new: "newSession P shared transcript True = Inr a" "newSession P shared transcript False = Inr b"
  then have ne: "shared \<noteq> []" by (auto simp: newSession_def DeriveKey_def)
  have "ahead newWindow q" for q by (simp add: ahead_def abs_window_def newWindow_def)
  with new newSession_ok [OF new(1)] newSession_ok [OF new(2)] show ?thesis
    by (auto simp: newSession_eq [OF ne] in_sync_def)
qed

section \<open>Sequence numbers and epochs on the wire\<close>

lemma wire_seq_marshal [simp]: "wire_seq (marshalFrame f) = unat (f_sequence f)"
  by (simp add: wire_seq_def marshalFrame_def be_simps)

lemma wire_epoch_marshal [simp]: "wire_epoch (marshalFrame f) = unat (f_rotation f)"
  by (simp add: wire_epoch_def marshalFrame_def be_simps)

lemma emitted_closed: "s_closed s \<Longrightarrow> emitted P ops s = []"
proof (induction ops arbitrary: s)
  case Nil
  then show ?case by simp
next
  case (Cons x ops)
  then show ?case
    by (cases x) (auto simp: Seal_closed Open_closed session_Close_def Let_def)
qed

lemma Seal_emits:
  assumes "session_ok P s" and "session_Seal P rnd t pt s = (Inr buf, s')"
  shows "wire_seq buf = unat (s_sendSeq s)" and "s_sendSeq s' = s_sendSeq s + 1"
    and "wire_epoch buf = unat (s_epoch (presend P s))"
proof -
  have len: "length pt \<le> 4096"
    using assms Seal_too_large [of s pt P rnd t] session_ok_open [of P s] by (cases "length pt \<le> 4096") auto
  moreover obtain f where "rnd = Some f"
    using assms Seal_no_entropy [OF assms(1) len] by (cases rnd) auto
  ultimately show "wire_seq buf = unat (s_sendSeq s)" "s_sendSeq s' = s_sendSeq s + 1"
    "wire_epoch buf = unat (s_epoch (presend P s))"
    using assms Seal_ok [OF assms(1) len] by auto
qed

lemma Seal_fails_sendSeq:
  assumes "session_ok P s" and "session_Seal P rnd t pt s = (Inl e, s')"
  shows "s_sendSeq s' = s_sendSeq s"
proof (cases "length pt \<le> 4096")
  case True
  then show ?thesis
    using assms Seal_ok [OF assms(1) True] Seal_no_entropy [OF assms(1) True] by (cases rnd) auto
next
  case False
  then show ?thesis using assms Seal_too_large [of s pt P rnd t] session_ok_open [of P s] by auto
qed

lemma Open_sendSeq: "session_ok P s \<Longrightarrow> s_sendSeq (snd (session_Open P buf s)) = s_sendSeq s"
  using Open_state [of P s buf] by auto

lemma emitted_increasing:
  "session_inv P s \<Longrightarrow> unat (s_sendSeq s) + length ops < 2 ^ 64 \<Longrightarrow>
   sorted_wrt (<) (map wire_seq (emitted P ops s)) \<and>
   (\<forall>buf \<in> set (emitted P ops s). unat (s_sendSeq s) \<le> wire_seq buf)"
proof (induction ops arbitrary: s)
  case Nil
  then show ?case by simp
next
  case (Cons x ops)
  show ?case
  proof (cases "s_closed s")
    case True
    then show ?thesis by (simp add: emitted_closed)
  next
    case False
    then have ok: "session_ok P s" using Cons.prems by (simp add: session_inv_def)
    have inv: "session_inv P (session_step P x s)" using Cons.prems(1) by (rule session_inv_step)
    show ?thesis
    proof (cases x)
      case (OpSeal rnd t pt)
      obtain r s' where seal: "session_Seal P rnd t pt s = (r, s')" by fastforce
      with inv OpSeal have inv': "session_inv P s'" by simp
      show ?thesis
      proof (cases r)
        case (Inl e)
        then have "s_sendSeq s' = s_sendSeq s" using Seal_fails_sendSeq [OF ok] seal by blast
        then show ?thesis using Cons.IH [OF inv'] Cons.prems OpSeal seal Inl by simp
      next
        case (Inr buf)
        then have "wire_seq buf = unat (s_sendSeq s)" "unat (s_sendSeq s') = Suc (unat (s_sendSeq s))"
          using Seal_emits [OF ok] seal Cons.prems unat_Suc64 [of "s_sendSeq s"] by auto
        then show ?thesis
          using Cons.IH [OF inv'] Cons.prems OpSeal seal Inr by (auto simp: Suc_le_eq)
      qed
    next
      case (OpOpen buf)
      then show ?thesis
        using Cons.IH [OF inv] Cons.prems Open_sendSeq [OF ok] by simp
    next
      case OpClose
      then show ?thesis by (simp add: emitted_closed session_Close_def Let_def)
    qed
  qed
qed

text \<open>A sender that only seals: after \<open>k\<close> messages it is in epoch \<open>(k - 1) div 1000\<close>.\<close>

definition sent_state :: "prims \<Rightarrow> nat \<Rightarrow> session \<Rightarrow> bool" where
  "sent_state P k s \<longleftrightarrow>
     session_ok P s \<and> s_sendSeq s = word_of_nat k \<and> s_epoch s = word_of_nat ((k - 1) div 1000)"

lemma rotates_unat: "rotates s \<longleftrightarrow> unat (s_sendSeq s) > 0 \<and> unat (s_sendSeq s) mod 1000 = 0"
proof -
  have "unat (s_sendSeq s mod 1000) = unat (s_sendSeq s) mod 1000"
    by (simp add: unat_mod_distrib)
  then have "s_sendSeq s mod 1000 = 0 \<longleftrightarrow> unat (s_sendSeq s) mod 1000 = 0"
    by (metis unat_eq_0)
  then show ?thesis by (simp add: rotates_def word_less_nat_alt)
qed

lemma sent_state_epoch:
  assumes "sent_state P k s" and "k < 2 ^ 64"
  shows "s_epoch (presend P s) = word_of_nat (k div 1000)"
proof -
  have q: "unat (s_sendSeq s) = k"
    using assms by (simp add: sent_state_def unat_of_nat take_bit_nat_eq_self)
  then have "rotates s \<longleftrightarrow> k > 0 \<and> k mod 1000 = 0"
    by (simp add: rotates_unat)
  moreover have "k div 1000 = (if k > 0 \<and> k mod 1000 = 0 then Suc ((k - 1) div 1000) else (k - 1) div 1000)"
    by (cases k) (auto simp: div_Suc mod_Suc)
  ultimately show ?thesis using assms by (simp add: sent_state_def)
qed

lemma Seal_sent_state:
  assumes "sent_state P k s" and "k < 2 ^ 64" and "length pt \<le> 4096"
  obtains buf s' where "session_Seal P (Some f) t pt s = (Inr buf, s')" "sent_state P (Suc k) s'"
    "wire_seq buf = k" "wire_epoch buf = (k div 1000) mod 2 ^ 32"
proof -
  have ok: "session_ok P s" and q: "s_sendSeq s = word_of_nat k"
    using assms by (simp_all add: sent_state_def)
  obtain buf where seal: "session_Seal P (Some f) t pt s =
      (Inr buf, (presend P s)\<lparr>s_sendSeq := s_sendSeq s + 1\<rparr>)"
    using Seal_ok [OF ok assms(3)] by blast
  have e: "s_epoch (presend P s) = word_of_nat (k div 1000)"
    using assms(1,2) by (rule sent_state_epoch)
  have "sent_state P (Suc k) ((presend P s)\<lparr>s_sendSeq := s_sendSeq s + 1\<rparr>)"
    using session_ok_presend [OF ok] e q by (simp add: sent_state_def)
  moreover have "wire_seq buf = k" "wire_epoch buf = (k div 1000) mod 2 ^ 32"
    using Seal_emits [OF ok seal] e q assms(2)
    by (simp_all add: unat_of_nat take_bit_nat_eq_self take_bit_eq_mod)
  ultimately show ?thesis using that seal by blast
qed

lemma emitted_one_way:
  "sent_state P k s \<Longrightarrow> k + length ms \<le> 2 ^ 64 \<Longrightarrow> list_all (\<lambda>(f, t, pt). length pt \<le> 4096) ms \<Longrightarrow>
   map (\<lambda>buf. (wire_seq buf, wire_epoch buf)) (emitted P (map (\<lambda>(f, t, pt). OpSeal (Some f) t pt) ms) s) =
   map (\<lambda>n. (n, (n div 1000) mod 2 ^ 32)) [k..<k + length ms]"
proof (induction ms arbitrary: k s)
  case Nil
  then show ?case by simp
next
  case (Cons m ms)
  obtain f t pt where m: "m = (f, t, pt)" by (cases m) auto
  have "k < 2 ^ 64" "length pt \<le> 4096" using Cons.prems m by auto
  then obtain buf s' where seal: "session_Seal P (Some f) t pt s = (Inr buf, s')"
      "sent_state P (Suc k) s'" "wire_seq buf = k" "wire_epoch buf = (k div 1000) mod 2 ^ 32"
    using Seal_sent_state [OF Cons.prems(1), where f = f and t = t and pt = pt] by blast
  have "[k..<k + length (m # ms)] = k # [Suc k..<Suc k + length ms]" by (simp add: upt_rec)
  then show ?case using Cons.IH [OF seal(2)] Cons.prems m seal by simp
qed

section \<open>Properties\<close>

text \<open>
  two sessions built from the same handshake secret and transcript, one per role, deliver every
  conversation: whichever end sends each message, and through every key rotation on the way, the
  other end opens the frame to exactly the type and the payload that were sealed.
\<close>

theorem conversation_delivered:
  assumes "newSession P shared transcript True = Inr a"
    and "newSession P shared transcript False = Inr b"
    and "list_all sendable ms" and "length ms < 2 ^ 64"
  shows "converse P ms a b = map (\<lambda>(_, _, t, pt). Inr (t, pt)) ms"
proof -
  have ne: "shared \<noteq> []" using assms(1) by (auto simp: newSession_def DeriveKey_def)
  have "s_sendSeq a = 0" "s_sendSeq b = 0"
    using assms(1,2) by (auto simp: newSession_eq [OF ne])
  then show ?thesis
    using converse_in_sync [OF newSession_in_sync [OF assms(1,2)] assms(3)] assms(4) by simp
qed

theorem conversation_delivered_witness:
  "\<exists>a b. newSession demo_prims [1] [2] True = Inr a \<and> newSession demo_prims [1] [2] False = Inr b \<and>
     converse demo_prims [(True, \<lambda>_. 0, TypeChat, [104, 105]), (False, \<lambda>_. 9, TypePong, [])] a b =
       [Inr (TypeChat, [104, 105]), Inr (TypePong, [])]"
proof -
  obtain a b where new: "newSession demo_prims [1] [2] True = Inr a" "newSession demo_prims [1] [2] False = Inr b"
    using newSession_eq [of "[1]" demo_prims "[2]"] by blast
  have "list_all sendable [(True, \<lambda>_. 0, TypeChat, [104, 105]), (False, \<lambda>_. 9, TypePong, [])]"
    by (simp add: sendable_def knownType_def)
  from conversation_delivered [OF new this] new show ?thesis by simp
qed

text \<open>
  C2: what an open session accepts. \<open>Open\<close> returns a type and a payload exactly for the frames
  that carry this session's identifier, a rotation epoch within one of the current one, a sequence
  number the replay window has not spent, and a blob that sealing this payload under the message
  key of the session root, that epoch, the peer's direction and that sequence number, with this
  very header as additional data, produces for some nonce. Nothing else reaches the caller.
\<close>

theorem Open_accepts_iff:
  assumes "session_ok P s"
  shows "fst (session_Open P buf s) = Inr (t, pt) \<longleftrightarrow>
    (\<exists>q e nonce. buf = marshalFrame (honest_frame P (s_root s) (\<not> s_initiator s) (s_SessionID s) t q e nonce pt)
       \<and> knownType t \<and> length nonce = NonceSize \<and> length pt \<le> MaxPlaintext + 36
       \<and> epoch_ok s e \<and> \<not> window_spent (s_recvWin s) q)"
    (is "?lhs \<longleftrightarrow> ?rhs")
proof
  assume l: ?lhs
  then obtain f where f: "parseFrame buf = Inr f"
    by (auto simp: Open_eq [OF assms] split: sum.splits)
  with l have sid: "f_session f = s_SessionID s" and e: "epoch_ok s (f_rotation f)"
    and op: "crypto_Open P (msgKey P (s_root s) (f_rotation f) (\<not> s_initiator s) (f_sequence f))
        (marshalHeaderOnly f) (f_blob f) = Inr pt"
    and fresh: "\<not> window_spent (s_recvWin s) (f_sequence f)" and t: "t = f_typ f"
    by (auto simp: Open_eq [OF assms] split: sum.splits if_splits)
  from op obtain nonce where nonce: "length nonce = 12"
    "f = honest_frame P (s_root s) (\<not> s_initiator s) (s_SessionID s) t (f_sequence f) (f_rotation f) nonce pt"
    unfolding crypto_Open_honest_iff sid t by blast
  have ok: "frame_ok f" "buf = marshalFrame f" using frame_codec.enc_dec [OF f] by auto
  have "length (f_blob f) = 12 + length pt + 16" using nonce by (metis honest_frame_simps(5))
  then have "length pt \<le> 4132" using ok(1) by (simp add: frame_ok_def)
  moreover have "knownType t" using ok(1) t by (simp add: frame_ok_def)
  moreover have "buf = marshalFrame (honest_frame P (s_root s) (\<not> s_initiator s) (s_SessionID s) t
      (f_sequence f) (f_rotation f) nonce pt)"
    using ok(2) arg_cong [OF nonce(2), of marshalFrame] by (rule trans)
  ultimately show ?rhs
    using nonce(1) e fresh
    by (intro exI [of _ "f_sequence f"] exI [of _ "f_rotation f"] exI [of _ nonce]) simp
next
  assume ?rhs
  then obtain q e nonce where buf: "buf = marshalFrame (honest_frame P (s_root s) (\<not> s_initiator s) (s_SessionID s) t q e nonce pt)"
    and c: "knownType t" "length nonce = 12" "length pt \<le> 4132" "epoch_ok s e" "\<not> window_spent (s_recvWin s) q"
    by auto
  have "frame_ok (honest_frame P (s_root s) (\<not> s_initiator s) (s_SessionID s) t q e nonce pt)"
    using c by (simp add: frame_ok_def)
  then show ?lhs
    using c crypto_Open_honest [OF c(2) refl] by (simp add: buf Open_eq [OF assms] frame_codec.dec_enc)
qed

theorem Open_accepts_iff_witness:
  "\<exists>s. newSession demo_prims [1] [2] True = Inr s \<and>
     (fst (session_Open demo_prims [1] s) = Inr (TypeChat, []) \<longleftrightarrow>
      (\<exists>q e nonce. [1] = marshalFrame (honest_frame demo_prims (s_root s) (\<not> s_initiator s) (s_SessionID s) TypeChat q e nonce [])
         \<and> knownType TypeChat \<and> length nonce = NonceSize \<and> length ([] :: bytes) \<le> MaxPlaintext + 36
         \<and> epoch_ok s e \<and> \<not> window_spent (s_recvWin s) q))"
proof -
  obtain s where new: "newSession demo_prims [1] [2] True = Inr s"
    using newSession_eq [of "[1]" demo_prims "[2]"] by blast
  show ?thesis using new Open_accepts_iff [OF newSession_ok [OF new]] by blast
qed

text \<open>
  C3: replay protection over the life of a session. Once a frame has been accepted, no frame with
  its sequence number is accepted again, whatever sequence of seals, opens and closes happens in
  between.
\<close>

theorem accepted_at_most_once:
  assumes inv: "session_inv P s" and first: "session_Open P buf s = (Inr r, s')"
    and "parseFrame buf = Inr f" and "parseFrame buf' = Inr f'" and "f_sequence f' = f_sequence f"
  shows "\<exists>e. fst (session_Open P buf' (fold (session_step P) ops s')) = Inl e"
proof -
  have ok: "session_ok P s"
    using inv first by (auto simp: session_inv_def Open_closed)
  have s': "s_recvWin s' = snd (the (check (s_recvWin s) (f_sequence f)))"
    using first assms(3) by (auto simp: Open_eq [OF ok] split: sum.splits if_splits)
  have "window_spent (s_recvWin s') (f_sequence f)"
    using window_filter.chk_total [OF session_ok_window [OF ok], of "f_sequence f"]
      window_filter.chk_spends [OF session_ok_window [OF ok], of "f_sequence f"] s' by auto
  moreover have inv': "session_inv P s'"
    using session_inv_step [OF inv, of "OpOpen buf"] first by simp
  ultimately have spent: "window_spent (s_recvWin (fold (session_step P) ops s')) (f_sequence f')"
    using session_run.run_rel [OF inv', of ops] assms(5) by (simp add: spends_more_def)
  have later: "session_inv P (fold (session_step P) ops s')"
    using inv' by (rule session_run.run_inv)
  show ?thesis
  proof (cases "s_closed (fold (session_step P) ops s')")
    case True
    then show ?thesis by (simp add: Open_closed)
  next
    case False
    then have "session_ok P (fold (session_step P) ops s')"
      using later by (auto simp: session_inv_def)
    from Open_eq [OF this, of buf'] show ?thesis using spent assms(4) by (simp split: sum.splits)
  qed
qed

lemma demo_sessions:
  obtains a b where "newSession demo_prims [1] [2] True = Inr a" "newSession demo_prims [1] [2] False = Inr b"
    "in_sync demo_prims a b" "s_sendSeq a = 0" "s_sendSeq b = 0"
proof -
  obtain a b where new: "newSession demo_prims [1] [2] True = Inr a" "newSession demo_prims [1] [2] False = Inr b"
    using newSession_eq [of "[1]" demo_prims "[2]"] by blast
  moreover have "s_sendSeq a = 0" "s_sendSeq b = 0"
    using new newSession_eq [of "[1]" demo_prims "[2]"] by auto
  ultimately show ?thesis using that newSession_in_sync by blast
qed

theorem accepted_at_most_once_witness:
  "\<exists>a b buf a' b'. newSession demo_prims [1] [2] True = Inr a \<and> newSession demo_prims [1] [2] False = Inr b \<and>
     session_Seal demo_prims (Some (\<lambda>_. 0)) TypeChat [104] a = (Inr buf, a') \<and>
     session_Open demo_prims buf b = (Inr (TypeChat, [104]), b') \<and>
     (\<exists>e. fst (session_Open demo_prims buf (fold (session_step demo_prims) [OpOpen buf, OpSeal None 2 []] b')) = Inl e)"
proof -
  obtain a b where d: "newSession demo_prims [1] [2] True = Inr a" "newSession demo_prims [1] [2] False = Inr b"
    "in_sync demo_prims a b" by (rule demo_sessions)
  have "knownType TypeChat" "length ([104] :: bytes) \<le> 4096" by (simp_all add: knownType_def)
  then obtain buf a' b' fr
    where so: "session_Seal demo_prims (Some (\<lambda>_. 0)) TypeChat [104] a = (Inr buf, a')"
      "parseFrame buf = Inr fr" "session_Open demo_prims buf b = (Inr (TypeChat, [104]), b')"
    by (rule Seal_then_Open [OF d(3)])
  have "session_inv demo_prims b" using newSession_ok [OF d(2)] by (simp add: session_inv_def)
  from accepted_at_most_once [OF this so(3) so(2) so(2) refl, of "[OpOpen buf, OpSeal None 2 []]"] d so
  show ?thesis by blast
qed

text \<open>
  sequence numbers leave a session strictly increasing, for every interleaving of seals, opens
  and closes, failing ones included, of fewer than \<open>2 ^ 64\<close> operations. So no two frames of a
  session are sealed under the same message-key input.
\<close>

theorem sealed_sequence_numbers_increase:
  assumes "newSession P shared transcript i = Inr s" and "length ops < 2 ^ 64"
  shows "sorted_wrt (<) (map wire_seq (emitted P ops s))"
proof -
  have "shared \<noteq> []" using assms(1) by (auto simp: newSession_def DeriveKey_def)
  then have "s_sendSeq s = 0" using assms(1) by (auto simp: newSession_eq)
  moreover have "session_inv P s" using newSession_ok [OF assms(1)] by (simp add: session_inv_def)
  ultimately show ?thesis using emitted_increasing [of P s ops] assms(2) by simp
qed

theorem sealed_sequence_numbers_increase_witness:
  "\<exists>s. newSession demo_prims [1] [2] True = Inr s \<and>
     sorted_wrt (<) (map wire_seq (emitted demo_prims
       [OpSeal (Some (\<lambda>_. 0)) TypePing [], OpSeal None TypePing [], OpOpen [1], OpSeal (Some (\<lambda>_. 3)) TypeChat [7]] s))"
proof -
  obtain s where new: "newSession demo_prims [1] [2] True = Inr s" by (rule demo_sessions)
  have "length [OpSeal (Some (\<lambda>_. 0)) TypePing [], OpSeal None TypePing [], OpOpen [1],
      OpSeal (Some (\<lambda>_. 3)) TypeChat [7]] < 2 ^ 64" by simp
  from sealed_sequence_numbers_increase [OF new this] new show ?thesis by blast
qed

text \<open>
  the rotation schedule of a session that only sends. Its \<open>n\<close>-th frame (from 0) carries sequence
  number \<open>n\<close> and rotation epoch \<open>n div 1000\<close>, the latter modulo \<open>2 ^ 32\<close>.
\<close>

theorem rotation_schedule:
  assumes "newSession P shared transcript i = Inr s" and "length ms \<le> 2 ^ 64"
    and "list_all (\<lambda>(f, t, pt). length pt \<le> MaxPlaintext) ms"
  shows "map (\<lambda>buf. (wire_seq buf, wire_epoch buf))
           (emitted P (map (\<lambda>(f, t, pt). OpSeal (Some f) t pt) ms) s) =
         map (\<lambda>n. (n, (n div 1000) mod 2 ^ 32)) [0..<length ms]"
proof -
  have "shared \<noteq> []" using assms(1) by (auto simp: newSession_def DeriveKey_def)
  then have "s_sendSeq s = 0" "s_epoch s = 0" using assms(1) by (auto simp: newSession_eq)
  then have "sent_state P 0 s" using newSession_ok [OF assms(1)] by (simp add: sent_state_def)
  from emitted_one_way [OF this, of ms] assms(2,3) show ?thesis by simp
qed

theorem rotation_schedule_witness:
  "\<exists>s. newSession demo_prims [1] [2] True = Inr s \<and>
     map (\<lambda>buf. (wire_seq buf, wire_epoch buf))
       (emitted demo_prims (map (\<lambda>(f, t, pt). OpSeal (Some f) t pt) (replicate 2001 (\<lambda>_. 0, TypePing, []))) s) =
     map (\<lambda>n. (n, (n div 1000) mod 2 ^ 32))
       [0..<length (replicate 2001 (\<lambda>_ :: nat. 0 :: byte, TypePing, [] :: bytes))]"
proof -
  obtain s where new: "newSession demo_prims [1] [2] True = Inr s" by (rule demo_sessions)
  have "length (replicate 2001 (\<lambda>_ :: nat. 0 :: byte, TypePing, [] :: bytes)) \<le> 2 ^ 64"
    unfolding length_replicate by simp
  moreover have "list_all (\<lambda>(f, t, pt). length pt \<le> MaxPlaintext)
      (replicate 2001 (\<lambda>_ :: nat. 0 :: byte, TypePing, [] :: bytes))"
    unfolding list_all_iff set_replicate_conv_if by simp
  ultimately show ?thesis using new rotation_schedule [OF new] by blast
qed

end
