(* ===== verification/SessionProps.thy ===== *)
theory SessionProps
  imports Session
begin

text \<open>
  Further properties of the session layer: what a failing \<open>Open\<close> leaves behind and what forged
  frames do to a live session, the end of a session, chat payloads through a session, the epoch
  labels, and the pairing confirmation with its reflection.
\<close>

section \<open>Forged frames\<close>

text \<open>A blob that no plaintext seals to: the right tag of the empty message, every byte off by one.\<close>

definition forged_blob :: "prims \<Rightarrow> bytes \<Rightarrow> bytes \<Rightarrow> bytes" where
  "forged_blob P key aad =
     replicate 12 0 @ map (\<lambda>b. b + 1) (gcm_seal P key (replicate 12 0) aad [])"

lemma length_forged_blob [simp]: "length (forged_blob P key aad) = 28"
  by (simp add: forged_blob_def gcm.length_seal)

lemma forged_blob_refused: "\<exists>e. crypto_Open P key aad (forged_blob P key aad) = Inl e"
proof (rule ccontr)
  let ?c = "gcm_seal P key (replicate 12 0) aad"
  assume "\<not> ?thesis"
  then obtain pt where "crypto_Open P key aad (forged_blob P key aad) = Inr pt"
    by (cases "crypto_Open P key aad (forged_blob P key aad)") auto
  then have bad: "map (\<lambda>b. b + 1) (?c []) = ?c pt"
    by (simp add: crypto_Open_iff forged_blob_def)
  moreover from arg_cong [OF this, of length] have "pt = []"
    by (simp add: gcm.length_seal)
  ultimately have "map (\<lambda>b. b + 1) (?c []) ! 0 = ?c [] ! 0" by simp
  moreover have "0 < length (?c [])" by (simp add: gcm.length_seal)
  ultimately show False by simp
qed

definition forged_frame :: "prims \<Rightarrow> session \<Rightarrow> 32 word \<Rightarrow> frame" where
  "forged_frame P s e =
     (let f = \<lparr>f_typ = TypePing, f_session = s_SessionID s, f_sequence = 0, f_rotation = e, f_blob = []\<rparr>
      in f\<lparr>f_blob := forged_blob P (msgKey P (s_root s) e (\<not> s_initiator s) 0) (marshalHeaderOnly f)\<rparr>)"

lemma forged_frame_parses: "parseFrame (marshalFrame (forged_frame P s e)) = Inr (forged_frame P s e)"
  by (rule frame_codec.dec_enc) (simp add: frame_ok_def forged_frame_def Let_def knownType_def)

lemma Open_forged_frame:
  assumes "session_ok P s" and "epoch_ok s e"
  shows "session_Open P (marshalFrame (forged_frame P s e)) s = (Inl ErrAuth, postepoch P e s)"
proof -
  have "marshalHeaderOnly (forged_frame P s e) =
      marshalHeaderOnly \<lparr>f_typ = TypePing, f_session = s_SessionID s, f_sequence = 0, f_rotation = e, f_blob = []\<rparr>"
    by (simp add: forged_frame_def marshalHeaderOnly_eq Let_def)
  then obtain x where "crypto_Open P (msgKey P (s_root s) e (\<not> s_initiator s) 0)
      (marshalHeaderOnly (forged_frame P s e)) (f_blob (forged_frame P s e)) = Inl x"
    using forged_blob_refused [of P "msgKey P (s_root s) e (\<not> s_initiator s) 0"
        "marshalHeaderOnly (forged_frame P s e)"]
    by (auto simp: forged_frame_def Let_def)
  then show ?thesis
    using assms(2) by (simp add: Open_eq [OF assms(1)] forged_frame_parses)
      (simp add: forged_frame_def Let_def)
qed

lemma Open_ErrAuth_state:
  assumes "session_ok P s" and "session_Open P buf s = (Inl ErrAuth, s')" and "parseFrame buf = Inr f"
  shows "s' = postepoch P (f_rotation f) s"
  using assms(2,3) by (simp add: Open_eq [OF assms(1)] split: if_splits sum.splits)

lemma ErrBadEpoch_deliver:
  assumes "session_ok P a" and "session_ok P b" and "s_root a = s_root b" and "s_SessionID a = s_SessionID b"
    and "\<not> rotates a" and "\<not> epoch_ok b (s_epoch a)" and "knownType t" and "length pt \<le> 4096"
  shows "fst (deliver P (Some f) t pt a b) = Inl ErrBadEpoch"
  using assms(3-6) frame_codec.dec_enc [OF frame_ok_honest [OF assms(7) _ assms(8)]]
  by (simp add: deliver_def Seal_ok [OF assms(1,8)] Open_eq [OF assms(2)])

section \<open>Properties\<close>

text \<open>
  what a failing \<open>Open\<close> leaves behind. A refused frame changes nothing, with one exception:
  a frame of this session whose header names the next epoch and that then fails authentication or
  the replay check leaves the session rolled to that epoch.
\<close>

theorem failed_open_state:
  assumes "session_ok P s" and "session_Open P buf s = (Inl e, s')"
  shows "s' = s \<or>
    (s' = rolled P s \<and> e \<in> {ErrAuth, ErrReplay} \<and>
     (\<exists>f. parseFrame buf = Inr f \<and> f_session f = s_SessionID s \<and> f_rotation f = s_epoch s + 1))"
proof (cases "parseFrame buf")
  case (Inl x)
  then show ?thesis using assms(2) by (simp add: Open_eq [OF assms(1)])
next
  case (Inr f)
  then show ?thesis
    using assms(2) by (auto simp: Open_eq [OF assms(1)] postepoch_def split: if_splits sum.splits)
qed

theorem failed_open_state_witness:
  "\<exists>s s'. newSession demo_prims [1] [2] True = Inr s \<and>
     session_Open demo_prims (marshalFrame (forged_frame demo_prims s 1)) s = (Inl ErrAuth, s') \<and>
     (s' = s \<or>
      (s' = rolled demo_prims s \<and> ErrAuth \<in> {ErrAuth, ErrReplay} \<and>
       (\<exists>f. parseFrame (marshalFrame (forged_frame demo_prims s 1)) = Inr f \<and>
            f_session f = s_SessionID s \<and> f_rotation f = s_epoch s + 1)))"
proof -
  obtain s where new: "newSession demo_prims [1] [2] True = Inr s" by (rule demo_sessions)
  then have ok: "session_ok demo_prims s" by (rule newSession_ok)
  have "epoch_ok s 1" using new by (auto simp: newSession_eq epoch_ok_def)
  from Open_forged_frame [OF ok this]
  have o: "session_Open demo_prims (marshalFrame (forged_frame demo_prims s 1)) s =
      (Inl ErrAuth, postepoch demo_prims 1 s)" .
  from failed_open_state [OF ok o] new o show ?thesis by blast
qed

text \<open>
  C24: two frames that anyone can forge end a session. Both carry the session identifier, which
  travels in the clear, and the next two epochs; both fail authentication. After them no message
  sealed by either end is accepted by the other one (short of a rotation by sequence number):
  every one is refused with \<open>ErrBadEpoch\<close>.
\<close>

theorem forged_frames_desync:
  assumes sync: "in_sync P a b"
    and forged: "parseFrame g1 = Inr f1" "f_rotation f1 = s_epoch b + 1" "session_Open P g1 b = (Inl ErrAuth, b1)"
      "parseFrame g2 = Inr f2" "f_rotation f2 = s_epoch b + 2" "session_Open P g2 b1 = (Inl ErrAuth, b2)"
    and sent: "\<not> rotates a" "\<not> rotates b" "knownType t" "length pt \<le> MaxPlaintext"
  shows "fst (deliver P (Some f) t pt a b2) = Inl ErrBadEpoch \<and>
    fst (deliver P (Some f) t pt b2 a) = Inl ErrBadEpoch"
proof -
  have ok: "session_ok P a" "session_ok P b" and eq: "s_root a = s_root b"
      "s_SessionID a = s_SessionID b" "s_epoch a = s_epoch b"
    using sync by (simp_all add: in_sync_def)
  have b1: "b1 = rolled P b"
    using Open_ErrAuth_state [OF ok(2) forged(3,1)] forged(2) by (simp add: postepoch_def)
  have b2: "b2 = rolled P (rolled P b)"
    using Open_ErrAuth_state [OF session_ok_rolled [OF ok(2)] forged(6) [unfolded b1] forged(4)] forged(5)
    by (simp add: postepoch_def algebra_simps)
  have ok2: "session_ok P b2" using ok(2) b2 by (simp add: session_ok_rolled)
  have far: "\<not> epoch_ok b2 (s_epoch a)" "\<not> epoch_ok a (s_epoch b2)" "\<not> rotates b2"
    using eq sent(2) by (simp_all add: epoch_ok_def b2 rotates_def add.assoc)
  have len: "length pt \<le> 4096" using sent(4) by simp
  show ?thesis
    by (intro conjI; rule ErrBadEpoch_deliver) (use ok ok2 eq far sent len in \<open>simp_all add: b2\<close>)
qed

theorem forged_frames_desync_witness:
  "\<exists>a b b1 b2. newSession demo_prims [1] [2] True = Inr a \<and> newSession demo_prims [1] [2] False = Inr b \<and>
     session_Open demo_prims (marshalFrame (forged_frame demo_prims b 1)) b = (Inl ErrAuth, b1) \<and>
     session_Open demo_prims (marshalFrame (forged_frame demo_prims b1 2)) b1 = (Inl ErrAuth, b2) \<and>
     fst (deliver demo_prims (Some (\<lambda>_. 0)) TypeChat [104] a b2) = Inl ErrBadEpoch \<and>
     fst (deliver demo_prims (Some (\<lambda>_. 0)) TypeChat [104] b2 a) = Inl ErrBadEpoch"
proof -
  obtain a b where d: "newSession demo_prims [1] [2] True = Inr a" "newSession demo_prims [1] [2] False = Inr b"
    "in_sync demo_prims a b" "s_sendSeq a = 0" "s_sendSeq b = 0" by (rule demo_sessions)
  let ?b1 = "postepoch demo_prims 1 b" and ?g1 = "forged_frame demo_prims b 1"
  let ?g2 = "forged_frame demo_prims ?b1 2" and ?b2 = "postepoch demo_prims 2 (postepoch demo_prims 1 b)"
  have ok: "session_ok demo_prims b" using newSession_ok d(2) by blast
  have e: "s_epoch b = 0" using d(2) by (auto simp: newSession_eq)
  have o1: "session_Open demo_prims (marshalFrame ?g1) b = (Inl ErrAuth, ?b1)"
    using e by (intro Open_forged_frame [OF ok]) (simp add: epoch_ok_def)
  have o2: "session_Open demo_prims (marshalFrame ?g2) ?b1 = (Inl ErrAuth, ?b2)"
    using e by (intro Open_forged_frame session_ok_postepoch [OF ok]) (simp add: epoch_ok_def)
  have r: "f_rotation ?g1 = s_epoch b + 1" "f_rotation ?g2 = s_epoch b + 2"
    using e by (simp_all add: forged_frame_def Let_def)
  have s: "\<not> rotates a" "\<not> rotates b" "knownType TypeChat" "length ([104] :: bytes) \<le> MaxPlaintext"
    using d(4,5) by (simp_all add: rotates_def knownType_def)
  from forged_frames_desync [OF d(3) forged_frame_parses r(1) o1 forged_frame_parses r(2) o2 s] d(1,2) o1 o2
  show ?thesis by blast
qed

lemma s_closed_Close: "s_closed (session_Close s)"
  by (simp add: session_Close_def Let_def)

lemma Zeroise_idem: "Zeroise (Zeroise b) = Zeroise b"
  by (simp add: Zeroise_def)

lemma session_Close_idem: "session_Close (session_Close s) = session_Close s"
  by (simp add: session_Close_def Let_def option.map_comp comp_def Zeroise_idem)

lemma run_closed: "fold (session_step P) ops (session_Close s) = session_Close s"
proof (induction ops)
  case (Cons x ops)
  have "session_step P x (session_Close s) = session_Close s"
    by (cases x) (simp_all add: Seal_closed Open_closed session_Close_idem s_closed_Close)
  with Cons show ?case by simp
qed simp

text \<open>
  the end of a session. Once closed, whatever is called on it afterwards, it stays closed, its
  root is gone, its chain keys hold only zeros, it puts nothing on the wire and every \<open>Seal\<close> and
  \<open>Open\<close> returns \<open>ErrSessionClosed\<close>.
\<close>

theorem close_destroys:
  "let t = fold (session_step P) ops (session_Close s) in
     session_Closed t \<and> s_root t = [] \<and>
     pred_option (\<lambda>c. list_all (\<lambda>b. b = 0) (c_key c)) (s_send t) \<and>
     pred_option (\<lambda>c. list_all (\<lambda>b. b = 0) (c_key c)) (s_recv t) \<and>
     pred_option (\<lambda>c. list_all (\<lambda>b. b = 0) (c_key c)) (s_recvOld t) \<and>
     emitted P ops (session_Close s) = [] \<and>
     session_Seal P rnd typ pt t = (Inl ErrSessionClosed, t) \<and>
     session_Open P buf t = (Inl ErrSessionClosed, t)"
proof -
  have closed: "s_closed (session_Close s)" by (rule s_closed_Close)
  have wiped: "list_all (\<lambda>b. b = 0) (Zeroise k)" for k
    using set_Zeroise [of k] by (auto simp: list_all_iff)
  have "pred_option (\<lambda>c. list_all (\<lambda>b. b = 0) (c_key c))
      (map_option (\<lambda>c. c\<lparr>c_key := Zeroise (c_key c)\<rparr>) c)" for c :: "chain option"
    by (cases c) (simp_all add: wiped)
  then show ?thesis
    using Seal_closed [OF closed] Open_closed [OF closed] emitted_closed [OF closed]
    unfolding run_closed Let_def
    by (simp add: session_Closed_def) (simp add: session_Close_def Let_def)
qed

text \<open>
  chat text through a session. A text of at most 4094 bytes sealed by one end is opened by the
  other end as a chat frame and decodes to the same text; a longer one is refused by \<open>SealChat\<close>
  and leaves the session as it was.
\<close>

theorem chat_through_session:
  assumes "in_sync P a b"
  shows "if length text \<le> MaxPlaintext - 2
    then \<exists>buf a' b' pt. SealChat P (Some f) text a = (Inr buf, a') \<and>
           session_Open P buf b = (Inr (TypeChat, pt), b') \<and> DecodeChat pt = Inr text
    else SealChat P (Some f) text a = (Inl (ErrPayloadTooLarge (length text + 2)), a)"
proof (cases "length text \<le> 4094")
  case True
  have enc: "length (encodeChatPayload text) = length text + 2"
    by (simp add: encodeChatPayload_def)
  have "knownType TypeChat" "length (encodeChatPayload text) \<le> 4096"
    using True enc by (simp_all add: knownType_def)
  then obtain buf a' b' where "session_Seal P (Some f) TypeChat (encodeChatPayload text) a = (Inr buf, a')"
    "session_Open P buf b = (Inr (TypeChat, encodeChatPayload text), b')"
    by (rule Seal_then_Open [OF assms])
  moreover have "DecodeChat (encodeChatPayload text) = Inr text"
    using True by (simp add: DecodeChat_def chat_codec.dec_enc)
  ultimately show ?thesis using True unfolding SealChat_def by auto
next
  case False
  then have "4096 < length (encodeChatPayload text)" by (simp add: encodeChatPayload_def)
  moreover have "\<not> s_closed a" using assms by (simp add: in_sync_def session_ok_def)
  ultimately show ?thesis
    using False by (simp add: SealChat_def Seal_too_large) (simp add: encodeChatPayload_def)
qed

theorem chat_through_session_witness:
  "\<exists>a b buf a' b' pt. newSession demo_prims [1] [2] True = Inr a \<and> newSession demo_prims [1] [2] False = Inr b \<and>
     SealChat demo_prims (Some (\<lambda>_. 0)) ''hello'' a = (Inr buf, a') \<and>
     session_Open demo_prims buf b = (Inr (TypeChat, pt), b') \<and> DecodeChat pt = Inr ''hello''"
proof -
  obtain a b where d: "newSession demo_prims [1] [2] True = Inr a" "newSession demo_prims [1] [2] False = Inr b"
    "in_sync demo_prims a b" by (rule demo_sessions)
  show ?thesis using chat_through_session [OF d(3), of "''hello''" "\<lambda>_. 0"] d(1,2) by auto
qed

text \<open>
  the epoch labels. The hand-written decimal conversion ends for every 32-bit number, is
  injective, and never needs more than the ten bytes of its buffer, so distinct epochs have
  distinct key-derivation labels.
\<close>

theorem itoa_labels:
  "(infoRotate @ '' '' @ itoa v = infoRotate @ '' '' @ itoa w \<longleftrightarrow> v = w) \<and>
   dec_value 0 (itoa v) = unat v \<and> length (itoa v) \<le> 10"
proof -
  have "itoa v = itoa w \<Longrightarrow> v = w" by (metis dec_value_itoa word_unat_eq_iff)
  moreover have "length (itoa v) \<le> 10"
    using length_itoa_loop [of v 10 "[]"] unat_bound [of v] by (simp add: itoa_def)
  ultimately show ?thesis by (auto simp: dec_value_itoa)
qed

text \<open>
  a sealed pairing confirmation arrives at the other end and is verified there for exactly the
  pairing keys and transcripts that derive the same 32 bytes.
\<close>

theorem pair_confirm_verified:
  assumes "in_sync P a b" and "k \<noteq> []" and "th \<noteq> []"
  shows "\<exists>buf a' b' c. SealPairConfirm P (Some f) k th a = (Inr buf, a') \<and>
    session_Open P buf b = (Inr (TypePairConfirm, c), b') \<and> length c = PairConfirmSize \<and>
    (\<forall>k' th'. VerifyPairConfirm P k' th' c \<longleftrightarrow> PairConfirm P k' th' = PairConfirm P k th)"
proof -
  let ?c = "fill (hkdf_stream P k th infoPairConfirm) 32"
  have c: "PairConfirm P k th = Inr ?c" using assms by (simp add: PairConfirm_def DeriveKey_ok)
  have "knownType TypePairConfirm" "length ?c \<le> 4096" by (simp_all add: knownType_def)
  then obtain buf a' b' where so: "session_Seal P (Some f) TypePairConfirm ?c a = (Inr buf, a')"
    "session_Open P buf b = (Inr (TypePairConfirm, ?c), b')"
    by (rule Seal_then_Open [OF assms(1)])
  have seal: "SealPairConfirm P (Some f) k th a = (Inr buf, a')"
    using so(1) by (simp only: SealPairConfirm_def c sum.case)
  moreover have "VerifyPairConfirm P k' th' ?c \<longleftrightarrow> PairConfirm P k' th' = PairConfirm P k th" for k' th'
    unfolding c by (auto simp: VerifyPairConfirm_def split: sum.splits)
  moreover have "length ?c = PairConfirmSize" by simp
  ultimately show ?thesis using so(2) by blast
qed

theorem pair_confirm_verified_witness:
  "\<exists>a b buf a' b' c. newSession demo_prims [1] [2] True = Inr a \<and> newSession demo_prims [1] [2] False = Inr b \<and>
     SealPairConfirm demo_prims (Some (\<lambda>_. 0)) [9] [2] a = (Inr buf, a') \<and>
     session_Open demo_prims buf b = (Inr (TypePairConfirm, c), b') \<and> VerifyPairConfirm demo_prims [9] [2] c"
proof -
  obtain a b where d: "newSession demo_prims [1] [2] True = Inr a" "newSession demo_prims [1] [2] False = Inr b"
    "in_sync demo_prims a b" by (rule demo_sessions)
  have "[9 :: byte] \<noteq> []" "[2 :: byte] \<noteq> []" by simp_all
  from pair_confirm_verified [OF d(3) this, of "\<lambda>_. 0"] d(1,2) show ?thesis by blast
qed

text \<open>
  the confirmation can be reflected. The value is the same for both roles, so a peer that
  holds no pairing key (it only has the other end of the session) opens the confirmation it was
  sent, seals the same bytes back, and the sender, for whatever pairing key and transcript it used,
  verifies its own value as the peer's proof.
\<close>

theorem pair_confirm_reflected:
  assumes sync: "in_sync P a m" and new: "s_sendSeq a = 0" "s_sendSeq m = 0"
    and sealed: "SealPairConfirm P (Some f) k th a = (Inr buf, a')"
  shows "\<exists>c m' echo m'' a''. session_Open P buf m = (Inr (TypePairConfirm, c), m') \<and>
    session_Seal P (Some g) TypePairConfirm c m' = (Inr echo, m'') \<and>
    session_Open P echo a' = (Inr (TypePairConfirm, c), a'') \<and> VerifyPairConfirm P k th c"
proof -
  obtain c where c: "PairConfirm P k th = Inr c"
    using sealed by (cases "PairConfirm P k th") (simp_all add: SealPairConfirm_def)
  then have len: "knownType TypePairConfirm" "length c \<le> 4096"
    by (auto simp: PairConfirm_def DeriveKey_Inr knownType_def split: if_splits sum.splits)
  have seal: "session_Seal P (Some f) TypePairConfirm c a = (Inr buf, a')"
    using sealed by (simp only: SealPairConfirm_def c sum.case)
  have bd: "unat (s_sendSeq a) < 2 ^ 64 - 1" using new by simp
  obtain a1 m' where d: "deliver P (Some f) TypePairConfirm c a m = (Inr (TypePairConfirm, c), a1, m')" "in_sync P a1 m'"
    by (rule deliver_in_sync [OF sync len bd])
  have o: "a1 = a'" "session_Open P buf m = (Inr (TypePairConfirm, c), m')"
    using d(1) seal by (simp_all add: deliver_def split: prod.splits)
  obtain echo m'' a'' where "session_Seal P (Some g) TypePairConfirm c m' = (Inr echo, m'')"
    "session_Open P echo a' = (Inr (TypePairConfirm, c), a'')"
    by (rule Seal_then_Open [OF in_sync_sym [OF d(2) [unfolded o(1)]] len])
  moreover have "VerifyPairConfirm P k th c" by (simp add: VerifyPairConfirm_def c)
  ultimately show ?thesis using o(2) by blast
qed

theorem pair_confirm_reflected_witness:
  "\<exists>a m buf a' c m' echo m'' a''. newSession demo_prims [1] [2] True = Inr a \<and>
     newSession demo_prims [1] [2] False = Inr m \<and>
     SealPairConfirm demo_prims (Some (\<lambda>_. 0)) [9] [2] a = (Inr buf, a') \<and>
     session_Open demo_prims buf m = (Inr (TypePairConfirm, c), m') \<and>
     session_Seal demo_prims (Some (\<lambda>_. 1)) TypePairConfirm c m' = (Inr echo, m'') \<and>
     session_Open demo_prims echo a' = (Inr (TypePairConfirm, c), a'') \<and> VerifyPairConfirm demo_prims [9] [2] c"
proof -
  obtain a m where d: "newSession demo_prims [1] [2] True = Inr a" "newSession demo_prims [1] [2] False = Inr m"
    "in_sync demo_prims a m" "s_sendSeq a = 0" "s_sendSeq m = 0" by (rule demo_sessions)
  have ok: "session_ok demo_prims a" using newSession_ok d(1) by blast
  let ?c = "fill (hkdf_stream demo_prims [9] [2] infoPairConfirm) 32"
  have "PairConfirm demo_prims [9] [2] = Inr ?c" by (simp add: PairConfirm_def DeriveKey_ok)
  moreover have "length ?c \<le> 4096" by simp
  ultimately obtain buf a' where s: "SealPairConfirm demo_prims (Some (\<lambda>_. 0)) [9] [2] a = (Inr buf, a')"
    using Seal_ok [OF ok, of ?c "\<lambda>_. 0" TypePairConfirm] by (simp only: SealPairConfirm_def sum.case)
  from pair_confirm_reflected [OF d(3,4,5) s, of "\<lambda>_. 1"] d(1,2) s show ?thesis by blast
qed

end
