(* ===== verification/Identity.thy ===== *)
theory Identity
  imports Crypto
begin

text \<open>
  \<open>internal/identity/identity.go\<close>: the long-term Ed25519 identity, its fingerprint, signatures
  and the encrypted identity file.

  \<open>encoding/json\<close> is the parameter \<open>json_lib\<close>; the properties that decode what was encoded
  assume that it round-trips the value at hand (it does for valid UTF-8 names). The file system is a
  map from paths to contents, and each call to it takes the fault that hits it, if any: a failing
  \<open>WriteFile\<close> may leave any prefix of the data behind. Paths are those of a Unix system.
\<close>

section \<open>Identities and fingerprints\<close>

datatype identity_error =
    IdEmptyName
  | IdKeyGeneration
  | IdNoPrivateKey
  | IdEmptyPassphrase
  | IdUnencrypted
  | IdPassphraseRequired
  | IdWrongPassphrase
  | IdInvalidFile
  | IdInvalidKeyMaterial
  | IdKeyMismatch
  | IdVersion
  | IdTruncated
  | IdCrypto crypto_error
  | IdIO
  | IdPanic

record identity =
  id_Name :: string
  id_priv :: "bytes option" \<comment> \<open>\<^const>\<open>None\<close> is a nil key\<close>
  id_pub :: bytes

text \<open>
  \<open>strings.TrimSpace(name) == ""\<close>: the name is a sequence of UTF-8 encoded white space
  characters (\<open>unicode.IsSpace\<close>).
\<close>

fun blank :: "nat list \<Rightarrow> bool" where
  "blank [] = True"
| "blank [a] = (9 \<le> a \<and> a \<le> 13 \<or> a = 32)"
| "blank (a # b # r) =
     (if 9 \<le> a \<and> a \<le> 13 \<or> a = 32 then blank (b # r)
      else if a = 0xC2 \<and> (b = 0x85 \<or> b = 0xA0) then blank r
      else case r of [] \<Rightarrow> False
           | c # r' \<Rightarrow>
             (a = 0xE1 \<and> b = 0x9A \<and> c = 0x80
              \<or> a = 0xE2 \<and> b = 0x80 \<and> (0x80 \<le> c \<and> c \<le> 0x8A \<or> c = 0xA8 \<or> c = 0xA9 \<or> c = 0xAF)
              \<or> a = 0xE2 \<and> b = 0x81 \<and> c = 0x9F
              \<or> a = 0xE3 \<and> b = 0x80 \<and> c = 0x80) \<and> blank r')"

definition is_blank :: "string \<Rightarrow> bool" where
  "is_blank s = blank (map of_char s)"

text \<open>An Ed25519 private key is the 32-byte seed followed by the public key.\<close>

definition NewKeyFromSeed :: "prims \<Rightarrow> bytes \<Rightarrow> bytes" where
  "NewKeyFromSeed P seed = seed @ fill (ed_public P seed) 32"

definition Generate :: "prims \<Rightarrow> entropy \<Rightarrow> string \<Rightarrow> identity_error + identity" where
  "Generate P rnd name =
     (if is_blank name then Inl IdEmptyName
      else case rnd of None \<Rightarrow> Inl IdKeyGeneration
           | Some f \<Rightarrow>
             let priv = NewKeyFromSeed P (fill f 32)
             in Inr \<lparr>id_Name = name, id_priv = Some priv, id_pub = drop 32 priv\<rparr>)"

definition FromPublicKey :: "string \<Rightarrow> bytes \<Rightarrow> identity" where
  "FromPublicKey name pub = \<lparr>id_Name = name, id_priv = None, id_pub = pub\<rparr>"

definition HasPrivateKey :: "identity \<Rightarrow> bool" where
  "HasPrivateKey i \<longleftrightarrow> id_priv i \<noteq> None"

definition hex_digit :: "nat \<Rightarrow> char" where
  "hex_digit n = (if n < 10 then char_of (48 + n) else char_of (55 + n))"

text \<open>The format \<open>%02X\<close> of a byte.\<close>

definition hex2 :: "byte \<Rightarrow> string" where
  "hex2 b = [hex_digit (unat b div 16), hex_digit (unat b mod 16)]"

fun join :: "string \<Rightarrow> string list \<Rightarrow> string" where
  "join sep [] = []"
| "join sep [p] = p"
| "join sep (p # ps) = p @ sep @ join sep ps"

definition FingerprintOf :: "prims \<Rightarrow> bytes \<Rightarrow> string" where
  "FingerprintOf P pub = ''SHA256: '' @ join '':'' (map hex2 (fill (sha256_byte P pub) 32))"

definition Fingerprint :: "prims \<Rightarrow> identity \<Rightarrow> string" where
  "Fingerprint P i = FingerprintOf P (id_pub i)"

definition ShortFingerprint :: "prims \<Rightarrow> bytes \<Rightarrow> string" where
  "ShortFingerprint P pub =
     ''SHA256: '' @ join '':'' (map hex2 (take 4 (fill (sha256_byte P pub) 32))) @ unstr [0xE2, 0x80, 0xA6]"

section \<open>Signatures\<close>

text \<open>
  \<open>ed25519.Sign\<close> panics on a private key that is not 64 bytes and \<open>ed25519.Verify\<close> on a public
  key that is not 32 bytes; the panic of the latter is \<^const>\<open>None\<close>.
\<close>

definition identity_Sign :: "prims \<Rightarrow> identity \<Rightarrow> bytes \<Rightarrow> identity_error + bytes" where
  "identity_Sign P i msg =
     (case id_priv i of None \<Rightarrow> Inl IdNoPrivateKey
      | Some priv \<Rightarrow> if length priv \<noteq> 64 then Inl IdPanic else Inr (fill (ed_sign P priv msg) 64))"

definition VerifyWith :: "prims \<Rightarrow> bytes \<Rightarrow> bytes \<Rightarrow> bytes \<Rightarrow> bool option" where
  "VerifyWith P pub msg sig = (if length pub \<noteq> 32 then None else Some (ed_verify P pub msg sig))"

definition identity_Verify :: "prims \<Rightarrow> identity \<Rightarrow> bytes \<Rightarrow> bytes \<Rightarrow> bool option" where
  "identity_Verify P i msg sig = VerifyWith P (id_pub i) msg sig"

definition identity_MarshalBinary :: "identity \<Rightarrow> bytes" where
  "identity_MarshalBinary i = PutUint16 (word_of_nat (length (id_Name i))) @ str (id_Name i) @ id_pub i"

section \<open>The identity file\<close>

record diskFormat =
  d_Name :: string
  d_Private :: bytes
  d_Public :: bytes

record json_lib =
  json_marshal :: "diskFormat \<Rightarrow> bytes"
  json_unmarshal :: "bytes \<Rightarrow> diskFormat option"

definition identityFileVersion :: byte where [simp]: "identityFileVersion = 1"
definition pbkdf2Iterations :: nat where "pbkdf2Iterations = 600000"
definition saltSize :: nat where [simp]: "saltSize = 16"

text \<open>\<open>filepath.Base\<close>: the last element of the path, trailing slashes removed.\<close>

definition filepath_Base :: "string \<Rightarrow> string" where
  "filepath_Base path =
     (if path = [] then ''.''
      else let rest = dropWhile (\<lambda>c. c = CHR ''/'') (rev path)
           in if rest = [] then ''/'' else rev (takeWhile (\<lambda>c. c \<noteq> CHR ''/'') rest))"

definition identityAAD :: "string \<Rightarrow> bytes" where
  "identityAAD path = str (''heimdall identity v1 '' @ filepath_Base path)"

type_synonym files = "string \<rightharpoonup> bytes"

record io_faults =
  mkdir_fails :: bool
  write_stops :: "nat option" \<comment> \<open>the number of bytes written before the error\<close>
  rename_fails :: bool

definition no_faults :: io_faults where
  "no_faults = \<lparr>mkdir_fails = False, write_stops = None, rename_fails = False\<rparr>"

definition writeIdentityFile ::
    "io_faults \<Rightarrow> string \<Rightarrow> bytes \<Rightarrow> bytes \<Rightarrow> files \<Rightarrow> (identity_error + unit) \<times> files" where
  "writeIdentityFile io path salt blob fs =
     (let buf = [identityFileVersion, word_of_nat (length salt)] @ salt @ blob;
          tmp = path @ ''.tmp''
      in if mkdir_fails io then (Inl IdIO, fs)
         else case write_stops io of
           Some n \<Rightarrow> (Inl IdIO, fs(tmp \<mapsto> take n buf))
         | None \<Rightarrow>
           if rename_fails io then (Inl IdIO, fs(tmp \<mapsto> buf))
           else (Inr (), (fs(tmp := None))(path \<mapsto> buf)))"

definition readIdentityFile :: "string \<Rightarrow> files \<Rightarrow> identity_error + bytes option \<times> bytes" where
  "readIdentityFile path fs =
     (case fs path of None \<Rightarrow> Inl IdIO
      | Some buf \<Rightarrow>
        if length buf < 2 \<or> buf ! 0 \<noteq> identityFileVersion then Inl IdVersion
        else let sl = unat (buf ! 1)
             in if length buf < 2 + sl then Inl IdTruncated
                else if sl = 0 then Inr (None, drop 2 buf)
                else Inr (Some (take sl (drop 2 buf)), drop (2 + sl) buf))"

definition pbkdf2_Key :: "prims \<Rightarrow> string \<Rightarrow> bytes \<Rightarrow> bytes" where
  "pbkdf2_Key P passphrase salt = fill (pbkdf2_stream P passphrase salt pbkdf2Iterations) KeySize"

definition disk_of :: "identity \<Rightarrow> bytes \<Rightarrow> diskFormat" where
  "disk_of i priv = \<lparr>d_Name = id_Name i, d_Private = priv, d_Public = id_pub i\<rparr>"

text \<open>\<open>rnd\<close> supplies the salt and \<open>rnd'\<close> the nonce of the seal.\<close>

definition identity_Save ::
    "prims \<Rightarrow> json_lib \<Rightarrow> entropy \<Rightarrow> entropy \<Rightarrow> io_faults \<Rightarrow> identity \<Rightarrow> string \<Rightarrow> string \<Rightarrow> files \<Rightarrow>
     (identity_error + unit) \<times> files" where
  "identity_Save P J rnd rnd' io i path passphrase fs =
     (case id_priv i of None \<Rightarrow> (Inl IdNoPrivateKey, fs)
      | Some priv \<Rightarrow>
        if passphrase = [] then (Inl IdEmptyPassphrase, fs)
        else case RandomBytes rnd saltSize of Inl e \<Rightarrow> (Inl (IdCrypto e), fs)
        | Inr salt \<Rightarrow>
          let key = pbkdf2_Key P passphrase salt;
              payload = json_marshal J (disk_of i priv)
          in case crypto_Seal P rnd' key (identityAAD path) payload of
               Inl e \<Rightarrow> (Inl (IdCrypto e), fs)
             | Inr blob \<Rightarrow> writeIdentityFile io path salt blob fs)"

definition identity_SaveInsecure ::
    "json_lib \<Rightarrow> io_faults \<Rightarrow> identity \<Rightarrow> string \<Rightarrow> files \<Rightarrow> (identity_error + unit) \<times> files" where
  "identity_SaveInsecure J io i path fs =
     (case id_priv i of None \<Rightarrow> (Inl IdNoPrivateKey, fs)
      | Some priv \<Rightarrow> writeIdentityFile io path [] (json_marshal J (disk_of i priv)) fs)"

text \<open>The part of \<open>Load\<close> that follows the decryption.\<close>

definition identity_decode :: "json_lib \<Rightarrow> bytes \<Rightarrow> identity_error + identity" where
  "identity_decode J payload =
     (case json_unmarshal J payload of None \<Rightarrow> Inl IdInvalidFile
      | Some df \<Rightarrow>
        if length (d_Private df) > 0 then
          if length (d_Private df) \<noteq> 64 \<or> length (d_Public df) \<noteq> 32 then Inl IdInvalidKeyMaterial
          else if d_Public df \<noteq> drop 32 (d_Private df) then Inl IdKeyMismatch
          else Inr \<lparr>id_Name = d_Name df, id_priv = Some (d_Private df), id_pub = d_Public df\<rparr>
        else Inr \<lparr>id_Name = d_Name df, id_priv = None, id_pub = d_Public df\<rparr>)"

definition identity_Load ::
    "prims \<Rightarrow> json_lib \<Rightarrow> string \<Rightarrow> string \<Rightarrow> files \<Rightarrow> identity_error + identity" where
  "identity_Load P J path passphrase fs =
     (case readIdentityFile path fs of Inl e \<Rightarrow> Inl e
      | Inr (None, blob) \<Rightarrow>
        if passphrase \<noteq> [] then Inl IdUnencrypted else identity_decode J blob
      | Inr (Some salt, blob) \<Rightarrow>
        if passphrase = [] then Inl IdPassphraseRequired
        else case crypto_Open P (pbkdf2_Key P passphrase salt) (identityAAD path) blob of
               Inl _ \<Rightarrow> Inl IdWrongPassphrase
             | Inr payload \<Rightarrow> identity_decode J payload)"

section \<open>Lemmas\<close>

definition identity_ok :: "identity \<Rightarrow> bool" where
  "identity_ok i \<longleftrightarrow> length (id_pub i) = 32 \<and>
     (\<exists>seed. length seed = 32 \<and> id_priv i = Some (seed @ id_pub i))"

lemma hex_digit_value: "n < 16 \<Longrightarrow> of_char (hex_digit n) = (if n < 10 then 48 + n else 55 + n)"
  by (simp add: hex_digit_def)

lemma hex_digit_inject: "m < 16 \<Longrightarrow> n < 16 \<Longrightarrow> hex_digit m = hex_digit n \<longleftrightarrow> m = n"
proof
  assume "m < 16" "n < 16" "hex_digit m = hex_digit n"
  then have "(if m < 10 then 48 + m else 55 + m) = (if n < 10 then 48 + n else 55 + n)"
    using hex_digit_value [of m] hex_digit_value [of n] by metis
  then show "m = n" by (simp split: if_splits)
qed simp

lemma hex2_inject: "hex2 a = hex2 b \<longleftrightarrow> a = b"
proof
  have bnd: "unat x div 16 < 16" "unat x mod 16 < 16" for x :: byte
    using unat_byte_less [of x] by (simp_all add: div_less_iff_less_mult)
  assume "hex2 a = hex2 b"
  then have "unat a div 16 = unat b div 16" "unat a mod 16 = unat b mod 16"
    by (simp_all add: hex2_def hex_digit_inject bnd)
  then have "unat a = unat b" by (metis div_mult_mod_eq)
  then show "a = b" by (rule unsigned_word_eqI)
qed simp

lemma length_hex2 [simp]: "length (hex2 b) = 2"
  by (simp add: hex2_def)

lemma join_hex2_inject:
  "length xs = length ys \<Longrightarrow> join '':'' (map hex2 xs) = join '':'' (map hex2 ys) \<longleftrightarrow> xs = ys"
proof (induction xs ys rule: list_induct2)
  case Nil
  then show ?case by simp
next
  case (Cons x xs y ys)
  then show ?case
    by (cases xs; cases ys) (auto simp: hex2_inject)
qed

lemma length_join_hex2: "length (join '':'' (map hex2 xs)) = 3 * length xs - 1"
proof (induction xs)
  case (Cons x xs)
  then show ?case by (cases xs) simp_all
qed simp

lemma Generate_ok: "Generate P rnd name = Inr i \<Longrightarrow> identity_ok i \<and> id_Name i = name"
  by (auto simp: Generate_def NewKeyFromSeed_def identity_ok_def Let_def split: if_splits option.splits)

lemma identity_decode_disk:
  assumes "identity_ok i" and "id_priv i = Some priv"
    and "json_unmarshal J (json_marshal J (disk_of i priv)) = Some (disk_of i priv)"
  shows "identity_decode J (json_marshal J (disk_of i priv)) = Inr i"
  using assms by (auto simp: identity_decode_def disk_of_def identity_ok_def)

lemma identity_decode_ok:
  assumes "identity_decode J p = Inr i" and "HasPrivateKey i"
  shows "identity_ok i"
proof -
  obtain priv where "length priv = 64" and "id_priv i = Some priv" and "id_pub i = drop 32 priv"
    using assms by (auto simp: identity_decode_def HasPrivateKey_def split: option.splits if_splits)
  then show ?thesis
    unfolding identity_ok_def by (auto intro!: exI [of _ "take 32 priv"])
qed

lemma writeIdentityFile_ok:
  "writeIdentityFile no_faults path salt blob fs =
     (Inr (), (fs(path @ ''.tmp'' := None))(path \<mapsto> [1, word_of_nat (length salt)] @ salt @ blob))"
  by (simp add: writeIdentityFile_def no_faults_def Let_def)

lemma read_written:
  assumes "length salt < 256" and "fs path = Some ([1, word_of_nat (length salt)] @ salt @ blob)"
  shows "readIdentityFile path fs = Inr (if salt = [] then None else Some salt, blob)"
  using assms by (simp add: readIdentityFile_def Let_def)

definition demo_json :: json_lib where
  "demo_json =
     \<lparr>json_marshal = (\<lambda>d. [word_of_nat (length (d_Private d)), word_of_nat (length (d_Public d))] @
         d_Private d @ d_Public d @ str (d_Name d)),
      json_unmarshal = (\<lambda>b. case b of
          m # n # r \<Rightarrow> Some \<lparr>d_Name = unstr (drop (unat m + unat n) r), d_Private = take (unat m) r,
                            d_Public = take (unat n) (drop (unat m) r)\<rparr>
        | _ \<Rightarrow> None)\<rparr>"

lemma demo_json_round_trip:
  "length (d_Private d) < 256 \<Longrightarrow> length (d_Public d) < 256 \<Longrightarrow>
   json_unmarshal demo_json (json_marshal demo_json d) = Some d"
  by (simp add: demo_json_def)

section \<open>Properties\<close>

lemma saved_loads:
  assumes "identity_ok i" and "id_priv i = Some priv" and "passphrase \<noteq> []"
    and "json_unmarshal J (json_marshal J (disk_of i priv)) = Some (disk_of i priv)"
    and "identity_Save P J (Some f) (Some g) no_faults i path passphrase fs = (r, fs')"
  shows "r = Inr ()" "identity_Load P J path passphrase fs' = Inr i" "identity_Load P J path [] fs' = Inl IdPassphraseRequired"
    "fs' path \<noteq> None"
proof -
  let ?salt = "fill f 16" and ?pay = "json_marshal J (disk_of i priv)"
  let ?key = "pbkdf2_Key P passphrase ?salt"
  have "length ?key = 32" by (simp add: pbkdf2_Key_def)
  then obtain blob where blob: "crypto_Seal P (Some g) ?key (identityAAD path) ?pay = Inr blob"
    by (simp add: crypto_Seal_ok)
  then have saved: "(r, fs') = writeIdentityFile no_faults path ?salt blob fs"
    using assms by (simp add: identity_Save_def RandomBytes_def)
  then have fs': "fs' path = Some ([1, word_of_nat (length ?salt)] @ ?salt @ blob)" and r: "r = Inr ()"
    by (simp_all add: writeIdentityFile_ok)
  then have rd: "readIdentityFile path fs' = Inr (Some ?salt, blob)"
    using read_written [of ?salt fs' path blob] by simp
  show "r = Inr ()" "identity_Load P J path passphrase fs' = Inr i" "identity_Load P J path [] fs' = Inl IdPassphraseRequired"
    using rd r assms(3) crypto_Open_Seal [OF blob] identity_decode_disk [OF assms(1,2,4)]
    by (simp_all add: identity_Load_def)
  show "fs' path \<noteq> None" using fs' by simp
qed

text \<open>
  an identity saved under a passphrase is loaded again from the same path with the same
  passphrase, and one saved in the insecure mode with the empty passphrase; each file is refused
  when it is loaded the other way.
\<close>

theorem save_then_load:
  assumes "identity_ok i" and "id_priv i = Some priv" and "passphrase \<noteq> []"
    and "json_unmarshal J (json_marshal J (disk_of i priv)) = Some (disk_of i priv)"
    and "identity_Save P J (Some f) (Some g) no_faults i path passphrase fs = (r, fs')"
    and "identity_SaveInsecure J no_faults i path fs = (q, fs'')"
  shows "r = Inr () \<and> identity_Load P J path passphrase fs' = Inr i \<and>
    identity_Load P J path [] fs' = Inl IdPassphraseRequired \<and>
    q = Inr () \<and> identity_Load P J path [] fs'' = Inr i \<and>
    identity_Load P J path passphrase fs'' = Inl IdUnencrypted"
proof -
  let ?pay = "json_marshal J (disk_of i priv)"
  note loaded = saved_loads [OF assms(1-5)]
  have "fs'' path = Some ([1, word_of_nat (length ([] :: bytes))] @ [] @ ?pay)" and q: "q = Inr ()"
    using assms by (auto simp: identity_SaveInsecure_def writeIdentityFile_ok)
  then have rd': "readIdentityFile path fs'' = Inr (None, ?pay)"
    using read_written [of "[]" fs'' path ?pay] by simp
  show ?thesis
    using loaded(1-3) rd' q assms(3) identity_decode_disk [OF assms(1,2,4)] by (simp add: identity_Load_def)
qed

theorem save_then_load_witness:
  "\<exists>i priv r fs' q fs''. Generate demo_prims (Some (\<lambda>n. word_of_nat n)) ''alice'' = Inr i \<and> id_priv i = Some priv \<and>
     identity_Save demo_prims demo_json (Some (\<lambda>_. 3)) (Some (\<lambda>_. 4)) no_faults i ''/home/a/id'' ''secret'' Map.empty = (r, fs') \<and>
     identity_SaveInsecure demo_json no_faults i ''/home/a/id'' Map.empty = (q, fs'') \<and>
     r = Inr () \<and> identity_Load demo_prims demo_json ''/home/a/id'' ''secret'' fs' = Inr i \<and>
     identity_Load demo_prims demo_json ''/home/a/id'' [] fs' = Inl IdPassphraseRequired \<and>
     q = Inr () \<and> identity_Load demo_prims demo_json ''/home/a/id'' [] fs'' = Inr i \<and>
     identity_Load demo_prims demo_json ''/home/a/id'' ''secret'' fs'' = Inl IdUnencrypted"
proof -
  obtain i where i: "Generate demo_prims (Some (\<lambda>n. word_of_nat n)) ''alice'' = Inr i"
    by (simp add: Generate_def is_blank_def Let_def)
  from Generate_ok [OF this] have ok: "identity_ok i" by simp
  then obtain priv where p: "id_priv i = Some priv" "length priv = 64" "length (id_pub i) = 32"
    by (auto simp: identity_ok_def)
  have J: "json_unmarshal demo_json (json_marshal demo_json (disk_of i priv)) = Some (disk_of i priv)"
    by (rule demo_json_round_trip) (simp_all add: disk_of_def p)
  have pw: "''secret'' \<noteq> ([] :: string)" by simp
  obtain r fs' where s: "identity_Save demo_prims demo_json (Some (\<lambda>_. 3)) (Some (\<lambda>_. 4)) no_faults i ''/home/a/id'' ''secret'' Map.empty = (r, fs')"
    by fastforce
  obtain q fs'' where t: "identity_SaveInsecure demo_json no_faults i ''/home/a/id'' Map.empty = (q, fs'')"
    by fastforce
  from save_then_load [OF ok p(1) pw J s t] i p(1) s t show ?thesis by blast
qed

text \<open>
  whatever \<open>Load\<close> returns with a private key is consistent: the keys have their sizes and the
  public key is the one inside the private key; and an encrypted file is accepted only with a
  passphrase under which its blob was sealed for this file name.
\<close>

theorem load_validates:
  assumes "identity_Load P J path passphrase fs = Inr i"
  shows "(HasPrivateKey i \<longrightarrow> identity_ok i) \<and>
    (\<forall>salt blob. readIdentityFile path fs = Inr (Some salt, blob) \<longrightarrow>
       passphrase \<noteq> [] \<and>
       (\<exists>payload nonce. length nonce = NonceSize \<and> identity_decode J payload = Inr i \<and>
          blob = nonce @ gcm_seal P (pbkdf2_Key P passphrase salt) nonce (identityAAD path) payload))"
proof -
  have dec: "identity_decode J p = Inr i \<Longrightarrow> HasPrivateKey i \<Longrightarrow> identity_ok i" for p
    by (rule identity_decode_ok)
  have "\<exists>payload nonce. length nonce = NonceSize \<and> identity_decode J payload = Inr i \<and>
      blob = nonce @ gcm_seal P (pbkdf2_Key P passphrase salt) nonce (identityAAD path) payload"
    if rd: "readIdentityFile path fs = Inr (Some salt, blob)" for salt blob
  proof -
    obtain payload where "crypto_Open P (pbkdf2_Key P passphrase salt) (identityAAD path) blob = Inr payload"
      "identity_decode J payload = Inr i"
      using assms rd by (auto simp: identity_Load_def split: if_splits sum.splits)
    then show ?thesis
      by (auto simp: crypto_Open_sealed)
  qed
  then show ?thesis
    using assms dec by (auto simp: identity_Load_def split: sum.splits option.splits prod.splits if_splits)
qed

theorem load_validates_witness:
  "\<exists>i fs. Generate demo_prims (Some (\<lambda>n. word_of_nat n)) ''alice'' = Inr i \<and>
     identity_Load demo_prims demo_json ''id'' [] fs = Inr i \<and> (HasPrivateKey i \<longrightarrow> identity_ok i)"
proof -
  obtain i where i: "Generate demo_prims (Some (\<lambda>n. word_of_nat n)) ''alice'' = Inr i"
    by (simp add: Generate_def is_blank_def Let_def)
  from Generate_ok [OF this] have ok: "identity_ok i" by simp
  then obtain priv where p: "id_priv i = Some priv" "length priv = 64" "length (id_pub i) = 32"
    by (auto simp: identity_ok_def)
  have J: "json_unmarshal demo_json (json_marshal demo_json (disk_of i priv)) = Some (disk_of i priv)"
    by (rule demo_json_round_trip) (simp_all add: disk_of_def p)
  let ?pay = "json_marshal demo_json (disk_of i priv)"
  let ?fs = "[''id'' \<mapsto> [1, word_of_nat (length ([] :: bytes))] @ [] @ ?pay]"
  have "readIdentityFile ''id'' ?fs = Inr (None, ?pay)"
    using read_written [of "[]" ?fs "''id''" ?pay] by simp
  then have "identity_Load demo_prims demo_json ''id'' [] ?fs = Inr i"
    using identity_decode_disk [OF ok p(1) J] by (simp add: identity_Load_def)
  with load_validates [OF this] i show ?thesis by blast
qed

text \<open>
  saving is atomic. Whatever fails (the directory, the write at any byte, the rename), the file
  at the path holds afterwards what it held before, and it holds the complete new content exactly
  when the call succeeded. No path but the file and its temporary sibling changes.
\<close>

theorem save_is_atomic:
  "let (r, fs') = writeIdentityFile io path salt blob fs in
     fs' path = (if r = Inr () then Some ([identityFileVersion, word_of_nat (length salt)] @ salt @ blob) else fs path) \<and>
     (\<forall>p. p = path \<or> p = path @ ''.tmp'' \<or> fs' p = fs p) \<and>
     (r = Inr () \<longleftrightarrow> io = no_faults)"
  by (cases io) (auto simp: writeIdentityFile_def no_faults_def Let_def split: option.splits)

text \<open>
  a fingerprint is 103 characters long and identifies the SHA-256 hash of the key: two keys
  have the same fingerprint exactly when their hashes are equal.
\<close>

theorem fingerprint_identifies:
  "length (FingerprintOf P k) = 103 \<and>
   (FingerprintOf P k = FingerprintOf P k' \<longleftrightarrow> fill (sha256_byte P k) 32 = fill (sha256_byte P k') 32)"
  by (simp add: FingerprintOf_def length_join_hex2 join_hex2_inject)

end
