(* ===== verification/Handshake.thy ===== *)
theory Handshake
  imports Session Identity
begin

text \<open>
  \<open>internal/proto/handshake.go\<close>: the three-message handshake as a state machine driven by
  \<open>HandleMessage\<close>. A call returns its result together with the handshaker's new state, since the
  code keeps the fields it assigned before an error. The nil slices \<open>peerEph\<close>, \<open>transcript\<close> and
  \<open>shared\<close> are empty lists; a nil \<open>eph\<close> is \<^const>\<open>None\<close>.
\<close>

section \<open>State\<close>

definition handshakeDomain :: bytes where "handshakeDomain = str ''heimdall v1 handshake''"
definition hsTypeInit :: byte where [simp]: "hsTypeInit = 1"
definition hsTypeAuth :: byte where [simp]: "hsTypeAuth = 2"
definition maxHsSize :: nat where [simp]: "maxHsSize = 4096"
definition maxPeerName :: nat where [simp]: "maxPeerName = 64"

record handshakeResult =
  r_Session :: session
  r_PeerName :: string
  r_PeerKey :: bytes
  r_PeerFingerprint :: string
  r_Transcript :: bytes

record handshaker =
  h_id :: identity
  h_initiator :: bool
  h_eph :: "bytes option"
  h_ephPub :: bytes
  h_peerEph :: bytes
  h_transcript :: bytes
  h_shared :: bytes
  h_done :: bool

section \<open>Wire encoding helpers\<close>

definition parseInit :: "bytes \<Rightarrow> proto_error + bytes" where
  "parseInit msg =
     (if length msg < 3 \<or> msg ! 0 \<noteq> hsTypeInit then Inl (ErrHandshake ''bad init message'')
      else let n = unat (Uint16 (drop 1 msg))
           in if n \<noteq> 32 \<or> length msg \<noteq> 3 + n then Inl (ErrHandshake ''bad init length'')
              else Inr (drop 3 msg))"

definition marshalAuth :: "bytes \<Rightarrow> bytes \<Rightarrow> bytes" where
  "marshalAuth ephPub blob = [hsTypeAuth] @ ephPub @ PutUint32 (word_of_nat (length blob)) @ blob"

definition parseAuth :: "bytes \<Rightarrow> proto_error + bytes \<times> bytes" where
  "parseAuth msg =
     (if length msg < 1 + 32 + 4 \<or> msg ! 0 \<noteq> hsTypeAuth then Inl (ErrHandshake ''bad auth message'')
      else let ephPub = take 32 (drop 1 msg); n = unat (Uint32 (drop 33 msg))
           in if n \<le> 0 \<or> length msg \<noteq> 1 + 32 + 4 + n then Inl (ErrHandshake ''bad auth length'')
              else Inr (ephPub, drop 37 msg))"

definition marshalAuthPlain :: "bytes \<Rightarrow> string \<Rightarrow> bytes \<Rightarrow> bytes" where
  "marshalAuthPlain pub name sig = pub @ PutUint16 (word_of_nat (length name)) @ str name @ sig"

definition parseAuthPlain :: "bytes \<Rightarrow> proto_error + bytes \<times> string \<times> bytes" where
  "parseAuthPlain b =
     (if length b < 32 + 2 + 64 then Inl (ErrHandshake ''auth payload too short'')
      else let pub = take 32 b; nl = unat (Uint16 (drop 32 b))
           in if nl \<le> 0 \<or> nl > maxPeerName \<or> length b \<noteq> 34 + nl + 64
              then Inl (ErrHandshake ''bad name length'')
              else Inr (pub, unstr (take nl (drop 34 b)), drop (34 + nl) b))"

definition hsAAD :: bytes where "hsAAD = str ''heimdall v1 hs aad''"

section \<open>Operations\<close>

definition NewHandshaker :: "prims \<Rightarrow> entropy \<Rightarrow> identity \<Rightarrow> bool \<Rightarrow> proto_error + handshaker" where
  "NewHandshaker P rnd i initiator =
     (if \<not> HasPrivateKey i then Inl ErrNoPrivateKey
      else case RandomBytes rnd 32 of Inl e \<Rightarrow> Inl (ErrCrypto e)
      | Inr eph \<Rightarrow>
        Inr \<lparr>h_id = i, h_initiator = initiator, h_eph = Some eph, h_ephPub = fill (x_public P eph) 32,
             h_peerEph = [], h_transcript = [], h_shared = [], h_done = False\<rparr>)"

definition InitMessage :: "handshaker \<Rightarrow> proto_error + bytes" where
  "InitMessage h =
     (if \<not> h_initiator h then Inl ErrNotInitiator
      else Inr ([hsTypeInit] @ PutUint16 (word_of_nat (length (h_ephPub h))) @ h_ephPub h))"

definition deriveShared :: "prims \<Rightarrow> handshaker \<Rightarrow> (proto_error + unit) \<times> handshaker" where
  "deriveShared P h =
     (if length (h_peerEph h) \<noteq> 32 then (Inl (ErrHandshake ''bad peer ephemeral key''), h)
      else case h_eph h of None \<Rightarrow> (Inl NilDeref, h)
      | Some eph \<Rightarrow>
        (case x_shared P eph (h_peerEph h) of
           None \<Rightarrow> (Inl (ErrHandshake ''key agreement failed''), h)
         | Some s \<Rightarrow> (Inr (), h\<lparr>h_shared := fill s 32\<rparr>)))"

definition proto_of_identity :: "identity_error \<Rightarrow> proto_error" where
  "proto_of_identity e = (if e = IdNoPrivateKey then ErrNoPrivateKey else BadKeyLength)"

definition sealAuth :: "prims \<Rightarrow> entropy \<Rightarrow> string \<Rightarrow> handshaker \<Rightarrow> proto_error + bytes" where
  "sealAuth P rnd info h =
     (case DeriveKey P (h_shared h) (h_transcript h) info KeySize of Inl e \<Rightarrow> Inl (ErrCrypto e)
      | Inr k \<Rightarrow>
     (case identity_Sign P (h_id h) (h_transcript h) of Inl e \<Rightarrow> Inl (proto_of_identity e)
      | Inr sig \<Rightarrow>
        let plain = marshalAuthPlain (id_pub (h_id h)) (id_Name (h_id h)) sig
        in case crypto_Seal P rnd k hsAAD plain of Inl e \<Rightarrow> Inl (ErrCrypto e) | Inr blob \<Rightarrow> Inr blob))"

definition openAuth :: "prims \<Rightarrow> bytes \<Rightarrow> string \<Rightarrow> handshaker \<Rightarrow> proto_error + bytes \<times> string \<times> bytes" where
  "openAuth P blob info h =
     (case DeriveKey P (h_shared h) (h_transcript h) info KeySize of Inl e \<Rightarrow> Inl (ErrCrypto e)
      | Inr k \<Rightarrow>
     (case crypto_Open P k hsAAD blob of Inl _ \<Rightarrow> Inl (ErrHandshake ''auth message authentication failed'')
      | Inr plain \<Rightarrow> parseAuthPlain plain))"

definition finish :: "handshaker \<Rightarrow> handshaker" where
  "finish h = h\<lparr>h_done := True, h_shared := [], h_eph := None\<rparr>"

definition handleInit ::
    "prims \<Rightarrow> entropy \<Rightarrow> bytes \<Rightarrow> handshaker \<Rightarrow>
     (proto_error + bytes option \<times> handshakeResult option) \<times> handshaker" where
  "handleInit P rnd msg h =
     (case parseInit msg of Inl e \<Rightarrow> (Inl e, h)
      | Inr peerEph \<Rightarrow>
        let h1 = h\<lparr>h_peerEph := peerEph\<rparr>;
            h2 = h1\<lparr>h_transcript := transcriptHash P [handshakeDomain, h_peerEph h1, h_ephPub h1]\<rparr>
        in case deriveShared P h2 of (Inl e, h3) \<Rightarrow> (Inl e, h3)
           | (Inr _, h3) \<Rightarrow>
             (case sealAuth P rnd infoHS2 h3 of Inl e \<Rightarrow> (Inl e, h3)
              | Inr blob \<Rightarrow> (Inr (Some (marshalAuth (h_ephPub h3) blob), None), h3)))"

definition handleAuthInitiator ::
    "prims \<Rightarrow> entropy \<Rightarrow> bytes \<Rightarrow> handshaker \<Rightarrow>
     (proto_error + bytes option \<times> handshakeResult option) \<times> handshaker" where
  "handleAuthInitiator P rnd msg h =
     (case parseAuth msg of Inl e \<Rightarrow> (Inl e, h)
      | Inr (ephB, blob) \<Rightarrow>
        let h1 = h\<lparr>h_peerEph := ephB\<rparr>;
            h2 = h1\<lparr>h_transcript := transcriptHash P [handshakeDomain, h_ephPub h1, h_peerEph h1]\<rparr>
        in case deriveShared P h2 of (Inl e, h3) \<Rightarrow> (Inl e, h3)
           | (Inr _, h3) \<Rightarrow>
             (case openAuth P blob infoHS2 h3 of Inl e \<Rightarrow> (Inl e, h3)
              | Inr (pub, name, sig) \<Rightarrow>
                (case VerifyWith P pub (h_transcript h3) sig of
                   None \<Rightarrow> (Inl BadKeyLength, h3)
                 | Some False \<Rightarrow> (Inl ErrBadSignature, h3)
                 | Some True \<Rightarrow>
                   if pub = id_pub (h_id h3) then (Inl ErrSelfConnection, h3)
                   else
                     (case sealAuth P rnd infoHS3 h3 of Inl e \<Rightarrow> (Inl e, h3)
                      | Inr blob3 \<Rightarrow>
                     (case newSession P (h_shared h3) (h_transcript h3) True of Inl e \<Rightarrow> (Inl e, h3)
                      | Inr sess \<Rightarrow>
                        (Inr (Some (marshalAuth (h_ephPub h3) blob3),
                              Some \<lparr>r_Session = sess, r_PeerName = name, r_PeerKey = pub,
                                    r_PeerFingerprint = FingerprintOf P pub,
                                    r_Transcript = h_transcript h3\<rparr>),
                         finish h3))))))"

definition handleAuthResponder ::
    "prims \<Rightarrow> bytes \<Rightarrow> handshaker \<Rightarrow>
     (proto_error + bytes option \<times> handshakeResult option) \<times> handshaker" where
  "handleAuthResponder P msg h =
     (if h_transcript h = [] then (Inl (ErrHandshake ''auth before init''), h)
      else case parseAuth msg of Inl e \<Rightarrow> (Inl e, h)
      | Inr (_, blob) \<Rightarrow>
        (case openAuth P blob infoHS3 h of Inl e \<Rightarrow> (Inl e, h)
         | Inr (pub, name, sig) \<Rightarrow>
           (case VerifyWith P pub (h_transcript h) sig of
              None \<Rightarrow> (Inl BadKeyLength, h)
            | Some False \<Rightarrow> (Inl ErrBadSignature, h)
            | Some True \<Rightarrow>
              if pub = id_pub (h_id h) then (Inl ErrSelfConnection, h)
              else
                (case newSession P (h_shared h) (h_transcript h) False of Inl e \<Rightarrow> (Inl e, h)
                 | Inr sess \<Rightarrow>
                   (Inr (None,
                         Some \<lparr>r_Session = sess, r_PeerName = name, r_PeerKey = pub,
                               r_PeerFingerprint = FingerprintOf P pub,
                               r_Transcript = h_transcript h\<rparr>),
                    finish h)))))"

definition HandleMessage ::
    "prims \<Rightarrow> entropy \<Rightarrow> bytes \<Rightarrow> handshaker \<Rightarrow>
     (proto_error + bytes option \<times> handshakeResult option) \<times> handshaker" where
  "HandleMessage P rnd msg h =
     (if h_done h then (Inl (ErrHandshake ''handshake already complete''), h)
      else if length msg = 0 \<or> length msg > maxHsSize then (Inl (ErrHandshake ''bad message size''), h)
      else if \<not> h_initiator h \<and> msg ! 0 = hsTypeInit \<and> h_transcript h = [] then handleInit P rnd msg h
      else if msg ! 0 = hsTypeAuth then
        (if h_initiator h then handleAuthInitiator P rnd msg h else handleAuthResponder P msg h)
      else (Inl (ErrHandshake (''unexpected message type '' @ itoa (ucast (msg ! 0)))), h))"

section \<open>The wire formats are canonical\<close>

lemma parse_marshalAuth:
  "length e = 32 \<Longrightarrow> blob \<noteq> [] \<Longrightarrow> length blob < 2 ^ 32 \<Longrightarrow> parseAuth (marshalAuth e blob) = Inr (e, blob)"
  by (simp add: parseAuth_def marshalAuth_def Let_def be_simps unat_of_nat take_bit_nat_eq_self)

lemma marshal_parseAuth:
  assumes "parseAuth b = Inr (e, blob)"
  shows "length e = 32 \<and> blob \<noteq> [] \<and> length blob < 2 ^ 32 \<and> marshalAuth e blob = b"
proof -
  define n where "n = unat (Uint32 (drop 33 b))"
  from assms [unfolded parseAuth_def Let_def, folded n_def]
  have len: "37 < length b" and b0: "b ! 0 = 2" and n: "length b = 37 + n"
    and e: "e = take 32 (drop 1 b)" and blob: "blob = drop 37 b"
    by (auto split: if_splits)
  have "length blob = unat (Uint32 (drop 33 b))" using n blob unfolding n_def by (simp only: length_drop)
  then have "PutUint32 (word_of_nat (length blob)) = take 4 (drop 33 b)" and bound: "length blob < 2 ^ 32"
    using len PutUint32_get [of "drop 33 b"] unat_bound [of "Uint32 (drop 33 b)"] by simp_all
  moreover have "b = [b ! 0] @ take 32 (drop 1 b) @ take 4 (drop 33 b) @ drop 37 b"
    using len append_take_drop_id [of 32 "drop 1 b"] append_take_drop_id [of 4 "drop 33 b"]
    by (cases b) simp_all
  ultimately show ?thesis
    using len b0 e blob by (auto simp: marshalAuth_def)
qed

interpretation auth_codec: canonical_codec "\<lambda>(e, blob). marshalAuth e blob" parseAuth
  "\<lambda>(e, blob). length e = 32 \<and> blob \<noteq> [] \<and> length blob < 2 ^ 32"
  by unfold_locales (auto simp: parse_marshalAuth dest: marshal_parseAuth)

definition auth_plain_ok :: "bytes \<times> string \<times> bytes \<Rightarrow> bool" where
  "auth_plain_ok x = (case x of (pub, name, sig) \<Rightarrow>
     length pub = 32 \<and> name \<noteq> [] \<and> length name \<le> 64 \<and> length sig = 64)"

lemma parse_marshalAuthPlain:
  "auth_plain_ok (pub, name, sig) \<Longrightarrow> parseAuthPlain (marshalAuthPlain pub name sig) = Inr (pub, name, sig)"
  by (simp add: auth_plain_ok_def parseAuthPlain_def marshalAuthPlain_def Let_def be_simps
      unat_of_nat take_bit_nat_eq_self)

lemma marshal_parseAuthPlain:
  assumes "parseAuthPlain b = Inr (pub, name, sig)"
  shows "auth_plain_ok (pub, name, sig) \<and> marshalAuthPlain pub name sig = b"
proof -
  define nl where "nl = unat (Uint16 (drop 32 b))"
  from assms [unfolded parseAuthPlain_def Let_def, folded nl_def]
  have len: "0 < nl" "nl \<le> 64" "length b = 98 + nl" and pub: "pub = take 32 b"
    and name: "name = unstr (take nl (drop 34 b))" and sig: "sig = drop (34 + nl) b"
    by (auto split: if_splits)
  have ln: "length name = nl" using len name by simp
  have "2 \<le> length (drop 32 b)" using len by simp
  then have "PutUint16 (word_of_nat (length name)) = take 2 (drop 32 b)"
    unfolding ln nl_def by (simp add: PutUint16_get)
  moreover have "b = take 32 b @ take 2 (drop 32 b) @ take nl (drop 34 b) @ drop (34 + nl) b"
    using append_take_drop_id [of 32 b] append_take_drop_id [of 2 "drop 32 b"]
      append_take_drop_id [of nl "drop 34 b"] by (simp add: add.commute)
  moreover have "auth_plain_ok (pub, name, sig)"
    using len ln pub sig by (auto simp: auth_plain_ok_def)
  ultimately show ?thesis
    using pub name sig by (simp add: marshalAuthPlain_def)
qed

interpretation auth_plain_codec: canonical_codec "\<lambda>(pub, name, sig). marshalAuthPlain pub name sig"
  parseAuthPlain auth_plain_ok
  by unfold_locales (auto simp: parse_marshalAuthPlain dest: marshal_parseAuthPlain)

lemma parseInit_InitMessage:
  "length (h_ephPub h) = 32 \<Longrightarrow> InitMessage h = Inr m \<Longrightarrow> parseInit m = Inr (h_ephPub h)"
  by (auto simp: InitMessage_def parseInit_def Let_def be_simps split: if_splits)

end
