(* ===== verification/HandshakeProps.thy ===== *)
theory HandshakeProps
  imports Handshake
begin

text \<open>
  Properties of the handshake: its invariant, what a completed handshake has authenticated, that no
  message can make it panic or complete twice, and the honest run, which leaves two sessions in
  step.
\<close>

section \<open>Invariant\<close>

definition ephShared :: "prims \<Rightarrow> handshaker \<Rightarrow> bytes \<Rightarrow> bytes option" where
  "ephShared P h peerEph =
     (case h_eph h of None \<Rightarrow> None | Some e \<Rightarrow> map_option (\<lambda>s. fill s 32) (x_shared P e peerEph))"

definition hsTranscript :: "prims \<Rightarrow> handshaker \<Rightarrow> bytes \<Rightarrow> bytes" where
  "hsTranscript P h peerEph =
     transcriptHash P (if h_initiator h then [handshakeDomain, h_ephPub h, peerEph]
                       else [handshakeDomain, peerEph, h_ephPub h])"

definition handshaker_ok :: "prims \<Rightarrow> handshaker \<Rightarrow> bool" where
  "handshaker_ok P h \<longleftrightarrow>
     identity_ok (h_id h) \<and> length (h_ephPub h) = 32 \<and>
     (h_done h \<or> (\<exists>e. length e = 32 \<and> h_eph h = Some e \<and> h_ephPub h = fill (x_public P e) 32)) \<and>
     (\<not> h_initiator h \<and> h_transcript h \<noteq> [] \<longrightarrow>
        length (h_peerEph h) = 32 \<and> h_transcript h = hsTranscript P h (h_peerEph h)) \<and>
     (\<not> h_initiator h \<and> h_transcript h = [] \<longrightarrow> h_shared h = []) \<and>
     (\<not> h_initiator h \<and> \<not> h_done h \<and> h_shared h \<noteq> [] \<longrightarrow> ephShared P h (h_peerEph h) = Some (h_shared h))"

lemma transcriptHash_not_Nil [simp]: "transcriptHash P parts \<noteq> []"
  by (simp add: transcriptHash_def)

lemma hsTranscript_not_Nil [simp]: "hsTranscript P h e \<noteq> []"
  by (simp add: hsTranscript_def)

lemma NewHandshaker_ok:
  assumes "NewHandshaker P rnd i ini = Inr h" and "identity_ok i"
  shows "handshaker_ok P h \<and> h_id h = i \<and> h_initiator h = ini \<and> \<not> h_done h"
  using assms by (auto simp: NewHandshaker_def RandomBytes_def handshaker_ok_def split: if_splits option.splits)

lemma deriveShared_cases:
  assumes "deriveShared P h = (r, h')"
  shows "(\<exists>e. r = Inl e \<and> h' = h \<and> (h_eph h \<noteq> None \<longrightarrow> e \<notin> {NilDeref, BadKeyLength})) \<or>
    (\<exists>s. r = Inr () \<and> length (h_peerEph h) = 32 \<and> ephShared P h (h_peerEph h) = Some s \<and> s \<noteq> [] \<and>
         h' = h\<lparr>h_shared := s\<rparr>)"
  using assms by (auto simp: deriveShared_def ephShared_def split: if_splits option.splits)

lemma newSession_no_panic: "newSession P s t i = Inl e \<Longrightarrow> e \<notin> {NilDeref, BadKeyLength}"
  by (auto simp: newSession_def installEpochLocked_def Let_def split: sum.splits)

lemma sealAuth_no_panic:
  assumes "identity_ok (h_id h)" and "sealAuth P rnd info h = Inl e"
  shows "e \<notin> {NilDeref, BadKeyLength}"
  using assms
  by (auto simp: sealAuth_def identity_ok_def identity_Sign_def Let_def split: sum.splits)

lemma two_guards:
  "(if c then Inl (ErrHandshake a) else if d then Inl (ErrHandshake b) else Inr x) = Inl e \<Longrightarrow>
   \<exists>m. e = ErrHandshake m"
  by (auto split: if_splits)

lemma two_guards_snd:
  "map_sum id snd (if c then Inl a else if d then Inl b else Inr (x, y)) =
   map_sum id snd (if c then Inl a else if d then Inl b else Inr (x', y))"
  by simp

lemma parse_errors:
  "parseInit b = Inl e \<Longrightarrow> \<exists>m. e = ErrHandshake m"
  "parseAuth b = Inl e \<Longrightarrow> \<exists>m. e = ErrHandshake m"
  "parseAuthPlain b = Inl e \<Longrightarrow> \<exists>m. e = ErrHandshake m"
  unfolding parseInit_def parseAuth_def parseAuthPlain_def Let_def by (erule two_guards)+

lemma openAuth_no_panic: "openAuth P blob info h = Inl e \<Longrightarrow> e \<notin> {NilDeref, BadKeyLength}"
  by (auto simp: openAuth_def split: sum.splits dest: parse_errors)

lemma openAuth_Inr:
  assumes "openAuth P blob info h = Inr (pub, name, sig)"
  shows "length pub = 32 \<and> name \<noteq> [] \<and> length name \<le> 64 \<and> length sig = 64"
  using assms marshal_parseAuthPlain
  by (fastforce simp: openAuth_def auth_plain_ok_def split: sum.splits)

lemma parse_no_panic:
  "parseInit m = Inl e \<Longrightarrow> e \<notin> {NilDeref, BadKeyLength}"
  "parseAuth m = Inl e \<Longrightarrow> e \<notin> {NilDeref, BadKeyLength}"
  using parse_errors by blast+

lemmas hs_no_panic = newSession_no_panic sealAuth_no_panic openAuth_no_panic parse_no_panic

lemma parseInit_length: "parseInit m = Inr e \<Longrightarrow> length e = 32"
  by (auto simp: parseInit_def Let_def split: if_splits)

lemma handshaker_ok_initiator:
  assumes "handshaker_ok P h" and "h_initiator h"
  shows "handshaker_ok P (h\<lparr>h_peerEph := e, h_transcript := t\<rparr>)"
    and "handshaker_ok P (h\<lparr>h_peerEph := e, h_transcript := t, h_shared := s\<rparr>)"
  using assms by (simp_all add: handshaker_ok_def)

lemma handshaker_ok_finish: "handshaker_ok P h \<Longrightarrow> handshaker_ok P (finish h)"
  by (auto simp: handshaker_ok_def finish_def hsTranscript_def)

lemma handshaker_eph: "handshaker_ok P h \<Longrightarrow> \<not> h_done h \<Longrightarrow> h_eph h \<noteq> None"
  by (auto simp: handshaker_ok_def)

section \<open>One step\<close>

text \<open>What a step that completes the handshake has established.\<close>

definition authenticated :: "prims \<Rightarrow> handshaker \<Rightarrow> bytes \<Rightarrow> handshakeResult \<Rightarrow> bool" where
  "authenticated P h msg r \<longleftrightarrow>
     (\<exists>peerEph shared eph blob key nonce sig.
        length peerEph = 32 \<and> ephShared P h peerEph = Some shared \<and>
        r_Transcript r = hsTranscript P h peerEph \<and>
        newSession P shared (r_Transcript r) (h_initiator h) = Inr (r_Session r) \<and>
        msg = marshalAuth eph blob \<and> (h_initiator h \<longrightarrow> eph = peerEph) \<and>
        DeriveKey P shared (r_Transcript r) (if h_initiator h then infoHS2 else infoHS3) KeySize = Inr key \<and>
        length nonce = NonceSize \<and>
        blob = nonce @ gcm_seal P key nonce hsAAD (marshalAuthPlain (r_PeerKey r) (r_PeerName r) sig) \<and>
        length sig = 64 \<and> ed_verify P (r_PeerKey r) (r_Transcript r) sig) \<and>
     length (r_PeerKey r) = 32 \<and> r_PeerKey r \<noteq> id_pub (h_id h) \<and>
     r_PeerFingerprint r = FingerprintOf P (r_PeerKey r) \<and>
     r_PeerName r \<noteq> [] \<and> length (r_PeerName r) \<le> maxPeerName"

lemma authenticatedI:
  "length peerEph = 32 \<Longrightarrow> ephShared P h peerEph = Some shared \<Longrightarrow> r_Transcript r = hsTranscript P h peerEph \<Longrightarrow>
   newSession P shared (r_Transcript r) (h_initiator h) = Inr (r_Session r) \<Longrightarrow>
   msg = marshalAuth eph blob \<Longrightarrow> (h_initiator h \<Longrightarrow> eph = peerEph) \<Longrightarrow>
   DeriveKey P shared (r_Transcript r) (if h_initiator h then infoHS2 else infoHS3) KeySize = Inr key \<Longrightarrow>
   length nonce = NonceSize \<Longrightarrow>
   blob = nonce @ gcm_seal P key nonce hsAAD (marshalAuthPlain (r_PeerKey r) (r_PeerName r) sig) \<Longrightarrow>
   length sig = 64 \<Longrightarrow> ed_verify P (r_PeerKey r) (r_Transcript r) sig \<Longrightarrow>
   length (r_PeerKey r) = 32 \<Longrightarrow> r_PeerKey r \<noteq> id_pub (h_id h) \<Longrightarrow>
   r_PeerFingerprint r = FingerprintOf P (r_PeerKey r) \<Longrightarrow>
   r_PeerName r \<noteq> [] \<Longrightarrow> length (r_PeerName r) \<le> maxPeerName \<Longrightarrow> authenticated P h msg r"
  unfolding authenticated_def by blast

definition wiped :: "handshaker \<Rightarrow> bool" where
  "wiped h \<longleftrightarrow> h_done h \<and> h_eph h = None \<and> h_shared h = []"

lemma wiped_finish [simp]: "wiped (finish h)"
  by (simp add: wiped_def finish_def)

lemma openAuth_sealed:
  assumes "openAuth P blob info h = Inr (pub, name, sig)"
  shows "\<exists>key nonce. DeriveKey P (h_shared h) (h_transcript h) info KeySize = Inr key \<and>
    length nonce = NonceSize \<and> blob = nonce @ gcm_seal P key nonce hsAAD (marshalAuthPlain pub name sig)"
proof -
  obtain k plain where "DeriveKey P (h_shared h) (h_transcript h) info KeySize = Inr k"
    "crypto_Open P k hsAAD blob = Inr plain" "parseAuthPlain plain = Inr (pub, name, sig)"
    using assms by (auto simp: openAuth_def split: sum.splits)
  with marshal_parseAuthPlain [of plain pub name sig] show ?thesis
    by (auto simp: crypto_Open_sealed)
qed

lemma VerifyWith_True: "VerifyWith P pub m s = Some True \<longleftrightarrow> length pub = 32 \<and> ed_verify P pub m s"
  and VerifyWith_None: "VerifyWith P pub m s = None \<longleftrightarrow> length pub \<noteq> 32"
  by (auto simp: VerifyWith_def)

text \<open>The initiator's step, taken apart once.\<close>

lemma handleAuthInitiator_cases:
  assumes "handleAuthInitiator P rnd msg h = (r, h')"
  obtains (parse) e where "parseAuth msg = Inl e" "r = Inl e" "h' = h"
  | (agree) ephB blob e where "parseAuth msg = Inr (ephB, blob)"
      "deriveShared P (h\<lparr>h_peerEph := ephB, h_transcript := transcriptHash P [handshakeDomain, h_ephPub h, ephB]\<rparr>) = (Inl e, h')"
      "r = Inl e"
  | (refuse) ephB blob e where "parseAuth msg = Inr (ephB, blob)"
      "deriveShared P (h\<lparr>h_peerEph := ephB, h_transcript := transcriptHash P [handshakeDomain, h_ephPub h, ephB]\<rparr>) = (Inr (), h')"
      "r = Inl e"
      "openAuth P blob infoHS2 h' = Inl e \<or>
       (\<exists>pub name sig. openAuth P blob infoHS2 h' = Inr (pub, name, sig) \<and>
          (VerifyWith P pub (h_transcript h') sig = None \<and> e = BadKeyLength \<or> e = ErrBadSignature \<or>
           e = ErrSelfConnection \<or> sealAuth P rnd infoHS3 h' = Inl e \<or>
           newSession P (h_shared h') (h_transcript h') True = Inl e))"
  | (complete) ephB blob pub name sig blob3 sess h3 where "parseAuth msg = Inr (ephB, blob)"
      "deriveShared P (h\<lparr>h_peerEph := ephB, h_transcript := transcriptHash P [handshakeDomain, h_ephPub h, ephB]\<rparr>) = (Inr (), h3)"
      "openAuth P blob infoHS2 h3 = Inr (pub, name, sig)" "VerifyWith P pub (h_transcript h3) sig = Some True"
      "pub \<noteq> id_pub (h_id h3)" "sealAuth P rnd infoHS3 h3 = Inr blob3"
      "newSession P (h_shared h3) (h_transcript h3) True = Inr sess" "h' = finish h3"
      "r = Inr (Some (marshalAuth (h_ephPub h3) blob3),
             Some \<lparr>r_Session = sess, r_PeerName = name, r_PeerKey = pub,
                   r_PeerFingerprint = FingerprintOf P pub, r_Transcript = h_transcript h3\<rparr>)"
  using assms
  by (simp add: handleAuthInitiator_def Let_def
      split: sum.splits prod.splits option.splits bool.splits if_splits) (metis+)?

lemma handleAuthResponder_cases:
  assumes "handleAuthResponder P msg h = (r, h')"
  obtains (refuse) e where "r = Inl e" "h' = h" "e \<notin> {NilDeref, BadKeyLength}"
  | (complete) ephA blob pub name sig sess where "h_transcript h \<noteq> []" "parseAuth msg = Inr (ephA, blob)"
      "openAuth P blob infoHS3 h = Inr (pub, name, sig)" "VerifyWith P pub (h_transcript h) sig = Some True"
      "pub \<noteq> id_pub (h_id h)"
      "newSession P (h_shared h) (h_transcript h) False = Inr sess" "h' = finish h"
      "r = Inr (None, Some \<lparr>r_Session = sess, r_PeerName = name, r_PeerKey = pub,
                   r_PeerFingerprint = FingerprintOf P pub, r_Transcript = h_transcript h\<rparr>)"
proof (cases r)
  case (Inl e)
  have "h' = h \<and> e \<notin> {NilDeref, BadKeyLength}"
    using assms Inl openAuth_Inr [of P _ infoHS3 h]
    by (simp add: handleAuthResponder_def VerifyWith_def
        split: sum.splits prod.splits option.splits bool.splits if_splits)
      (use hs_no_panic(3,5) newSession_no_panic in blast)+
  then show ?thesis using refuse Inl by blast
next
  case (Inr x)
  then show ?thesis
    using assms complete
    by (simp add: handleAuthResponder_def split: sum.splits prod.splits option.splits bool.splits if_splits)
qed

lemma handleInit_cases:
  assumes "handleInit P rnd msg h = (r, h')" and "h_eph h \<noteq> None" and "identity_ok (h_id h)"
  shows "(\<forall>e. r = Inl e \<longrightarrow> e \<notin> {NilDeref, BadKeyLength}) \<and>
    (\<forall>out q. r = Inr (out, q) \<longrightarrow> q = None) \<and>
    (h' = h \<or> (\<exists>e s. length e = 32 \<and> (s = h_shared h \<or> ephShared P h e = Some s) \<and>
       h' = h\<lparr>h_peerEph := e, h_transcript := transcriptHash P [handshakeDomain, e, h_ephPub h], h_shared := s\<rparr>))"
proof (cases "parseInit msg")
  case (Inl e)
  then show ?thesis using assms(1) hs_no_panic(4) by (auto simp: handleInit_def)
next
  case (Inr e)
  let ?h2 = "h\<lparr>h_peerEph := e, h_transcript := transcriptHash P [handshakeDomain, e, h_ephPub h]\<rparr>"
  obtain q h3 where d: "deriveShared P ?h2 = (q, h3)" by fastforce
  have same: "ephShared P ?h2 = ephShared P h" by (simp add: ephShared_def fun_eq_iff split: option.split)
  show ?thesis
    using deriveShared_cases [OF d]
  proof
    assume "\<exists>e. q = Inl e \<and> h3 = ?h2 \<and> (h_eph ?h2 \<noteq> None \<longrightarrow> e \<notin> {NilDeref, BadKeyLength})"
    then obtain x where "r = Inl x" "h' = ?h2" "x \<notin> {NilDeref, BadKeyLength}"
      using assms(1,2) Inr d by (auto simp: handleInit_def)
    moreover have "\<exists>e' s. length e' = 32 \<and> (s = h_shared h \<or> ephShared P h e' = Some s) \<and> ?h2 =
        h\<lparr>h_peerEph := e', h_transcript := transcriptHash P [handshakeDomain, e', h_ephPub h], h_shared := s\<rparr>"
      using parseInit_length [OF Inr] by (intro exI [of _ e] exI [of _ "h_shared h"]) simp
    ultimately show ?thesis by auto
  next
    assume "\<exists>s. q = Inr () \<and> length (h_peerEph ?h2) = 32 \<and> ephShared P ?h2 (h_peerEph ?h2) = Some s \<and> s \<noteq> [] \<and>
        h3 = ?h2\<lparr>h_shared := s\<rparr>"
    then obtain s where s: "q = Inr ()" "ephShared P h e = Some s" "h3 = ?h2\<lparr>h_shared := s\<rparr>"
      using same by auto
    have "h' = h3" and r: "\<forall>x. r = Inl x \<longrightarrow> sealAuth P rnd infoHS2 h3 = Inl x" "\<forall>out y. r = Inr (out, y) \<longrightarrow> y = None"
      using assms(1) Inr d s(1) by (auto simp: handleInit_def Let_def split: sum.splits)
    moreover have "identity_ok (h_id h3)" using s(3) assms(3) by simp
    ultimately show ?thesis
      using parseInit_length [OF Inr] s(2,3) sealAuth_no_panic [of h3 P rnd infoHS2] by auto
  qed
qed

section \<open>The step preserves the invariant\<close>

lemma handshaker_ok_Init:
  assumes ok: "handshaker_ok P h" and live: "\<not> h_done h" and role: "\<not> h_initiator h" and fresh: "h_transcript h = []"
    and step: "handleInit P rnd msg h = (r, h')"
  shows "handshaker_ok P h'"
proof -
  have "identity_ok (h_id h)" using ok by (simp add: handshaker_ok_def)
  from handleInit_cases [OF step handshaker_eph [OF ok live] this]
  consider "h' = h"
    | e s where "length e = 32" "s = h_shared h \<or> ephShared P h e = Some s"
      "h' = h\<lparr>h_peerEph := e, h_transcript := transcriptHash P [handshakeDomain, e, h_ephPub h], h_shared := s\<rparr>"
    by blast
  then show ?thesis
  proof cases
    case 1
    then show ?thesis using ok by simp
  next
    case 2
    then show ?thesis
      using ok role fresh by (auto simp: handshaker_ok_def hsTranscript_def ephShared_def)
  qed
qed

lemma handshaker_ok_agree:
  assumes ok: "handshaker_ok P h" and role: "h_initiator h"
    and d: "deriveShared P (h\<lparr>h_peerEph := e, h_transcript := t\<rparr>) = (q, h')"
  shows "handshaker_ok P h'" "h_initiator h'" "h_id h' = h_id h" "h_ephPub h' = h_ephPub h"
  using deriveShared_cases [OF d] handshaker_ok_initiator [OF ok role] role by auto

lemma HandleMessage_cases:
  assumes "HandleMessage P rnd msg h = (r, h')"
  obtains (refuse) m where "r = Inl (ErrHandshake m)" "h' = h"
  | (init) "\<not> h_done h" "\<not> h_initiator h" "h_transcript h = []" "handleInit P rnd msg h = (r, h')"
  | (authI) "\<not> h_done h" "h_initiator h" "handleAuthInitiator P rnd msg h = (r, h')"
  | (authR) "\<not> h_done h" "\<not> h_initiator h" "handleAuthResponder P msg h = (r, h')"
  using assms by (auto simp: HandleMessage_def split: if_splits)

lemma handshaker_ok_step:
  assumes ok: "handshaker_ok P h"
  shows "handshaker_ok P (snd (HandleMessage P rnd msg h))"
proof -
  obtain r h' where step: "HandleMessage P rnd msg h = (r, h')" by fastforce
  then have "handshaker_ok P h'"
  proof (cases rule: HandleMessage_cases)
    case refuse
    then show ?thesis using ok by simp
  next
    case init
    then show ?thesis using handshaker_ok_Init [OF ok] by blast
  next
    case authI
    from this(3) show ?thesis
      by (cases rule: handleAuthInitiator_cases)
        (use ok handshaker_ok_agree(1) [OF ok authI(2)] handshaker_ok_finish in \<open>auto\<close>)
  next
    case authR
    from this(3) show ?thesis
      by (cases rule: handleAuthResponder_cases) (use ok handshaker_ok_finish in auto)
  qed
  with step show ?thesis by simp
qed

lemma HandleMessage_no_panic:
  assumes ok: "handshaker_ok P h"
  shows "fst (HandleMessage P rnd msg h) \<notin> {Inl NilDeref, Inl BadKeyLength}"
proof -
  obtain r h' where step: "HandleMessage P rnd msg h = (r, h')" by fastforce
  have idok: "identity_ok (h_id h)" using ok by (simp add: handshaker_ok_def)
  from step have "\<forall>e. r = Inl e \<longrightarrow> e \<notin> {NilDeref, BadKeyLength}"
  proof (cases rule: HandleMessage_cases)
    case refuse
    then show ?thesis by simp
  next
    case init
    then show ?thesis using handleInit_cases [OF init(4) handshaker_eph [OF ok init(1)] idok] by blast
  next
    case authI
    from this(3) show ?thesis
    proof (cases rule: handleAuthInitiator_cases)
      case (agree ephB blob e)
      then show ?thesis using deriveShared_cases [OF agree(2)] handshaker_eph [OF ok authI(1)] by auto
    next
      case (refuse ephB blob e)
      have "identity_ok (h_id h')" using handshaker_ok_agree(3) [OF ok authI(2) refuse(2)] idok by simp
      from sealAuth_no_panic [OF this] show ?thesis
        using refuse(3,4) by (auto simp: VerifyWith_None dest: hs_no_panic(1,3) openAuth_Inr)
    qed (use hs_no_panic in auto)
  next
    case authR
    from this(3) show ?thesis by (cases rule: handleAuthResponder_cases) auto
  qed
  with step show ?thesis by auto
qed

lemma HandleMessage_authenticated:
  assumes ok: "handshaker_ok P h" and step: "HandleMessage P rnd msg h = (Inr (out, Some r), h')"
  shows "authenticated P h msg r \<and> wiped h'"
  using step
proof (cases rule: HandleMessage_cases)
  case init
  have idok: "identity_ok (h_id h)" using ok by (simp add: handshaker_ok_def)
  from handleInit_cases [OF init(4) handshaker_eph [OF ok init(1)] idok] show ?thesis by auto
next
  case authI
  from this(3) show ?thesis
  proof (cases rule: handleAuthInitiator_cases)
    case (complete ephB blob pub name sig blob3 sess h3)
    let ?h2 = "h\<lparr>h_peerEph := ephB, h_transcript := transcriptHash P [handshakeDomain, h_ephPub h, ephB]\<rparr>"
    have "ephShared P ?h2 = ephShared P h" by (simp add: ephShared_def fun_eq_iff split: option.split)
    then obtain s where s: "length ephB = 32" "ephShared P h ephB = Some s" "h3 = ?h2\<lparr>h_shared := s\<rparr>"
      using deriveShared_cases [OF complete(2)] by auto
    have tr: "h_transcript h3 = hsTranscript P h ephB" "h_shared h3 = s" "h_id h3 = h_id h"
      using s(3) authI(2) by (simp_all add: hsTranscript_def)
    obtain key nonce where k: "DeriveKey P s (hsTranscript P h ephB) infoHS2 KeySize = Inr key"
      "length nonce = NonceSize" "blob = nonce @ gcm_seal P key nonce hsAAD (marshalAuthPlain pub name sig)"
      using openAuth_sealed [OF complete(3)] tr by auto
    have m: "msg = marshalAuth ephB blob" using marshal_parseAuth [OF complete(1)] by simp
    have "authenticated P h msg r"
      by (rule authenticatedI [OF s(1,2) _ _ m _ _ k(2)])
        (use k tr complete(4-9) openAuth_Inr [OF complete(3)] authI(2) in \<open>simp_all add: VerifyWith_True\<close>)
    then show ?thesis using complete(8) by simp
  qed simp_all
next
  case authR
  from this(3) show ?thesis
  proof (cases rule: handleAuthResponder_cases)
    case (complete ephA blob pub name sig sess)
    have "h_shared h \<noteq> []" using complete(6) by (auto simp: newSession_def DeriveKey_def)
    then have s: "length (h_peerEph h) = 32" "ephShared P h (h_peerEph h) = Some (h_shared h)"
        "h_transcript h = hsTranscript P h (h_peerEph h)"
      using ok authR(1,2) complete(1) by (simp_all add: handshaker_ok_def)
    obtain key nonce where k: "DeriveKey P (h_shared h) (h_transcript h) infoHS3 KeySize = Inr key"
      "length nonce = NonceSize" "blob = nonce @ gcm_seal P key nonce hsAAD (marshalAuthPlain pub name sig)"
      using openAuth_sealed [OF complete(3)] by auto
    have m: "msg = marshalAuth ephA blob" using marshal_parseAuth [OF complete(2)] by simp
    have "authenticated P h msg r"
      by (rule authenticatedI [OF s(1,2) _ _ m _ _ k(2)])
        (use k s(3) complete(4-8) openAuth_Inr [OF complete(3)] authR(2) in \<open>simp_all add: VerifyWith_True\<close>)
    then show ?thesis using complete(7) by simp
  qed simp_all
qed simp_all

section \<open>Runs\<close>

definition hs_step :: "prims \<Rightarrow> entropy \<times> bytes \<Rightarrow> handshaker \<Rightarrow> handshaker" where
  "hs_step P m h = snd (HandleMessage P (fst m) (snd m) h)"

interpretation handshake_run: op_system "hs_step P" "handshaker_ok P" for P
  by unfold_locales (simp add: hs_step_def handshaker_ok_step)

text \<open>The results that a sequence of incoming messages makes a handshaker return.\<close>

fun hs_results :: "prims \<Rightarrow> (entropy \<times> bytes) list \<Rightarrow> handshaker \<Rightarrow> handshakeResult list" where
  "hs_results P [] h = []"
| "hs_results P ((rnd, msg) # ms) h =
     (case HandleMessage P rnd msg h of
        (Inr (out, Some r), h1) \<Rightarrow> r # hs_results P ms h1
      | (_, h1) \<Rightarrow> hs_results P ms h1)"

lemma HandleMessage_done:
  "h_done h \<Longrightarrow> HandleMessage P rnd msg h = (Inl (ErrHandshake ''handshake already complete''), h)"
  by (simp add: HandleMessage_def)

lemma hs_results_done: "h_done h \<Longrightarrow> hs_results P ms h = []"
  by (induction ms) (auto simp: HandleMessage_done)

section \<open>The honest run\<close>

text \<open>
  The documented behaviour of the signature scheme and of the key agreement for keys that were
  generated: a signature verifies under the signer's public key, and both ends of an X25519
  exchange compute the same, non-zero secret.
\<close>

definition ed25519_correct :: "prims \<Rightarrow> bool" where
  "ed25519_correct P \<longleftrightarrow>
     (\<forall>seed msg. length seed = 32 \<longrightarrow>
        ed_verify P (fill (ed_public P seed) 32) msg (fill (ed_sign P (NewKeyFromSeed P seed) msg) 64))"

definition x25519_agrees :: "prims \<Rightarrow> bool" where
  "x25519_agrees P \<longleftrightarrow>
     (\<forall>a b. length a = 32 \<longrightarrow> length b = 32 \<longrightarrow>
        (\<exists>s t. x_shared P a (fill (x_public P b) 32) = Some s \<and>
               x_shared P b (fill (x_public P a) 32) = Some t \<and> fill s 32 = fill t 32))"

definition genuine :: "prims \<Rightarrow> identity \<Rightarrow> bool" where
  "genuine P i \<longleftrightarrow> (\<exists>seed. length seed = 32 \<and> id_priv i = Some (NewKeyFromSeed P seed) \<and>
     id_pub i = fill (ed_public P seed) 32)"

lemma Generate_genuine: "Generate P rnd name = Inr i \<Longrightarrow> genuine P i \<and> id_Name i = name"
  by (auto simp: Generate_def genuine_def NewKeyFromSeed_def Let_def split: if_splits option.splits)

lemma genuine_ok: "genuine P i \<Longrightarrow> identity_ok i"
  by (auto simp: genuine_def identity_ok_def NewKeyFromSeed_def)

lemma genuine_Sign:
  assumes "genuine P i" and "ed25519_correct P"
  obtains sig where "\<And>h. h_id h = i \<Longrightarrow> h_transcript h = th \<Longrightarrow> identity_Sign P (h_id h) (h_transcript h) = Inr sig"
    "length sig = 64" "VerifyWith P (id_pub i) th sig = Some True"
  using assms by (auto simp: genuine_def identity_Sign_def VerifyWith_def ed25519_correct_def NewKeyFromSeed_def)

text \<open>Two ends that exchange the three messages in order, nothing lost or altered.\<close>

definition honest_run ::
    "prims \<Rightarrow> entropy \<Rightarrow> entropy \<Rightarrow> entropy \<Rightarrow> entropy \<Rightarrow> identity \<Rightarrow> identity \<Rightarrow>
     proto_error + handshakeResult \<times> handshakeResult" where
  "honest_run P ephA ephB nonceA nonceB iA iB =
     (case NewHandshaker P ephA iA True of Inl e \<Rightarrow> Inl e | Inr hA \<Rightarrow>
     (case NewHandshaker P ephB iB False of Inl e \<Rightarrow> Inl e | Inr hB \<Rightarrow>
     (case InitMessage hA of Inl e \<Rightarrow> Inl e | Inr msg1 \<Rightarrow>
     (case HandleMessage P nonceB msg1 hB of
        (Inr (Some msg2, None), hB1) \<Rightarrow>
          (case HandleMessage P nonceA msg2 hA of
             (Inr (Some msg3, Some rA), hA1) \<Rightarrow>
               (case HandleMessage P None msg3 hB1 of
                  (Inr (None, Some rB), hB2) \<Rightarrow> Inr (rA, rB)
                | (Inl e, _) \<Rightarrow> Inl e
                | _ \<Rightarrow> Inl NilDeref)
           | (Inl e, _) \<Rightarrow> Inl e
           | _ \<Rightarrow> Inl NilDeref)
      | (Inl e, _) \<Rightarrow> Inl e
      | _ \<Rightarrow> Inl NilDeref))))"

lemma sealAuth_then_openAuth:
  assumes "genuine P (h_id h)" and "ed25519_correct P" and "h_shared h \<noteq> []"
    and "id_Name (h_id h) \<noteq> []" and "length (id_Name (h_id h)) \<le> 64"
    and "h_shared g = h_shared h" and "h_transcript g = h_transcript h"
  obtains blob sig where "sealAuth P (Some n) info h = Inr blob" "blob \<noteq> []" "length blob \<le> 190"
    "openAuth P blob info g = Inr (id_pub (h_id h), id_Name (h_id h), sig)"
    "VerifyWith P (id_pub (h_id h)) (h_transcript h) sig = Some True"
proof -
  obtain sig where sig: "identity_Sign P (h_id h) (h_transcript h) = Inr sig" "length sig = 64"
    "VerifyWith P (id_pub (h_id h)) (h_transcript h) sig = Some True"
    using genuine_Sign [OF assms(1,2), of "h_transcript h"] by metis
  let ?k = "fill (hkdf_stream P (h_shared h) (h_transcript h) info) 32"
  let ?plain = "marshalAuthPlain (id_pub (h_id h)) (id_Name (h_id h)) sig"
  let ?blob = "fill n 12 @ gcm_seal P ?k (fill n 12) hsAAD ?plain"
  have "length (id_pub (h_id h)) = 32" using assms(1) by (auto simp: genuine_def)
  then have pok: "auth_plain_ok (id_pub (h_id h), id_Name (h_id h), sig)"
    using sig(2) assms(4,5) by (simp add: auth_plain_ok_def)
  have seal: "sealAuth P (Some n) info h = Inr ?blob"
    using assms(3) by (simp add: sealAuth_def DeriveKey_ok sig(1) Let_def crypto_Seal_ok)
  have "length ?plain \<le> 162"
    using sig(2) assms(5) \<open>length (id_pub (h_id h)) = 32\<close> by (simp add: marshalAuthPlain_def)
  then have len: "length ?blob \<le> 190" by (simp add: gcm.length_seal)
  have "crypto_Open P ?k hsAAD ?blob = Inr ?plain"
    by (simp add: crypto_Open_iff)
  then have "openAuth P ?blob info g = Inr (id_pub (h_id h), id_Name (h_id h), sig)"
    using assms(3,6,7) parse_marshalAuthPlain [OF pok] by (simp add: openAuth_def DeriveKey_ok)
  then show ?thesis using seal len sig(3) by (intro that [of ?blob sig]) simp_all
qed

lemma HandleMessage_auth:
  assumes "\<not> h_done h" and "length eph = 32" and "blob \<noteq> []" and "length blob \<le> 190"
  shows "HandleMessage P rnd (marshalAuth eph blob) h =
    (if h_initiator h then handleAuthInitiator P rnd (marshalAuth eph blob) h
     else handleAuthResponder P (marshalAuth eph blob) h)"
proof -
  have "length (marshalAuth eph blob) \<le> 4096" "length (marshalAuth eph blob) \<noteq> 0" "marshalAuth eph blob ! 0 = 2"
    using assms by (simp_all add: marshalAuth_def)
  with assms(1) show ?thesis by (simp add: HandleMessage_def)
qed

lemma handleAuthInitiator_complete:
  assumes "parseAuth msg = Inr (ephB, blob)"
    and "deriveShared P (h\<lparr>h_peerEph := ephB, h_transcript := transcriptHash P [handshakeDomain, h_ephPub h, ephB]\<rparr>) = (Inr (), h3)"
    and "openAuth P blob infoHS2 h3 = Inr (pub, name, sig)" "VerifyWith P pub (h_transcript h3) sig = Some True"
    and "pub \<noteq> id_pub (h_id h3)" "sealAuth P rnd infoHS3 h3 = Inr blob3"
    and "newSession P (h_shared h3) (h_transcript h3) True = Inr sess"
  shows "handleAuthInitiator P rnd msg h =
    (Inr (Some (marshalAuth (h_ephPub h3) blob3),
          Some \<lparr>r_Session = sess, r_PeerName = name, r_PeerKey = pub,
                r_PeerFingerprint = FingerprintOf P pub, r_Transcript = h_transcript h3\<rparr>), finish h3)"
  using assms by (simp add: handleAuthInitiator_def)

lemma handleAuthResponder_complete:
  assumes "h_transcript h \<noteq> []" and "parseAuth msg = Inr (ephA, blob)"
    and "openAuth P blob infoHS3 h = Inr (pub, name, sig)" "VerifyWith P pub (h_transcript h) sig = Some True"
    and "pub \<noteq> id_pub (h_id h)" "newSession P (h_shared h) (h_transcript h) False = Inr sess"
  shows "handleAuthResponder P msg h =
    (Inr (None, Some \<lparr>r_Session = sess, r_PeerName = name, r_PeerKey = pub,
                r_PeerFingerprint = FingerprintOf P pub, r_Transcript = h_transcript h\<rparr>), finish h)"
  using assms by (simp add: handleAuthResponder_def)

lemma honest_run_ok:
  assumes P: "ed25519_correct P" "x25519_agrees P"
    and iA: "genuine P iA" "id_Name iA \<noteq> []" "length (id_Name iA) \<le> 64"
    and iB: "genuine P iB" "id_Name iB \<noteq> []" "length (id_Name iB) \<le> 64"
    and ne: "id_pub iA \<noteq> id_pub iB"
  obtains S th a b where "newSession P S th True = Inr a" "newSession P S th False = Inr b"
    "honest_run P (Some fA) (Some fB) (Some nA) (Some nB) iA iB = Inr
       (\<lparr>r_Session = a, r_PeerName = id_Name iB, r_PeerKey = id_pub iB,
         r_PeerFingerprint = FingerprintOf P (id_pub iB), r_Transcript = th\<rparr>,
        \<lparr>r_Session = b, r_PeerName = id_Name iA, r_PeerKey = id_pub iA,
         r_PeerFingerprint = FingerprintOf P (id_pub iA), r_Transcript = th\<rparr>)"
proof -
  define eA eB where "eA = fill fA 32" and "eB = fill fB 32"
  define pA pB where "pA = fill (x_public P eA) 32" and "pB = fill (x_public P eB) 32"
  define th where "th = transcriptHash P [handshakeDomain, pA, pB]"
  have len: "length eA = 32" "length eB = 32" "length pA = 32" "length pB = 32"
    by (simp_all add: eA_def eB_def pA_def pB_def)
  obtain s t where st: "x_shared P eA pB = Some s" "x_shared P eB pA = Some t" "fill s 32 = fill t 32"
    using P(2) len unfolding x25519_agrees_def pA_def pB_def by blast
  define S where "S = fill s 32"
  have S: "S \<noteq> []" by (simp add: S_def)
  let ?hA = "\<lparr>h_id = iA, h_initiator = True, h_eph = Some eA, h_ephPub = pA, h_peerEph = [],
      h_transcript = [], h_shared = [], h_done = False\<rparr>"
  let ?hB = "\<lparr>h_id = iB, h_initiator = False, h_eph = Some eB, h_ephPub = pB, h_peerEph = [],
      h_transcript = [], h_shared = [], h_done = False\<rparr>"
  let ?hA1 = "?hA\<lparr>h_peerEph := pB, h_transcript := th, h_shared := S\<rparr>"
  let ?hB1 = "?hB\<lparr>h_peerEph := pA, h_transcript := th, h_shared := S\<rparr>"
  let ?msg1 = "[hsTypeInit] @ PutUint16 (word_of_nat (length pA)) @ pA"
  have new: "NewHandshaker P (Some fA) iA True = Inr ?hA" "NewHandshaker P (Some fB) iB False = Inr ?hB"
    using iA(1) iB(1)
    by (auto simp: NewHandshaker_def HasPrivateKey_def genuine_def RandomBytes_def eA_def eB_def pA_def pB_def)
  have m1: "InitMessage ?hA = Inr ?msg1" by (simp add: InitMessage_def)
  obtain blob2 sig2 where b2: "sealAuth P (Some nB) infoHS2 ?hB1 = Inr blob2" "blob2 \<noteq> []" "length blob2 \<le> 190"
    "openAuth P blob2 infoHS2 ?hA1 = Inr (id_pub iB, id_Name iB, sig2)"
    "VerifyWith P (id_pub iB) th sig2 = Some True"
    using sealAuth_then_openAuth [of P ?hB1 ?hA1 nB infoHS2] P iB S by auto
  obtain blob3 sig3 where b3: "sealAuth P (Some nA) infoHS3 ?hA1 = Inr blob3" "blob3 \<noteq> []" "length blob3 \<le> 190"
    "openAuth P blob3 infoHS3 ?hB1 = Inr (id_pub iA, id_Name iA, sig3)"
    "VerifyWith P (id_pub iA) th sig3 = Some True"
    using sealAuth_then_openAuth [of P ?hA1 ?hB1 nA infoHS3] P iA S by auto
  have dA: "deriveShared P (?hA\<lparr>h_peerEph := pB, h_transcript := th\<rparr>) = (Inr (), ?hA1)"
    using st len by (simp add: deriveShared_def S_def)
  have dB: "deriveShared P (?hB\<lparr>h_peerEph := pA, h_transcript := th\<rparr>) = (Inr (), ?hB1)"
    using st len by (simp add: deriveShared_def S_def)
  have p1: "parseInit ?msg1 = Inr pA"
    using parseInit_InitMessage [of ?hA ?msg1] m1 len by simp
  have s1: "HandleMessage P (Some nB) ?msg1 ?hB = (Inr (Some (marshalAuth pB blob2), None), ?hB1)"
    using p1 dB b2(1) len by (simp add: HandleMessage_def handleInit_def th_def)
  obtain a b where ab: "newSession P S th True = Inr a" "newSession P S th False = Inr b"
    using newSession_eq [OF S] by blast
  have big: "length blob2 < 2 ^ 32" "length blob3 < 2 ^ 32" using b2(3) b3(3) by simp_all
  have s2: "HandleMessage P (Some nA) (marshalAuth pB blob2) ?hA =
      (Inr (Some (marshalAuth pA blob3),
            Some \<lparr>r_Session = a, r_PeerName = id_Name iB, r_PeerKey = id_pub iB,
                  r_PeerFingerprint = FingerprintOf P (id_pub iB), r_Transcript = th\<rparr>), finish ?hA1)"
    using handleAuthInitiator_complete [OF parse_marshalAuth [OF len(4) b2(2) big(1)] _ b2(4), of ?hA "Some nA" blob3 a]
      dA b2(5) b3(1) ne ab(1) HandleMessage_auth [of ?hA pB blob2 P "Some nA"] b2(2,3) len
    by (simp add: th_def)
  have s3: "HandleMessage P None (marshalAuth pA blob3) ?hB1 =
      (Inr (None, Some \<lparr>r_Session = b, r_PeerName = id_Name iA, r_PeerKey = id_pub iA,
                  r_PeerFingerprint = FingerprintOf P (id_pub iA), r_Transcript = th\<rparr>), finish ?hB1)"
    using handleAuthResponder_complete [OF _ parse_marshalAuth [OF len(3) b3(2) big(2)] b3(4), of b]
      b3(5) ne ab(2) HandleMessage_auth [of ?hB1 pA blob3 P None] b3(2,3) len
    by (simp add: th_def)
  have "honest_run P (Some fA) (Some fB) (Some nA) (Some nB) iA iB = Inr
       (\<lparr>r_Session = a, r_PeerName = id_Name iB, r_PeerKey = id_pub iB,
         r_PeerFingerprint = FingerprintOf P (id_pub iB), r_Transcript = th\<rparr>,
        \<lparr>r_Session = b, r_PeerName = id_Name iA, r_PeerKey = id_pub iA,
         r_PeerFingerprint = FingerprintOf P (id_pub iA), r_Transcript = th\<rparr>)"
    unfolding honest_run_def new m1 sum.case s1 s2 s3 prod.case option.case ..
  with ab show ?thesis by (rule that)
qed

section \<open>Concrete ends\<close>

lemma demo_ed25519: "ed25519_correct demo_prims"
proof -
  have "fill (\<lambda>i. seed ! i) 32 = seed" if "length seed = 32" for seed :: bytes
    using that by (intro nth_equalityI) (simp_all add: fill_def)
  moreover have "i mod 32 < 32" for i :: nat by simp
  ultimately show ?thesis
    by (auto simp: ed25519_correct_def demo_prims_def NewKeyFromSeed_def fill_def nth_append)
qed

lemma demo_x25519: "x25519_agrees demo_prims"
  by (auto simp: x25519_agrees_def demo_prims_def fill_def xor.commute)

lemma demo_ids:
  obtains iA iB where "Generate demo_prims (Some (\<lambda>_. 1)) ''alice'' = Inr iA"
    "Generate demo_prims (Some (\<lambda>_. 2)) ''bob'' = Inr iB" "genuine demo_prims iA" "genuine demo_prims iB"
    "id_Name iA = ''alice''" "id_Name iB = ''bob''" "id_pub iA \<noteq> id_pub iB"
proof -
  obtain iA iB where g: "Generate demo_prims (Some (\<lambda>_. 1)) ''alice'' = Inr iA"
    "Generate demo_prims (Some (\<lambda>_. 2)) ''bob'' = Inr iB"
    by (simp add: Generate_def is_blank_def Let_def)
  then have pub: "id_pub iA = fill (\<lambda>i. (fill (\<lambda>_. 1) 32) ! i) 32" "id_pub iB = fill (\<lambda>i. (fill (\<lambda>_. 2) 32) ! i) 32"
    by (auto simp: Generate_def NewKeyFromSeed_def demo_prims_def Let_def split: if_splits)
  have "id_pub iA ! 0 = 1" "id_pub iB ! 0 = 2" unfolding pub by (simp_all add: fill_def)
  then have "id_pub iA \<noteq> id_pub iB" by auto
  then show ?thesis using that g Generate_genuine by blast
qed

lemma demo_handshaker:
  obtains i h where "Generate demo_prims (Some (\<lambda>_. 2)) ''bob'' = Inr i"
    "NewHandshaker demo_prims (Some (\<lambda>_. 7)) i False = Inr h" "identity_ok i"
proof -
  obtain i where "Generate demo_prims (Some (\<lambda>_. 2)) ''bob'' = Inr i" "genuine demo_prims i"
    by (rule demo_ids)
  moreover from this obtain h where "NewHandshaker demo_prims (Some (\<lambda>_. 7)) i False = Inr h"
    by (auto simp: NewHandshaker_def HasPrivateKey_def genuine_def RandomBytes_def)
  ultimately show ?thesis using that genuine_ok by blast
qed

section \<open>Properties\<close>

text \<open>
  the honest handshake. Two clients with generated identities, different keys and names of 1 to
  64 bytes, whose three messages arrive in order, both complete; each learns the other's name, key
  and fingerprint, both hold the same transcript, and their two sessions are in step, in opposite
  roles.
\<close>

theorem honest_handshake_agrees:
  assumes "ed25519_correct P" and "x25519_agrees P"
    and "genuine P iA" and "id_Name iA \<noteq> []" and "length (id_Name iA) \<le> maxPeerName"
    and "genuine P iB" and "id_Name iB \<noteq> []" and "length (id_Name iB) \<le> maxPeerName"
    and "id_pub iA \<noteq> id_pub iB"
  shows "\<exists>rA rB. honest_run P (Some fA) (Some fB) (Some nA) (Some nB) iA iB = Inr (rA, rB) \<and>
    in_sync P (r_Session rA) (r_Session rB) \<and> r_Transcript rA = r_Transcript rB \<and>
    r_PeerName rA = id_Name iB \<and> r_PeerKey rA = id_pub iB \<and> r_PeerFingerprint rA = Fingerprint P iB \<and>
    r_PeerName rB = id_Name iA \<and> r_PeerKey rB = id_pub iA \<and> r_PeerFingerprint rB = Fingerprint P iA"
proof -
  have len: "length (id_Name iA) \<le> 64" "length (id_Name iB) \<le> 64" using assms(5,8) by simp_all
  show ?thesis
    by (rule honest_run_ok [OF assms(1-4) len(1) assms(6,7) len(2) assms(9), of fA fB nA nB])
      (auto simp: Fingerprint_def newSession_in_sync)
qed

theorem honest_handshake_agrees_witness:
  "\<exists>iA iB rA rB. Generate demo_prims (Some (\<lambda>_. 1)) ''alice'' = Inr iA \<and>
     Generate demo_prims (Some (\<lambda>_. 2)) ''bob'' = Inr iB \<and>
     honest_run demo_prims (Some (\<lambda>_. 3)) (Some (\<lambda>_. 4)) (Some (\<lambda>_. 5)) (Some (\<lambda>_. 6)) iA iB = Inr (rA, rB) \<and>
     in_sync demo_prims (r_Session rA) (r_Session rB) \<and> r_Transcript rA = r_Transcript rB \<and>
     r_PeerName rA = ''bob'' \<and> r_PeerName rB = ''alice''"
proof -
  obtain iA iB where i: "Generate demo_prims (Some (\<lambda>_. 1)) ''alice'' = Inr iA"
    "Generate demo_prims (Some (\<lambda>_. 2)) ''bob'' = Inr iB" "genuine demo_prims iA" "genuine demo_prims iB"
    "id_Name iA = ''alice''" "id_Name iB = ''bob''" "id_pub iA \<noteq> id_pub iB" by (rule demo_ids)
  have n: "id_Name iA \<noteq> []" "length (id_Name iA) \<le> maxPeerName" "id_Name iB \<noteq> []" "length (id_Name iB) \<le> maxPeerName"
    using i by simp_all
  from honest_handshake_agrees [OF demo_ed25519 demo_x25519 i(3) n(1,2) i(4) n(3,4) i(7),
      of "\<lambda>_. 3" "\<lambda>_. 4" "\<lambda>_. 5" "\<lambda>_. 6"] i(1,2,5,6)
  show ?thesis by auto
qed

text \<open>
  C4: what a completed handshake has authenticated, whatever messages a hostile peer sends. The
  peer's key is a 32-byte key other than our own that signed the transcript; the transcript binds
  our ephemeral key and the peer's; the signature, name and key arrived sealed under a key derived
  from the X25519 secret of those two ephemeral keys; the session is derived from the same secret
  and transcript; and the ephemeral material is gone.
\<close>

theorem handshake_authenticates:
  assumes "NewHandshaker P rnd i ini = Inr h0" and "identity_ok i" and "h = fold (hs_step P) ms h0"
    and "HandleMessage P rnd' msg h = (Inr (out, Some r), h')"
  shows "authenticated P h msg r \<and> wiped h'"
  using HandleMessage_authenticated [OF _ assms(4)] NewHandshaker_ok [OF assms(1,2)] assms(3)
    handshake_run.run_inv by blast

theorem handshake_authenticates_witness:
  "\<exists>iB h0 msg1 msg3 h r h'. Generate demo_prims (Some (\<lambda>_. 2)) ''bob'' = Inr iB \<and>
     NewHandshaker demo_prims (Some (\<lambda>_. 4)) iB False = Inr h0 \<and>
     h = fold (hs_step demo_prims) [(Some (\<lambda>_. 6), msg1)] h0 \<and>
     HandleMessage demo_prims None msg3 h = (Inr (None, Some r), h') \<and> authenticated demo_prims h msg3 r \<and> wiped h'"
proof -
  obtain iA iB where i: "Generate demo_prims (Some (\<lambda>_. 1)) ''alice'' = Inr iA"
    "Generate demo_prims (Some (\<lambda>_. 2)) ''bob'' = Inr iB" "genuine demo_prims iA" "genuine demo_prims iB"
    "id_Name iA = ''alice''" "id_Name iB = ''bob''" "id_pub iA \<noteq> id_pub iB" by (rule demo_ids)
  have n: "id_Name iA \<noteq> []" "length (id_Name iA) \<le> 64" "id_Name iB \<noteq> []" "length (id_Name iB) \<le> 64"
    using i by simp_all
  obtain rs where "honest_run demo_prims (Some (\<lambda>_. 3)) (Some (\<lambda>_. 4)) (Some (\<lambda>_. 5)) (Some (\<lambda>_. 6)) iA iB = Inr rs"
    by (rule honest_run_ok [OF demo_ed25519 demo_x25519 i(3) n(1,2) i(4) n(3,4) i(7)])
  then obtain hB msg1 msg2 hB1 msg3 r hB2 where
    run: "NewHandshaker demo_prims (Some (\<lambda>_. 4)) iB False = Inr hB"
      "HandleMessage demo_prims (Some (\<lambda>_. 6)) msg1 hB = (Inr (Some msg2, None), hB1)"
      "HandleMessage demo_prims None msg3 hB1 = (Inr (None, Some r), hB2)"
    unfolding honest_run_def by (auto split: sum.splits prod.splits option.splits)
  have st: "hB1 = fold (hs_step demo_prims) [(Some (\<lambda>_. 6), msg1)] hB"
    using run(2) by (simp add: hs_step_def)
  from handshake_authenticates [OF run(1) genuine_ok [OF i(4)] st run(3)] i(2) run st show ?thesis by blast
qed

text \<open>
  a handshaker completes at most once, for every sequence of incoming messages: after its result
  every further message is refused.
\<close>

theorem handshake_completes_once:
  "length (hs_results P ms h) \<le> 1"
proof (induction P ms h rule: hs_results.induct)
  case (2 P rnd msg ms h)
  obtain q h1 where step: "HandleMessage P rnd msg h = (q, h1)" by fastforce
  show ?case
  proof (cases "\<exists>out r. q = Inr (out, Some r)")
    case True
    then obtain out r where q: "q = Inr (out, Some r)" by blast
    have "h_done h1"
      using step q
      by (cases rule: HandleMessage_cases)
        (auto simp: handleInit_def Let_def finish_def split: sum.splits prod.splits
          elim!: handleAuthInitiator_cases handleAuthResponder_cases)
    then show ?thesis using step q by (simp add: hs_results_done)
  next
    case False
    then have "hs_results P ((rnd, msg) # ms) h = hs_results P ms h1"
      using step by (auto split: sum.splits option.splits)
    moreover have "length (hs_results P ms h1) \<le> 1"
      using "2.IH" step False by (cases q) (auto split: option.splits)
    ultimately show ?thesis by simp
  qed
qed simp

text \<open>
  no message makes the handshake panic. From a new handshaker, after any sequence of messages,
  no message dereferences the wiped ephemeral key or reaches the signature check with a key of the
  wrong length.
\<close>

theorem handshake_never_panics:
  assumes "NewHandshaker P rnd i ini = Inr h" and "identity_ok i"
  shows "fst (HandleMessage P rnd' msg (fold (hs_step P) ms h)) \<notin> {Inl NilDeref, Inl BadKeyLength}"
proof -
  have "handshaker_ok P h" using NewHandshaker_ok [OF assms] by simp
  then have "handshaker_ok P (fold (hs_step P) ms h)" by (rule handshake_run.run_inv)
  then show ?thesis by (rule HandleMessage_no_panic)
qed

theorem handshake_never_panics_witness:
  "\<exists>i h. Generate demo_prims (Some (\<lambda>_. 2)) ''bob'' = Inr i \<and>
     NewHandshaker demo_prims (Some (\<lambda>_. 7)) i False = Inr h \<and>
     fst (HandleMessage demo_prims None [2, 0] (fold (hs_step demo_prims) [(None, [1, 0, 32])] h)) \<notin>
       {Inl NilDeref, Inl BadKeyLength}"
proof -
  obtain i h where d: "Generate demo_prims (Some (\<lambda>_. 2)) ''bob'' = Inr i"
    "NewHandshaker demo_prims (Some (\<lambda>_. 7)) i False = Inr h" "identity_ok i" by (rule demo_handshaker)
  from handshake_never_panics [OF d(2,3), of None "[2, 0]" "[(None, [1, 0, 32])]"] d(1,2) show ?thesis by blast
qed

text \<open>
  the sealed authentication payload is unambiguous: it parses to a key, a name and a signature
  exactly when they have their sizes (a name of 1 to 64 bytes) and the bytes are their encoding.
\<close>

theorem auth_payload_canonical:
  "parseAuthPlain b = Inr (pub, name, sig) \<longleftrightarrow>
     length pub = 32 \<and> name \<noteq> [] \<and> length name \<le> maxPeerName \<and> length sig = 64 \<and>
     b = marshalAuthPlain pub name sig"
  using auth_plain_codec.dec_iff [of b "(pub, name, sig)"] by (auto simp: auth_plain_ok_def)

text \<open>
  the ephemeral key repeated in message 3 is not looked at: the responder answers two messages
  that differ only there in the same way.
\<close>

theorem responder_ignores_msg3_key:
  assumes "\<not> h_initiator h" and "length e = 32" and "length e' = 32"
  shows "HandleMessage P rnd (marshalAuth e blob) h = HandleMessage P rnd (marshalAuth e' blob) h"
proof -
  have same: "length (marshalAuth e blob) = length (marshalAuth e' blob)"
    "marshalAuth e blob ! 0 = 2" "marshalAuth e' blob ! 0 = 2" "drop 33 (marshalAuth e blob) = drop 33 (marshalAuth e' blob)"
    "drop 37 (marshalAuth e blob) = drop 37 (marshalAuth e' blob)"
    using assms(2,3) by (simp_all add: marshalAuth_def)
  have "map_sum id snd (parseAuth (marshalAuth e blob)) = map_sum id snd (parseAuth (marshalAuth e' blob))"
    unfolding parseAuth_def Let_def same by (rule two_guards_snd)
  then have "handleAuthResponder P (marshalAuth e blob) h = handleAuthResponder P (marshalAuth e' blob) h"
    by (cases "parseAuth (marshalAuth e blob)"; cases "parseAuth (marshalAuth e' blob)")
      (auto simp: handleAuthResponder_def)
  then show ?thesis using assms(1) same by (simp add: HandleMessage_def)
qed

theorem responder_ignores_msg3_key_witness:
  "\<exists>i h. Generate demo_prims (Some (\<lambda>_. 2)) ''bob'' = Inr i \<and>
     NewHandshaker demo_prims (Some (\<lambda>_. 7)) i False = Inr h \<and>
     HandleMessage demo_prims None (marshalAuth (replicate 32 0) [1]) h =
     HandleMessage demo_prims None (marshalAuth (replicate 32 1) [1]) h"
proof -
  obtain i h where d: "Generate demo_prims (Some (\<lambda>_. 2)) ''bob'' = Inr i"
    "NewHandshaker demo_prims (Some (\<lambda>_. 7)) i False = Inr h" "identity_ok i" by (rule demo_handshaker)
  have "\<not> h_initiator h" using NewHandshaker_ok [OF d(2,3)] by simp
  from responder_ignores_msg3_key [OF this, of "replicate 32 0" "replicate 32 1" demo_prims None "[1]"] d(1,2)
  show ?thesis by simp
qed

text \<open>
  \<open>Generate\<close> accepts names that no handshake accepts. Every name that is not blank gives an
  identity, but when it is longer than 64 bytes the authentication payload built from it is refused
  by every peer, whatever its signature.
\<close>

theorem long_names_unusable:
  assumes "\<not> is_blank name" and "64 < length name"
  shows "\<exists>i. Generate P (Some f) name = Inr i \<and> id_Name i = name \<and>
    (\<forall>sig. length sig = 64 \<longrightarrow> (\<exists>m. parseAuthPlain (marshalAuthPlain (id_pub i) name sig) = Inl (ErrHandshake m)))"
proof -
  obtain i where i: "Generate P (Some f) name = Inr i" using assms(1) by (simp add: Generate_def Let_def)
  have "\<exists>m. parseAuthPlain (marshalAuthPlain (id_pub i) name sig) = Inl (ErrHandshake m)"
    if sig: "length sig = 64" for sig
  proof (cases "parseAuthPlain (marshalAuthPlain (id_pub i) name sig)")
    case (Inl e)
    then show ?thesis using parse_errors(3) by blast
  next
    case (Inr x)
    obtain p n s where x: "x = (p, n, s)" by (cases x)
    from marshal_parseAuthPlain [OF Inr [unfolded x]]
    have "length (marshalAuthPlain p n s) = length (marshalAuthPlain (id_pub i) name sig)"
      "length p = 32" "length n \<le> 64" "length s = 64" by (auto simp: auth_plain_ok_def)
    then show ?thesis
      using Generate_ok [OF i] assms(2) sig by (auto simp: marshalAuthPlain_def identity_ok_def)
  qed
  then show ?thesis using i Generate_ok [OF i] by blast
qed

theorem long_names_unusable_witness:
  "\<exists>i. Generate demo_prims (Some (\<lambda>_. 0)) (replicate 65 CHR ''x'') = Inr i \<and>
     (\<exists>m. parseAuthPlain (marshalAuthPlain (id_pub i) (replicate 65 CHR ''x'') (replicate 64 0)) = Inl (ErrHandshake m))"
proof -
  have "\<not> is_blank (replicate 65 CHR ''x'')" "64 < length (replicate 65 CHR ''x'')"
    by (simp_all add: is_blank_def numeral_eq_Suc)
  from long_names_unusable [OF this, of demo_prims "\<lambda>_. 0"] show ?thesis by auto
qed

end
