(* ===== verification/Peers.thy ===== *)
theory Peers
  imports Identity "HOL-Library.List_Lexorder" "HOL-Library.Char_ord"
begin

text \<open>
  \<open>internal/peers/peers.go\<close>: the trust store. The store is a map from fingerprints to records.
  A Go map is iterated in an unspecified order, so every operation that ranges over it takes that
  order, a list of the map's keys, as an argument; the theorems hold for every order. Operations
  that persist the store return the result of the write as well, because the record in memory
  changes even when the write fails. \<open>encoding/json\<close> is the parameter \<open>json_peers\<close>.
\<close>

section \<open>Records\<close>

datatype TrustLevel = TrustUnknown | TrustUnverified | TrustVerified | TrustChanged

fun TrustLevel_String :: "TrustLevel \<Rightarrow> string" where
  "TrustLevel_String TrustVerified = ''VERIFIED''"
| "TrustLevel_String TrustUnverified = ''UNVERIFIED''"
| "TrustLevel_String TrustChanged = ''IDENTITY CHANGED''"
| "TrustLevel_String TrustUnknown = ''UNKNOWN''"

record peer =
  p_Name :: string
  p_PublicKey :: bytes
  p_Fingerprint :: string
  p_Verified :: bool
  p_Address :: string
  p_FirstSeen :: nat
  p_LastSeen :: nat
  p_PendingKey :: bytes \<comment> \<open>nil is the empty list\<close>

definition PendingFingerprint :: "prims \<Rightarrow> peer \<Rightarrow> string" where
  "PendingFingerprint P p = (if length (p_PendingKey p) = 0 then '''' else FingerprintOf P (p_PendingKey p))"

type_synonym peer_map = "string \<rightharpoonup> peer"

record store =
  st_path :: string
  st_peers :: peer_map

datatype peers_error = PeersIO | PeersCorrupt | PeersNoSuchPeer string | PeersPanic

record json_peers =
  peers_marshal :: "peer list \<Rightarrow> bytes"
  peers_unmarshal :: "bytes \<Rightarrow> peer option list option" \<comment> \<open>a JSON null is a nil pointer\<close>

definition peerID :: "prims \<Rightarrow> bytes \<Rightarrow> string" where
  "peerID P pub = FingerprintOf P pub"

section \<open>Loading and saving\<close>

fun load_peers :: "prims \<Rightarrow> peer option list \<Rightarrow> peer_map \<Rightarrow> peers_error + peer_map" where
  "load_peers P [] m = Inr m"
| "load_peers P (None # ps) m = Inl PeersPanic"
| "load_peers P (Some p # ps) m =
     (if length (p_PublicKey p) \<noteq> 32 then load_peers P ps m
      else load_peers P ps (m(peerID P (p_PublicKey p) \<mapsto> p)))"

text \<open>\<open>readable\<close> is false when the file exists and cannot be read.\<close>

definition OpenStore :: "prims \<Rightarrow> json_peers \<Rightarrow> bool \<Rightarrow> string \<Rightarrow> files \<Rightarrow> peers_error + store" where
  "OpenStore P J readable path fs =
     (case fs path of None \<Rightarrow> Inr \<lparr>st_path = path, st_peers = Map.empty\<rparr>
      | Some buf \<Rightarrow>
        if \<not> readable then Inl PeersIO
        else case peers_unmarshal J buf of None \<Rightarrow> Inl PeersCorrupt
        | Some list \<Rightarrow>
          (case load_peers P list Map.empty of Inl e \<Rightarrow> Inl e
           | Inr m \<Rightarrow> Inr \<lparr>st_path = path, st_peers = m\<rparr>))"

definition values_in :: "string list \<Rightarrow> peer_map \<Rightarrow> peer list" where
  "values_in order m = List.map_filter m order"

text \<open>
  \<open>sort.Slice\<close> leaves records of equal name in any order. The model sorts stably: since the order it
  starts from is arbitrary, so is the order of equal names.
\<close>

definition saveLocked ::
    "json_peers \<Rightarrow> io_faults \<Rightarrow> string list \<Rightarrow> store \<Rightarrow> files \<Rightarrow> (peers_error + unit) \<times> files" where
  "saveLocked J io order s fs =
     (let buf = peers_marshal J (sort_key p_Name (values_in order (st_peers s)));
          tmp = st_path s @ ''.tmp''
      in if mkdir_fails io then (Inl PeersIO, fs)
         else case write_stops io of
           Some n \<Rightarrow> (Inl PeersIO, fs(tmp \<mapsto> take n buf))
         | None \<Rightarrow>
           if rename_fails io then (Inl PeersIO, fs(tmp \<mapsto> buf))
           else (Inr (), (fs(tmp := None))(st_path s \<mapsto> buf)))"

section \<open>Operations\<close>

definition findByNameLocked :: "string list \<Rightarrow> peer_map \<Rightarrow> string \<Rightarrow> string option" where
  "findByNameLocked order m name =
     List.find (\<lambda>i. case m i of Some p \<Rightarrow> p_Name p = name | None \<Rightarrow> False) order"

text \<open>The change \<open>Observe\<close> makes to the map, with the record it returns and its trust level.\<close>

definition observe ::
    "prims \<Rightarrow> string list \<Rightarrow> nat \<Rightarrow> string \<Rightarrow> string \<Rightarrow> bytes \<Rightarrow> peer_map \<Rightarrow> (peer \<times> TrustLevel) \<times> peer_map" where
  "observe P order now name address pub m =
     (let i = peerID P pub
      in case m i of
        Some p \<Rightarrow>
          let q = p\<lparr>p_Name := name, p_Address := (if address \<noteq> '''' then address else p_Address p),
                    p_LastSeen := now, p_PendingKey := []\<rparr>
          in ((q, if p_Verified p then TrustVerified else TrustUnverified), m(i \<mapsto> q))
      | None \<Rightarrow>
        (case findByNameLocked order m name of
           Some j \<Rightarrow>
             let q = (the (m j))\<lparr>p_PendingKey := pub, p_LastSeen := now\<rparr>
             in ((q, TrustChanged), m(j \<mapsto> q))
         | None \<Rightarrow>
             let q = \<lparr>p_Name = name, p_PublicKey = pub, p_Fingerprint = FingerprintOf P pub,
                      p_Verified = False, p_Address = address, p_FirstSeen = now, p_LastSeen = now,
                      p_PendingKey = []\<rparr>
             in ((q, TrustUnknown), m(i \<mapsto> q))))"

text \<open>\<open>order\<close> is the order of the search by name and \<open>order'\<close> the one of the save.\<close>

definition Observe ::
    "prims \<Rightarrow> json_peers \<Rightarrow> io_faults \<Rightarrow> string list \<Rightarrow> string list \<Rightarrow> nat \<Rightarrow> string \<Rightarrow> string \<Rightarrow> bytes \<Rightarrow>
     store \<Rightarrow> files \<Rightarrow> (peer \<times> TrustLevel \<times> (peers_error + unit)) \<times> store \<times> files" where
  "Observe P J io order order' now name address pub s fs =
     (case observe P order now name address pub (st_peers s) of
        ((q, lvl), m) \<Rightarrow>
          let s1 = s\<lparr>st_peers := m\<rparr>
          in case saveLocked J io order' s1 fs of (r, fs1) \<Rightarrow> ((q, lvl, r), s1, fs1))"

definition verify_peer :: "prims \<Rightarrow> string list \<Rightarrow> string \<Rightarrow> peer_map \<Rightarrow> (peers_error + peer) \<times> peer_map" where
  "verify_peer P order name m =
     (case findByNameLocked order m name of None \<Rightarrow> (Inl (PeersNoSuchPeer name), m)
      | Some j \<Rightarrow>
        let p = the (m j)
        in if length (p_PendingKey p) > 0 then
             let q = p\<lparr>p_PublicKey := p_PendingKey p, p_PendingKey := [],
                       p_Fingerprint := FingerprintOf P (p_PendingKey p), p_Verified := True\<rparr>
             in (Inr q, ((m(j \<mapsto> q))(peerID P (p_PublicKey p) := None))(peerID P (p_PublicKey q) \<mapsto> q))
           else let q = p\<lparr>p_Verified := True\<rparr> in (Inr q, m(j \<mapsto> q)))"

definition Verify ::
    "prims \<Rightarrow> json_peers \<Rightarrow> io_faults \<Rightarrow> string list \<Rightarrow> string list \<Rightarrow> string \<Rightarrow> store \<Rightarrow> files \<Rightarrow>
     (peers_error + peer) \<times> store \<times> files" where
  "Verify P J io order order' name s fs =
     (case verify_peer P order name (st_peers s) of
        (Inl e, m) \<Rightarrow> (Inl e, s, fs)
      | (Inr q, m) \<Rightarrow>
        let s1 = s\<lparr>st_peers := m\<rparr>
        in case saveLocked J io order' s1 fs of
             (Inl e, fs1) \<Rightarrow> (Inl e, s1, fs1) | (Inr _, fs1) \<Rightarrow> (Inr q, s1, fs1))"

definition reject :: "string list \<Rightarrow> string \<Rightarrow> peer_map \<Rightarrow> (peers_error + unit) \<times> peer_map" where
  "reject order name m =
     (case findByNameLocked order m name of None \<Rightarrow> (Inl (PeersNoSuchPeer name), m)
      | Some j \<Rightarrow> (Inr (), m(j \<mapsto> (the (m j))\<lparr>p_PendingKey := []\<rparr>)))"

definition Reject ::
    "json_peers \<Rightarrow> io_faults \<Rightarrow> string list \<Rightarrow> string list \<Rightarrow> string \<Rightarrow> store \<Rightarrow> files \<Rightarrow> (peers_error + unit) \<times> store \<times> files" where
  "Reject J io order order' name s fs =
     (case reject order name (st_peers s) of
        (Inl e, m) \<Rightarrow> (Inl e, s, fs)
      | (Inr _, m) \<Rightarrow>
        let s1 = s\<lparr>st_peers := m\<rparr>
        in case saveLocked J io order' s1 fs of (r, fs1) \<Rightarrow> (r, s1, fs1))"

definition Get :: "string list \<Rightarrow> string \<Rightarrow> store \<Rightarrow> peer option" where
  "Get order name s =
     (case findByNameLocked order (st_peers s) name of None \<Rightarrow> None | Some j \<Rightarrow> st_peers s j)"

definition List_peers :: "string list \<Rightarrow> store \<Rightarrow> peer list" where
  "List_peers order s = sort_key p_Name (values_in order (st_peers s))"

definition TrustOf :: "prims \<Rightarrow> string list \<Rightarrow> string \<Rightarrow> bytes \<Rightarrow> store \<Rightarrow> TrustLevel" where
  "TrustOf P order name pub s =
     (case st_peers s (peerID P pub) of
        Some p \<Rightarrow> if p_Verified p then TrustVerified else TrustUnverified
      | None \<Rightarrow>
        (case findByNameLocked order (st_peers s) name of Some j \<Rightarrow> TrustChanged | None \<Rightarrow> TrustUnknown))"

section \<open>Lemmas\<close>

definition keyed :: "prims \<Rightarrow> peer_map \<Rightarrow> bool" where
  "keyed P m \<longleftrightarrow> (\<forall>i p. m i = Some p \<longrightarrow> i = peerID P (p_PublicKey p))"

definition enumerates :: "string list \<Rightarrow> peer_map \<Rightarrow> bool" where
  "enumerates order m \<longleftrightarrow> distinct order \<and> set order = dom m"

lemma named_iff:
  "(case m i of Some p \<Rightarrow> p_Name p = name | None \<Rightarrow> False) \<longleftrightarrow> (\<exists>p. m i = Some p \<and> p_Name p = name)"
  by (simp split: option.split)

lemma findByName_Some:
  "findByNameLocked order m name = Some j \<Longrightarrow> j \<in> set order \<and> (\<exists>p. m j = Some p \<and> p_Name p = name)"
  by (auto simp: findByNameLocked_def named_iff find_Some_iff)

lemma findByName_None:
  "enumerates order m \<Longrightarrow>
   findByNameLocked order m name = None \<longleftrightarrow> (\<forall>i p. m i = Some p \<longrightarrow> p_Name p \<noteq> name)"
  unfolding findByNameLocked_def named_iff find_None_iff enumerates_def by blast

lemma findByName_unique:
  assumes "enumerates order m" and "m j = Some p" and "\<And>i q. m i = Some q \<Longrightarrow> p_Name q = p_Name p \<Longrightarrow> i = j"
  shows "findByNameLocked order m (p_Name p) = Some j"
proof -
  obtain i where i: "findByNameLocked order m (p_Name p) = Some i"
    using findByName_None [OF assms(1), of "p_Name p"] assms(2) by blast
  then obtain q where "m i = Some q" "p_Name q = p_Name p" using findByName_Some by blast
  then have "i = j" by (rule assms(3))
  with i show ?thesis by simp
qed

text \<open>What the trust decisions of the user consist of: which keys are recorded and which are verified.\<close>

definition keeps_trust :: "peer_map \<Rightarrow> peer_map \<Rightarrow> bool" where
  "keeps_trust m m' \<longleftrightarrow>
     (\<forall>i p. m i = Some p \<longrightarrow> (\<exists>p'. m' i = Some p' \<and> p_PublicKey p' = p_PublicKey p \<and>
        p_Fingerprint p' = p_Fingerprint p \<and> p_Verified p' = p_Verified p)) \<and>
     (\<forall>i p'. m' i = Some p' \<longrightarrow> m i = None \<longrightarrow> \<not> p_Verified p')"

lemma keeps_trust_refl: "keeps_trust m m"
  by (simp add: keeps_trust_def)

lemma keeps_trust_trans: "keeps_trust a b \<Longrightarrow> keeps_trust b c \<Longrightarrow> keeps_trust a c"
proof -
  assume ab: "keeps_trust a b" and bc: "keeps_trust b c"
  have old: "\<exists>p'. c i = Some p' \<and> p_PublicKey p' = p_PublicKey p \<and> p_Fingerprint p' = p_Fingerprint p \<and>
      p_Verified p' = p_Verified p" if i: "a i = Some p" for i p
  proof -
    obtain q where q: "b i = Some q" "p_PublicKey q = p_PublicKey p" "p_Fingerprint q = p_Fingerprint p"
      "p_Verified q = p_Verified p" using ab i unfolding keeps_trust_def by blast
    then obtain r where "c i = Some r" "p_PublicKey r = p_PublicKey q" "p_Fingerprint r = p_Fingerprint q"
      "p_Verified r = p_Verified q" using bc unfolding keeps_trust_def by blast
    with q show ?thesis by auto
  qed
  have "\<not> p_Verified r" if r: "c i = Some r" "a i = None" for i r
  proof (cases "b i")
    case None
    then show ?thesis using bc r(1) unfolding keeps_trust_def by blast
  next
    case (Some q)
    then obtain r' where "c i = Some r'" "p_Verified r' = p_Verified q" using bc unfolding keeps_trust_def by blast
    moreover have "\<not> p_Verified q" using ab r(2) Some unfolding keeps_trust_def by blast
    ultimately show ?thesis using r(1) by simp
  qed
  with old show ?thesis unfolding keeps_trust_def by blast
qed

lemma keeps_trust_update:
  "m j = Some p \<Longrightarrow> p_PublicKey q = p_PublicKey p \<Longrightarrow> p_Fingerprint q = p_Fingerprint p \<Longrightarrow>
   p_Verified q = p_Verified p \<Longrightarrow> keeps_trust m (m(j \<mapsto> q))"
  by (simp add: keeps_trust_def)

lemma keeps_trust_new: "m j = None \<Longrightarrow> \<not> p_Verified q \<Longrightarrow> keeps_trust m (m(j \<mapsto> q))"
  by (simp add: keeps_trust_def)

lemma observe_cases:
  obtains (known) p where "m (peerID P pub) = Some p"
    "observe P order now name addr pub m =
       (let q = p\<lparr>p_Name := name, p_Address := (if addr \<noteq> [] then addr else p_Address p), p_LastSeen := now, p_PendingKey := []\<rparr>
        in ((q, if p_Verified p then TrustVerified else TrustUnverified), m(peerID P pub \<mapsto> q)))"
  | (changed) j p where "m (peerID P pub) = None" "findByNameLocked order m name = Some j" "m j = Some p" "p_Name p = name"
    "observe P order now name addr pub m =
       (let q = p\<lparr>p_PendingKey := pub, p_LastSeen := now\<rparr> in ((q, TrustChanged), m(j \<mapsto> q)))"
  | (new) "m (peerID P pub) = None" "findByNameLocked order m name = None"
    "observe P order now name addr pub m =
       (let q = \<lparr>p_Name = name, p_PublicKey = pub, p_Fingerprint = FingerprintOf P pub, p_Verified = False,
                 p_Address = addr, p_FirstSeen = now, p_LastSeen = now, p_PendingKey = []\<rparr>
        in ((q, TrustUnknown), m(peerID P pub \<mapsto> q)))"
proof (cases "m (peerID P pub)")
  case (Some p)
  then show ?thesis by (intro known) (simp_all add: observe_def)
next
  case None
  note absent = this
  show ?thesis
  proof (cases "findByNameLocked order m name")
    case (Some j)
    then obtain p where p: "m j = Some p" "p_Name p = name" using findByName_Some by blast
    with Some absent show ?thesis by (intro changed [of j p]) (simp_all add: observe_def)
  next
    case None
    with absent show ?thesis by (intro new) (simp_all add: observe_def)
  qed
qed

lemma observe_keeps_trust: "keeps_trust m (snd (observe P order now name addr pub m))"
  by (rule observe_cases [of m P pub order now name addr])
    (simp_all add: Let_def keeps_trust_update keeps_trust_new)

lemma observe_keyed: "keyed P m \<Longrightarrow> keyed P (snd (observe P order now name addr pub m))"
  by (rule observe_cases [of m P pub order now name addr]) (auto simp: Let_def keyed_def)

lemma reject_keeps_trust: "keeps_trust m (snd (reject order name m))"
  by (auto simp: reject_def keeps_trust_refl keeps_trust_update dest!: findByName_Some split: option.splits)

lemma reject_keyed: "keyed P m \<Longrightarrow> keyed P (snd (reject order name m))"
  by (auto simp: reject_def keyed_def dest!: findByName_Some split: option.splits)

lemma verify_keyed: "keyed P m \<Longrightarrow> keyed P (snd (verify_peer P order name m))"
  by (auto simp: verify_peer_def keyed_def Let_def dest!: findByName_Some split: option.splits)

section \<open>Runs of the store\<close>

datatype peer_op =
    ObserveOp "string list" nat string string bytes
  | RejectOp "string list" string
  | VerifyOp "string list" string

fun peer_step :: "prims \<Rightarrow> peer_op \<Rightarrow> peer_map \<Rightarrow> peer_map" where
  "peer_step P (ObserveOp order now name addr pub) m = snd (observe P order now name addr pub m)"
| "peer_step P (RejectOp order name) m = snd (reject order name m)"
| "peer_step P (VerifyOp order name) m = snd (verify_peer P order name m)"

fun is_verify :: "peer_op \<Rightarrow> bool" where
  "is_verify (VerifyOp _ _) = True"
| "is_verify _ = False"

text \<open>The operations that are not \<open>Verify\<close>, as steps of their own.\<close>

definition passive_step :: "prims \<Rightarrow> peer_op \<Rightarrow> peer_map \<Rightarrow> peer_map" where
  "passive_step P x m = (if is_verify x then m else peer_step P x m)"

interpretation store_run: op_system "peer_step P" "keyed P" for P
proof
  show "keyed P m \<Longrightarrow> keyed P (peer_step P x m)" for m x
    by (cases x) (simp_all add: observe_keyed reject_keyed verify_keyed)
qed

interpretation passive_run: op_relation "passive_step P" "keyed P" keeps_trust for P
proof
  show "keyed P m \<Longrightarrow> keyed P (passive_step P x m)" for m x
    using store_run.step_inv by (simp add: passive_step_def)
  show "keyed P m \<Longrightarrow> keeps_trust m (passive_step P x m)" for m x
    by (cases x) (simp_all add: passive_step_def keeps_trust_refl observe_keeps_trust reject_keeps_trust)
qed (use keeps_trust_refl keeps_trust_trans in blast)+

lemma fold_passive: "list_all (\<lambda>x. \<not> is_verify x) ops \<Longrightarrow> fold (passive_step P) ops m = fold (peer_step P) ops m"
  by (induction ops arbitrary: m) (simp_all add: passive_step_def)

section \<open>Persistence\<close>

lemma set_values_in: "set (values_in order m) = {p. \<exists>i \<in> set order. m i = Some p}"
  by (force simp: values_in_def List.map_filter_def)

lemma load_peers_consistent:
  assumes "list_all (\<lambda>p. length (p_PublicKey p) = 32) ps"
    and "\<And>p. p \<in> set ps \<Longrightarrow> M (peerID P (p_PublicKey p)) = Some p"
  shows "load_peers P (map Some ps) m0 =
    Inr (\<lambda>i. if \<exists>p \<in> set ps. peerID P (p_PublicKey p) = i then M i else m0 i)"
  using assms
proof (induction ps arbitrary: m0)
  case Nil
  then show ?case by simp
next
  case (Cons p ps)
  have "M (peerID P (p_PublicKey p)) = Some p" using Cons.prems(2) by simp
  then have "(\<lambda>i. if \<exists>q \<in> set ps. peerID P (p_PublicKey q) = i then M i else (m0(peerID P (p_PublicKey p) \<mapsto> p)) i) =
      (\<lambda>i. if \<exists>q \<in> set (p # ps). peerID P (p_PublicKey q) = i then M i else m0 i)"
    by (auto simp: fun_eq_iff)
  with Cons show ?case by simp
qed

lemma load_saved:
  assumes "keyed P m" and "enumerates order m" and "\<And>i p. m i = Some p \<Longrightarrow> length (p_PublicKey p) = 32"
  shows "load_peers P (map Some (sort_key p_Name (values_in order m))) Map.empty = Inr m"
proof -
  let ?ps = "sort_key p_Name (values_in order m)"
  have mem: "p \<in> set ?ps \<longleftrightarrow> (\<exists>i. m i = Some p)" for p
    using assms(2) by (auto simp: set_values_in enumerates_def)
  have "load_peers P (map Some ?ps) Map.empty =
      Inr (\<lambda>i. if \<exists>p \<in> set ?ps. peerID P (p_PublicKey p) = i then m i else Map.empty i)"
  proof (rule load_peers_consistent)
    show "list_all (\<lambda>p. length (p_PublicKey p) = 32) ?ps"
      unfolding list_all_iff using mem assms(3) by blast
    show "m (peerID P (p_PublicKey p)) = Some p" if "p \<in> set ?ps" for p
      using that mem assms(1) unfolding keyed_def by metis
  qed
  moreover have "(\<lambda>i. if \<exists>p \<in> set ?ps. peerID P (p_PublicKey p) = i then m i else Map.empty i) = m"
  proof
    fix i
    show "(if \<exists>p \<in> set ?ps. peerID P (p_PublicKey p) = i then m i else Map.empty i) = m i"
    proof (cases "m i")
      case (Some p)
      then have "p \<in> set ?ps" "peerID P (p_PublicKey p) = i"
        using mem assms(1) unfolding keyed_def by (blast, metis)
      then show ?thesis by auto
    qed simp
  qed
  ultimately show ?thesis by (simp only:)
qed

section \<open>Properties\<close>

text \<open>
  C7: no network activity changes a trust decision. Whatever peers connect, under whatever names
  and keys, and whatever pending keys are rejected, every recorded key stays recorded, exactly the
  keys that were verified are verified, and a key is rated verified afterwards exactly when it was
  before.
\<close>

theorem trust_only_by_user:
  assumes "keyed P (st_peers s)" and "list_all (\<lambda>x. \<not> is_verify x) ops"
    and "st_peers s' = fold (peer_step P) ops (st_peers s)"
  shows "keeps_trust (st_peers s) (st_peers s') \<and>
    (TrustOf P order' name pub s' = TrustVerified \<longleftrightarrow> TrustOf P order name pub s = TrustVerified)"
proof -
  have kt: "keeps_trust (st_peers s) (st_peers s')"
    using passive_run.run_rel [OF assms(1), of ops] assms(2,3) by (simp add: fold_passive)
  have ver: "TrustOf P o' n k t = TrustVerified \<longleftrightarrow> (\<exists>p. st_peers t (peerID P k) = Some p \<and> p_Verified p)" for o' n k t
    by (auto simp: TrustOf_def split: option.splits)
  have "(\<exists>p. st_peers s' (peerID P pub) = Some p \<and> p_Verified p) \<longleftrightarrow>
      (\<exists>p. st_peers s (peerID P pub) = Some p \<and> p_Verified p)"
  proof (cases "st_peers s (peerID P pub)")
    case None
    then show ?thesis using kt unfolding keeps_trust_def by auto
  next
    case (Some p)
    then obtain p' where "st_peers s' (peerID P pub) = Some p'" "p_Verified p' = p_Verified p"
      using kt unfolding keeps_trust_def by blast
    with Some show ?thesis by simp
  qed
  with kt show ?thesis by (simp add: ver)
qed

definition demo_peer :: peer where
  "demo_peer = \<lparr>p_Name = ''bob'', p_PublicKey = replicate 32 2, p_Fingerprint = FingerprintOf demo_prims (replicate 32 2),
     p_Verified = True, p_Address = [], p_FirstSeen = 1, p_LastSeen = 1, p_PendingKey = []\<rparr>"

definition demo_store :: store where
  "demo_store = \<lparr>st_path = ''trust.json'', st_peers = [peerID demo_prims (replicate 32 2) \<mapsto> demo_peer]\<rparr>"

lemma demo_store_keyed: "keyed demo_prims (st_peers demo_store)"
  by (simp add: keyed_def demo_store_def demo_peer_def)

lemma demo_store_enumerates: "enumerates [peerID demo_prims (replicate 32 2)] (st_peers demo_store)"
  by (simp add: enumerates_def demo_store_def)

theorem trust_only_by_user_witness:
  "let s' = demo_store\<lparr>st_peers := fold (peer_step demo_prims)
       [ObserveOp [peerID demo_prims (replicate 32 2)] 5 ''bob'' [] (replicate 31 3),
        RejectOp [peerID demo_prims (replicate 32 2)] ''bob''] (st_peers demo_store)\<rparr> in
     keeps_trust (st_peers demo_store) (st_peers s') \<and>
     (TrustOf demo_prims [] ''bob'' (replicate 32 2) s' = TrustVerified \<longleftrightarrow>
      TrustOf demo_prims [] ''bob'' (replicate 32 2) demo_store = TrustVerified)"
  unfolding Let_def
  by (rule trust_only_by_user [OF demo_store_keyed,
        of "[ObserveOp [peerID demo_prims (replicate 32 2)] 5 ''bob'' [] (replicate 31 3),
             RejectOp [peerID demo_prims (replicate 32 2)] ''bob'']"]) simp_all

text \<open>
  the rating of a presented key. \<open>Observe\<close> returns the level that \<open>TrustOf\<close> reads off the store
  before the call, and neither depends on the order in which the map is iterated: verified or
  unverified for a recorded fingerprint, changed when only the name is recorded, unknown otherwise.
\<close>

theorem observe_rates:
  assumes "enumerates order (st_peers s)" and "enumerates order' (st_peers s)"
  shows "fst (snd (fst (Observe P J io order order2 now name addr pub s fs))) = TrustOf P order' name pub s \<and>
    TrustOf P order' name pub s =
      (case st_peers s (peerID P pub) of
         Some p \<Rightarrow> if p_Verified p then TrustVerified else TrustUnverified
       | None \<Rightarrow> if \<exists>i p. st_peers s i = Some p \<and> p_Name p = name then TrustChanged else TrustUnknown)"
proof -
  let ?m = "st_peers s"
  have found: "findByNameLocked o' ?m name = None \<longleftrightarrow> \<not> (\<exists>i p. ?m i = Some p \<and> p_Name p = name)"
    if "enumerates o' ?m" for o'
    using findByName_None [OF that] by blast
  have lvl: "fst (snd (fst (Observe P J io order order2 now name addr pub s fs))) =
      snd (fst (observe P order now name addr pub ?m))"
    by (simp add: Observe_def Let_def split: prod.splits)
  show ?thesis
    unfolding lvl using found [OF assms(1)] found [OF assms(2)]
    by (auto simp: observe_def TrustOf_def Let_def split: option.split)
qed

theorem observe_rates_witness:
  "fst (snd (fst (Observe demo_prims \<lparr>peers_marshal = (\<lambda>_. []), peers_unmarshal = (\<lambda>_. None)\<rparr> no_faults
      [peerID demo_prims (replicate 32 2)] [] 9 ''bob'' [] (replicate 31 3) demo_store Map.empty))) =
   TrustOf demo_prims [peerID demo_prims (replicate 32 2)] ''bob'' (replicate 31 3) demo_store"
  using observe_rates [OF demo_store_enumerates demo_store_enumerates] by blast

text \<open>
  a changed key is adopted only by \<open>Verify\<close>. A key whose fingerprint is not recorded, presented
  under a recorded name, is rated changed and only remembered as pending: the record keeps its key.
  \<open>Verify\<close> of that name then replaces the record by one under the new fingerprint, verified, and
  \<open>Reject\<close> restores the record with its old key and no pending one.
\<close>

theorem changed_key_needs_verify:
  assumes "keyed P m" and "m j = Some p" and "m (peerID P pub) = None" and "pub \<noteq> []"
    and unique: "\<forall>i q. m i = Some q \<longrightarrow> p_Name q = p_Name p \<longrightarrow> i = j"
    and "enumerates order m" and "observe P order now (p_Name p) addr pub m = ((q, lvl), m1)"
  shows "lvl = TrustChanged \<and> m1 = m(j \<mapsto> p\<lparr>p_PendingKey := pub, p_LastSeen := now\<rparr>) \<and>
    snd (reject order (p_Name p) m1) = m(j \<mapsto> p\<lparr>p_PendingKey := [], p_LastSeen := now\<rparr>) \<and>
    snd (verify_peer P order (p_Name p) m1) =
      m(j := None, peerID P pub \<mapsto> p\<lparr>p_PublicKey := pub, p_Fingerprint := FingerprintOf P pub, p_Verified := True,
                                     p_PendingKey := [], p_LastSeen := now\<rparr>)"
proof -
  have f: "findByNameLocked order m (p_Name p) = Some j"
    using findByName_unique [OF assms(6,2)] unique by blast
  let ?p = "p\<lparr>p_PendingKey := pub, p_LastSeen := now\<rparr>"
  have m1: "m1 = m(j \<mapsto> ?p)" and lvl: "lvl = TrustChanged"
    using assms(2,3,7) f by (auto simp: observe_def Let_def)
  have j: "j = peerID P (p_PublicKey p)" using assms(1,2) by (simp add: keyed_def)
  have "enumerates order m1" using assms(2,6) m1 by (auto simp: enumerates_def)
  moreover have "m1 j = Some ?p" using m1 by simp
  moreover have "i = j" if "m1 i = Some r" "p_Name r = p_Name ?p" for i r
    using that m1 unique by (auto split: if_splits)
  ultimately have "findByNameLocked order m1 (p_Name ?p) = Some j" by (rule findByName_unique)
  then have f1: "findByNameLocked order m1 (p_Name p) = Some j" by simp
  have rej: "snd (reject order (p_Name p) m1) = m(j \<mapsto> p\<lparr>p_PendingKey := [], p_LastSeen := now\<rparr>)"
    unfolding reject_def f1 option.case unfolding m1 by (cases p) simp
  have "snd (verify_peer P order (p_Name p) m1) =
      m(j := None, peerID P pub \<mapsto> p\<lparr>p_PublicKey := pub, p_Fingerprint := FingerprintOf P pub, p_Verified := True,
                                     p_PendingKey := [], p_LastSeen := now\<rparr>)"
    unfolding verify_peer_def f1 option.case unfolding m1 using assms(4) j by (cases p) (simp add: Let_def)
  with rej m1 lvl show ?thesis by blast
qed

theorem changed_key_needs_verify_witness:
  "\<exists>q m1. observe demo_prims [peerID demo_prims (replicate 32 2)] 7 ''bob'' [] (replicate 31 3) (st_peers demo_store) =
     ((q, TrustChanged), m1) \<and>
     snd (verify_peer demo_prims [peerID demo_prims (replicate 32 2)] ''bob'' m1) =
       (st_peers demo_store)(peerID demo_prims (replicate 32 2) := None,
         peerID demo_prims (replicate 31 3) \<mapsto> demo_peer\<lparr>p_PublicKey := replicate 31 3,
           p_Fingerprint := FingerprintOf demo_prims (replicate 31 3), p_Verified := True, p_PendingKey := [], p_LastSeen := 7\<rparr>)"
proof -
  let ?i = "peerID demo_prims (replicate 32 2)"
  have "fill (sha256_byte demo_prims (replicate 32 2)) 32 ! 0 \<noteq> fill (sha256_byte demo_prims (replicate 31 3)) 32 ! 0"
    by (simp add: fill_def demo_prims_def)
  then have "peerID demo_prims (replicate 31 3) \<noteq> ?i"
    by (auto simp: peerID_def FingerprintOf_def join_hex2_inject)
  then have absent: "st_peers demo_store (peerID demo_prims (replicate 31 3)) = None"
    by (simp add: demo_store_def)
  have at: "st_peers demo_store ?i = Some demo_peer" "(replicate 31 3 :: bytes) \<noteq> []" "p_Name demo_peer = ''bob''"
    by (simp_all add: demo_store_def demo_peer_def)
  have uniq: "\<forall>i q. st_peers demo_store i = Some q \<longrightarrow> p_Name q = p_Name demo_peer \<longrightarrow> i = ?i"
    by (simp add: demo_store_def)
  obtain q lvl m1 where o: "observe demo_prims [?i] 7 (p_Name demo_peer) [] (replicate 31 3) (st_peers demo_store) = ((q, lvl), m1)"
    by (metis surj_pair)
  from changed_key_needs_verify [OF demo_store_keyed at(1) absent at(2) uniq demo_store_enumerates o] o at(3)
  show ?thesis by auto
qed

text \<open>
  C29: a recorded key takes over another record's name without a warning. When the key of record
  \<open>k\<close> is presented under the name of a different record \<open>j\<close>, it is not rated changed; both records
  carry the name afterwards, and which of the two a later \<open>Verify\<close> of that name marks as verified
  depends only on the order in which the map happens to be iterated.
\<close>

theorem known_key_renamed_silently:
  assumes "m j = Some p" and "k = peerID P pub" and "m k = Some r" and "j \<noteq> k"
    and "p_PendingKey p = []" and "observe P order now (p_Name p) addr pub m = ((q, lvl), m1)"
  shows "lvl \<noteq> TrustChanged \<and> m1 j = Some p \<and> m1 k = Some q \<and> p_Name q = p_Name p \<and>
    snd (verify_peer P (j # k # rest) (p_Name p) m1) = m1(j \<mapsto> p\<lparr>p_Verified := True\<rparr>) \<and>
    snd (verify_peer P (k # j # rest) (p_Name p) m1) = m1(k \<mapsto> q\<lparr>p_Verified := True\<rparr>)"
proof -
  have q: "q = r\<lparr>p_Name := p_Name p, p_Address := (if addr \<noteq> [] then addr else p_Address r),
      p_LastSeen := now, p_PendingKey := []\<rparr>" and m1: "m1 = m(k \<mapsto> q)"
    and lvl: "lvl = (if p_Verified r then TrustVerified else TrustUnverified)"
    using assms(2,3,6) by (auto simp: observe_def Let_def)
  have at: "m1 j = Some p" "m1 k = Some q" "p_Name q = p_Name p" "p_PendingKey q = []"
    using m1 q assms(1,4) by simp_all
  then have "findByNameLocked (j # k # rest) m1 (p_Name p) = Some j"
    "findByNameLocked (k # j # rest) m1 (p_Name p) = Some k"
    by (simp_all add: findByNameLocked_def)
  with at lvl assms(5) show ?thesis by (simp add: verify_peer_def Let_def)
qed

theorem known_key_renamed_silently_witness:
  "\<exists>q lvl m1. observe demo_prims [] 7 ''bob'' [] (replicate 31 3)
       ((st_peers demo_store)(peerID demo_prims (replicate 31 3) \<mapsto> demo_peer\<lparr>p_Name := ''eve'', p_Verified := False\<rparr>)) =
     ((q, lvl), m1) \<and> lvl \<noteq> TrustChanged \<and> m1 (peerID demo_prims (replicate 32 2)) = Some demo_peer \<and>
     m1 (peerID demo_prims (replicate 31 3)) = Some q \<and> p_Name q = ''bob''"
proof -
  let ?j = "peerID demo_prims (replicate 32 2)" and ?k = "peerID demo_prims (replicate 31 3)"
  let ?m = "(st_peers demo_store)(?k \<mapsto> demo_peer\<lparr>p_Name := ''eve'', p_Verified := False\<rparr>)"
  have "fill (sha256_byte demo_prims (replicate 32 2)) 32 ! 0 \<noteq> fill (sha256_byte demo_prims (replicate 31 3)) 32 ! 0"
    by (simp add: fill_def demo_prims_def)
  then have ne: "?j \<noteq> ?k" by (auto simp: peerID_def FingerprintOf_def join_hex2_inject)
  have at: "?m ?j = Some demo_peer" "?m ?k = Some (demo_peer\<lparr>p_Name := ''eve'', p_Verified := False\<rparr>)"
    "p_PendingKey demo_peer = []" "p_Name demo_peer = ''bob''"
    using ne by (simp_all add: demo_store_def demo_peer_def)
  obtain q lvl m1 where o: "observe demo_prims [] 7 (p_Name demo_peer) [] (replicate 31 3) ?m = ((q, lvl), m1)"
    by (metis surj_pair)
  from known_key_renamed_silently [OF at(1) refl at(2) ne at(3) o] o at(4) show ?thesis by auto
qed

lemma saved_store_opens:
  assumes "keyed P (st_peers s)" and "enumerates order (st_peers s)"
    and "\<forall>i p. st_peers s i = Some p \<longrightarrow> length (p_PublicKey p) = 32"
    and "peers_unmarshal J (peers_marshal J (List_peers order s)) = Some (map Some (List_peers order s))"
    and "saveLocked J no_faults order s fs = (r, fs')"
  shows "r = Inr () \<and> OpenStore P J True (st_path s) fs' = Inr s \<and>
    sorted (map p_Name (List_peers order s)) \<and> length (List_peers order s) = card (dom (st_peers s)) \<and>
    set (List_peers order s) = ran (st_peers s)"
proof -
  have fs': "fs' (st_path s) = Some (peers_marshal J (List_peers order s))" and r: "r = Inr ()"
    using assms(5) by (auto simp: saveLocked_def no_faults_def List_peers_def Let_def)
  have "load_peers P (map Some (List_peers order s)) Map.empty = Inr (st_peers s)"
    unfolding List_peers_def using load_saved [OF assms(1,2)] assms(3) by blast
  then have op: "OpenStore P J True (st_path s) fs' = Inr s"
    using fs' assms(4) by (simp add: OpenStore_def)
  have "filter (\<lambda>i. st_peers s i \<noteq> None) order = order"
    using assms(2) by (auto simp: enumerates_def dom_def intro: filter_True)
  then have "length (List_peers order s) = length order"
    by (simp add: List_peers_def values_in_def List.map_filter_def)
  moreover have "length order = card (dom (st_peers s))"
    using assms(2) by (metis enumerates_def distinct_card)
  moreover have "set (List_peers order s) = ran (st_peers s)"
    using assms(2) by (auto simp: List_peers_def set_values_in enumerates_def ran_def dom_def)
  moreover have "sorted (map p_Name (List_peers order s))"
    by (simp add: List_peers_def)
  ultimately show ?thesis using r op by simp
qed

definition demo_json_peers :: json_peers where
  "demo_json_peers = \<lparr>peers_marshal = (\<lambda>_. [7]), peers_unmarshal = (\<lambda>_. Some [Some demo_peer])\<rparr>"

text \<open>
  the store survives a restart. A store whose keys have their size, saved without a fault and
  opened again, holds the same records; what is on disk and what \<open>List\<close> returns is sorted by name
  and holds every record once, for every iteration order.
\<close>

theorem store_survives_restart:
  assumes "keyed P (st_peers s)" and "enumerates order (st_peers s)"
    and "\<forall>i p. st_peers s i = Some p \<longrightarrow> length (p_PublicKey p) = 32"
    and "peers_unmarshal J (peers_marshal J (List_peers order s)) = Some (map Some (List_peers order s))"
    and "saveLocked J no_faults order s fs = (r, fs')"
  shows "r = Inr () \<and> OpenStore P J True (st_path s) fs' = Inr s \<and>
    sorted (map p_Name (List_peers order s)) \<and> length (List_peers order s) = card (dom (st_peers s)) \<and>
    set (List_peers order s) = ran (st_peers s)"
  by (rule saved_store_opens [OF assms])

theorem store_survives_restart_witness:
  "\<exists>r fs'. saveLocked demo_json_peers no_faults [peerID demo_prims (replicate 32 2)] demo_store Map.empty = (r, fs') \<and>
     r = Inr () \<and> OpenStore demo_prims demo_json_peers True ''trust.json'' fs' = Inr demo_store"
proof -
  let ?o = "[peerID demo_prims (replicate 32 2)]"
  obtain r fs' where s: "saveLocked demo_json_peers no_faults ?o demo_store Map.empty = (r, fs')"
    by fastforce
  have l: "List_peers ?o demo_store = [demo_peer]"
    by (simp add: List_peers_def values_in_def List.map_filter_def demo_store_def)
  have len: "\<forall>i p. st_peers demo_store i = Some p \<longrightarrow> length (p_PublicKey p) = 32"
    by (simp add: demo_store_def demo_peer_def)
  have "peers_unmarshal demo_json_peers (peers_marshal demo_json_peers (List_peers ?o demo_store)) =
      Some (map Some (List_peers ?o demo_store))"
    unfolding l by (simp add: demo_json_peers_def)
  moreover have "st_path demo_store = ''trust.json''" by (simp add: demo_store_def)
  ultimately show ?thesis
    using store_survives_restart [OF demo_store_keyed demo_store_enumerates len _ s] s by auto
qed

end
