(* ===== verification/Manager.thy ===== *)
theory Manager
  imports SessionProps HandshakeProps Peers Transport
begin

text \<open>
  \<open>internal/session/manager.go\<close>: the connections of the local node. Connections are pointers in the
  code (the maps \<open>conns\<close> and \<open>byName\<close> share them with the loops), so they live in an explicit heap
  and the maps hold heap addresses.

  The functions of the code that a goroutine runs from start to end without waiting for another one
  are definitions of the same name. Those that release or wait for the mutex \<open>m.mu\<close> on the way, or
  sleep, are split into the actions between these points, and the definition that carries the name of
  the function composes them, as when nothing else runs meanwhile: \<open>announce\<close>, \<open>dropConn\<close>,
  \<open>Disconnect\<close>, \<open>Shutdown\<close> and, up to \<open>register\<close>, \<open>runHandshake\<close>. A run of the manager (\<open>mgr_step\<close>) is a
  sequence of such actions of all goroutines, in any order; an action that needs \<open>m.mu\<close> while
  another goroutine holds it does not happen. Sealing a frame and putting it into the queue of the
  connection is one action.

  A buffered channel is a list with its capacity; a send in a \<open>select\<close> with \<open>default\<close> drops the
  value when the list is full. Goroutines, timers and sockets appear as the arguments of the
  actions: what a read returned, whether a write succeeded, that a timer fired.
\<close>

section \<open>Events\<close>

datatype EventType =
    EventPeerConnected | EventPeerDisconnected | EventMessage | EventSecurityWarning | EventError

text \<open>The texts the manager composes, by what they say.\<close>

datatype event_text =
    NoText
  | ChatText string
  | HandshakeFailed proto_error
  | PairingFailed
  | KeyChanged string string string \<comment> \<open>name, previous and new fingerprint\<close>

record event =
  e_Type :: EventType
  e_Peer :: string
  e_Fingerprint :: string
  e_Text :: event_text
  e_Trust :: TrustLevel
  e_Path :: string

definition PathDirect :: string where "PathDirect = ''DIRECT''"
definition PathPunched :: string where "PathPunched = ''PUNCHED''"
definition PathRelay :: string where "PathRelay = ''RELAY''"

definition keepaliveMisses :: nat where [simp]: "keepaliveMisses = 3"
definition sendQueue :: nat where [simp]: "sendQueue = 64"
definition eventQueue :: nat where [simp]: "eventQueue = 256"

section \<open>State\<close>

text \<open>
  How far the body of \<open>dropConn\<close> has got, which \<open>once\<close> runs at most once for a connection: it has
  closed the connection and needs \<open>m.mu\<close>, or it has left the index and tells the chat layer.
  Whoever else calls the same \<open>once\<close> waits until the body has returned.
\<close>

datatype drop_phase = NotDropping | DropUnregister | DropEmit

record conn =
  c_fp :: string
  c_name :: string
  c_sess :: session
  c_trust :: TrustLevel
  c_addr :: string
  c_send :: "bytes list"
  c_done :: bool \<comment> \<open>\<open>done\<close> is closed; the body of \<open>once\<close> has been entered\<close>
  c_drop :: drop_phase
  c_ioClosed :: bool
  c_path :: string
  c_unanswered :: nat
  c_announced :: bool

record manager =
  m_id :: identity
  m_store :: store
  m_files :: files
  m_conns :: "string \<rightharpoonup> nat"
  m_byName :: "string \<rightharpoonup> nat"
  m_events :: "event list"
  m_closing :: bool
  m_heap :: "nat \<rightharpoonup> conn"
  m_next :: nat
  m_pending :: "conn list" \<comment> \<open>connections of goroutines that are about to call \<open>register\<close>\<close>
  m_mu :: "nat option" \<comment> \<open>a call of \<open>register\<close> holds \<open>m.mu\<close> and waits for the \<open>once\<close> of this connection\<close>

datatype mgr_error =
    MProto proto_error
  | MTransport transport_error
  | MStore peers_error
  | MNotConnected string
  | MConnClosed
  | MQueueFull
  | MNoSession

record adoptOptions =
  a_Initiator :: bool
  a_PairingKey :: bytes
  a_Path :: string

definition NewManager :: "identity \<Rightarrow> store \<Rightarrow> files \<Rightarrow> manager" where
  "NewManager i s fs =
     \<lparr>m_id = i, m_store = s, m_files = fs, m_conns = Map.empty, m_byName = Map.empty, m_events = [],
      m_closing = False, m_heap = Map.empty, m_next = 0, m_pending = [], m_mu = None\<rparr>"

definition inboundOptions :: "('c \<Rightarrow> adoptOptions option) option \<Rightarrow> 'c \<Rightarrow> adoptOptions" where
  "inboundOptions hook nc =
     (case hook of
        Some f \<Rightarrow> (case f nc of Some opts \<Rightarrow> opts
                   | None \<Rightarrow> \<lparr>a_Initiator = False, a_PairingKey = [], a_Path = PathDirect\<rparr>)
      | None \<Rightarrow> \<lparr>a_Initiator = False, a_PairingKey = [], a_Path = PathDirect\<rparr>)"

definition emit :: "event \<Rightarrow> manager \<Rightarrow> manager" where
  "emit e m = (if length (m_events m) < eventQueue then m\<lparr>m_events := m_events m @ [e]\<rparr> else m)"

definition set_conn :: "nat \<Rightarrow> conn \<Rightarrow> manager \<Rightarrow> manager" where
  "set_conn i c m = m\<lparr>m_heap := (m_heap m)(i \<mapsto> c)\<rparr>"

definition conn_at :: "manager \<Rightarrow> nat \<Rightarrow> conn" where
  "conn_at m i = the (m_heap m i)"

section \<open>Registration\<close>

definition preferNew :: "conn \<Rightarrow> conn \<Rightarrow> bool" where
  "preferNew old new =
     (if c_unanswered old > 0 then True
      else s_SessionID (c_sess new) < s_SessionID (c_sess old))"

definition conn_close :: "conn \<Rightarrow> conn" where
  "conn_close c =
     (if c_done c then c
      else c\<lparr>c_done := True, c_sess := session_Close (c_sess c), c_ioClosed := True\<rparr>)"

text \<open>
  \<open>register\<close> with \<open>m.mu\<close> held, when the \<open>once\<close> of the connection it replaces is not running. That a
  running \<open>once\<close> makes it wait is in \<open>register_step\<close> below.
\<close>

definition register :: "nat \<Rightarrow> manager \<Rightarrow> bool \<times> manager" where
  "register i m =
     (let c = conn_at m i;
          enter = (\<lambda>m. m\<lparr>m_conns := (m_conns m)(c_fp c \<mapsto> i), m_byName := (m_byName m)(c_name c \<mapsto> i)\<rparr>)
      in case m_conns m (c_fp c) of
           Some j \<Rightarrow>
             let old = conn_at m j
             in if c_announced old \<and> c_unanswered old = 0 then (False, m)
                else if \<not> preferNew old c then (False, m)
                else (True, enter (set_conn j (conn_close old) m))
         | None \<Rightarrow> (True, enter m))"

definition unregister :: "nat \<Rightarrow> manager \<Rightarrow> manager" where
  "unregister i m =
     (let c = conn_at m i
      in if m_conns m (c_fp c) = Some i then
           let m1 = m\<lparr>m_conns := (m_conns m)(c_fp c := None)\<rparr>
           in if m_byName m1 (c_name c) = Some i then m1\<lparr>m_byName := (m_byName m1)(c_name c := None)\<rparr> else m1
         else m)"

text \<open>
  \<open>announce\<close> is two actions: it checks that the connection is current and sets the flag, and
  later, without the mutex, emits the event.
\<close>

definition announce_check :: "nat \<Rightarrow> manager \<Rightarrow> bool \<times> manager" where
  "announce_check i m =
     (let c = conn_at m i
      in if c_done c then (False, m)
         else if m_conns m (c_fp c) \<noteq> Some i \<or> c_announced c then (False, m)
         else (True, set_conn i (c\<lparr>c_announced := True\<rparr>) m))"

definition announce_emit :: "nat \<Rightarrow> manager \<Rightarrow> manager" where
  "announce_emit i m =
     (let c = conn_at m i
      in emit \<lparr>e_Type = EventPeerConnected, e_Peer = c_name c, e_Fingerprint = c_fp c, e_Text = NoText,
               e_Trust = c_trust c, e_Path = c_path c\<rparr> m)"

definition announce :: "nat \<Rightarrow> manager \<Rightarrow> manager" where
  "announce i m = (case announce_check i m of (True, m1) \<Rightarrow> announce_emit i m1 | (False, m1) \<Rightarrow> m1)"

text \<open>
  \<open>dropConn\<close>, inside \<open>once\<close>: the connection is closed without \<open>m.mu\<close>; \<open>unregister\<close> takes it; the event
  is emitted after it was released.
\<close>

definition drop_begin :: "nat \<Rightarrow> manager \<Rightarrow> manager" where
  "drop_begin i m =
     (let c = conn_at m i
      in if c_done c then m else set_conn i ((conn_close c)\<lparr>c_drop := DropUnregister\<rparr>) m)"

definition drop_unregister :: "nat \<Rightarrow> manager \<Rightarrow> manager" where
  "drop_unregister i m =
     (let c = conn_at m i
      in if c_drop c = DropUnregister then set_conn i (c\<lparr>c_drop := DropEmit\<rparr>) (unregister i m) else m)"

definition drop_emit :: "nat \<Rightarrow> manager \<Rightarrow> manager" where
  "drop_emit i m =
     (let c = conn_at m i; m1 = set_conn i (c\<lparr>c_drop := NotDropping\<rparr>) m
      in if c_drop c = DropEmit
         then if c_announced c
              then emit \<lparr>e_Type = EventPeerDisconnected, e_Peer = c_name c, e_Fingerprint = c_fp c,
                         e_Text = NoText, e_Trust = c_trust c, e_Path = c_path c\<rparr> m1
              else m1
         else m)"

definition dropConn :: "nat \<Rightarrow> manager \<Rightarrow> manager" where
  "dropConn i m =
     (if c_done (conn_at m i) then m else drop_emit i (drop_unregister i (drop_begin i m)))"

section \<open>Sending\<close>

text \<open>
  When \<open>done\<close> is closed and the queue has room, the \<open>select\<close> may take either branch; the model takes
  the queue. The session is closed by then, so that the seal has already failed.
\<close>

definition push_frame :: "nat \<Rightarrow> bytes \<Rightarrow> manager \<Rightarrow> (mgr_error + unit) \<times> manager" where
  "push_frame i buf m =
     (let c = conn_at m i
      in if length (c_send c) < sendQueue then (Inr (), set_conn i (c\<lparr>c_send := c_send c @ [buf]\<rparr>) m)
         else if c_done c then (Inl MConnClosed, m)
         else (Inl MQueueFull, m))"

definition enqueue :: "prims \<Rightarrow> entropy \<Rightarrow> nat \<Rightarrow> byte \<Rightarrow> bytes \<Rightarrow> manager \<Rightarrow> (mgr_error + unit) \<times> manager" where
  "enqueue P rnd i typ payload m =
     (let c = conn_at m i
      in case session_Seal P rnd typ payload (c_sess c) of
           (Inl e, s1) \<Rightarrow> (Inl (MProto e), set_conn i (c\<lparr>c_sess := s1\<rparr>) m)
         | (Inr buf, s1) \<Rightarrow> push_frame i buf (set_conn i (c\<lparr>c_sess := s1\<rparr>) m))"

definition send_chat :: "prims \<Rightarrow> entropy \<Rightarrow> nat \<Rightarrow> string \<Rightarrow> manager \<Rightarrow> (mgr_error + unit) \<times> manager" where
  "send_chat P rnd i text m =
     (let c = conn_at m i
      in case SealChat P rnd text (c_sess c) of
           (Inl e, s1) \<Rightarrow> (Inl (MProto e), set_conn i (c\<lparr>c_sess := s1\<rparr>) m)
         | (Inr buf, s1) \<Rightarrow> push_frame i buf (set_conn i (c\<lparr>c_sess := s1\<rparr>) m))"

definition mgr_Send :: "prims \<Rightarrow> entropy \<Rightarrow> string \<Rightarrow> string \<Rightarrow> manager \<Rightarrow> (mgr_error + unit) \<times> manager" where
  "mgr_Send P rnd name text m =
     (case m_byName m name of None \<Rightarrow> (Inl (MNotConnected name), m)
      | Some i \<Rightarrow> send_chat P rnd i text m)"

text \<open>\<open>order\<close> lists the keys of \<open>conns\<close>; \<open>rnd\<close> is the randomness drawn for each connection.\<close>

fun broadcast_loop :: "prims \<Rightarrow> (nat \<Rightarrow> entropy) \<Rightarrow> string \<Rightarrow> nat list \<Rightarrow> nat \<Rightarrow> manager \<Rightarrow> nat \<times> manager" where
  "broadcast_loop P rnd text [] n m = (n, m)"
| "broadcast_loop P rnd text (i # is) n m =
     (case send_chat P (rnd i) i text m of
        (Inl _, m1) \<Rightarrow> broadcast_loop P rnd text is n m1
      | (Inr _, m1) \<Rightarrow> broadcast_loop P rnd text is (n + 1) m1)"

definition current_conns :: "string list \<Rightarrow> manager \<Rightarrow> nat list" where
  "current_conns order m = List.map_filter (m_conns m) order"

definition Broadcast :: "prims \<Rightarrow> (nat \<Rightarrow> entropy) \<Rightarrow> string list \<Rightarrow> string \<Rightarrow> manager \<Rightarrow> nat \<times> manager" where
  "Broadcast P rnd order text m = broadcast_loop P rnd text (current_conns order m) 0 m"

text \<open>
  \<open>Disconnect\<close> and \<open>Shutdown\<close> up to the point where they sleep: what they looked up, and the closing
  frames. \<open>Shutdown\<close> takes its list with \<open>m.mu\<close> and queues the frames without it.
\<close>

definition Disconnect_begin :: "prims \<Rightarrow> entropy \<Rightarrow> string \<Rightarrow> manager \<Rightarrow> (mgr_error + nat) \<times> manager" where
  "Disconnect_begin P rnd name m =
     (case m_byName m name of None \<Rightarrow> (Inl (MNotConnected name), m)
      | Some i \<Rightarrow> (Inr i, snd (enqueue P rnd i TypeClose [] m)))"

definition Disconnect :: "prims \<Rightarrow> entropy \<Rightarrow> string \<Rightarrow> manager \<Rightarrow> (mgr_error + unit) \<times> manager" where
  "Disconnect P rnd name m =
     (case Disconnect_begin P rnd name m of (Inl e, m1) \<Rightarrow> (Inl e, m1)
      | (Inr i, m1) \<Rightarrow> (Inr (), dropConn i m1))"

definition Shutdown_begin :: "string list \<Rightarrow> manager \<Rightarrow> nat list \<times> manager" where
  "Shutdown_begin order m = (current_conns order m, m\<lparr>m_closing := True\<rparr>)"

definition Shutdown_frames :: "prims \<Rightarrow> (nat \<Rightarrow> entropy) \<Rightarrow> nat list \<Rightarrow> manager \<Rightarrow> manager" where
  "Shutdown_frames P rnd is m = fold (\<lambda>i m. snd (enqueue P (rnd i) i TypeClose [] m)) is m"

definition Shutdown :: "prims \<Rightarrow> (nat \<Rightarrow> entropy) \<Rightarrow> string list \<Rightarrow> manager \<Rightarrow> manager" where
  "Shutdown P rnd order m =
     (case Shutdown_begin order m of (is, m1) \<Rightarrow> fold dropConn is (Shutdown_frames P rnd is m1))"

record peerInfo =
  pi_Name :: string
  pi_Fingerprint :: string
  pi_Address :: string
  pi_Trust :: TrustLevel
  pi_Path :: string

definition mgr_Peers :: "string list \<Rightarrow> manager \<Rightarrow> peerInfo list" where
  "mgr_Peers order m =
     map (\<lambda>i. let c = conn_at m i
              in \<lparr>pi_Name = c_name c, pi_Fingerprint = c_fp c, pi_Address = c_addr c, pi_Trust = c_trust c, pi_Path = c_path c\<rparr>)
       (current_conns order m)"

definition mgr_TrustOf :: "string \<Rightarrow> manager \<Rightarrow> TrustLevel \<times> bool" where
  "mgr_TrustOf name m =
     (case m_byName m name of Some i \<Rightarrow> (c_trust (conn_at m i), True) | None \<Rightarrow> (TrustUnknown, False))"

section \<open>The loops of a connection\<close>

text \<open>
  One iteration of \<open>readLoop\<close> on the outcome of a receive. The result says whether the loop goes on;
  when it returns, the deferred \<open>dropConn\<close> has begun.
\<close>

definition readLoop_step ::
    "prims \<Rightarrow> entropy \<Rightarrow> nat \<Rightarrow> transport_error + bytes \<Rightarrow> manager \<Rightarrow> bool \<times> manager" where
  "readLoop_step P rnd i recv m =
     (case recv of Inl _ \<Rightarrow> (False, drop_begin i m)
      | Inr buf \<Rightarrow>
        let c = conn_at m i
        in case session_Open P buf (c_sess c) of
             (Inl e, s1) \<Rightarrow>
               let m1 = set_conn i (c\<lparr>c_sess := s1\<rparr>) m
               in if e = ErrBadSession then (False, drop_begin i m1) else (True, m1)
           | (Inr (typ, pt), s1) \<Rightarrow>
               let m1 = set_conn i (c\<lparr>c_sess := s1\<rparr>) m
               in if typ = TypeChat then
                    (case DecodeChat pt of Inl _ \<Rightarrow> (True, m1)
                     | Inr text \<Rightarrow>
                       (True, emit \<lparr>e_Type = EventMessage, e_Peer = c_name c, e_Fingerprint = c_fp c,
                                    e_Text = ChatText text, e_Trust = c_trust c, e_Path = ''''\<rparr> m1))
                  else if typ = TypePing then (True, snd (enqueue P rnd i TypePong [] m1))
                  else if typ = TypePong then (True, set_conn i ((conn_at m1 i)\<lparr>c_unanswered := 0\<rparr>) m1)
                  else if typ = TypeClose then (False, drop_begin i m1)
                  else (True, m1))"

text \<open>One tick of \<open>keepaliveLoop\<close>.\<close>

definition keepalive_step :: "prims \<Rightarrow> entropy \<Rightarrow> nat \<Rightarrow> manager \<Rightarrow> bool \<times> manager" where
  "keepalive_step P rnd i m =
     (let c = conn_at m i
      in if c_done c then (False, m)
         else let u = c_unanswered c + 1; m1 = set_conn i (c\<lparr>c_unanswered := u\<rparr>) m
              in if u > keepaliveMisses then (False, drop_begin i m1)
                 else case enqueue P rnd i TypePing [] m1 of
                        (Inl _, m2) \<Rightarrow> (False, drop_begin i m2)
                      | (Inr _, m2) \<Rightarrow> (True, m2))"

text \<open>
  One iteration of \<open>writeLoop\<close>: nothing when the connection is done or the queue is empty, otherwise
  it takes the first frame of the queue and writes it.
\<close>

definition writeLoop_step :: "bool \<Rightarrow> nat \<Rightarrow> manager \<Rightarrow> bytes option \<times> manager" where
  "writeLoop_step write_ok i m =
     (let c = conn_at m i
      in if c_done c then (None, m)
         else case c_send c of [] \<Rightarrow> (None, m)
              | buf # rest \<Rightarrow>
                let m1 = set_conn i (c\<lparr>c_send := rest\<rparr>) m
                in if write_ok then (Some buf, m1) else (None, drop_begin i m1))"

section \<open>The handshake of a connection\<close>

text \<open>
  What the outside world does during one call of \<open>runHandshake\<close>: the randomness, the outcomes of the
  receives in order (an exhausted list is a deadline that has passed), which sends fail, the
  remote address, the clock, and the iteration orders and faults of the trust store.
\<close>

record hs_env =
  v_eph :: entropy
  v_nonce :: entropy
  v_confirm :: entropy
  v_recv :: "(transport_error + bytes) list"
  v_sendFails :: "nat \<Rightarrow> bool"
  v_addr :: string
  v_now :: nat
  v_order :: "string list"
  v_saveOrder :: "string list"
  v_io :: io_faults

fun recv_next :: "(transport_error + bytes) list \<Rightarrow> transport_error + bytes \<times> (transport_error + bytes) list" where
  "recv_next [] = Inl ErrEOF"
| "recv_next (Inl e # r) = Inl e"
| "recv_next (Inr b # r) = Inr (b, r)"

definition payload :: "bytes option \<Rightarrow> bytes" where
  "payload out = (case out of None \<Rightarrow> [] | Some b \<Rightarrow> b)"

text \<open>
  The exchange of the handshake messages: an error, with whether it is reported to the user, or the
  result and the receives that are left; and the frames that were sent.
\<close>

definition exchange_initiator ::
    "prims \<Rightarrow> hs_env \<Rightarrow> handshaker \<Rightarrow>
     (mgr_error \<times> bool + handshakeResult option \<times> (transport_error + bytes) list) \<times> bytes list" where
  "exchange_initiator P env hs =
     (case InitMessage hs of Inl e \<Rightarrow> (Inl (MProto e, False), [])
      | Inr msg1 \<Rightarrow>
        if v_sendFails env 0 then (Inl (MTransport ErrWrite, False), [])
        else case recv_next (v_recv env) of Inl e \<Rightarrow> (Inl (MTransport e, False), [msg1])
        | Inr (msg2, ins) \<Rightarrow>
          (case HandleMessage P (v_nonce env) msg2 hs of
             (Inl e, _) \<Rightarrow> (Inl (MProto e, True), [msg1])
           | (Inr (msg3, r), _) \<Rightarrow>
             if v_sendFails env 1 then (Inl (MTransport ErrWrite, False), [msg1])
             else (Inr (r, ins), [msg1, payload msg3])))"

definition exchange_responder ::
    "prims \<Rightarrow> hs_env \<Rightarrow> handshaker \<Rightarrow>
     (mgr_error \<times> bool + handshakeResult option \<times> (transport_error + bytes) list) \<times> bytes list" where
  "exchange_responder P env hs =
     (case recv_next (v_recv env) of Inl e \<Rightarrow> (Inl (MTransport e, False), [])
      | Inr (msg1, ins) \<Rightarrow>
        (case HandleMessage P (v_nonce env) msg1 hs of
           (Inl e, _) \<Rightarrow> (Inl (MProto e, False), [])
         | (Inr (msg2, _), hs1) \<Rightarrow>
           if v_sendFails env 0 then (Inl (MTransport ErrWrite, False), [])
           else case recv_next ins of Inl e \<Rightarrow> (Inl (MTransport e, False), [payload msg2])
           | Inr (msg3, ins1) \<Rightarrow>
             (case HandleMessage P (v_nonce env) msg3 hs1 of
                (Inl e, _) \<Rightarrow> (Inl (MProto e, True), [payload msg2])
              | (Inr (_, r), _) \<Rightarrow> (Inr (r, ins1), [payload msg2]))))"

fun confirm_loop ::
    "prims \<Rightarrow> bytes \<Rightarrow> bytes \<Rightarrow> (transport_error + bytes) list \<Rightarrow> session \<Rightarrow> (mgr_error + unit) \<times> session" where
  "confirm_loop P key th [] s = (Inl (MProto ErrPairConfirm), s)"
| "confirm_loop P key th (Inl e # r) s = (Inl (MTransport e), s)"
| "confirm_loop P key th (Inr buf # r) s =
     (case session_Open P buf s of
        (Inl _, s1) \<Rightarrow> (Inl (MProto ErrPairConfirm), s1)
      | (Inr (typ, pt), s1) \<Rightarrow>
        if typ \<noteq> TypePairConfirm then confirm_loop P key th r s1
        else if \<not> VerifyPairConfirm P key th pt then (Inl (MProto ErrPairConfirm), s1)
        else (Inr (), s1))"

text \<open>
  The pairing key is a slice that \<open>confirmPairing\<close> shares with the race that made the connection, which
  overwrites it in the end. It is read twice, when the own confirmation is computed and when the
  peer's is checked: \<open>kSeal\<close> and \<open>kVerify\<close> are what it holds then. \<open>confirmPairing\<close> is the case that nobody
  writes to it meanwhile.
\<close>

definition confirmPairing_shared ::
    "prims \<Rightarrow> entropy \<Rightarrow> bool \<Rightarrow> (transport_error + bytes) list \<Rightarrow> handshakeResult \<Rightarrow> bytes \<Rightarrow> bytes \<Rightarrow>
     (mgr_error + unit) \<times> session \<times> bytes list" where
  "confirmPairing_shared P rnd send_fails ins res kSeal kVerify =
     (case SealPairConfirm P rnd kSeal (r_Transcript res) (r_Session res) of
        (Inl e, s1) \<Rightarrow> (Inl (MProto e), s1, [])
      | (Inr out, s1) \<Rightarrow>
        if send_fails then (Inl (MTransport ErrWrite), s1, [])
        else case confirm_loop P kVerify (r_Transcript res) ins s1 of (r, s2) \<Rightarrow> (r, s2, [out]))"

definition confirmPairing ::
    "prims \<Rightarrow> entropy \<Rightarrow> bool \<Rightarrow> (transport_error + bytes) list \<Rightarrow> handshakeResult \<Rightarrow> bytes \<Rightarrow>
     (mgr_error + unit) \<times> session \<times> bytes list" where
  "confirmPairing P rnd send_fails ins res pairingKey =
     confirmPairing_shared P rnd send_fails ins res pairingKey pairingKey"

definition warn_changed :: "prims \<Rightarrow> handshakeResult \<Rightarrow> peer \<Rightarrow> TrustLevel \<Rightarrow> manager \<Rightarrow> manager" where
  "warn_changed P res peer trust m =
     (if trust = TrustChanged
      then emit \<lparr>e_Type = EventSecurityWarning, e_Peer = r_PeerName res,
                 e_Fingerprint = PendingFingerprint P peer,
                 e_Text = KeyChanged (r_PeerName res) (p_Fingerprint peer) (PendingFingerprint P peer),
                 e_Trust = trust, e_Path = ''''\<rparr> m
      else m)"

definition new_conn :: "hs_env \<Rightarrow> adoptOptions \<Rightarrow> handshakeResult \<Rightarrow> session \<Rightarrow> TrustLevel \<Rightarrow> conn" where
  "new_conn env opts res sess trust =
     \<lparr>c_fp = r_PeerFingerprint res, c_name = r_PeerName res, c_sess = sess, c_trust = trust,
      c_addr = v_addr env, c_send = [], c_done = False, c_drop = NotDropping, c_ioClosed = False,
      c_path = (if a_Path opts = '''' then PathDirect else a_Path opts),
      c_unanswered = 0, c_announced = False\<rparr>"

text \<open>
  The connection object is allocated and registered; when a better connection exists, this one is
  closed quietly.
\<close>

definition enroll :: "conn \<Rightarrow> manager \<Rightarrow> manager" where
  "enroll c m =
     (let i = m_next m; m1 = (set_conn i c m)\<lparr>m_next := i + 1\<rparr>
      in case register i m1 of
           (True, m2) \<Rightarrow> m2
         | (False, m2) \<Rightarrow> set_conn i (c\<lparr>c_sess := session_Close (c_sess c), c_ioClosed := True\<rparr>) m2)"

text \<open>
  From the authenticated result to the connection; \<open>next\<close> is what happens to it: the definitions are used
  with \<open>enroll\<close> and, for the runs of all goroutines, with the action that leaves it to a later \<open>register\<close>.
\<close>

definition admit_with ::
    "(conn \<Rightarrow> manager \<Rightarrow> manager) \<Rightarrow> prims \<Rightarrow> json_peers \<Rightarrow> hs_env \<Rightarrow> adoptOptions \<Rightarrow> handshakeResult \<Rightarrow> session \<Rightarrow>
     manager \<Rightarrow> (mgr_error + unit) \<times> manager" where
  "admit_with next P J env opts res sess m =
     (case Observe P J (v_io env) (v_order env) (v_saveOrder env) (v_now env) (r_PeerName res) (v_addr env)
             (r_PeerKey res) (m_store m) (m_files m) of
        ((peer, trust, saved), s1, fs1) \<Rightarrow>
          let m1 = m\<lparr>m_store := s1, m_files := fs1\<rparr>
          in case saved of Inl e \<Rightarrow> (Inl (MStore e), m1)
             | Inr _ \<Rightarrow>
               (Inr (), next (new_conn env opts res sess trust) (warn_changed P res peer trust m1)))"

definition admit ::
    "prims \<Rightarrow> json_peers \<Rightarrow> hs_env \<Rightarrow> adoptOptions \<Rightarrow> handshakeResult \<Rightarrow> session \<Rightarrow> manager \<Rightarrow>
     (mgr_error + unit) \<times> manager" where
  "admit = admit_with enroll"

definition runHandshake_with ::
    "(conn \<Rightarrow> manager \<Rightarrow> manager) \<Rightarrow> bytes \<Rightarrow> bytes \<Rightarrow> prims \<Rightarrow> json_peers \<Rightarrow> hs_env \<Rightarrow> adoptOptions \<Rightarrow> manager \<Rightarrow>
     (mgr_error + unit) \<times> bytes list \<times> manager" where
  "runHandshake_with next kSeal kVerify P J env opts m =
     (case NewHandshaker P (v_eph env) (m_id m) (a_Initiator opts) of Inl e \<Rightarrow> (Inl (MProto e), [], m)
      | Inr hs \<Rightarrow>
        (case (if a_Initiator opts then exchange_initiator P env hs else exchange_responder P env hs) of
           (Inl (e, reported), sent) \<Rightarrow>
             (Inl e, sent,
              if reported
              then emit \<lparr>e_Type = EventError, e_Peer = '''', e_Fingerprint = '''',
                         e_Text = (case e of MProto x \<Rightarrow> HandshakeFailed x | _ \<Rightarrow> NoText),
                         e_Trust = TrustUnknown, e_Path = ''''\<rparr> m
              else m)
         | (Inr (None, _), sent) \<Rightarrow> (Inl MNoSession, sent, m)
         | (Inr (Some res, ins), sent) \<Rightarrow>
           if length (a_PairingKey opts) > 0 then
             (case confirmPairing_shared P (v_confirm env) (v_sendFails env 2) ins res kSeal kVerify of
                (Inl e, s1, sent2) \<Rightarrow>
                  (Inl e, sent @ sent2,
                   emit \<lparr>e_Type = EventSecurityWarning, e_Peer = r_PeerName res,
                         e_Fingerprint = r_PeerFingerprint res, e_Text = PairingFailed,
                         e_Trust = TrustUnknown, e_Path = ''''\<rparr> m)
              | (Inr _, s1, sent2) \<Rightarrow>
                (case admit_with next P J env opts res s1 m of (r, m1) \<Rightarrow> (r, sent @ sent2, m1)))
           else (case admit_with next P J env opts res (r_Session res) m of (r, m1) \<Rightarrow> (r, sent, m1))))"

definition runHandshake ::
    "prims \<Rightarrow> json_peers \<Rightarrow> hs_env \<Rightarrow> adoptOptions \<Rightarrow> manager \<Rightarrow> (mgr_error + unit) \<times> bytes list \<times> manager" where
  "runHandshake P J env opts m = runHandshake_with enroll (a_PairingKey opts) (a_PairingKey opts) P J env opts m"

text \<open>
  How connections come to the handshake: \<open>Adopt\<close> blocks on it, \<open>HandleInbound\<close> asks the hook for the
  options of an accepted connection and \<open>mgr_Connect\<close> dials; the latter two run it in a goroutine whose
  result nobody reads, so only its effect on the manager is kept. The key among the options of the
  hook belongs to a race: \<open>kSeal\<close> and \<open>kVerify\<close> are what it holds when the goroutine reads it.
\<close>

definition Adopt :: "prims \<Rightarrow> json_peers \<Rightarrow> hs_env \<Rightarrow> adoptOptions \<Rightarrow> manager \<Rightarrow> (mgr_error + unit) \<times> manager" where
  "Adopt P J env opts m = (case runHandshake P J env opts m of (r, _, m1) \<Rightarrow> (r, m1))"

definition HandleInbound ::
    "prims \<Rightarrow> json_peers \<Rightarrow> hs_env \<Rightarrow> bytes \<Rightarrow> bytes \<Rightarrow> ('c \<Rightarrow> adoptOptions option) option \<Rightarrow> 'c \<Rightarrow> manager \<Rightarrow> manager" where
  "HandleInbound P J env kSeal kVerify hook nc m =
     (let opts = inboundOptions hook nc in snd (snd (runHandshake_with enroll kSeal kVerify P J env opts m)))"

definition mgr_Connect ::
    "prims \<Rightarrow> json_peers \<Rightarrow> hs_env \<Rightarrow> transport_error option \<Rightarrow> manager \<Rightarrow> (mgr_error + unit) \<times> manager" where
  "mgr_Connect P J env dial m =
     (case dial of Some e \<Rightarrow> (Inl (MTransport e), m)
      | None \<Rightarrow>
        (Inr (), snd (snd (runHandshake P J env \<lparr>a_Initiator = True, a_PairingKey = [], a_Path = PathDirect\<rparr> m))))"

text \<open>
  The accept loop: the connections that \<open>AcceptConn\<close> returns until it fails, each with its surroundings
  and the contents of the key.
\<close>

definition acceptLoop ::
    "prims \<Rightarrow> json_peers \<Rightarrow> ('c \<Rightarrow> adoptOptions option) option \<Rightarrow> (hs_env \<times> (bytes \<times> bytes) \<times> 'c) list \<Rightarrow> manager \<Rightarrow> manager" where
  "acceptLoop P J hook accepted m =
     fold (\<lambda>(env, (kSeal, kVerify), nc). HandleInbound P J env kSeal kVerify hook nc) accepted m"

section \<open>Runs\<close>

text \<open>
  \<open>register\<close> as one goroutine among others. When the connection to be replaced is being dropped by
  another goroutine, that one is inside the \<open>once\<close> of the connection and waits for \<open>m.mu\<close>, and
  \<open>old.close()\<close> waits for this \<open>once\<close> with \<open>m.mu\<close> held.
\<close>

definition register_waits :: "conn \<Rightarrow> manager \<Rightarrow> nat option" where
  "register_waits c m =
     (case m_conns m (c_fp c) of None \<Rightarrow> None
      | Some j \<Rightarrow>
        let old = conn_at m j
        in if c_announced old \<and> c_unanswered old = 0 then None
           else if \<not> preferNew old c then None
           else if c_drop old = DropUnregister then Some j else None)"

definition pend :: "conn \<Rightarrow> manager \<Rightarrow> manager" where
  "pend c m = m\<lparr>m_pending := m_pending m @ [c]\<rparr>"

definition register_step :: "nat \<Rightarrow> manager \<Rightarrow> manager" where
  "register_step k m =
     (if length (m_pending m) \<le> k \<or> m_mu m \<noteq> None then m
      else let c = m_pending m ! k
           in case register_waits c m of
                Some j \<Rightarrow> m\<lparr>m_mu := Some j\<rparr>
              | None \<Rightarrow> (enroll c m)\<lparr>m_pending := take k (m_pending m) @ drop (Suc k) (m_pending m)\<rparr>)"

text \<open>
  The actions of all goroutines. A handshake ends with a connection that is about to be registered.
  \<open>Send\<close> and \<open>Broadcast\<close> act on connections that they looked up before, by then perhaps replaced or
  torn down (\<open>OpSend\<close>); so do \<open>Disconnect\<close> and \<open>Shutdown\<close> (\<open>OpEnqueue\<close>, \<open>OpDrop\<close>). \<open>OpUnregister\<close> and
  \<open>OpDropEmit\<close> are the rest of a \<open>dropConn\<close> that has begun. \<open>OpTake\<close> is the chat layer reading one
  event. An action on a connection that was never allocated does not occur.
\<close>

datatype mgr_op =
    OpHandshake hs_env adoptOptions bytes bytes
  | OpRegister nat
  | OpAnnounceCheck nat
  | OpAnnounceEmit nat
  | OpRead entropy nat "transport_error + bytes"
  | OpTick entropy nat
  | OpWrite bool nat
  | OpSend entropy nat string
  | OpEnqueue entropy nat byte
  | OpDrop nat
  | OpUnregister nat
  | OpDropEmit nat
  | OpClosing
  | OpTake

definition on_conn :: "nat \<Rightarrow> (manager \<Rightarrow> manager) \<Rightarrow> manager \<Rightarrow> manager" where
  "on_conn i f m = (if m_heap m i = None then m else f m)"

definition with_mu :: "(manager \<Rightarrow> manager) \<Rightarrow> manager \<Rightarrow> manager" where
  "with_mu f m = (if m_mu m = None then f m else m)"

fun mgr_step :: "prims \<Rightarrow> json_peers \<Rightarrow> mgr_op \<Rightarrow> manager \<Rightarrow> manager" where
  "mgr_step P J (OpHandshake env opts kSeal kVerify) m = snd (snd (runHandshake_with pend kSeal kVerify P J env opts m))"
| "mgr_step P J (OpRegister k) m = register_step k m"
| "mgr_step P J (OpAnnounceCheck i) m = on_conn i (with_mu (\<lambda>m. snd (announce_check i m))) m"
| "mgr_step P J (OpAnnounceEmit i) m = on_conn i (announce_emit i) m"
| "mgr_step P J (OpRead rnd i r) m = on_conn i (\<lambda>m. snd (readLoop_step P rnd i r m)) m"
| "mgr_step P J (OpTick rnd i) m = on_conn i (\<lambda>m. snd (keepalive_step P rnd i m)) m"
| "mgr_step P J (OpWrite b i) m = on_conn i (\<lambda>m. snd (writeLoop_step b i m)) m"
| "mgr_step P J (OpSend rnd i msg) m = on_conn i (\<lambda>m. snd (send_chat P rnd i msg m)) m"
| "mgr_step P J (OpEnqueue rnd i t) m = on_conn i (\<lambda>m. snd (enqueue P rnd i t [] m)) m"
| "mgr_step P J (OpDrop i) m = on_conn i (drop_begin i) m"
| "mgr_step P J (OpUnregister i) m = on_conn i (with_mu (drop_unregister i)) m"
| "mgr_step P J (OpDropEmit i) m = on_conn i (drop_emit i) m"
| "mgr_step P J OpClosing m = m\<lparr>m_closing := True\<rparr>"
| "mgr_step P J OpTake m = m\<lparr>m_events := tl (m_events m)\<rparr>"

text \<open>The actions of \<open>Shutdown\<close> after it has taken its list.\<close>

definition Shutdown_actions :: "(nat \<Rightarrow> entropy) \<Rightarrow> nat list \<Rightarrow> mgr_op list" where
  "Shutdown_actions rnd is =
     map (\<lambda>i. OpEnqueue (rnd i) i TypeClose) is @ concat (map (\<lambda>i. [OpDrop i, OpUnregister i, OpDropEmit i]) is)"

end
