(* ===== verification/ManagerProps.thy ===== *)
theory ManagerProps
  imports Manager
begin

text \<open>
  The connection manager under all interleavings of its goroutines: its invariant, what an action
  without the mutex can change, the resolution of duplicate connections, what a torn-down connection
  and a waiting holder of the mutex are left with, and the detection of silent peers.
\<close>

section \<open>Invariant\<close>

definition conn_ok :: "conn \<Rightarrow> bool" where
  "conn_ok c \<longleftrightarrow> (c_done c \<longrightarrow> s_closed (c_sess c) \<and> c_ioClosed c) \<and> (c_drop c \<noteq> NotDropping \<longrightarrow> c_done c) \<and> length (c_send c) \<le> 64"

text \<open>A connection whose socket is open.\<close>

definition live :: "conn \<Rightarrow> bool" where
  "live c \<longleftrightarrow> \<not> c_done c \<and> \<not> c_ioClosed c"

text \<open>A connection that may be in the index: it is open, or the \<open>dropConn\<close> that closed it has not taken \<open>m.mu\<close> yet.\<close>

definition listed :: "conn \<Rightarrow> bool" where
  "listed c \<longleftrightarrow> live c \<or> c_drop c = DropUnregister"

definition manager_ok :: "manager \<Rightarrow> bool" where
  "manager_ok m \<longleftrightarrow>
     (\<forall>fp i. m_conns m fp = Some i \<longrightarrow> (\<exists>c. m_heap m i = Some c \<and> c_fp c = fp \<and> listed c)) \<and>
     (\<forall>n i. m_byName m n = Some i \<longrightarrow> (\<exists>c. m_heap m i = Some c \<and> c_name c = n)) \<and>
     (\<forall>i c. m_heap m i = Some c \<longrightarrow> i < m_next m \<and> conn_ok c \<and> (live c \<longrightarrow> m_conns m (c_fp c) = Some i)) \<and>
     list_all (\<lambda>c. conn_ok c \<and> live c) (m_pending m) \<and>
     length (m_events m) \<le> 256"

lemma manager_ok_new: "manager_ok (NewManager i s fs)"
  by (simp add: manager_ok_def NewManager_def)

lemma manager_ok_conns: "manager_ok m \<Longrightarrow> m_conns m fp = Some i \<Longrightarrow> \<exists>c. m_heap m i = Some c \<and> c_fp c = fp \<and> listed c"
  and manager_ok_byName: "manager_ok m \<Longrightarrow> m_byName m n = Some i \<Longrightarrow> \<exists>c. m_heap m i = Some c \<and> c_name c = n"
  and manager_ok_heap: "manager_ok m \<Longrightarrow> m_heap m i = Some c \<Longrightarrow> i < m_next m \<and> conn_ok c \<and> (live c \<longrightarrow> m_conns m (c_fp c) = Some i)"
  and manager_ok_rest: "manager_ok m \<Longrightarrow> list_all (\<lambda>c. conn_ok c \<and> live c) (m_pending m)" "manager_ok m \<Longrightarrow> length (m_events m) \<le> 256"
  by (simp_all add: manager_ok_def)

lemma manager_okI:
  assumes "\<And>fp i. m_conns m fp = Some i \<Longrightarrow> \<exists>c. m_heap m i = Some c \<and> c_fp c = fp \<and> listed c"
    and "\<And>n i. m_byName m n = Some i \<Longrightarrow> \<exists>c. m_heap m i = Some c \<and> c_name c = n"
    and "\<And>i c. m_heap m i = Some c \<Longrightarrow> i < m_next m \<and> conn_ok c \<and> (live c \<longrightarrow> m_conns m (c_fp c) = Some i)"
    and "list_all (\<lambda>c. conn_ok c \<and> live c) (m_pending m)" "length (m_events m) \<le> 256"
  shows "manager_ok m"
  using assms unfolding manager_ok_def by blast

lemma conn_at_Some [simp]: "m_heap m i = Some c \<Longrightarrow> conn_at m i = c"
  by (simp add: conn_at_def)

lemma set_conn_simps [simp]:
  "m_heap (set_conn i c m) = (m_heap m)(i \<mapsto> c)" "m_conns (set_conn i c m) = m_conns m"
  "m_byName (set_conn i c m) = m_byName m" "m_events (set_conn i c m) = m_events m"
  "m_next (set_conn i c m) = m_next m" "m_store (set_conn i c m) = m_store m" "m_files (set_conn i c m) = m_files m"
  "m_id (set_conn i c m) = m_id m" "m_pending (set_conn i c m) = m_pending m" "m_mu (set_conn i c m) = m_mu m"
  "conn_at (set_conn i c m) i = c"
  by (simp_all add: set_conn_def conn_at_def)

lemma emit_simps [simp]:
  "m_heap (emit e m) = m_heap m" "m_conns (emit e m) = m_conns m" "m_byName (emit e m) = m_byName m"
  "m_next (emit e m) = m_next m" "m_store (emit e m) = m_store m" "m_files (emit e m) = m_files m"
  "m_id (emit e m) = m_id m" "m_pending (emit e m) = m_pending m" "m_mu (emit e m) = m_mu m"
  "conn_at (emit e m) i = conn_at m i"
  by (simp_all add: emit_def conn_at_def)

lemma manager_ok_emit: "manager_ok m \<Longrightarrow> manager_ok (emit e m)"
  by (auto simp: manager_ok_def emit_def)

lemma conn_close_simps [simp]:
  "c_fp (conn_close c) = c_fp c" "c_name (conn_close c) = c_name c" "\<not> live (conn_close c)"
  "c_announced (conn_close c) = c_announced c" "c_trust (conn_close c) = c_trust c" "c_path (conn_close c) = c_path c"
  "c_drop (conn_close c) = c_drop c" "c_send (conn_close c) = c_send c" "c_done (conn_close c)"
  by (simp_all add: conn_close_def live_def)

lemma conn_ok_close: "conn_ok c \<Longrightarrow> conn_ok (conn_close c)"
  by (simp add: conn_ok_def conn_close_def session_Close_def Let_def)

lemma unregister_simps [simp]:
  "m_heap (unregister i m) = m_heap m" "m_events (unregister i m) = m_events m" "m_next (unregister i m) = m_next m"
  "m_store (unregister i m) = m_store m" "m_files (unregister i m) = m_files m" "m_pending (unregister i m) = m_pending m"
  "m_mu (unregister i m) = m_mu m"
  by (simp_all add: unregister_def Let_def)

section \<open>Actions without the mutex\<close>

text \<open>
  What the loops of a connection and the senders do to it without \<open>m.mu\<close>: the identity of the
  connection stays, it may be closed, and a drop that waits for \<open>m.mu\<close> goes on waiting. With
  \<open>same\<close>, the count of unanswered pings stays too, as long as the connection is not torn down.
\<close>

definition evolves :: "bool \<Rightarrow> conn \<Rightarrow> conn \<Rightarrow> bool" where
  "evolves same c c' \<longleftrightarrow>
     c_fp c' = c_fp c \<and> c_name c' = c_name c \<and> (conn_ok c \<longrightarrow> conn_ok c') \<and> (listed c \<longrightarrow> listed c') \<and> (live c' \<longrightarrow> live c) \<and>
     (c_done c \<longrightarrow> c_done c') \<and> (c_drop c = DropUnregister \<longrightarrow> c_drop c' = DropUnregister) \<and>
     (c_done c \<longrightarrow> c_drop c \<noteq> DropUnregister \<longrightarrow> c_drop c' \<noteq> DropUnregister) \<and>
     (same \<longrightarrow> \<not> c_done c' \<longrightarrow> c_unanswered c' = c_unanswered c)"

definition local_to :: "bool \<Rightarrow> nat \<Rightarrow> manager \<Rightarrow> manager \<Rightarrow> bool" where
  "local_to same k m m' \<longleftrightarrow>
     (\<exists>c c'. m_heap m k = Some c \<and> m_heap m' = (m_heap m)(k \<mapsto> c') \<and> evolves same c c') \<and>
     m_conns m' = m_conns m \<and> m_byName m' = m_byName m \<and> m_next m' = m_next m \<and> m_pending m' = m_pending m \<and>
     m_mu m' = m_mu m \<and> (length (m_events m) \<le> 256 \<longrightarrow> length (m_events m') \<le> 256)"

lemma evolves_refl: "evolves b c c"
  by (simp add: evolves_def)

lemma local_refl: "m_heap m k = Some c \<Longrightarrow> local_to b k m m"
  by (auto simp: local_to_def evolves_refl intro!: exI [of _ c])

lemma evolves_trans: "evolves b c d \<Longrightarrow> evolves b d e \<Longrightarrow> evolves b c e"
  unfolding evolves_def by (intro conjI) auto

lemma local_trans:
  assumes "local_to b k m m1" and "local_to b k m1 m2"
  shows "local_to b k m m2"
proof -
  obtain c d where 1: "m_heap m k = Some c" "m_heap m1 = (m_heap m)(k \<mapsto> d)" "evolves b c d"
    using assms(1) by (auto simp: local_to_def)
  obtain e where 2: "m_heap m2 = (m_heap m1)(k \<mapsto> e)" "evolves b d e"
    using assms(2) 1(2) by (auto simp: local_to_def)
  have "m_heap m2 = (m_heap m)(k \<mapsto> e)" using 1(2) 2(1) by simp
  with 1(1) evolves_trans [OF 1(3) 2(2)]
  have "\<exists>c c'. m_heap m k = Some c \<and> m_heap m2 = (m_heap m)(k \<mapsto> c') \<and> evolves b c c'" by blast
  with assms show ?thesis unfolding local_to_def by simp
qed

lemma local_weak: "local_to True k m m' \<Longrightarrow> local_to b k m m'"
  by (auto simp: local_to_def evolves_def)

lemma local_emit: "m_heap m k = Some c \<Longrightarrow> local_to b k m (emit e m)"
  by (auto simp: local_to_def evolves_refl emit_def intro!: exI [of _ c])

lemma local_set: "m_heap m k = Some c \<Longrightarrow> evolves b c c' \<Longrightarrow> local_to b k m (set_conn k c' m)"
  by (auto simp: local_to_def)

lemma local_heap: "local_to b k m m' \<Longrightarrow> \<exists>c. m_heap m' k = Some c"
  by (auto simp: local_to_def)

lemma local_then:
  assumes "local_to b k m m1" and "\<And>c. m_heap m1 k = Some c \<Longrightarrow> local_to b k m1 m2"
  shows "local_to b k m m2"
  using local_trans [OF assms(1)] assms(2) local_heap [OF assms(1)] by blast

lemma Seal_stays_closed: "s_closed s \<Longrightarrow> s_closed (snd (session_Seal P rnd t pt s))"
  and SealChat_stays_closed: "s_closed s \<Longrightarrow> s_closed (snd (SealChat P rnd text s))"
  and Open_stays_closed: "s_closed s \<Longrightarrow> s_closed (snd (session_Open P buf s))"
  by (simp_all add: Seal_closed Open_closed SealChat_def)

lemma local_sess:
  assumes "m_heap m k = Some c" and "s_closed (c_sess c) \<longrightarrow> s_closed s1"
  shows "local_to b k m (set_conn k (c\<lparr>c_sess := s1\<rparr>) m)"
  using assms by (intro local_set) (auto simp: evolves_def conn_ok_def live_def listed_def)

lemma local_push: "m_heap m k = Some c \<Longrightarrow> local_to b k m (snd (push_frame k buf m))"
  by (auto simp: push_frame_def Let_def local_refl evolves_def conn_ok_def live_def listed_def intro!: local_set)

lemma local_sealed:
  assumes k: "m_heap m k = Some c" and closed: "s_closed (c_sess c) \<longrightarrow> s_closed (snd rs)"
  shows "local_to b k m (snd (case rs of
      (Inl e, s1) \<Rightarrow> (Inl (MProto e), set_conn k (c\<lparr>c_sess := s1\<rparr>) m)
    | (Inr buf, s1) \<Rightarrow> push_frame k buf (set_conn k (c\<lparr>c_sess := s1\<rparr>) m)))"
proof -
  obtain r s1 where rs: "rs = (r, s1)" by (cases rs)
  have g: "local_to b k m (set_conn k (c\<lparr>c_sess := s1\<rparr>) m)" using local_sess [OF k] closed rs by simp
  show ?thesis
  proof (cases r)
    case (Inr buf)
    then show ?thesis using local_then [OF g local_push] rs by simp
  qed (use g rs in simp)
qed

lemma local_enqueue:
  assumes "m_heap m k = Some c"
  shows "local_to b k m (snd (enqueue P rnd k t pt m))"
  unfolding enqueue_def Let_def conn_at_Some [OF assms]
  by (rule local_sealed [OF assms]) (simp add: Seal_stays_closed)

lemma local_send_chat:
  assumes "m_heap m k = Some c"
  shows "local_to b k m (snd (send_chat P rnd k text m))"
  unfolding send_chat_def Let_def conn_at_Some [OF assms]
  by (rule local_sealed [OF assms]) (simp add: SealChat_stays_closed)

lemma local_drop_begin: "m_heap m k = Some c \<Longrightarrow> local_to b k m (drop_begin k m)"
  by (auto simp: drop_begin_def Let_def local_refl evolves_def conn_ok_def conn_close_def live_def listed_def session_Close_def
      intro!: local_set)

lemma local_drop_emit:
  assumes "m_heap m k = Some c"
  shows "local_to b k m (drop_emit k m)"
proof (cases "c_drop c = DropEmit \<and> conn_ok c")
  case True
  then have "evolves b c (c\<lparr>c_drop := NotDropping\<rparr>)" by (auto simp: evolves_def conn_ok_def live_def listed_def)
  from local_then [OF local_set [OF assms this] local_emit] local_set [OF assms this] show ?thesis
    using assms by (simp add: drop_emit_def Let_def local_refl)
next
  case False
  then have "evolves b c (c\<lparr>c_drop := NotDropping\<rparr>)" if "c_drop c = DropEmit"
    using that by (auto simp: evolves_def live_def listed_def)
  from local_then [OF local_set [OF assms this] local_emit] local_set [OF assms this] show ?thesis
    using assms by (simp add: drop_emit_def Let_def local_refl)
qed

lemma local_announce_check: "m_heap m k = Some c \<Longrightarrow> local_to b k m (snd (announce_check k m))"
  by (auto simp: announce_check_def Let_def local_refl evolves_def conn_ok_def live_def listed_def intro!: local_set)

lemma local_read:
  assumes i: "m_heap m i = Some c"
  shows "local_to False i m (snd (readLoop_step P rnd i recv m))"
proof (cases recv)
  case (Inl e)
  then show ?thesis using local_drop_begin [OF i] by (simp add: readLoop_step_def)
next
  case (Inr buf)
  obtain r s1 where o: "session_Open P buf (c_sess c) = (r, s1)" by fastforce
  let ?m1 = "set_conn i (c\<lparr>c_sess := s1\<rparr>) m"
  have g: "local_to False i m ?m1"
    using local_sess [OF i] Open_stays_closed [of "c_sess c" P buf] o by simp
  have d: "local_to False i m (drop_begin i ?m1)" by (rule local_then [OF g local_drop_begin])
  have q: "local_to False i m (snd (enqueue P rnd i t [] ?m1))" for t by (rule local_then [OF g local_enqueue])
  have e: "local_to False i m (emit ev ?m1)" for ev by (rule local_then [OF g local_emit])
  have u: "local_to False i m (set_conn i (c\<lparr>c_sess := s1, c_unanswered := 0\<rparr>) ?m1)"
    by (rule local_then [OF g local_set]) (auto simp: evolves_def conn_ok_def live_def listed_def)
  show ?thesis
    unfolding readLoop_step_def Inr sum.case Let_def conn_at_Some [OF i] o
    using g d q e u by (simp split: sum.split prod.split)
qed

lemma local_keepalive:
  assumes i: "m_heap m i = Some c"
  shows "local_to False i m (snd (keepalive_step P rnd i m))"
proof -
  let ?m1 = "set_conn i (c\<lparr>c_unanswered := c_unanswered c + 1\<rparr>) m"
  have g: "local_to False i m ?m1" by (rule local_set [OF i]) (auto simp: evolves_def conn_ok_def live_def listed_def)
  obtain r m2 where q: "enqueue P rnd i TypePing [] ?m1 = (r, m2)" by fastforce
  have m2: "local_to False i m m2" using local_then [OF g local_enqueue [of _ _ _ False P rnd TypePing "[]"]] q by simp
  have "local_to False i m (drop_begin i ?m1)" by (rule local_then [OF g local_drop_begin])
  moreover have "local_to False i m (drop_begin i m2)" by (rule local_then [OF m2 local_drop_begin])
  ultimately show ?thesis
    using q i m2 by (auto simp: keepalive_step_def Let_def local_refl split: sum.split)
qed

lemma local_write:
  assumes i: "m_heap m i = Some c"
  shows "local_to b i m (snd (writeLoop_step ok i m))"
proof (cases "c_send c")
  case Nil
  then show ?thesis using i by (simp add: writeLoop_step_def local_refl)
next
  case (Cons buf rest)
  let ?m1 = "set_conn i (c\<lparr>c_send := rest\<rparr>) m"
  have g: "local_to b i m ?m1"
    using Cons by (intro local_set [OF i]) (auto simp: evolves_def conn_ok_def live_def listed_def)
  moreover have "local_to b i m (drop_begin i ?m1)" by (rule local_then [OF g local_drop_begin])
  ultimately show ?thesis using Cons i by (simp add: writeLoop_step_def local_refl Let_def)
qed

lemma local_ok:
  assumes ok: "manager_ok m" and l: "local_to b k m m'"
  shows "manager_ok m'"
proof -
  obtain c c' where c: "m_heap m k = Some c" "m_heap m' = (m_heap m)(k \<mapsto> c')" "evolves b c c'"
    using l by (auto simp: local_to_def)
  have eq: "m_conns m' = m_conns m" "m_byName m' = m_byName m" "m_next m' = m_next m" "m_pending m' = m_pending m"
    "length (m_events m) \<le> 256 \<longrightarrow> length (m_events m') \<le> 256"
    using l by (auto simp: local_to_def)
  have own: "c_fp c' = c_fp c" "c_name c' = c_name c" "conn_ok c'" "listed c \<longrightarrow> listed c'" "live c' \<longrightarrow> live c"
    using c(3) manager_ok_heap [OF ok c(1)] by (simp_all add: evolves_def)
  show ?thesis
  proof (rule manager_okI)
    fix fp i assume "m_conns m' fp = Some i"
    then show "\<exists>d. m_heap m' i = Some d \<and> c_fp d = fp \<and> listed d"
      using manager_ok_conns [OF ok, of fp i] c own eq by auto
  next
    fix n i assume "m_byName m' n = Some i"
    then show "\<exists>d. m_heap m' i = Some d \<and> c_name d = n"
      using manager_ok_byName [OF ok, of n i] c own eq by auto
  next
    fix i d assume "m_heap m' i = Some d"
    then show "i < m_next m' \<and> conn_ok d \<and> (live d \<longrightarrow> m_conns m' (c_fp d) = Some i)"
      using manager_ok_heap [OF ok, of i] c own eq by (auto split: if_splits)
  qed (use manager_ok_rest [OF ok] eq in simp_all)
qed

section \<open>Actions with the mutex\<close>

lemma manager_ok_unregister:
  assumes ok: "manager_ok m" and i: "m_heap m i = Some c"
  shows "manager_ok (drop_unregister i m)"
proof (cases "c_drop c = DropUnregister")
  case True
  let ?m = "drop_unregister i m" and ?c = "c\<lparr>c_drop := DropEmit\<rparr>"
  have torn: "c_done c" using manager_ok_heap [OF ok i] True by (simp add: conn_ok_def)
  have heap: "m_heap ?m = (m_heap m)(i \<mapsto> ?c)" using True i by (simp add: drop_unregister_def)
  have conns: "m_conns ?m = (if m_conns m (c_fp c) = Some i then (m_conns m)(c_fp c := None) else m_conns m)"
    using True i by (simp add: drop_unregister_def unregister_def conn_at_def Let_def)
  have byName: "m_byName ?m n = Some k \<Longrightarrow> m_byName m n = Some k" for n k
    using True i by (simp add: drop_unregister_def unregister_def conn_at_def Let_def split: if_splits)
  have eq: "m_next ?m = m_next m" "m_pending ?m = m_pending m" "m_events ?m = m_events m"
    using True i by (simp_all add: drop_unregister_def)
  show ?thesis
  proof (rule manager_okI)
    fix fp k assume k: "m_conns ?m fp = Some k"
    then have "m_conns m fp = Some k" "k \<noteq> i" using conns manager_ok_conns [OF ok, of fp k] i by (auto split: if_splits)
    then show "\<exists>d. m_heap ?m k = Some d \<and> c_fp d = fp \<and> listed d" using manager_ok_conns [OF ok] heap by auto
  next
    fix n k assume "m_byName ?m n = Some k"
    then obtain d where "m_heap m k = Some d" "c_name d = n" using manager_ok_byName [OF ok byName] by blast
    then show "\<exists>d. m_heap ?m k = Some d \<and> c_name d = n" using i heap by (cases "k = i") auto
  next
    fix k d assume d: "m_heap ?m k = Some d"
    show "k < m_next ?m \<and> conn_ok d \<and> (live d \<longrightarrow> m_conns ?m (c_fp d) = Some k)"
    proof (cases "k = i")
      case True
      then show ?thesis
        using d heap eq manager_ok_heap [OF ok i] torn by (auto simp: conn_ok_def live_def)
    next
      case False
      then have "m_heap m k = Some d" using d heap by simp
      from manager_ok_heap [OF ok this] show ?thesis using conns eq False by auto
    qed
  qed (use manager_ok_rest [OF ok] eq in simp_all)
qed (use assms in \<open>simp add: drop_unregister_def\<close>)

lemma manager_ok_alloc:
  assumes ok: "manager_ok m" and c: "conn_ok c" "\<not> live c"
  shows "manager_ok ((set_conn (m_next m) c m)\<lparr>m_next := m_next m + 1\<rparr>)"
proof -
  have absent: "m_heap m (m_next m) = None"
    using manager_ok_heap [OF ok, of "m_next m"] by (cases "m_heap m (m_next m)") auto
  let ?m = "(set_conn (m_next m) c m)\<lparr>m_next := m_next m + 1\<rparr>"
  have "\<exists>d. m_heap ?m k = Some d \<and> c_fp d = fp \<and> listed d" if "m_conns m fp = Some k" for fp k
    using manager_ok_conns [OF ok that] absent by auto
  moreover have "\<exists>d. m_heap ?m k = Some d \<and> c_name d = n" if "m_byName m n = Some k" for n k
    using manager_ok_byName [OF ok that] absent by auto
  moreover have "k < m_next m + 1 \<and> conn_ok d \<and> (live d \<longrightarrow> m_conns m (c_fp d) = Some k)"
    if "m_heap ?m k = Some d" for k d
    using that manager_ok_heap [OF ok, of k] c by (auto split: if_splits)
  ultimately show ?thesis using ok by (simp add: manager_ok_def)
qed

text \<open>Entering a new live connection; the connection it replaces is closed.\<close>

definition close_current :: "string \<Rightarrow> manager \<Rightarrow> manager" where
  "close_current fp m =
     (case m_conns m fp of None \<Rightarrow> m | Some j \<Rightarrow> set_conn j (conn_close (conn_at m j)) m)"

lemma manager_ok_enter:
  assumes ok: "manager_ok m" and c: "conn_ok c" "live c"
    and m': "m_heap m' = (m_heap (close_current (c_fp c) m))(m_next m \<mapsto> c)" "m_next m' = m_next m + 1"
      "m_conns m' = (m_conns m)(c_fp c \<mapsto> m_next m)" "m_byName m' = (m_byName m)(c_name c \<mapsto> m_next m)"
      "m_events m' = m_events m" "m_pending m' = m_pending m"
  shows "manager_ok m'"
proof -
  let ?i = "m_next m"
  have low: "k < ?i" if "m_heap m k = Some d" for k d using manager_ok_heap [OF ok that] by simp
  have heap: "m_heap m' k = (if k = ?i then Some c
      else if m_conns m (c_fp c) = Some k then map_option conn_close (m_heap m k) else m_heap m k)" for k
  proof (cases "m_conns m (c_fp c)")
    case (Some j)
    then obtain d where "m_heap m j = Some d" using manager_ok_conns [OF ok] by blast
    with Some m'(1) show ?thesis by (auto simp: close_current_def)
  qed (simp add: m'(1) close_current_def)
  have "\<exists>d. m_heap m' k = Some d \<and> c_fp d = fp \<and> listed d" if "m_conns m' fp = Some k" for fp k
  proof (cases "fp = c_fp c")
    case True
    then show ?thesis using that m'(3) heap c by (auto simp: listed_def)
  next
    case False
    then have k: "m_conns m fp = Some k" using that m'(3) by simp
    then obtain d where d: "m_heap m k = Some d" "c_fp d = fp" "listed d" using manager_ok_conns [OF ok] by blast
    have "m_conns m (c_fp c) \<noteq> Some k" using manager_ok_conns [OF ok, of "c_fp c" k] d(1,2) False by auto
    then show ?thesis using d low [OF d(1)] heap by auto
  qed
  moreover have "\<exists>d. m_heap m' k = Some d \<and> c_name d = n" if "m_byName m' n = Some k" for n k
  proof (cases "n = c_name c")
    case True
    then show ?thesis using that m'(4) heap by auto
  next
    case False
    then have "m_byName m n = Some k" using that m'(4) by simp
    then show ?thesis using manager_ok_byName [OF ok] low heap by fastforce
  qed
  moreover have "k < m_next m' \<and> conn_ok d \<and> (live d \<longrightarrow> m_conns m' (c_fp d) = Some k)"
    if d: "m_heap m' k = Some d" for k d
  proof (cases "k = ?i")
    case True
    then show ?thesis using d heap c m'(2,3) by simp
  next
    case False
    then obtain d0 where d0: "m_heap m k = Some d0"
      "d = (if m_conns m (c_fp c) = Some k then conn_close d0 else d0)"
      using d heap by (auto split: if_splits)
    have inv: "k < ?i" "conn_ok d0" "live d0 \<longrightarrow> m_conns m (c_fp d0) = Some k"
      using manager_ok_heap [OF ok d0(1)] by simp_all
    then show ?thesis using d0(2) m'(2,3) conn_ok_close by (auto split: if_splits)
  qed
  moreover have "length (m_events m') \<le> 256" "list_all (\<lambda>c. conn_ok c \<and> live c) (m_pending m')"
    using manager_ok_rest [OF ok] m'(5,6) by simp_all
  ultimately show ?thesis unfolding manager_ok_def by blast
qed

lemma register_new:
  assumes ok: "manager_ok m" and m1: "m1 = (set_conn (m_next m) c m)\<lparr>m_next := m_next m + 1\<rparr>"
  obtains (kept) m2 where "register (m_next m) m1 = (True, m2)"
    "m_heap m2 = (m_heap (close_current (c_fp c) m))(m_next m \<mapsto> c)" "m_next m2 = m_next m + 1"
    "m_conns m2 = (m_conns m)(c_fp c \<mapsto> m_next m)" "m_byName m2 = (m_byName m)(c_name c \<mapsto> m_next m)"
    "m_events m2 = m_events m" "m_store m2 = m_store m" "m_pending m2 = m_pending m" "m_mu m2 = m_mu m"
    "\<And>j. m_conns m (c_fp c) = Some j \<Longrightarrow> \<not> (c_announced (conn_at m j) \<and> c_unanswered (conn_at m j) = 0) \<and> preferNew (conn_at m j) c"
  | (refused) j where "register (m_next m) m1 = (False, m1)" "m_conns m (c_fp c) = Some j"
    "(c_announced (conn_at m j) \<and> c_unanswered (conn_at m j) = 0) \<or> \<not> preferNew (conn_at m j) c"
proof (cases "m_conns m (c_fp c)")
  case None
  then have "register (m_next m) m1 =
      (True, m1\<lparr>m_conns := (m_conns m)(c_fp c \<mapsto> m_next m), m_byName := (m_byName m)(c_name c \<mapsto> m_next m)\<rparr>)"
    using m1 by (simp add: register_def conn_at_def)
  then show ?thesis
    using None m1 by (elim kept) (simp_all add: close_current_def)
next
  case (Some j)
  then obtain d where d: "m_heap m j = Some d" using manager_ok_conns [OF ok] by blast
  have j: "j \<noteq> m_next m" using manager_ok_heap [OF ok d] by simp
  have at: "conn_at m1 (m_next m) = c" "conn_at m1 j = d" "m_conns m1 = m_conns m" "conn_at m j = d"
    using m1 j d by (simp_all add: conn_at_def)
  show ?thesis
  proof (cases "(c_announced d \<and> c_unanswered d = 0) \<or> \<not> preferNew d c")
    case True
    then show ?thesis using Some at by (intro refused) (auto simp: register_def)
  next
    case False
    then have "register (m_next m) m1 =
        (True, (set_conn j (conn_close d) m1)\<lparr>m_conns := (m_conns m)(c_fp c \<mapsto> m_next m),
           m_byName := (m_byName m)(c_name c \<mapsto> m_next m)\<rparr>)"
      using Some at m1 by (auto simp: register_def)
    then show ?thesis
      using False Some at(4) m1 j by (elim kept) (auto simp: close_current_def fun_upd_twist)
  qed
qed

section \<open>The invariant over all runs\<close>

lemma set_conn_next: "set_conn i c' ((set_conn i c m)\<lparr>m_next := n\<rparr>) = (set_conn i c' m)\<lparr>m_next := n\<rparr>"
  by (cases m) (simp add: set_conn_def)

lemma enroll_ok:
  assumes ok: "manager_ok m" and c: "conn_ok c" "live c"
  shows "manager_ok (enroll c m)"
proof -
  let ?c' = "c\<lparr>c_sess := session_Close (c_sess c), c_ioClosed := True\<rparr>"
  have c': "conn_ok ?c'" "\<not> live ?c'" using c by (simp_all add: conn_ok_def live_def)
  show ?thesis
    by (rule register_new [OF ok refl, of c])
      (use manager_ok_enter [OF ok c] manager_ok_alloc [OF ok c'] in \<open>simp_all add: enroll_def set_conn_next Let_def\<close>)
qed

text \<open>How a handshake ends: with a fresh connection for what comes next, or with nothing but events and stored peers.\<close>

definition aside :: "manager \<Rightarrow> manager \<Rightarrow> bool" where
  "aside m m' \<longleftrightarrow>
     m_conns m' = m_conns m \<and> m_byName m' = m_byName m \<and> m_heap m' = m_heap m \<and> m_next m' = m_next m \<and>
     m_pending m' = m_pending m \<and> m_mu m' = m_mu m \<and> m_id m' = m_id m \<and>
     (length (m_events m) \<le> 256 \<longrightarrow> length (m_events m') \<le> 256)"

lemma aside_refl: "aside m m"
  by (simp add: aside_def)

lemma aside_emit: "aside m m1 \<Longrightarrow> aside m (emit e m1)"
  by (auto simp: aside_def emit_def)

lemma aside_ok: "manager_ok m \<Longrightarrow> aside m m' \<Longrightarrow> manager_ok m'"
  by (auto simp: manager_ok_def aside_def)

text \<open>A connection that has just been established.\<close>

definition fresh_conn :: "string \<Rightarrow> conn \<Rightarrow> bool" where
  "fresh_conn fp c \<longleftrightarrow> c_fp c = fp \<and> conn_ok c \<and> live c \<and> c_unanswered c = 0 \<and> \<not> c_announced c"

lemma new_conn_fresh: "fresh_conn (r_PeerFingerprint res) (new_conn env opts res s trust)"
  by (simp add: fresh_conn_def new_conn_def conn_ok_def live_def Let_def)

lemma admit_cases:
  obtains (stored) e m0 where "aside m m0" "\<And>f. admit_with f P J env opts res s m = (Inl e, m0)"
  | (new) trust m0 where "aside m m0" "\<And>f. admit_with f P J env opts res s m = (Inr (), f (new_conn env opts res s trust) m0)"
proof -
  obtain peer trust saved s1 fs1 where o: "Observe P J (v_io env) (v_order env) (v_saveOrder env) (v_now env) (r_PeerName res)
      (v_addr env) (r_PeerKey res) (m_store m) (m_files m) = ((peer, trust, saved), s1, fs1)"
    by (metis prod_cases3)
  let ?m1 = "m\<lparr>m_store := s1, m_files := fs1\<rparr>"
  have a: "aside m ?m1" by (simp add: aside_def)
  then have w: "aside m (warn_changed P res peer trust ?m1)" by (simp add: warn_changed_def aside_emit)
  show thesis
  proof (cases saved)
    case (Inl e)
    then show thesis using o a by (intro stored [of ?m1]) (simp_all add: admit_with_def)
  next
    case (Inr u)
    then show thesis using o w by (intro new [of "warn_changed P res peer trust ?m1"]) (simp_all add: admit_with_def Let_def)
  qed
qed

lemma handshake_cases:
  obtains (failed) e sent m0 where "aside m m0" "\<And>f. runHandshake_with f kS kV P J env opts m = (Inl e, sent, m0)"
  | (reached) c sent m0 where "aside m m0" "fresh_conn (c_fp c) c" "\<And>f. runHandshake_with f kS kV P J env opts m = (Inr (), sent, f c m0)"
proof -
  let ?thesis' = "(\<exists>e sent m0. aside m m0 \<and> (\<forall>f. runHandshake_with f kS kV P J env opts m = (Inl e, sent, m0))) \<or>
    (\<exists>c sent m0. aside m m0 \<and> fresh_conn (c_fp c) c \<and> (\<forall>f. runHandshake_with f kS kV P J env opts m = (Inr (), sent, f c m0)))"
  have stop: ?thesis' if "\<And>f. runHandshake_with f kS kV P J env opts m = (Inl e, sent, m0)" "aside m m0" for e sent m0
    using that by blast
  have go: ?thesis' if "\<And>f. runHandshake_with f kS kV P J env opts m = (case admit_with f P J env opts res s m of (r, m1) \<Rightarrow> (r, sent, m1))"
    for res s sent
  proof (cases rule: admit_cases [of m P J env opts res s])
    case (stored e m0)
    then show ?thesis' using that by (intro stop, simp, simp)
  next
    case (new trust m0)
    then have "\<And>f. runHandshake_with f kS kV P J env opts m = (Inr (), sent, f (new_conn env opts res s trust) m0)" using that by simp
    moreover have "fresh_conn (c_fp (new_conn env opts res s trust)) (new_conn env opts res s trust)"
      using new_conn_fresh [of res env opts s trust] by (simp add: fresh_conn_def)
    ultimately show ?thesis' using new(1) by blast
  qed
  have ?thesis'
  proof (cases "NewHandshaker P (v_eph env) (m_id m) (a_Initiator opts)")
    case (Inl e)
    then show ?thesis' by (intro stop, simp add: runHandshake_with_def, simp add: aside_refl)
  next
    case hs: (Inr hs)
    let ?x = "if a_Initiator opts then exchange_initiator P env hs else exchange_responder P env hs"
    obtain x sent where x: "?x = (x, sent)" by fastforce
    show ?thesis'
    proof (cases x)
      case (Inl e)
      obtain err rep where e: "e = (err, rep)" by (cases e)
      show ?thesis' using hs x Inl e by (intro stop, simp add: runHandshake_with_def, simp add: aside_refl aside_emit)
    next
      case xr: (Inr y)
      obtain ro ins where y: "y = (ro, ins)" by (cases y)
      show ?thesis'
      proof (cases ro)
        case None
        then show ?thesis' using hs x xr y by (intro stop, simp add: runHandshake_with_def, simp add: aside_refl)
      next
        case (Some res)
        note eq = hs x xr y Some
        obtain q s1 sent2 where c: "confirmPairing_shared P (v_confirm env) (v_sendFails env 2) ins res kS kV = (q, s1, sent2)"
          by (metis surj_pair)
        show ?thesis'
        proof (cases "length (a_PairingKey opts) > 0")
          case True
          show ?thesis'
          proof (cases q)
            case (Inl e)
            then show ?thesis' using True eq c by (intro stop, simp add: runHandshake_with_def, simp add: aside_refl aside_emit)
          next
            case (Inr u)
            then show ?thesis' using True eq c by (intro go) (simp add: runHandshake_with_def)
          qed
        next
          case False
          then show ?thesis' using eq by (intro go) (simp add: runHandshake_with_def)
        qed
      qed
    qed
  qed
  then show thesis using failed reached by blast
qed

lemma runHandshake_with_ok:
  assumes ok: "manager_ok m" and next_ok: "\<And>c m. manager_ok m \<Longrightarrow> conn_ok c \<Longrightarrow> live c \<Longrightarrow> manager_ok (f c m)"
  shows "manager_ok (snd (snd (runHandshake_with f kS kV P J env opts m)))"
  by (rule handshake_cases [of m kS kV P J env opts]) (use aside_ok [OF ok] next_ok in \<open>simp_all add: fresh_conn_def\<close>)

lemma runHandshake_ok: "manager_ok m \<Longrightarrow> manager_ok (snd (snd (runHandshake P J env opts m)))"
  unfolding runHandshake_def by (rule runHandshake_with_ok [OF _ enroll_ok])

lemma pend_ok: "manager_ok m \<Longrightarrow> conn_ok c \<Longrightarrow> live c \<Longrightarrow> manager_ok (pend c m)"
  by (auto simp: manager_ok_def pend_def)

lemma register_step_ok:
  assumes ok: "manager_ok m"
  shows "manager_ok (register_step k m)"
proof (cases "length (m_pending m) \<le> k \<or> m_mu m \<noteq> None")
  case False
  let ?c = "m_pending m ! k" and ?rest = "take k (m_pending m) @ drop (Suc k) (m_pending m)"
  have all: "list_all (\<lambda>c. conn_ok c \<and> live c) (m_pending m)" using ok by (rule manager_ok_rest)
  then have "conn_ok ?c" "live ?c" "list_all (\<lambda>c. conn_ok c \<and> live c) ?rest"
    using False by (auto simp: list_all_iff dest: in_set_takeD in_set_dropD)
  then have "manager_ok ((enroll ?c m)\<lparr>m_pending := ?rest\<rparr>)" using enroll_ok [OF ok] by (auto simp: manager_ok_def)
  moreover have "manager_ok (m\<lparr>m_mu := Some j\<rparr>)" for j using ok by (simp add: manager_ok_def)
  ultimately show ?thesis using False by (simp add: register_step_def Let_def split: option.split)
qed (use ok in \<open>simp add: register_step_def\<close>)

lemma manager_ok_step:
  assumes ok: "manager_ok m"
  shows "manager_ok (mgr_step P J x m)"
proof (cases x)
  case (OpHandshake env opts kS kV)
  then show ?thesis using runHandshake_with_ok [OF ok pend_ok] by simp
next
  case (OpRegister k)
  then show ?thesis using register_step_ok [OF ok] by simp
next
  case (OpUnregister i)
  then show ?thesis using ok manager_ok_unregister [OF ok] by (auto simp: on_conn_def with_mu_def)
next
  case OpTake
  have "length (tl (m_events m)) \<le> 256" using manager_ok_rest(2) [OF ok] by (cases "m_events m") simp_all
  with ok show ?thesis using OpTake by (auto simp: manager_ok_def)
next
  case OpClosing
  then show ?thesis using ok by (simp add: manager_ok_def)
qed (use ok in \<open>auto simp: on_conn_def with_mu_def announce_emit_def Let_def manager_ok_emit
    intro: local_ok [OF ok local_announce_check] local_ok [OF ok local_read] local_ok [OF ok local_keepalive]
      local_ok [OF ok local_write] local_ok [OF ok local_send_chat] local_ok [OF ok local_enqueue]
      local_ok [OF ok local_drop_begin] local_ok [OF ok local_drop_emit]\<close>)

interpretation manager_run: op_system "mgr_step P J" manager_ok for P J
  by unfold_locales (rule manager_ok_step)

section \<open>Properties\<close>

definition sid :: "conn \<Rightarrow> 64 word" where
  "sid c = s_SessionID (c_sess c)"

text \<open>The current connection to a peer is fresh and has the given session identifier.\<close>

definition holds :: "string \<Rightarrow> 64 word \<Rightarrow> manager \<Rightarrow> bool" where
  "holds fp q m \<longleftrightarrow> manager_ok m \<and> (\<exists>j d. m_conns m fp = Some j \<and> m_heap m j = Some d \<and> fresh_conn fp d \<and> sid d = q)"

lemma enroll_first:
  assumes "manager_ok m" and "m_conns m fp = None" and "fresh_conn fp c"
  shows "holds fp (sid c) (enroll c m)"
proof -
  have c: "c_fp c = fp" "conn_ok c" "live c" using assms(3) by (simp_all add: fresh_conn_def)
  have "\<exists>j d. m_conns (enroll c m) fp = Some j \<and> m_heap (enroll c m) j = Some d \<and> fresh_conn fp d \<and> sid d = sid c"
    by (rule register_new [OF assms(1) refl, of c]) (use assms(2,3) c in \<open>simp_all add: enroll_def\<close>)
  then show ?thesis using enroll_ok [OF assms(1) c(2,3)] by (simp add: holds_def)
qed

lemma enroll_next:
  assumes h: "holds fp q m" and c: "fresh_conn fp c"
  shows "holds fp (min q (sid c)) (enroll c m)"
proof -
  obtain j d where ok: "manager_ok m" and d: "m_conns m fp = Some j" "m_heap m j = Some d" "fresh_conn fp d" "sid d = q"
    using h by (auto simp: holds_def)
  have fp: "c_fp c = fp" using c by (simp add: fresh_conn_def)
  have j: "j \<noteq> m_next m" using manager_ok_heap [OF ok d(2)] by simp
  have pref: "preferNew d c \<longleftrightarrow> sid c < q" "\<not> c_announced d"
    using d(3,4) by (auto simp: preferNew_def fresh_conn_def sid_def)
  have at: "conn_at m j = d" using d(2) by simp
  have "\<exists>k e. m_conns (enroll c m) fp = Some k \<and> m_heap (enroll c m) k = Some e \<and> fresh_conn fp e \<and> sid e = min q (sid c)"
  proof (rule register_new [OF ok refl, of c])
    fix m2
    assume reg: "register (m_next m) (set_conn (m_next m) c m\<lparr>m_next := m_next m + 1\<rparr>) = (True, m2)"
      "m_heap m2 = (m_heap (close_current (c_fp c) m))(m_next m \<mapsto> c)" "m_conns m2 = (m_conns m)(c_fp c \<mapsto> m_next m)"
    assume why: "\<And>j. m_conns m (c_fp c) = Some j \<Longrightarrow>
      \<not> (c_announced (conn_at m j) \<and> c_unanswered (conn_at m j) = 0) \<and> preferNew (conn_at m j) c"
    have "preferNew d c" using why [of j] fp d(1) at by simp
    then have "min q (sid c) = sid c" using pref by simp
    then show ?thesis using reg fp c by (simp add: enroll_def)
  next
    fix k
    assume reg: "register (m_next m) (set_conn (m_next m) c m\<lparr>m_next := m_next m + 1\<rparr>) =
        (False, set_conn (m_next m) c m\<lparr>m_next := m_next m + 1\<rparr>)" "m_conns m (c_fp c) = Some k"
      "c_announced (conn_at m k) \<and> c_unanswered (conn_at m k) = 0 \<or> \<not> preferNew (conn_at m k) c"
    have "\<not> preferNew d c" using reg(2,3) fp d(1) at pref(2) by simp
    then have "min q (sid c) = q" using pref by simp
    then show ?thesis using reg(1) fp d j by (simp add: enroll_def Let_def)
  qed
  moreover have "manager_ok (enroll c m)" using enroll_ok [OF ok] c by (simp add: fresh_conn_def)
  ultimately show ?thesis by (simp add: holds_def)
qed

lemma enroll_all:
  "holds fp q m \<Longrightarrow> list_all (fresh_conn fp) cs \<Longrightarrow> holds fp (Min (insert q (sid ` set cs))) (fold enroll cs m)"
proof (induction cs arbitrary: q m)
  case Nil
  then show ?case by simp
next
  case (Cons c cs)
  then have "holds fp (min q (sid c)) (enroll c m)" using enroll_next by simp
  then have "holds fp (Min (insert (min q (sid c)) (sid ` set cs))) (fold enroll cs (enroll c m))"
    using Cons by simp
  moreover have "Min (insert (min q (sid c)) (sid ` set cs)) = Min (insert q (sid ` set (c # cs)))"
    by (cases "cs = []") (simp_all add: min.assoc min.left_commute Min_insert)
  ultimately show ?case by simp
qed

lemma enroll_from_none:
  assumes "manager_ok m" and "m_conns m fp = None" and "cs \<noteq> []" and "list_all (fresh_conn fp) cs"
  shows "holds fp (Min (sid ` set cs)) (fold enroll cs m)"
proof (cases cs)
  case (Cons c cs')
  then have "holds fp (sid c) (enroll c m)" using enroll_first [OF assms(1,2)] assms(4) by simp
  from enroll_all [OF this, of cs'] show ?thesis using Cons assms(4) by simp
qed (use assms in simp)

text \<open>
  C25: duplicate connections converge. When several paths between two peers succeed before any of
  them is announced, each side sees the same connections, in its own order. Both sides keep the
  connection with the smallest session identifier, whatever the orders were, and it is the same
  one.
\<close>

theorem duplicates_converge:
  assumes "manager_ok mA" and "m_conns mA fpB = None" and "list_all (fresh_conn fpB) csA" and "csA \<noteq> []"
    and "manager_ok mB" and "m_conns mB fpA = None" and "list_all (fresh_conn fpA) csB"
    and "sid ` set csA = sid ` set csB"
  shows "\<exists>i j. m_conns (fold enroll csA mA) fpB = Some i \<and> m_conns (fold enroll csB mB) fpA = Some j \<and>
    sid (conn_at (fold enroll csA mA) i) = Min (sid ` set csA) \<and>
    sid (conn_at (fold enroll csB mB) j) = Min (sid ` set csA)"
proof -
  have "csB \<noteq> []" using assms(4,8) by auto
  then have "holds fpB (Min (sid ` set csA)) (fold enroll csA mA)" "holds fpA (Min (sid ` set csA)) (fold enroll csB mB)"
    using enroll_from_none assms by metis+
  then show ?thesis by (auto simp: holds_def)
qed

definition demo_conn :: "string \<Rightarrow> session \<Rightarrow> conn" where
  "demo_conn fp s = \<lparr>c_fp = fp, c_name = fp, c_sess = s, c_trust = TrustUnverified, c_addr = [], c_send = [],
     c_done = False, c_drop = NotDropping, c_ioClosed = False, c_path = PathDirect, c_unanswered = 0, c_announced = False\<rparr>"

definition demo_manager :: manager where
  "demo_manager = NewManager (FromPublicKey ''me'' []) demo_store Map.empty"

lemma demo_conn_fresh: "fresh_conn fp (demo_conn fp s)"
  by (simp add: fresh_conn_def demo_conn_def conn_ok_def live_def)

lemma sid_demo_conn: "sid (demo_conn fp s) = s_SessionID s"
  by (simp add: sid_def demo_conn_def)

lemma demo_manager_ok: "manager_ok demo_manager" "m_conns demo_manager fp = None" "m_heap demo_manager i = None"
  using manager_ok_new by (simp_all add: demo_manager_def) (simp_all add: NewManager_def)

theorem duplicates_converge_witness:
  "\<exists>s t i j. newSession demo_prims [1] [2] True = Inr s \<and> newSession demo_prims [1, 2] [2] True = Inr t \<and>
     m_conns (fold enroll [demo_conn ''B'' s, demo_conn ''B'' t] demo_manager) ''B'' = Some i \<and>
     m_conns (fold enroll [demo_conn ''A'' t, demo_conn ''A'' s] demo_manager) ''A'' = Some j \<and>
     sid (conn_at (fold enroll [demo_conn ''B'' s, demo_conn ''B'' t] demo_manager) i) =
     sid (conn_at (fold enroll [demo_conn ''A'' t, demo_conn ''A'' s] demo_manager) j)"
proof -
  obtain s t where st: "newSession demo_prims [1] [2] True = Inr s" "newSession demo_prims [1, 2] [2] True = Inr t"
    by (simp add: newSession_eq)
  have "list_all (fresh_conn ''B'') [demo_conn ''B'' s, demo_conn ''B'' t]" "list_all (fresh_conn ''A'') [demo_conn ''A'' t, demo_conn ''A'' s]"
    "[demo_conn ''B'' s, demo_conn ''B'' t] \<noteq> []"
    "sid ` set [demo_conn ''B'' s, demo_conn ''B'' t] = sid ` set [demo_conn ''A'' t, demo_conn ''A'' s]"
    by (auto simp: demo_conn_fresh sid_demo_conn)
  from duplicates_converge [OF demo_manager_ok(1,2) this(1,3) demo_manager_ok(1,2) this(2,4)] st
  show ?thesis by auto
qed

section \<open>What stays of a connection\<close>

text \<open>
  How an action leaves one connection: still allocated, with its fingerprint, torn down if it was,
  out of \<open>dropConn\<close>'s reach if it was, and with the same number of unanswered pings unless it is
  torn down.
\<close>

definition remains :: "bool \<Rightarrow> nat \<Rightarrow> manager \<Rightarrow> manager \<Rightarrow> bool" where
  "remains same i m m' \<longleftrightarrow>
     (\<forall>c. m_heap m i = Some c \<longrightarrow>
        (\<exists>c'. m_heap m' i = Some c' \<and> (c_done c \<longrightarrow> c_done c') \<and>
          (c_done c \<longrightarrow> c_drop c \<noteq> DropUnregister \<longrightarrow> c_drop c' \<noteq> DropUnregister) \<and>
          (same \<longrightarrow> \<not> c_done c' \<longrightarrow> c_unanswered c' = c_unanswered c)))"

lemma remains_same: "m_heap m' = m_heap m \<Longrightarrow> remains b i m m'"
  by (simp add: remains_def)

lemma remains_local:
  assumes "local_to b k m m'" and "same \<longrightarrow> b \<or> k \<noteq> i"
  shows "remains same i m m'"
proof -
  obtain c c' where c: "m_heap m k = Some c" "m_heap m' = (m_heap m)(k \<mapsto> c')" "evolves b c c'"
    using assms(1) by (auto simp: local_to_def)
  show ?thesis
  proof (cases "k = i")
    case True
    then show ?thesis using c assms(2) by (auto simp: remains_def evolves_def)
  qed (use c in \<open>simp add: remains_def\<close>)
qed

lemma remains_enroll:
  assumes "manager_ok m"
  shows "remains b i m (enroll c m)"
proof (cases "m_heap m i")
  case (Some d)
  have i: "i \<noteq> m_next m" using manager_ok_heap [OF assms Some] by simp
  show ?thesis
  proof (rule register_new [OF assms refl, of c])
    fix m2
    assume r: "register (m_next m) (set_conn (m_next m) c m\<lparr>m_next := m_next m + 1\<rparr>) = (True, m2)"
      "m_heap m2 = (m_heap (close_current (c_fp c) m))(m_next m \<mapsto> c)"
    have "m_heap m2 i = Some d \<or> m_heap m2 i = Some (conn_close d)"
      using r(2) i Some by (auto simp: close_current_def split: option.split)
    then show ?thesis using r(1) Some by (auto simp: remains_def enroll_def Let_def)
  next
    assume "register (m_next m) (set_conn (m_next m) c m\<lparr>m_next := m_next m + 1\<rparr>) =
        (False, set_conn (m_next m) c m\<lparr>m_next := m_next m + 1\<rparr>)"
    then show ?thesis using i by (simp add: remains_def enroll_def Let_def)
  qed
qed (simp add: remains_def)

lemma remains_register: "manager_ok m \<Longrightarrow> remains b i m (register_step k m)"
  using remains_enroll [of m b i] by (auto simp: register_step_def Let_def remains_def split: option.split)

lemma remains_unregister: "m_heap m k = Some c \<Longrightarrow> remains b i m (drop_unregister k m)"
  by (auto simp: remains_def drop_unregister_def Let_def)

fun reads :: "nat \<Rightarrow> mgr_op \<Rightarrow> bool" where
  "reads i (OpRead _ k _) = (k = i)"
| "reads i _ = False"

fun ticks :: "nat \<Rightarrow> mgr_op \<Rightarrow> bool" where
  "ticks i (OpTick _ k) = (k = i)"
| "ticks i _ = False"

lemma handshake_heap: "m_heap (snd (snd (runHandshake_with pend kS kV P J env opts m))) = m_heap m"
  by (rule handshake_cases [of m kS kV P J env opts]) (simp_all add: aside_def pend_def)

lemma remains_step:
  assumes ok: "manager_ok m" and "b \<longrightarrow> \<not> reads i x \<and> \<not> ticks i x"
  shows "remains b i m (mgr_step P J x m)"
proof (cases x)
  case (OpHandshake env opts kS kV)
  then show ?thesis by (simp add: remains_same handshake_heap)
next
  case (OpRegister k)
  then show ?thesis by (simp add: remains_register [OF ok])
next
  case (OpRead rnd k r)
  then show ?thesis
    using assms(2) by (auto simp: on_conn_def remains_same intro: remains_local [OF local_read])
next
  case (OpTick rnd k)
  then show ?thesis
    using assms(2) by (auto simp: on_conn_def remains_same intro: remains_local [OF local_keepalive])
qed (auto simp: on_conn_def with_mu_def remains_same announce_emit_def Let_def remains_unregister
    intro: remains_local [OF local_announce_check [of _ _ _ True]] remains_local [OF local_write [of _ _ _ True]]
      remains_local [OF local_send_chat [of _ _ _ True]] remains_local [OF local_enqueue [of _ _ _ True]]
      remains_local [OF local_drop_begin [of _ _ _ True]] remains_local [OF local_drop_emit [of _ _ _ True]])

text \<open>A connection is torn; it is gone when moreover no \<open>dropConn\<close> has still to take it out of the index.\<close>

definition torn :: "nat \<Rightarrow> manager \<Rightarrow> bool" where
  "torn i m \<longleftrightarrow> (\<exists>c. m_heap m i = Some c \<and> c_done c)"

definition gone :: "nat \<Rightarrow> manager \<Rightarrow> bool" where
  "gone i m \<longleftrightarrow> (\<exists>c. m_heap m i = Some c \<and> c_done c \<and> c_drop c \<noteq> DropUnregister)"

lemma torn_step: "manager_ok m \<Longrightarrow> torn i m \<Longrightarrow> torn i (mgr_step P J x m)"
  and gone_step: "manager_ok m \<Longrightarrow> gone i m \<Longrightarrow> gone i (mgr_step P J x m)"
  using remains_step [of m False i x P J] by (auto simp: torn_def gone_def remains_def)

lemma torn_run: "manager_ok m \<Longrightarrow> torn i m \<Longrightarrow> torn i (fold (mgr_step P J) ops m)"
  and gone_run: "manager_ok m \<Longrightarrow> gone i m \<Longrightarrow> gone i (fold (mgr_step P J) ops m)"
  by (induction ops arbitrary: m) (simp_all add: manager_ok_step torn_step gone_step)

lemma torn_closed:
  assumes "manager_ok m" and "torn i m"
  shows "\<exists>c. m_heap m i = Some c \<and> c_done c \<and> s_closed (c_sess c) \<and> c_ioClosed c"
  using assms manager_ok_heap [OF assms(1), of i] by (auto simp: torn_def conn_ok_def)

lemma gone_not_indexed: "manager_ok m \<Longrightarrow> gone i m \<Longrightarrow> m_conns m fp \<noteq> Some i"
  using manager_ok_conns [of m fp i] by (auto simp: gone_def listed_def live_def)

lemma drop_torn: "m_heap m i = Some c \<Longrightarrow> torn i (mgr_step P J (OpDrop i) m)"
  by (auto simp: torn_def on_conn_def drop_begin_def Let_def)

lemma unregister_gone:
  assumes "torn i m" and "m_mu m = None"
  shows "gone i (mgr_step P J (OpUnregister i) m)"
  using assms by (auto simp: torn_def gone_def on_conn_def with_mu_def drop_unregister_def Let_def)

section \<open>The mutex\<close>

text \<open>Without the mutex nothing is registered and nothing leaves the index, and a holder that waits goes on waiting.\<close>

lemma local_index:
  "local_to b k m m' \<Longrightarrow> m_mu m' = m_mu m \<and> m_conns m' = m_conns m \<and> m_byName m' = m_byName m \<and> m_next m' = m_next m"
  by (simp add: local_to_def)

lemma handshake_index:
  "m_mu (snd (snd (runHandshake_with pend kS kV P J env opts m))) = m_mu m"
  "m_conns (snd (snd (runHandshake_with pend kS kV P J env opts m))) = m_conns m"
  "m_byName (snd (snd (runHandshake_with pend kS kV P J env opts m))) = m_byName m"
  "m_next (snd (snd (runHandshake_with pend kS kV P J env opts m))) = m_next m"
  by (rule handshake_cases [of m kS kV P J env opts], simp_all add: aside_def pend_def)+

definition needs_mu :: "mgr_op \<Rightarrow> bool" where
  "needs_mu x = (case x of OpRegister _ \<Rightarrow> True | OpAnnounceCheck _ \<Rightarrow> True | OpUnregister _ \<Rightarrow> True | _ \<Rightarrow> False)"

lemma step_index:
  assumes "\<not> needs_mu x \<or> m_mu m \<noteq> None"
  shows "m_mu (mgr_step P J x m) = m_mu m \<and> m_conns (mgr_step P J x m) = m_conns m \<and>
    m_byName (mgr_step P J x m) = m_byName m \<and> m_next (mgr_step P J x m) = m_next m"
  using assms
proof (cases x)
  case (OpHandshake env opts kS kV)
  then show ?thesis by (simp add: handshake_index)
next
  case (OpRead rnd k r)
  then show ?thesis using local_index [OF local_read] by (auto simp: on_conn_def)
next
  case (OpTick rnd k)
  then show ?thesis using local_index [OF local_keepalive] by (auto simp: on_conn_def)
next
  case (OpWrite b k)
  then show ?thesis using local_index [OF local_write] by (auto simp: on_conn_def)
next
  case (OpSend rnd k msg)
  then show ?thesis using local_index [OF local_send_chat] by (auto simp: on_conn_def)
next
  case (OpEnqueue rnd k t)
  then show ?thesis using local_index [OF local_enqueue] by (auto simp: on_conn_def)
next
  case (OpDrop k)
  then show ?thesis using local_index [OF local_drop_begin] by (auto simp: on_conn_def)
next
  case (OpDropEmit k)
  then show ?thesis using local_index [OF local_drop_emit] by (auto simp: on_conn_def)
qed (auto simp: needs_mu_def on_conn_def with_mu_def register_step_def announce_emit_def Let_def)

lemma stuck_run:
  "m_mu m = Some j \<Longrightarrow>
   m_mu (fold (mgr_step P J) ops m) = Some j \<and> m_conns (fold (mgr_step P J) ops m) = m_conns m \<and>
   m_byName (fold (mgr_step P J) ops m) = m_byName m \<and> m_next (fold (mgr_step P J) ops m) = m_next m"
  by (induction ops arbitrary: m) (simp_all add: step_index)

lemma free_before: "m_mu (fold (mgr_step P J) ops m) = None \<Longrightarrow> m_mu m = None"
  using stuck_run [of m _ P J ops] by (cases "m_mu m") auto

text \<open>A run that changes the index: what is indexed was indexed before, or was registered since.\<close>

lemma enroll_index:
  assumes "manager_ok m"
  shows "m_next (enroll c m) = m_next m + 1" "m_mu (enroll c m) = m_mu m"
    "m_conns (enroll c m) fp = Some j \<Longrightarrow> m_conns m fp = Some j \<or> j = m_next m"
  by (rule register_new [OF assms refl, of c], simp_all add: enroll_def Let_def split: if_splits)+

lemma unregister_index:
  "m_next (drop_unregister k m) = m_next m" "m_mu (drop_unregister k m) = m_mu m"
  "m_conns (drop_unregister k m) fp = Some j \<Longrightarrow> m_conns m fp = Some j"
  by (auto simp: drop_unregister_def unregister_def Let_def split: if_splits)

lemma step_registers:
  assumes "manager_ok m"
  shows "m_next m \<le> m_next (mgr_step P J x m) \<and>
    (m_conns (mgr_step P J x m) fp = Some j \<longrightarrow> m_conns m fp = Some j \<or> m_next m \<le> j \<and> (\<exists>k. x = OpRegister k))"
proof (cases "needs_mu x")
  case True
  then consider k where "x = OpRegister k" | k where "x = OpAnnounceCheck k" | k where "x = OpUnregister k"
    by (cases x) (auto simp: needs_mu_def)
  then show ?thesis
  proof cases
    case (1 k)
    then show ?thesis
      using enroll_index [OF assms] by (force simp: register_step_def Let_def split: option.split)
  next
    case (2 k)
    then show ?thesis using local_index [OF local_announce_check] by (auto simp: on_conn_def with_mu_def)
  next
    case (3 k)
    then show ?thesis using unregister_index [of k m] by (auto simp: on_conn_def with_mu_def)
  qed
qed (simp add: step_index)

lemma run_registers:
  "manager_ok m \<Longrightarrow> m_conns (fold (mgr_step P J) ops m) fp = Some j \<Longrightarrow>
   m_conns m fp = Some j \<or> m_next m \<le> j \<and> (\<exists>k. OpRegister k \<in> set ops)"
proof (induction ops arbitrary: m)
  case (Cons x ops)
  note st = step_registers [OF Cons.prems(1), of P J x]
  from Cons.IH [OF manager_ok_step [OF Cons.prems(1)]] Cons.prems(2)
  have "m_conns (mgr_step P J x m) fp = Some j \<or> m_next (mgr_step P J x m) \<le> j \<and> (\<exists>k. OpRegister k \<in> set ops)" by simp
  then show ?case using st [of fp j] by (auto intro: order_trans)
qed simp

section \<open>Silent peers\<close>

lemma tick_step:
  assumes "m_heap m i = Some c"
  shows "\<exists>c'. m_heap (snd (keepalive_step P rnd i m)) i = Some c' \<and>
    (c_done c' \<or> \<not> c_done c \<and> c_unanswered c' = c_unanswered c + 1 \<and> c_unanswered c' \<le> 3)"
proof (cases "c_done c")
  case True
  then show ?thesis using assms by (simp add: keepalive_step_def)
next
  case False
  let ?c1 = "c\<lparr>c_unanswered := c_unanswered c + 1\<rparr>"
  let ?m1 = "set_conn i ?c1 m"
  have i1: "m_heap ?m1 i = Some ?c1" by simp
  obtain r m2 where q: "enqueue P rnd i TypePing [] ?m1 = (r, m2)" by fastforce
  have "remains True i ?m1 m2" using remains_local [OF local_enqueue [OF i1, of True P rnd TypePing "[]"]] q by simp
  then obtain c2 where c2: "m_heap m2 i = Some c2" "\<not> c_done c2 \<longrightarrow> c_unanswered c2 = c_unanswered c + 1"
    using i1 unfolding remains_def by fastforce
  have dr: "\<exists>c'. m_heap (drop_begin i n) i = Some c' \<and> c_done c'" if "m_heap n i = Some e" for n e
    using that by (auto simp: drop_begin_def Let_def)
  show ?thesis
  proof (cases "c_unanswered c + 1 > 3")
    case True
    then show ?thesis using dr [OF i1] assms False by (auto simp: keepalive_step_def Let_def)
  next
    case few: False
    then show ?thesis
      using dr [OF c2(1)] c2 assms False q by (cases r) (auto simp: keepalive_step_def Let_def)
  qed
qed

lemma keepalive_run:
  "manager_ok m \<Longrightarrow> m_heap m i = Some c \<Longrightarrow> list_all (\<lambda>x. \<not> reads i x) ops \<Longrightarrow>
   \<exists>c'. m_heap (fold (mgr_step P J) ops m) i = Some c' \<and> (c_done c \<longrightarrow> c_done c') \<and>
     (\<not> c_done c' \<longrightarrow> c_unanswered c' = c_unanswered c + length (filter (ticks i) ops) \<and>
       (filter (ticks i) ops \<noteq> [] \<longrightarrow> c_unanswered c' \<le> 3))"
proof (induction ops arbitrary: m c)
  case Nil
  then show ?case by simp
next
  case (Cons x ops)
  let ?m1 = "mgr_step P J x m"
  have ok1: "manager_ok ?m1" using Cons.prems(1) by (rule manager_ok_step)
  have step: "\<exists>d. m_heap ?m1 i = Some d \<and> (c_done c \<longrightarrow> c_done d) \<and>
      (\<not> c_done d \<longrightarrow> c_unanswered d = c_unanswered c + (if ticks i x then 1 else 0) \<and> (ticks i x \<longrightarrow> c_unanswered d \<le> 3))"
  proof (cases "ticks i x")
    case True
    then obtain rnd where x: "x = OpTick rnd i" by (cases x) auto
    show ?thesis using tick_step [OF Cons.prems(2), of P rnd] x Cons.prems(2) by (auto simp: on_conn_def)
  next
    case False
    then show ?thesis
      using remains_step [OF Cons.prems(1), of True i x P J] Cons.prems(2,3) by (fastforce simp: remains_def)
  qed
  then obtain d where d: "m_heap ?m1 i = Some d" "c_done c \<longrightarrow> c_done d"
    "\<not> c_done d \<longrightarrow> c_unanswered d = c_unanswered c + (if ticks i x then 1 else 0)" "\<not> c_done d \<longrightarrow> ticks i x \<longrightarrow> c_unanswered d \<le> 3"
    by blast
  from Cons.IH [OF ok1 d(1)] Cons.prems(3) obtain c' where
    c': "m_heap (fold (mgr_step P J) ops ?m1) i = Some c'" "c_done d \<longrightarrow> c_done c'"
      "\<not> c_done c' \<longrightarrow> c_unanswered c' = c_unanswered d + length (filter (ticks i) ops) \<and>
        (filter (ticks i) ops \<noteq> [] \<longrightarrow> c_unanswered c' \<le> 3)" by auto
  show ?case
    using c' d by (intro exI [of _ c']) auto
qed

lemma silent_torn:
  assumes "manager_ok m" and "m_heap m i = Some c" and "list_all (\<lambda>x. \<not> reads i x) ops"
    and "length (filter (ticks i) ops) > keepaliveMisses"
  shows "torn i (fold (mgr_step P J) ops m)"
proof -
  obtain c' where c': "m_heap (fold (mgr_step P J) ops m) i = Some c'"
    "\<not> c_done c' \<longrightarrow> c_unanswered c' = c_unanswered c + length (filter (ticks i) ops)"
    "\<not> c_done c' \<longrightarrow> filter (ticks i) ops \<noteq> [] \<longrightarrow> c_unanswered c' \<le> 3"
    using keepalive_run [OF assms(1-3), of P J] by auto
  have "filter (ticks i) ops \<noteq> []" using assms(4) by auto
  then have "c_done c'" using c'(2,3) assms(4) by auto
  with c'(1) show ?thesis by (simp add: torn_def)
qed

lemma torn_leaves:
  assumes "manager_ok m" and "torn i m" and "OpUnregister i \<in> set ops" and "m_mu (fold (mgr_step P J) ops m) = None"
  shows "gone i (fold (mgr_step P J) ops m)"
proof -
  obtain a b where ops: "ops = a @ OpUnregister i # b" using assms(3) by (meson split_list)
  let ?m1 = "fold (mgr_step P J) a m"
  have ok1: "manager_ok ?m1" by (rule manager_run.run_inv [OF assms(1)])
  have "m_mu ?m1 = None" using assms(4) free_before [of P J "OpUnregister i # b" ?m1] by (simp add: ops)
  from unregister_gone [OF torn_run [OF assms(1,2)] this]
  have "gone i (mgr_step P J (OpUnregister i) ?m1)" .
  from gone_run [OF manager_ok_step [OF ok1] this] show ?thesis by (simp add: ops)
qed

end
