(* ===== verification/ManagerFlows.thy ===== *)
theory ManagerFlows
  imports ManagerProps
begin

text \<open>
  Flows through the connection manager: a chat message from one manager to another, what the
  admission of a peer that answered an invite code requires, and what the display-name index and the
  announcement do under unlucky orders.
\<close>

section \<open>Messages\<close>

text \<open>
  C15: a chat message from one user to the other. When the sessions of the two ends are in step and
  the sender's queue is empty, \<open>Send\<close> to the peer's name queues one frame, the write loop puts it
  on the wire, and the receiver's read loop on that frame tells the chat layer exactly the text
  sent, under the fingerprint of the connection; the two sessions are in step again.
\<close>

theorem chat_message_delivered:
  assumes a: "m_byName mA name = Some i" "m_heap mA i = Some cA" "c_send cA = []" "\<not> c_done cA"
    and b: "m_heap mB j = Some cB" "length (m_events mB) < eventQueue"
    and sync: "in_sync P (c_sess cA) (c_sess cB)" "unat (s_sendSeq (c_sess cA)) < 2 ^ 64 - 1"
    and len: "length msg \<le> MaxPlaintext - 2"
  shows "\<exists>mA1 buf mA2 mB1. mgr_Send P (Some f) name msg mA = (Inr (), mA1) \<and>
    writeLoop_step True i mA1 = (Some buf, mA2) \<and> readLoop_step P rnd j (Inr buf) mB = (True, mB1) \<and>
    m_events mB1 = m_events mB @ [\<lparr>e_Type = EventMessage, e_Peer = c_name cB, e_Fingerprint = c_fp cB,
      e_Text = ChatText msg, e_Trust = c_trust cB, e_Path = []\<rparr>] \<and>
    in_sync P (c_sess (conn_at mA2 i)) (c_sess (conn_at mB1 j))"
proof -
  let ?pt = "encodeChatPayload msg"
  have t: "knownType TypeChat" by (simp add: knownType_def)
  have pt: "length ?pt \<le> 4096" using len by (simp add: encodeChatPayload_def)
  have dec: "DecodeChat ?pt = Inr msg"
    unfolding DecodeChat_def by (rule chat_codec.dec_enc) (use len in simp)
  obtain sA sB where d: "deliver P (Some f) TypeChat ?pt (c_sess cA) (c_sess cB) = (Inr (TypeChat, ?pt), sA, sB)"
    "in_sync P sA sB"
    by (rule deliver_in_sync [OF sync(1) t pt sync(2)])
  then obtain buf where seal: "session_Seal P (Some f) TypeChat ?pt (c_sess cA) = (Inr buf, sA)"
    and opn: "session_Open P buf (c_sess cB) = (Inr (TypeChat, ?pt), sB)"
    by (auto simp: deliver_def split: prod.splits sum.splits)
  let ?mA1 = "set_conn i (cA\<lparr>c_sess := sA, c_send := [buf]\<rparr>) (set_conn i (cA\<lparr>c_sess := sA\<rparr>) mA)"
  let ?mA2 = "set_conn i (cA\<lparr>c_sess := sA, c_send := []\<rparr>) ?mA1"
  have s1: "mgr_Send P (Some f) name msg mA = (Inr (), ?mA1)"
    using a seal by (simp add: mgr_Send_def send_chat_def SealChat_def push_frame_def Let_def)
  have s2: "writeLoop_step True i ?mA1 = (Some buf, ?mA2)"
    using a(4) by (simp add: writeLoop_step_def Let_def)
  have s3: "\<exists>mB1. readLoop_step P rnd j (Inr buf) mB = (True, mB1) \<and>
      m_events mB1 = m_events mB @ [\<lparr>e_Type = EventMessage, e_Peer = c_name cB, e_Fingerprint = c_fp cB,
        e_Text = ChatText msg, e_Trust = c_trust cB, e_Path = []\<rparr>] \<and> c_sess (conn_at mB1 j) = sB"
    using b opn dec by (simp add: readLoop_step_def Let_def emit_def conn_at_def)
  have "c_sess (conn_at ?mA2 i) = sA" by simp
  with s1 s2 s3 d(2) show ?thesis by metis
qed

definition chatting :: "string \<Rightarrow> session \<Rightarrow> manager" where
  "chatting fp s = demo_manager\<lparr>m_heap := [0 \<mapsto> demo_conn fp s], m_conns := [fp \<mapsto> 0], m_byName := [fp \<mapsto> 0], m_next := 1\<rparr>"

theorem chat_message_delivered_witness:
  "\<exists>a b mA1 buf mA2 mB1. newSession demo_prims [1] [2] True = Inr a \<and> newSession demo_prims [1] [2] False = Inr b \<and>
     mgr_Send demo_prims (Some (\<lambda>_. 0)) ''B'' ''hello'' (chatting ''B'' a) = (Inr (), mA1) \<and>
     writeLoop_step True 0 mA1 = (Some buf, mA2) \<and>
     readLoop_step demo_prims None 0 (Inr buf) (chatting ''A'' b) = (True, mB1) \<and>
     m_events mB1 = [\<lparr>e_Type = EventMessage, e_Peer = ''A'', e_Fingerprint = ''A'',
       e_Text = ChatText ''hello'', e_Trust = TrustUnverified, e_Path = []\<rparr>]"
proof -
  obtain a b where d: "newSession demo_prims [1] [2] True = Inr a" "newSession demo_prims [1] [2] False = Inr b"
    "in_sync demo_prims a b" "s_sendSeq a = 0" "s_sendSeq b = 0" by (rule demo_sessions)
  have A: "m_byName (chatting ''B'' a) ''B'' = Some 0" "m_heap (chatting ''B'' a) 0 = Some (demo_conn ''B'' a)"
    "c_send (demo_conn ''B'' a) = []" "\<not> c_done (demo_conn ''B'' a)"
    by (simp_all add: chatting_def demo_conn_def)
  have B: "m_heap (chatting ''A'' b) 0 = Some (demo_conn ''A'' b)" "length (m_events (chatting ''A'' b)) < eventQueue"
    "m_events (chatting ''A'' b) = []"
    by (simp_all add: chatting_def demo_manager_def NewManager_def)
  have S: "in_sync demo_prims (c_sess (demo_conn ''B'' a)) (c_sess (demo_conn ''A'' b))"
    "unat (s_sendSeq (c_sess (demo_conn ''B'' a))) < 2 ^ 64 - 1" "length ''hello'' \<le> MaxPlaintext - 2"
    using d by (simp_all add: demo_conn_def)
  have N: "c_name (demo_conn ''A'' b) = ''A''" "c_fp (demo_conn ''A'' b) = ''A''" "c_trust (demo_conn ''A'' b) = TrustUnverified"
    by (simp_all add: demo_conn_def)
  from chat_message_delivered [OF A B(1,2) S, of "\<lambda>_. 0" None] d(1,2) show ?thesis
    unfolding B(3) N append_Nil by blast
qed

section \<open>Admission of an invited peer\<close>

definition opened :: "prims \<Rightarrow> bytes list \<Rightarrow> session \<Rightarrow> session" where
  "opened P bufs s = fold (\<lambda>buf s. snd (session_Open P buf s)) bufs s"

lemma confirm_loop_ok:
  "confirm_loop P key th ins s = (Inr (), s') \<Longrightarrow>
   \<exists>pre buf post pt. ins = map Inr pre @ Inr buf # post \<and>
     session_Open P buf (opened P pre s) = (Inr (TypePairConfirm, pt), s') \<and> VerifyPairConfirm P key th pt"
proof (induction P key th ins s rule: confirm_loop.induct)
  case (3 P key th buf r s)
  obtain x s1 where o: "session_Open P buf s = (x, s1)" by fastforce
  show ?case
  proof (cases x)
    case (Inr tp)
    obtain t pt where tp: "tp = (t, pt)" by (cases tp)
    show ?thesis
    proof (cases "t = TypePairConfirm")
      case True
      then have "Inr buf # r = map Inr [] @ Inr buf # r" "session_Open P buf (opened P [] s) = (Inr (TypePairConfirm, pt), s')"
        "VerifyPairConfirm P key th pt"
        using "3.prems" o Inr tp by (auto simp: opened_def split: if_splits)
      then show ?thesis by blast
    next
      case False
      then have "confirm_loop P key th r s1 = (Inr (), s')" using "3.prems" o Inr tp by simp
      from "3.IH" [OF o [symmetric] Inr tp [symmetric] False this] obtain pre b post pt where
        h: "r = map Inr pre @ Inr b # post" "session_Open P b (opened P pre s1) = (Inr (TypePairConfirm, pt), s')"
          "VerifyPairConfirm P key th pt" by blast
      have "Inr buf # r = map Inr (buf # pre) @ Inr b # post" "session_Open P b (opened P (buf # pre) s) = (Inr (TypePairConfirm, pt), s')"
        using h(1,2) o by (simp_all add: opened_def)
      with h(3) show ?thesis by blast
    qed
  qed (use "3.prems" o in simp)
qed simp_all

text \<open>
  The proof that the peer holds the code: on the session of this handshake, after the own
  confirmation was sealed and the frames before it were opened in order, a frame opened as a
  pairing confirmation that verifies under the key and the transcript of this handshake. \<open>kSeal\<close> and
  \<open>kVerify\<close> are what the key buffer holds at these two moments.
\<close>

definition pairing_proved :: "prims \<Rightarrow> hs_env \<Rightarrow> adoptOptions \<Rightarrow> identity \<Rightarrow> bytes \<Rightarrow> bytes \<Rightarrow> bool" where
  "pairing_proved P env opts me kSeal kVerify \<longleftrightarrow>
     (\<exists>hs res ins out conf s1 pre buf post pt s2.
        NewHandshaker P (v_eph env) me (a_Initiator opts) = Inr hs \<and>
        (if a_Initiator opts then exchange_initiator P env hs else exchange_responder P env hs) = (Inr (Some res, ins), out) \<and>
        SealPairConfirm P (v_confirm env) kSeal (r_Transcript res) (r_Session res) = (Inr conf, s1) \<and>
        ins = map Inr pre @ Inr buf # post \<and>
        session_Open P buf (opened P pre s1) = (Inr (TypePairConfirm, pt), s2) \<and>
        VerifyPairConfirm P kVerify (r_Transcript res) pt)"

text \<open>What the user is shown when it is missing.\<close>

definition pairing_warning :: "handshakeResult \<Rightarrow> event" where
  "pairing_warning res = \<lparr>e_Type = EventSecurityWarning, e_Peer = r_PeerName res, e_Fingerprint = r_PeerFingerprint res,
     e_Text = PairingFailed, e_Trust = TrustUnknown, e_Path = ''''\<rparr>"

definition untouched :: "manager \<Rightarrow> manager \<Rightarrow> bool" where
  "untouched m m' \<longleftrightarrow> m_store m' = m_store m \<and> m_files m' = m_files m \<and> m_conns m' = m_conns m \<and> m_byName m' = m_byName m \<and>
     m_heap m' = m_heap m \<and> m_pending m' = m_pending m"

lemma untouched_refl: "untouched m m" and untouched_emit: "untouched m (emit e m)"
  by (simp_all add: untouched_def)

lemma pairing_enforced:
  assumes key: "a_PairingKey opts \<noteq> []" and run: "runHandshake_with f kS kV P J env opts m = (r, sent, m')"
  shows "(\<exists>e. r = Inl e) \<and> untouched m m' \<and>
      (\<forall>hs res ins out. NewHandshaker P (v_eph env) (m_id m) (a_Initiator opts) = Inr hs \<and>
        (if a_Initiator opts then exchange_initiator P env hs else exchange_responder P env hs) = (Inr (Some res, ins), out) \<longrightarrow>
        m' = emit (pairing_warning res) m) \<or>
    pairing_proved P env opts (m_id m) kS kV"
proof (cases "NewHandshaker P (v_eph env) (m_id m) (a_Initiator opts)")
  case (Inl e)
  then show ?thesis using run by (auto simp: runHandshake_with_def untouched_refl)
next
  case hs: (Inr hs)
  let ?x = "if a_Initiator opts then exchange_initiator P env hs else exchange_responder P env hs"
  obtain x sent1 where x: "?x = (x, sent1)" by fastforce
  show ?thesis
  proof (cases x)
    case (Inl e)
    then show ?thesis
      using run hs x by (cases e) (auto simp: runHandshake_with_def untouched_refl untouched_emit)
  next
    case xr: (Inr y)
    obtain ro ins where y: "y = (ro, ins)" by (cases y)
    show ?thesis
    proof (cases ro)
      case None
      then show ?thesis using run hs x xr y by (auto simp: runHandshake_with_def untouched_refl)
    next
      case (Some res)
      obtain q s2 out2 where c: "confirmPairing_shared P (v_confirm env) (v_sendFails env 2) ins res kS kV = (q, s2, out2)"
        by (metis surj_pair)
      show ?thesis
      proof (cases q)
        case (Inl e)
        then have "r = Inl e" "m' = emit (pairing_warning res) m"
          using run hs x xr y Some c key by (simp_all add: runHandshake_with_def pairing_warning_def)
        then show ?thesis using hs x xr y Some by (auto simp: untouched_emit)
      next
        case (Inr u)
        then obtain conf s1 where "SealPairConfirm P (v_confirm env) kS (r_Transcript res) (r_Session res) = (Inr conf, s1)"
          "confirm_loop P kV (r_Transcript res) ins s1 = (Inr (), s2)"
          using c by (auto simp: confirmPairing_shared_def split: prod.splits sum.splits if_splits)
        moreover from this(2) obtain pre buf post pt where "ins = map Inr pre @ Inr buf # post"
          "session_Open P buf (opened P pre s1) = (Inr (TypePairConfirm, pt), s2)" "VerifyPairConfirm P kV (r_Transcript res) pt"
          using confirm_loop_ok by blast
        moreover have "?x = (Inr (Some res, ins), sent1)" using x xr y Some by simp
        ultimately have "pairing_proved P env opts (m_id m) kS kV" unfolding pairing_proved_def using hs by blast
        then show ?thesis ..
      qed
    qed
  qed
qed

text \<open>
  A peer that holds only its end of the session, and no pairing key, opens the confirmation it is
  sent and seals the same bytes as its own confirmation.
\<close>

lemma reflected_confirmation:
  assumes sync: "in_sync P (r_Session res) peer" and new: "s_sendSeq (r_Session res) = 0" "s_sendSeq peer = 0"
    and key: "key \<noteq> []" "r_Transcript res \<noteq> []"
  obtains out c peer1 echo peer2 s where
    "session_Open P out peer = (Inr (TypePairConfirm, c), peer1)"
    "session_Seal P (Some g) TypePairConfirm c peer1 = (Inr echo, peer2)"
    "confirmPairing P (Some f) False [Inr echo] res key = (Inr (), s, [out])"
proof -
  let ?th = "r_Transcript res"
  let ?c = "fill (hkdf_stream P key ?th infoPairConfirm) 32"
  have c: "PairConfirm P key ?th = Inr ?c" using key by (simp add: PairConfirm_def DeriveKey_ok)
  have len: "knownType TypePairConfirm" "length ?c \<le> 4096" by (simp_all add: knownType_def)
  have bd: "unat (s_sendSeq (r_Session res)) < 2 ^ 64 - 1" using new by simp
  obtain a1 p1 where d: "deliver P (Some f) TypePairConfirm ?c (r_Session res) peer = (Inr (TypePairConfirm, ?c), a1, p1)"
    "in_sync P a1 p1"
    by (rule deliver_in_sync [OF sync len bd])
  then obtain out where out: "session_Seal P (Some f) TypePairConfirm ?c (r_Session res) = (Inr out, a1)"
    "session_Open P out peer = (Inr (TypePairConfirm, ?c), p1)"
    by (auto simp: deliver_def split: prod.splits sum.splits)
  obtain echo p2 a2 where echo: "session_Seal P (Some g) TypePairConfirm ?c p1 = (Inr echo, p2)"
    "session_Open P echo a1 = (Inr (TypePairConfirm, ?c), a2)"
    by (rule Seal_then_Open [OF in_sync_sym [OF d(2)] len])
  have "VerifyPairConfirm P key ?th ?c" by (simp add: VerifyPairConfirm_def c)
  then have "confirm_loop P key ?th [Inr echo] a1 = (Inr (), a2)" using echo(2) by simp
  then have "confirmPairing P (Some f) False [Inr echo] res key = (Inr (), a2, [out])"
    using out(1) by (simp only: confirmPairing_def confirmPairing_shared_def SealPairConfirm_def c sum.case prod.case if_False)
  with out(2) echo(1) that show thesis by blast
qed

section \<open>Names and announcements\<close>

lemma dropConn_effect:
  assumes "m_heap m i = Some c" "\<not> c_done c"
  shows "m_heap (dropConn i m) = (m_heap m)(i \<mapsto> (conn_close c)\<lparr>c_drop := NotDropping\<rparr>)"
    and "m_conns (dropConn i m) = (if m_conns m (c_fp c) = Some i then (m_conns m)(c_fp c := None) else m_conns m)"
    and "m_byName (dropConn i m) =
      (if m_conns m (c_fp c) = Some i \<and> m_byName m (c_name c) = Some i then (m_byName m)(c_name c := None) else m_byName m)"
    and "m_events (dropConn i m) =
      m_events (if c_announced c
        then emit \<lparr>e_Type = EventPeerDisconnected, e_Peer = c_name c, e_Fingerprint = c_fp c,
                   e_Text = NoText, e_Trust = c_trust c, e_Path = c_path c\<rparr> m
        else m)"
  using assms
  by (simp_all add: dropConn_def drop_emit_def drop_unregister_def drop_begin_def unregister_def conn_at_def Let_def)
    (simp add: emit_def)

text \<open>
  a name is not an address. A peer with another key that presents the name of a connected peer
  takes the name over: messages sent to the name go to the newcomer, and once the newcomer
  disconnects the name is unknown, although the first peer's connection is still open and current.
\<close>

theorem name_takeover:
  assumes ok: "manager_ok m" and old: "m_conns m fp = Some i" "m_heap m i = Some d" "c_name d = name" "live d"
    and new: "fresh_conn fp' c" "c_name c = name" "fp' \<noteq> fp" "m_conns m fp' = None"
  shows "\<exists>k. m_byName (enroll c m) name = Some k \<and> m_heap (enroll c m) k = Some c \<and> k \<noteq> i \<and>
    mgr_Send P rnd name msg (enroll c m) = send_chat P rnd k msg (enroll c m) \<and>
    mgr_Send P rnd name msg (dropConn k (enroll c m)) = (Inl (MNotConnected name), dropConn k (enroll c m)) \<and>
    m_conns (dropConn k (enroll c m)) fp = Some i \<and> m_heap (dropConn k (enroll c m)) i = Some d \<and> live d"
proof -
  let ?k = "m_next m" and ?m1 = "enroll c m"
  have c: "c_fp c = fp'" "live c" using new(1) by (simp_all add: fresh_conn_def)
  have i: "i \<noteq> ?k" using manager_ok_heap [OF ok old(2)] by simp
  have "register ?k ((set_conn ?k c m)\<lparr>m_next := ?k + 1\<rparr>) =
      (True, (set_conn ?k c m)\<lparr>m_next := ?k + 1, m_conns := (m_conns m)(fp' \<mapsto> ?k), m_byName := (m_byName m)(name \<mapsto> ?k)\<rparr>)"
    using new c by (simp add: register_def conn_at_def)
  then have m1: "m_heap ?m1 = (m_heap m)(?k \<mapsto> c)" "m_conns ?m1 = (m_conns m)(fp' \<mapsto> ?k)"
    "m_byName ?m1 = (m_byName m)(name \<mapsto> ?k)"
    by (simp_all add: enroll_def Let_def)
  have k: "m_heap ?m1 ?k = Some c" "\<not> c_done c" "m_conns ?m1 (c_fp c) = Some ?k" "m_byName ?m1 (c_name c) = Some ?k"
    using m1 c new by (simp_all add: live_def)
  note dr = dropConn_effect [OF k(1,2)]
  show ?thesis
    using m1 dr i old new c k by (intro exI [of _ ?k]) (simp add: mgr_Send_def)
qed

theorem name_takeover_witness:
  "\<exists>a t k. newSession demo_prims [1] [2] True = Inr a \<and> newSession demo_prims [1, 2] [2] True = Inr t \<and>
     m_byName (enroll ((demo_conn ''E'' t)\<lparr>c_name := ''B''\<rparr>) (chatting ''B'' a)) ''B'' = Some k \<and> k \<noteq> 0 \<and>
     m_conns (dropConn k (enroll ((demo_conn ''E'' t)\<lparr>c_name := ''B''\<rparr>) (chatting ''B'' a))) ''B'' = Some 0"
proof -
  obtain a t where st: "newSession demo_prims [1] [2] True = Inr a" "newSession demo_prims [1, 2] [2] True = Inr t"
    by (simp add: newSession_eq)
  have ok: "manager_ok (chatting ''B'' a)"
    using demo_manager_ok(1) demo_conn_fresh [of "''B''" a]
    by (auto simp: manager_ok_def chatting_def fresh_conn_def listed_def) (simp_all add: demo_conn_def)
  have o: "m_conns (chatting ''B'' a) ''B'' = Some 0" "m_heap (chatting ''B'' a) 0 = Some (demo_conn ''B'' a)"
    "c_name (demo_conn ''B'' a) = ''B''" "live (demo_conn ''B'' a)" by (simp_all add: chatting_def demo_conn_def live_def)
  let ?c = "(demo_conn ''E'' t)\<lparr>c_name := ''B''\<rparr>"
  have n: "fresh_conn ''E'' ?c" "c_name ?c = ''B''" "''E'' \<noteq> ''B''" "m_conns (chatting ''B'' a) ''E'' = None"
    by (simp_all add: fresh_conn_def demo_conn_def conn_ok_def live_def chatting_def demo_manager_def NewManager_def)
  from name_takeover [OF ok o n] st show ?thesis by blast
qed

text \<open>
  the user can be told of a connection that is gone. \<open>announce\<close> sets the flag and emits the event
  in two steps; when the connection is torn down in between, the disconnect is reported first and
  the connect last, while no connection to the peer exists any more.
\<close>

theorem announce_race:
  assumes "m_heap m i = Some c" and "live c" and "m_conns m (c_fp c) = Some i" and "\<not> c_announced c"
    and "length (m_events m) + 2 \<le> eventQueue"
    and "announce_check i m = (True, m1)" and "m2 = announce_emit i (dropConn i m1)"
  shows "(\<exists>x y. m_events m2 = m_events m @ [x, y] \<and> e_Type x = EventPeerDisconnected \<and> e_Type y = EventPeerConnected \<and>
      e_Fingerprint y = c_fp c) \<and> m_conns m2 (c_fp c) = None \<and> c_done (conn_at m2 i)"
proof -
  let ?c = "c\<lparr>c_announced := True\<rparr>"
  have m1: "m1 = set_conn i ?c m" using assms(1-4,6) by (simp add: announce_check_def live_def)
  have h: "m_heap m1 i = Some ?c" "\<not> c_done ?c" using m1 assms(2) by (simp_all add: live_def)
  show ?thesis
    unfolding assms(7) using dropConn_effect [OF h] m1 assms(3,5)
    by (simp add: announce_emit_def Let_def conn_at_def) (simp add: emit_def)
qed

theorem announce_race_witness:
  "\<exists>a m1. newSession demo_prims [1] [2] True = Inr a \<and> announce_check 0 (chatting ''B'' a) = (True, m1) \<and>
     m_conns (announce_emit 0 (dropConn 0 m1)) ''B'' = None \<and>
     (\<exists>x y. m_events (announce_emit 0 (dropConn 0 m1)) = [x, y] \<and> e_Type y = EventPeerConnected)"
proof -
  obtain a where a: "newSession demo_prims [1] [2] True = Inr a" by (rule demo_sessions)
  let ?c = "demo_conn ''B'' a" and ?m = "chatting ''B'' a"
  have h: "m_heap ?m 0 = Some ?c" "live ?c" "m_conns ?m (c_fp ?c) = Some 0" "\<not> c_announced ?c"
    "length (m_events ?m) + 2 \<le> eventQueue" "m_events ?m = []" "c_fp ?c = ''B''"
    by (simp_all add: chatting_def demo_conn_def live_def demo_manager_def NewManager_def)
  obtain m1 where m1: "announce_check 0 ?m = (True, m1)"
    using h by (simp add: announce_check_def live_def)
  from announce_race [OF h(1-5) m1 refl] a m1 h(6,7) show ?thesis by auto
qed

end
