(* ===== verification/PairingFlow.thy ===== *)
theory PairingFlow
  imports ManagerFlows HandshakeProps
begin

text \<open>
  Two session managers on one connection: the handshake messages and the pairing confirmations that
  each of them sends are what the other receives.
\<close>

section \<open>Confirmations that cross\<close>

lemma in_sync_after_seal:
  assumes "in_sync P a b" "s_sendSeq a = 0" "length pt \<le> 4096" "session_Seal P (Some f) t pt a = (Inr buf, a1)"
  shows "in_sync P a1 b"
proof -
  have ok: "session_ok P a" and ah: "ahead (s_recvWin b) (s_sendSeq a)" using assms(1) by (simp_all add: in_sync_def)
  have a1: "a1 = (presend P a)\<lparr>s_sendSeq := s_sendSeq a + 1\<rparr>" "presend P a = a"
    using Seal_ok [OF ok assms(3), of f t] assms(2,4) by (auto simp: presend_def rotates_def)
  have "ahead (s_recvWin b) (s_sendSeq a1)" using ah a1 assms(2) by (auto simp: ahead_def split: option.splits)
  then show ?thesis using assms(1) a1 session_ok_presend [OF ok] by (simp add: in_sync_def session_ok_def)
qed

lemma Open_sealed:
  assumes "in_sync P a b" "knownType t" "length pt \<le> 4096" "session_Seal P (Some f) t pt a = (Inr buf, a1)"
  obtains b1 where "session_Open P buf b = (Inr (t, pt), b1)"
  by (rule Seal_then_Open [OF assms(1-3), of f]) (use assms(4) that in simp)

text \<open>
  Both ends hold the key: each sends its confirmation and then accepts the other's, and the
  sessions are still in step.
\<close>

lemma crossed_confirmations:
  assumes sync: "in_sync P (r_Session rA) (r_Session rB)" and new: "s_sendSeq (r_Session rA) = 0" "s_sendSeq (r_Session rB) = 0"
    and key: "key \<noteq> []" "r_Transcript rA \<noteq> []" "r_Transcript rB = r_Transcript rA"
  obtains outA outB sA sB where
    "confirmPairing P (Some f) False [Inr outB] rA key = (Inr (), sA, [outA])"
    "confirmPairing P (Some g) False [Inr outA] rB key = (Inr (), sB, [outB])"
proof -
  let ?a = "r_Session rA" and ?b = "r_Session rB" and ?th = "r_Transcript rA"
  let ?c = "fill (hkdf_stream P key ?th infoPairConfirm) 32"
  have c: "PairConfirm P key ?th = Inr ?c" using key by (simp add: PairConfirm_def DeriveKey_ok)
  then have v: "VerifyPairConfirm P key ?th ?c" by (simp add: VerifyPairConfirm_def)
  have len: "knownType TypePairConfirm" "length ?c \<le> 4096" by (simp_all add: knownType_def)
  obtain outA a1 where sA: "session_Seal P (Some f) TypePairConfirm ?c ?a = (Inr outA, a1)"
    by (rule Seal_then_Open [OF sync len])
  obtain outB b1 where sB: "session_Seal P (Some g) TypePairConfirm ?c ?b = (Inr outB, b1)"
    by (rule Seal_then_Open [OF in_sync_sym [OF sync] len])
  have a: "in_sync P a1 ?b" by (rule in_sync_after_seal [OF sync new(1) len(2) sA])
  have b: "in_sync P b1 ?a" by (rule in_sync_after_seal [OF in_sync_sym [OF sync] new(2) len(2) sB])
  obtain a2 where oA: "session_Open P outB a1 = (Inr (TypePairConfirm, ?c), a2)"
    by (rule Open_sealed [OF in_sync_sym [OF a] len sB])
  obtain b2 where oB: "session_Open P outA b1 = (Inr (TypePairConfirm, ?c), b2)"
    by (rule Open_sealed [OF in_sync_sym [OF b] len sA])
  have "confirmPairing P (Some f) False [Inr outB] rA key = (Inr (), a2, [outA])"
    using sA oA v by (simp add: confirmPairing_def confirmPairing_shared_def SealPairConfirm_def c)
  moreover have "confirmPairing P (Some g) False [Inr outA] rB key = (Inr (), b2, [outB])"
    using sB oB v by (simp add: confirmPairing_def confirmPairing_shared_def SealPairConfirm_def c key(3))
  ultimately show thesis by (rule that)
qed

section \<open>Handshakes that cross\<close>

lemma handleInit_result:
  assumes "handleInit P rnd msg h = (Inr (out, r), h')"
  shows "r = None" "h_initiator h' = h_initiator h"
  using assms by (auto simp: handleInit_def deriveShared_def Let_def split: sum.splits prod.splits option.splits if_splits)

lemma responder_stays:
  assumes "HandleMessage P rnd msg h = (Inr (Some out, None), h')" "\<not> h_initiator h"
  shows "\<not> h_initiator h'"
proof -
  have "handleAuthResponder P msg h \<noteq> (Inr (Some out, None), h')"
    by (auto simp: handleAuthResponder_def Let_def split: sum.splits prod.splits option.splits if_splits bool.splits)
  then show ?thesis using assms handleInit_result(2) by (auto simp: HandleMessage_def split: if_splits)
qed

lemma responder_needs_no_entropy:
  assumes "HandleMessage P None msg h = (Inr (None, Some r), h')" "\<not> h_initiator h"
  shows "HandleMessage P rnd msg h = (Inr (None, Some r), h')"
proof -
  have "handleInit P None msg h \<noteq> (Inr (None, Some r), h')" using handleInit_result(1) by blast
  then show ?thesis using assms by (auto simp: HandleMessage_def split: if_splits)
qed

lemma responder_transcript:
  assumes "HandleMessage P rnd msg h = (Inr (None, Some r), h')" "\<not> h_initiator h"
  shows "r_Transcript r \<noteq> []"
proof -
  have "handleInit P rnd msg h \<noteq> (Inr (None, Some r), h')" using handleInit_result(1) by blast
  then have "handleAuthResponder P msg h = (Inr (None, Some r), h')" using assms by (auto simp: HandleMessage_def split: if_splits)
  then show ?thesis by (auto simp: handleAuthResponder_def Let_def split: sum.splits prod.splits option.splits if_splits bool.splits)
qed

text \<open>The messages of an honest run, as the two ends of \<open>runHandshake\<close> exchange them.\<close>

lemma honest_exchange:
  assumes "honest_run P (v_eph eA) (v_eph eB) (v_nonce eA) (v_nonce eB) iA iB = Inr (rA, rB)"
    and "\<And>k. \<not> v_sendFails eA k" "\<And>k. \<not> v_sendFails eB k"
  obtains hA hB msg1 msg2 msg3 where "r_Transcript rB \<noteq> []" "NewHandshaker P (v_eph eA) iA True = Inr hA" "NewHandshaker P (v_eph eB) iB False = Inr hB"
    "\<forall>ins. exchange_initiator P (eA\<lparr>v_recv := Inr msg2 # ins\<rparr>) hA = (Inr (Some rA, ins), [msg1, msg3])"
    "\<forall>ins. exchange_responder P (eB\<lparr>v_recv := Inr msg1 # Inr msg3 # ins\<rparr>) hB = (Inr (Some rB, ins), [msg2])"
proof -
  obtain hA hB msg1 msg2 hB1 msg3 hA1 hB2 where m: "NewHandshaker P (v_eph eA) iA True = Inr hA" "NewHandshaker P (v_eph eB) iB False = Inr hB"
    "InitMessage hA = Inr msg1" "HandleMessage P (v_nonce eB) msg1 hB = (Inr (Some msg2, None), hB1)"
    "HandleMessage P (v_nonce eA) msg2 hA = (Inr (Some msg3, Some rA), hA1)" "HandleMessage P None msg3 hB1 = (Inr (None, Some rB), hB2)"
    using assms(1) unfolding honest_run_def by (auto split: sum.splits prod.splits option.splits)
  have "\<not> h_initiator hB" using m(2) by (auto simp: NewHandshaker_def split: if_splits sum.splits option.splits)
  with m(4) have "\<not> h_initiator hB1" by (rule responder_stays)
  with m(6) have "HandleMessage P (v_nonce eB) msg3 hB1 = (Inr (None, Some rB), hB2)" by (rule responder_needs_no_entropy)
  moreover have "r_Transcript rB \<noteq> []" using m(6) \<open>\<not> h_initiator hB1\<close> by (rule responder_transcript)
  ultimately show thesis using that [OF _ m(1,2), of msg2 msg1 msg3] m(3,4,5) assms(2,3)
    by (simp add: exchange_initiator_def exchange_responder_def payload_def)
qed


section \<open>Admission\<close>

lemma Observe_saved: "\<exists>q lvl s1 fs1. Observe P J no_faults order order' now name addr pub s fs = ((q, lvl, Inr ()), s1, fs1)"
  by (simp add: Observe_def saveLocked_def no_faults_def Let_def split: prod.split)

text \<open>Who is admitted is connected: with the new connection, or with the better one that was there.\<close>

lemma enroll_connects: "m_conns (enroll c m) (c_fp c) \<noteq> None"
  by (auto simp: enroll_def register_def conn_at_def set_conn_def Let_def split: option.split)

lemma enroll_store: "m_store (enroll c m) = m_store m"
  by (auto simp: enroll_def register_def set_conn_def Let_def split: option.split)

lemma admit_connects:
  assumes "v_io env = no_faults"
  obtains m1 where "admit P J env opts res sess m = (Inr (), m1)" "m_conns m1 (r_PeerFingerprint res) \<noteq> None"
    "m_store m1 = fst (snd (Observe P J no_faults (v_order env) (v_saveOrder env) (v_now env) (r_PeerName res) (v_addr env)
      (r_PeerKey res) (m_store m) (m_files m)))"
proof -
  obtain q lvl s1 fs1 where o: "Observe P J no_faults (v_order env) (v_saveOrder env) (v_now env) (r_PeerName res) (v_addr env)
      (r_PeerKey res) (m_store m) (m_files m) = ((q, lvl, Inr ()), s1, fs1)"
    using Observe_saved by blast
  let ?c = "new_conn env opts res sess lvl"
  have "c_fp ?c = r_PeerFingerprint res" by (simp add: new_conn_def)
  then show thesis
    using that enroll_connects [of ?c] o assms by (simp add: admit_def admit_with_def enroll_store warn_changed_def Let_def)
qed

section \<open>Two managers\<close>

lemma honest_messages:
  assumes "ed25519_correct P" "x25519_agrees P"
    and "genuine P iA" "id_Name iA \<noteq> []" "length (id_Name iA) \<le> maxPeerName"
    and "genuine P iB" "id_Name iB \<noteq> []" "length (id_Name iB) \<le> maxPeerName" and "id_pub iA \<noteq> id_pub iB"
    and "v_eph eA = Some fA" "v_nonce eA = Some nA" "v_sendFails eA = (\<lambda>_. False)"
    and "v_eph eB = Some fB" "v_nonce eB = Some nB" "v_sendFails eB = (\<lambda>_. False)"
  obtains rA rB hA hB msg1 msg2 msg3 where
    "r_PeerFingerprint rA = FingerprintOf P (id_pub iB)" "r_PeerFingerprint rB = FingerprintOf P (id_pub iA)"
    "r_PeerName rA = id_Name iB" "r_PeerKey rA = id_pub iB"
    "in_sync P (r_Session rA) (r_Session rB)" "s_sendSeq (r_Session rA) = 0" "s_sendSeq (r_Session rB) = 0"
    "r_Transcript rA \<noteq> []" "r_Transcript rB = r_Transcript rA"
    "NewHandshaker P (v_eph eA) iA True = Inr hA" "NewHandshaker P (v_eph eB) iB False = Inr hB"
    "\<forall>ins. exchange_initiator P (eA\<lparr>v_recv := Inr msg2 # ins\<rparr>) hA = (Inr (Some rA, ins), [msg1, msg3])"
    "\<forall>ins. exchange_responder P (eB\<lparr>v_recv := Inr msg1 # Inr msg3 # ins\<rparr>) hB = (Inr (Some rB, ins), [msg2])"
proof -
  have len: "length (id_Name iA) \<le> 64" "length (id_Name iB) \<le> 64" using assms(5,8) by simp_all
  obtain S th a b where new: "newSession P S th True = Inr a" "newSession P S th False = Inr b"
    and run: "honest_run P (Some fA) (Some fB) (Some nA) (Some nB) iA iB = Inr
       (\<lparr>r_Session = a, r_PeerName = id_Name iB, r_PeerKey = id_pub iB,
         r_PeerFingerprint = FingerprintOf P (id_pub iB), r_Transcript = th\<rparr>,
        \<lparr>r_Session = b, r_PeerName = id_Name iA, r_PeerKey = id_pub iA,
         r_PeerFingerprint = FingerprintOf P (id_pub iA), r_Transcript = th\<rparr>)" (is "_ = Inr (?rA, ?rB)")
    by (rule honest_run_ok [OF assms(1-4) len(1) assms(6,7) len(2) assms(9), of fA fB nA nB])
  have S: "S \<noteq> []" using new(1) by (auto simp: newSession_def DeriveKey_def)
  then have seq: "s_sendSeq (r_Session ?rA) = 0" "s_sendSeq (r_Session ?rB) = 0" using new by (auto simp: newSession_eq)
  have pre: "honest_run P (v_eph eA) (v_eph eB) (v_nonce eA) (v_nonce eB) iA iB = Inr (?rA, ?rB)"
    "\<And>k. \<not> v_sendFails eA k" "\<And>k. \<not> v_sendFails eB k"
    using run assms(10-15) by simp_all
  obtain hA hB msg1 msg2 msg3 where th: "r_Transcript ?rB \<noteq> []" and
    x: "NewHandshaker P (v_eph eA) iA True = Inr hA" "NewHandshaker P (v_eph eB) iB False = Inr hB"
    "\<forall>ins. exchange_initiator P (eA\<lparr>v_recv := Inr msg2 # ins\<rparr>) hA = (Inr (Some ?rA, ins), [msg1, msg3])"
    "\<forall>ins. exchange_responder P (eB\<lparr>v_recv := Inr msg1 # Inr msg3 # ins\<rparr>) hB = (Inr (Some ?rB, ins), [msg2])"
    by (rule honest_exchange [OF pre])
  have sync: "in_sync P (r_Session ?rA) (r_Session ?rB)" using newSession_in_sync [OF new] by simp
  show thesis by (rule that [of ?rA ?rB, OF _ _ _ _ sync seq _ _ x]) (use th in simp_all)
qed

lemma paired_run:
  assumes "ed25519_correct P" "x25519_agrees P"
    and "genuine P (m_id mA)" "id_Name (m_id mA) \<noteq> []" "length (id_Name (m_id mA)) \<le> maxPeerName"
    and "genuine P (m_id mB)" "id_Name (m_id mB) \<noteq> []" "length (id_Name (m_id mB)) \<le> maxPeerName"
    and "id_pub (m_id mA) \<noteq> id_pub (m_id mB)" and "key \<noteq> []"
    and "v_eph eA = Some fA" "v_nonce eA = Some nA" "v_confirm eA = Some cA" "v_io eA = no_faults" "v_sendFails eA = (\<lambda>_. False)"
    and "v_eph eB = Some fB" "v_nonce eB = Some nB" "v_confirm eB = Some cB" "v_io eB = no_faults" "v_sendFails eB = (\<lambda>_. False)"
  shows "\<exists>fromA fromB mA' mB'.
    runHandshake P J (eA\<lparr>v_recv := map Inr fromB\<rparr>) \<lparr>a_Initiator = True, a_PairingKey = key, a_Path = pA\<rparr> mA = (Inr (), fromA, mA') \<and>
    runHandshake P J (eB\<lparr>v_recv := map Inr fromA\<rparr>) \<lparr>a_Initiator = False, a_PairingKey = key, a_Path = pB\<rparr> mB = (Inr (), fromB, mB') \<and>
    m_conns mA' (FingerprintOf P (id_pub (m_id mB))) \<noteq> None \<and> m_conns mB' (FingerprintOf P (id_pub (m_id mA))) \<noteq> None"
proof -
  obtain rA rB hA hB msg1 msg2 msg3 where fp: "r_PeerFingerprint rA = FingerprintOf P (id_pub (m_id mB))"
      "r_PeerFingerprint rB = FingerprintOf P (id_pub (m_id mA))"
    and s: "in_sync P (r_Session rA) (r_Session rB)" "s_sendSeq (r_Session rA) = 0" "s_sendSeq (r_Session rB) = 0"
      "r_Transcript rA \<noteq> []" "r_Transcript rB = r_Transcript rA"
    and x: "NewHandshaker P (v_eph eA) (m_id mA) True = Inr hA" "NewHandshaker P (v_eph eB) (m_id mB) False = Inr hB"
      "\<forall>ins. exchange_initiator P (eA\<lparr>v_recv := Inr msg2 # ins\<rparr>) hA = (Inr (Some rA, ins), [msg1, msg3])"
      "\<forall>ins. exchange_responder P (eB\<lparr>v_recv := Inr msg1 # Inr msg3 # ins\<rparr>) hB = (Inr (Some rB, ins), [msg2])"
    by (rule honest_messages [OF assms(1-9,11,12,15,16,17,20)])
  obtain outA outB sA sB where c: "confirmPairing P (Some cA) False [Inr outB] rA key = (Inr (), sA, [outA])"
    "confirmPairing P (Some cB) False [Inr outA] rB key = (Inr (), sB, [outB])"
    by (rule crossed_confirmations [OF s(1-3) assms(10) s(4,5)])
  let ?eA = "eA\<lparr>v_recv := map Inr [msg2, outB]\<rparr>" and ?eB = "eB\<lparr>v_recv := map Inr [msg1, msg3, outA]\<rparr>"
  have io: "v_io ?eA = no_faults" "v_io ?eB = no_faults" using assms(14,19) by simp_all
  obtain mA' where mA': "admit P J ?eA \<lparr>a_Initiator = True, a_PairingKey = key, a_Path = pA\<rparr> rA sA mA = (Inr (), mA')"
    "m_conns mA' (r_PeerFingerprint rA) \<noteq> None" by (rule admit_connects [OF io(1)])
  obtain mB' where mB': "admit P J ?eB \<lparr>a_Initiator = False, a_PairingKey = key, a_Path = pB\<rparr> rB sB mB = (Inr (), mB')"
    "m_conns mB' (r_PeerFingerprint rB) \<noteq> None" by (rule admit_connects [OF io(2)])
  have "runHandshake P J ?eA \<lparr>a_Initiator = True, a_PairingKey = key, a_Path = pA\<rparr> mA = (Inr (), [msg1, msg3, outA], mA')"
    using x(1,3) c(1) mA'(1) assms(10-15) by (simp add: runHandshake_def runHandshake_with_def confirmPairing_def admit_def)
  moreover have "runHandshake P J ?eB \<lparr>a_Initiator = False, a_PairingKey = key, a_Path = pB\<rparr> mB = (Inr (), [msg2, outB], mB')"
    using x(2,4) c(2) mB'(1) assms(10,16-20) by (simp add: runHandshake_def runHandshake_with_def confirmPairing_def admit_def)
  ultimately show ?thesis using mA'(2) mB'(2) fp by fastforce
qed

text \<open>Concrete nodes.\<close>

definition demo_node :: "identity \<Rightarrow> manager" where
  "demo_node i = NewManager i \<lparr>st_path = ''trust.json'', st_peers = Map.empty\<rparr> Map.empty"

definition demo_hs :: "byte \<Rightarrow> hs_env" where
  "demo_hs n = \<lparr>v_eph = Some (\<lambda>_. n), v_nonce = Some (\<lambda>_. n + 2), v_confirm = Some (\<lambda>_. 8), v_recv = [],
     v_sendFails = (\<lambda>_. False), v_addr = ''10.0.0.1:9'', v_now = 1, v_order = [], v_saveOrder = [], v_io = no_faults\<rparr>"

lemma demo_nodes:
  obtains iA iB where "Generate demo_prims (Some (\<lambda>_. 1)) ''alice'' = Inr iA" "Generate demo_prims (Some (\<lambda>_. 2)) ''bob'' = Inr iB"
    "genuine demo_prims (m_id (demo_node iA))" "id_Name (m_id (demo_node iA)) \<noteq> []" "length (id_Name (m_id (demo_node iA))) \<le> maxPeerName"
    "genuine demo_prims (m_id (demo_node iB))" "id_Name (m_id (demo_node iB)) \<noteq> []" "length (id_Name (m_id (demo_node iB))) \<le> maxPeerName"
    "id_pub (m_id (demo_node iA)) \<noteq> id_pub (m_id (demo_node iB))" "[9 :: byte] \<noteq> []"
  by (rule demo_ids, rule that) (simp_all add: demo_node_def NewManager_def)

lemma demo_hs_values:
  "v_eph (demo_hs k) = Some (\<lambda>_. k)" "v_nonce (demo_hs k) = Some (\<lambda>_. k + 2)" "v_confirm (demo_hs k) = Some (\<lambda>_. 8)"
  "v_io (demo_hs k) = no_faults" "v_sendFails (demo_hs k) = (\<lambda>_. False)"
  by (simp_all add: demo_hs_def)

lemma demo_paired:
  obtains i sent m1 fromB where "runHandshake demo_prims demo_json_peers ((demo_hs 3)\<lparr>v_recv := map Inr fromB\<rparr>)
    \<lparr>a_Initiator = True, a_PairingKey = [9], a_Path = PathRelay\<rparr> (demo_node i) = (Inr (), sent, m1)"
proof -
  obtain iA iB where n: "Generate demo_prims (Some (\<lambda>_. 1)) ''alice'' = Inr iA" "Generate demo_prims (Some (\<lambda>_. 2)) ''bob'' = Inr iB"
    "genuine demo_prims (m_id (demo_node iA))" "id_Name (m_id (demo_node iA)) \<noteq> []" "length (id_Name (m_id (demo_node iA))) \<le> maxPeerName"
    "genuine demo_prims (m_id (demo_node iB))" "id_Name (m_id (demo_node iB)) \<noteq> []" "length (id_Name (m_id (demo_node iB))) \<le> maxPeerName"
    "id_pub (m_id (demo_node iA)) \<noteq> id_pub (m_id (demo_node iB))" "[9 :: byte] \<noteq> []" by (rule demo_nodes)
  from paired_run [OF demo_ed25519 demo_x25519 n(3-10) demo_hs_values [of 3] demo_hs_values [of 4], of demo_json_peers PathRelay PathRelay] that
  show thesis by blast
qed

section \<open>Properties\<close>

text \<open>
  an invite code connects. Two nodes with different identities and the same pairing key, one the
  initiator, run \<open>runHandshake\<close> on the two ends of a connection: when each receives exactly what the
  other sends, both calls succeed, each node has confirmed that the other holds the code, and each
  is connected to the other's fingerprint.
\<close>

theorem invite_code_connects:
  assumes "ed25519_correct P" "x25519_agrees P"
    and "genuine P (m_id mA)" "id_Name (m_id mA) \<noteq> []" "length (id_Name (m_id mA)) \<le> maxPeerName"
    and "genuine P (m_id mB)" "id_Name (m_id mB) \<noteq> []" "length (id_Name (m_id mB)) \<le> maxPeerName"
    and "id_pub (m_id mA) \<noteq> id_pub (m_id mB)" and "key \<noteq> []"
    and "v_eph eA = Some fA" "v_nonce eA = Some nA" "v_confirm eA = Some cA" "v_io eA = no_faults" "v_sendFails eA = (\<lambda>_. False)"
    and "v_eph eB = Some fB" "v_nonce eB = Some nB" "v_confirm eB = Some cB" "v_io eB = no_faults" "v_sendFails eB = (\<lambda>_. False)"
  shows "\<exists>fromA fromB mA' mB'.
    runHandshake P J (eA\<lparr>v_recv := map Inr fromB\<rparr>) \<lparr>a_Initiator = True, a_PairingKey = key, a_Path = pA\<rparr> mA = (Inr (), fromA, mA') \<and>
    runHandshake P J (eB\<lparr>v_recv := map Inr fromA\<rparr>) \<lparr>a_Initiator = False, a_PairingKey = key, a_Path = pB\<rparr> mB = (Inr (), fromB, mB') \<and>
    m_conns mA' (FingerprintOf P (id_pub (m_id mB))) \<noteq> None \<and> m_conns mB' (FingerprintOf P (id_pub (m_id mA))) \<noteq> None"
  by (rule paired_run [OF assms])

theorem invite_code_connects_witness:
  "\<exists>iA iB fromA fromB mA' mB'. Generate demo_prims (Some (\<lambda>_. 1)) ''alice'' = Inr iA \<and> Generate demo_prims (Some (\<lambda>_. 2)) ''bob'' = Inr iB \<and>
     runHandshake demo_prims demo_json_peers ((demo_hs 3)\<lparr>v_recv := map Inr fromB\<rparr>) \<lparr>a_Initiator = True, a_PairingKey = [9], a_Path = PathRelay\<rparr>
       (demo_node iA) = (Inr (), fromA, mA') \<and>
     runHandshake demo_prims demo_json_peers ((demo_hs 4)\<lparr>v_recv := map Inr fromA\<rparr>) \<lparr>a_Initiator = False, a_PairingKey = [9], a_Path = PathRelay\<rparr>
       (demo_node iB) = (Inr (), fromB, mB') \<and> m_conns mA' (FingerprintOf demo_prims (id_pub iB)) \<noteq> None"
proof -
  obtain iA iB where n: "Generate demo_prims (Some (\<lambda>_. 1)) ''alice'' = Inr iA" "Generate demo_prims (Some (\<lambda>_. 2)) ''bob'' = Inr iB"
    "genuine demo_prims (m_id (demo_node iA))" "id_Name (m_id (demo_node iA)) \<noteq> []" "length (id_Name (m_id (demo_node iA))) \<le> maxPeerName"
    "genuine demo_prims (m_id (demo_node iB))" "id_Name (m_id (demo_node iB)) \<noteq> []" "length (id_Name (m_id (demo_node iB))) \<le> maxPeerName"
    "id_pub (m_id (demo_node iA)) \<noteq> id_pub (m_id (demo_node iB))" "[9 :: byte] \<noteq> []" by (rule demo_nodes)
  from invite_code_connects [OF demo_ed25519 demo_x25519 n(3-10) demo_hs_values [of 3] demo_hs_values [of 4],
      of demo_json_peers PathRelay PathRelay] n(1,2)
  show ?thesis by (auto simp: demo_node_def NewManager_def)
qed

text \<open>
  C17: an invite code is enforced. When a connection was made with a pairing key, there are two
  outcomes. Either the call fails, the trust store, its file, the index of connections and the
  connections themselves are as before, and if the handshake itself had succeeded the user is sent a
  security warning that names the peer; or the peer has proved that it holds the code: on the session
  of this handshake, after the own confirmation and the frames before it, a frame opened as a pairing
  confirmation that verifies under the key and the transcript of this handshake.
\<close>

theorem pairing_is_enforced:
  assumes "a_PairingKey opts \<noteq> []" and "runHandshake P J env opts m = (r, sent, m')"
  shows "(\<exists>e. r = Inl e) \<and> untouched m m' \<and>
      (\<forall>hs res ins out. NewHandshaker P (v_eph env) (m_id m) (a_Initiator opts) = Inr hs \<and>
        (if a_Initiator opts then exchange_initiator P env hs else exchange_responder P env hs) = (Inr (Some res, ins), out) \<longrightarrow>
        m' = emit (pairing_warning res) m) \<or>
    pairing_proved P env opts (m_id m) (a_PairingKey opts) (a_PairingKey opts)"
  by (rule pairing_enforced [OF assms(1)]) (use assms(2) in \<open>simp add: runHandshake_def\<close>)

theorem pairing_is_enforced_witness:
  "\<exists>i env hs res out r sent m'. Generate demo_prims (Some (\<lambda>_. 1)) ''alice'' = Inr i \<and>
     NewHandshaker demo_prims (v_eph env) i True = Inr hs \<and> exchange_initiator demo_prims env hs = (Inr (Some res, []), out) \<and>
     runHandshake demo_prims demo_json_peers env \<lparr>a_Initiator = True, a_PairingKey = [9], a_Path = PathRelay\<rparr> (demo_node i) = (r, sent, m') \<and>
     (\<exists>e. r = Inl e) \<and> m_conns m' = Map.empty \<and> m_events m' = [pairing_warning res]"
proof -
  obtain iA iB where n: "Generate demo_prims (Some (\<lambda>_. 1)) ''alice'' = Inr iA" "Generate demo_prims (Some (\<lambda>_. 2)) ''bob'' = Inr iB"
    "genuine demo_prims (m_id (demo_node iA))" "id_Name (m_id (demo_node iA)) \<noteq> []" "length (id_Name (m_id (demo_node iA))) \<le> maxPeerName"
    "genuine demo_prims (m_id (demo_node iB))" "id_Name (m_id (demo_node iB)) \<noteq> []" "length (id_Name (m_id (demo_node iB))) \<le> maxPeerName"
    "id_pub (m_id (demo_node iA)) \<noteq> id_pub (m_id (demo_node iB))" "[9 :: byte] \<noteq> []" by (rule demo_nodes)
  let ?m = "demo_node iA" and ?o = "\<lparr>a_Initiator = True, a_PairingKey = [9], a_Path = PathRelay\<rparr>"
  obtain rA hA msg1 msg2 msg3 where x: "NewHandshaker demo_prims (v_eph (demo_hs 3)) (m_id ?m) True = Inr hA"
    "\<forall>ins. exchange_initiator demo_prims ((demo_hs 3)\<lparr>v_recv := Inr msg2 # ins\<rparr>) hA = (Inr (Some rA, ins), [msg1, msg3])"
    by (rule honest_messages [OF demo_ed25519 demo_x25519 n(3-9) demo_hs_values(1,2,5) [of 3] demo_hs_values(1,2,5) [of 4]])
  let ?env = "(demo_hs 3)\<lparr>v_recv := [Inr msg2]\<rparr>"
  have ex: "exchange_initiator demo_prims ?env hA = (Inr (Some rA, []), [msg1, msg3])" using x(2) by simp
  have new: "NewHandshaker demo_prims (v_eph ?env) (m_id ?m) (a_Initiator ?o) = Inr hA"
    "NewHandshaker demo_prims (v_eph ?env) iA True = Inr hA" using x(1) by (simp_all add: demo_node_def NewManager_def)
  obtain r sent m' where run: "runHandshake demo_prims demo_json_peers ?env ?o ?m = (r, sent, m')" by (metis surj_pair)
  have "\<not> pairing_proved demo_prims ?env ?o (m_id ?m) [9] [9]" using new ex by (simp add: pairing_proved_def)
  with pairing_is_enforced [OF _ run] new(1) ex
  have "\<exists>e. r = Inl e" "m_conns m' = m_conns ?m" "m' = emit (pairing_warning rA) ?m" by (auto simp: untouched_def)
  then have "(\<exists>e. r = Inl e) \<and> m_conns m' = Map.empty \<and> m_events m' = [pairing_warning rA]"
    by (simp add: demo_node_def NewManager_def emit_def)
  with n(1) new(2) ex run show ?thesis by blast
qed

text \<open>
  C16: the enforcement can be passed without the invite code. A peer with an identity of its own
  completes the handshake, opens the confirmation that the other side sends, and seals the same
  bytes as its own confirmation, without any pairing key. The call that required the key
  succeeds: the peer is recorded in the trust store as every authenticated peer is, and registered as a
  connection.
\<close>

theorem reflected_confirmation_admits:
  assumes "ed25519_correct P" "x25519_agrees P"
    and "genuine P (m_id m)" "id_Name (m_id m) \<noteq> []" "length (id_Name (m_id m)) \<le> maxPeerName"
    and "genuine P eve" "id_Name eve \<noteq> []" "length (id_Name eve) \<le> maxPeerName" and "id_pub (m_id m) \<noteq> id_pub eve"
    and "key \<noteq> []"
    and "v_eph eA = Some fA" "v_nonce eA = Some nA" "v_confirm eA = Some cA" "v_io eA = no_faults" "v_sendFails eA = (\<lambda>_. False)"
    and "v_eph eE = Some fE" "v_nonce eE = Some nE" "v_sendFails eE = (\<lambda>_. False)"
  shows "\<exists>hE resE msg1 msg2 msg3 out c s1 echo s2 m'.
    NewHandshaker P (v_eph eE) eve False = Inr hE \<and>
    exchange_responder P (eE\<lparr>v_recv := map Inr [msg1, msg3]\<rparr>) hE = (Inr (Some resE, []), [msg2]) \<and>
    session_Open P out (r_Session resE) = (Inr (TypePairConfirm, c), s1) \<and>
    session_Seal P (Some g) TypePairConfirm c s1 = (Inr echo, s2) \<and>
    runHandshake P J (eA\<lparr>v_recv := map Inr [msg2, echo]\<rparr>) \<lparr>a_Initiator = True, a_PairingKey = key, a_Path = path\<rparr> m =
      (Inr (), [msg1, msg3, out], m') \<and>
    m_conns m' (FingerprintOf P (id_pub eve)) \<noteq> None \<and>
    m_store m' = fst (snd (Observe P J no_faults (v_order eA) (v_saveOrder eA) (v_now eA) (id_Name eve) (v_addr eA)
      (id_pub eve) (m_store m) (m_files m)))"
proof -
  obtain rA rE hA hE msg1 msg2 msg3 where res: "r_PeerFingerprint rA = FingerprintOf P (id_pub eve)" "r_PeerName rA = id_Name eve"
      "r_PeerKey rA = id_pub eve"
    and s: "in_sync P (r_Session rA) (r_Session rE)" "s_sendSeq (r_Session rA) = 0" "s_sendSeq (r_Session rE) = 0" "r_Transcript rA \<noteq> []"
    and x: "NewHandshaker P (v_eph eA) (m_id m) True = Inr hA" "NewHandshaker P (v_eph eE) eve False = Inr hE"
      "\<forall>ins. exchange_initiator P (eA\<lparr>v_recv := Inr msg2 # ins\<rparr>) hA = (Inr (Some rA, ins), [msg1, msg3])"
      "\<forall>ins. exchange_responder P (eE\<lparr>v_recv := Inr msg1 # Inr msg3 # ins\<rparr>) hE = (Inr (Some rE, ins), [msg2])"
    by (rule honest_messages [OF assms(1-9,11,12,15-18)])
  obtain out c s1 echo s2 sA where r: "session_Open P out (r_Session rE) = (Inr (TypePairConfirm, c), s1)"
    "session_Seal P (Some g) TypePairConfirm c s1 = (Inr echo, s2)"
    "confirmPairing P (Some cA) False [Inr echo] rA key = (Inr (), sA, [out])"
    by (rule reflected_confirmation [OF s(1-3) assms(10) s(4)])
  let ?e = "eA\<lparr>v_recv := map Inr [msg2, echo]\<rparr>" and ?o = "\<lparr>a_Initiator = True, a_PairingKey = key, a_Path = path\<rparr>"
  have io: "v_io ?e = no_faults" using assms(14) by simp
  obtain m' where m': "admit P J ?e ?o rA sA m = (Inr (), m')" "m_conns m' (r_PeerFingerprint rA) \<noteq> None"
    "m_store m' = fst (snd (Observe P J no_faults (v_order ?e) (v_saveOrder ?e) (v_now ?e) (r_PeerName rA) (v_addr ?e)
      (r_PeerKey rA) (m_store m) (m_files m)))"
    by (rule admit_connects [OF io])
  have "runHandshake P J ?e ?o m = (Inr (), [msg1, msg3, out], m')"
    using x(1,3) r(3) m'(1) assms(10-15) by (simp add: runHandshake_def runHandshake_with_def confirmPairing_def admit_def)
  moreover have "exchange_responder P (eE\<lparr>v_recv := map Inr [msg1, msg3]\<rparr>) hE = (Inr (Some rE, []), [msg2])" using x(4) by simp
  ultimately show ?thesis using x(2) r(1,2) m'(2,3) res by (intro exI conjI) (assumption | simp)+
qed

theorem reflected_confirmation_admits_witness:
  "\<exists>i eve fromE sent m'. Generate demo_prims (Some (\<lambda>_. 1)) ''alice'' = Inr i \<and> Generate demo_prims (Some (\<lambda>_. 2)) ''bob'' = Inr eve \<and>
     runHandshake demo_prims demo_json_peers ((demo_hs 3)\<lparr>v_recv := map Inr fromE\<rparr>) \<lparr>a_Initiator = True, a_PairingKey = [9], a_Path = PathRelay\<rparr>
       (demo_node i) = (Inr (), sent, m') \<and> m_conns m' (FingerprintOf demo_prims (id_pub eve)) \<noteq> None"
proof -
  obtain iA iB where n: "Generate demo_prims (Some (\<lambda>_. 1)) ''alice'' = Inr iA" "Generate demo_prims (Some (\<lambda>_. 2)) ''bob'' = Inr iB"
    "genuine demo_prims (m_id (demo_node iA))" "id_Name (m_id (demo_node iA)) \<noteq> []" "length (id_Name (m_id (demo_node iA))) \<le> maxPeerName"
    "genuine demo_prims (m_id (demo_node iB))" "id_Name (m_id (demo_node iB)) \<noteq> []" "length (id_Name (m_id (demo_node iB))) \<le> maxPeerName"
    "id_pub (m_id (demo_node iA)) \<noteq> id_pub (m_id (demo_node iB))" "[9 :: byte] \<noteq> []" by (rule demo_nodes)
  have idB: "m_id (demo_node iB) = iB" by (simp add: demo_node_def NewManager_def)
  from reflected_confirmation_admits [OF demo_ed25519 demo_x25519 n(3-5) n(6-9) [unfolded idB] n(10) demo_hs_values [of 3]
      demo_hs_values(1,2,5) [of 4], of "\<lambda>_. 1" demo_json_peers PathRelay] n(1,2)
  show ?thesis by blast
qed

end
