(* ===== verification/Expect.thy ===== *)
theory Expect
  imports Manager
begin

text \<open>
  \<open>internal/connect/expect.go\<close>: the rendezvous in flight, by the source address their peers may
  come from. The options of an entry are of any type here; the race that registers them supplies
  its own. A registry may be missing (\<open>nil\<close> in the source): \<^const>\<open>None\<close>.
\<close>

type_synonym 'o expectations = "string \<rightharpoonup> 'o"

definition NewExpectations :: "'o expectations" where
  "NewExpectations = Map.empty"

definition Hook :: "'o expectations option \<Rightarrow> string option \<Rightarrow> 'o option" where
  "Hook e remoteAddr =
     (case (e, remoteAddr) of
        (Some byIP, Some addr) \<Rightarrow> (case SplitHostPort addr of None \<Rightarrow> None | Some (host, _) \<Rightarrow> byIP host)
      | _ \<Rightarrow> None)"

text \<open>The loop of \<open>expect\<close>: empty addresses and addresses that are taken are skipped.\<close>

fun expect_loop :: "'o \<Rightarrow> string list \<Rightarrow> 'o expectations \<Rightarrow> string list \<Rightarrow> 'o expectations \<times> string list" where
  "expect_loop opts [] byIP added = (byIP, added)"
| "expect_loop opts (ip # ips) byIP added =
     (if ip = [] then expect_loop opts ips byIP added
      else if byIP ip \<noteq> None then expect_loop opts ips byIP added
      else expect_loop opts ips (byIP(ip \<mapsto> opts)) (added @ [ip]))"

text \<open>
  \<open>expect\<close> gives the registry and what the returned function will withdraw; the function itself is
  \<open>withdraw\<close>.
\<close>

definition expect :: "string list \<Rightarrow> 'o \<Rightarrow> 'o expectations option \<Rightarrow> 'o expectations option \<times> string list" where
  "expect ips opts e =
     (case e of None \<Rightarrow> (None, [])
      | Some byIP \<Rightarrow>
        if length ips = 0 then (Some byIP, [])
        else case expect_loop opts ips byIP [] of (byIP1, added) \<Rightarrow> (Some byIP1, added))"

definition withdraw :: "string list \<Rightarrow> 'o expectations option \<Rightarrow> 'o expectations option" where
  "withdraw added e = map_option (fold (\<lambda>ip byIP. byIP(ip := None)) added) e"

fun peerIPs_loop :: "string list \<Rightarrow> string list \<Rightarrow> string list" where
  "peerIPs_loop out [] = out"
| "peerIPs_loop out (addr # rest) =
     (if addr = [] then peerIPs_loop out rest
      else
        let host = (case SplitHostPort addr of None \<Rightarrow> addr | Some (h, _) \<Rightarrow> h)
        in if host = [] then peerIPs_loop out rest
           else if host \<in> set out then peerIPs_loop out rest
           else peerIPs_loop (out @ [host]) rest)"

definition peerIPs :: "string \<Rightarrow> string list \<Rightarrow> string list" where
  "peerIPs observed candidates = peerIPs_loop [] (observed # candidates)"

section \<open>Lemmas\<close>

lemma peerIPs_loop_set:
  "set (peerIPs_loop out addrs) = set out \<union> {addrIP a |a. a \<in> set addrs \<and> a \<noteq> [] \<and> addrIP a \<noteq> []}"
  by (induction out addrs rule: peerIPs_loop.induct) (auto simp: addrIP_def Let_def)

lemma peerIPs_loop_distinct: "distinct out \<Longrightarrow> distinct (peerIPs_loop out addrs)"
  by (induction out addrs rule: peerIPs_loop.induct) (auto simp: Let_def)

lemma expect_loop_added:
  assumes "expect_loop opts ips byIP added = (byIP1, added1)"
  obtains new where "added1 = added @ new" "distinct new" "\<forall>ip\<in>set new. byIP ip = None \<and> ip \<noteq> []"
    "\<forall>ip. byIP1 ip = (if ip \<in> set new then Some opts else byIP ip)"
    "\<forall>ip\<in>set ips. ip \<noteq> [] \<longrightarrow> byIP1 ip \<noteq> None"
proof -
  have "\<exists>new. added1 = added @ new \<and> distinct new \<and> (\<forall>ip\<in>set new. byIP ip = None \<and> ip \<noteq> []) \<and>
    (\<forall>ip. byIP1 ip = (if ip \<in> set new then Some opts else byIP ip)) \<and> (\<forall>ip\<in>set ips. ip \<noteq> [] \<longrightarrow> byIP1 ip \<noteq> None)"
    using assms
  proof (induction opts ips byIP added rule: expect_loop.induct)
    case (2 opts ip ips byIP added)
    show ?case
    proof (cases "ip = [] \<or> byIP ip \<noteq> None")
      case True
      then have "expect_loop opts ips byIP added = (byIP1, added1)" using 2(4) by (auto split: if_splits)
      then show ?thesis using 2(1,2) True by (metis (no_types, lifting) set_ConsD)
    next
      case False
      then have "expect_loop opts ips (byIP(ip \<mapsto> opts)) (added @ [ip]) = (byIP1, added1)" using 2(4) by simp
      then obtain new where n: "added1 = (added @ [ip]) @ new" "distinct new"
        "\<forall>j\<in>set new. (byIP(ip \<mapsto> opts)) j = None \<and> j \<noteq> []"
        "\<forall>j. byIP1 j = (if j \<in> set new then Some opts else (byIP(ip \<mapsto> opts)) j)" "\<forall>j\<in>set ips. j \<noteq> [] \<longrightarrow> byIP1 j \<noteq> None"
        using 2(3) False by blast
      have "ip \<notin> set new" using n(3) by auto
      then show ?thesis using n False by (intro exI [of _ "ip # new"]) (auto split: if_splits)
    qed
  qed auto
  with that show thesis by blast
qed

lemma withdraw_apply: "fold (\<lambda>ip byIP. byIP(ip := None)) added byIP ip = (if ip \<in> set added then None else byIP ip)"
  by (induction added arbitrary: byIP) auto


section \<open>Several rendezvous at once\<close>

text \<open>
  A registry shared by several races, each with a number: \<open>rg_added\<close> is what the function returned
  to a race will withdraw, while the race has not called it.
\<close>

record registry =
  rg_byIP :: "nat expectations"
  rg_added :: "nat \<rightharpoonup> string list"

datatype exp_op = ExExpect nat "string list" | ExWithdraw nat

fun exp_step :: "exp_op \<Rightarrow> registry \<Rightarrow> registry" where
  "exp_step (ExExpect r ips) g =
     (if rg_added g r \<noteq> None then g
      else case expect ips r (Some (rg_byIP g)) of
             (Some byIP, added) \<Rightarrow> g\<lparr>rg_byIP := byIP, rg_added := (rg_added g)(r \<mapsto> added)\<rparr>
           | _ \<Rightarrow> g)"
| "exp_step (ExWithdraw r) g =
     (case rg_added g r of None \<Rightarrow> g
      | Some added \<Rightarrow>
        (case withdraw added (Some (rg_byIP g)) of
           Some byIP \<Rightarrow> g\<lparr>rg_byIP := byIP, rg_added := (rg_added g)(r := None)\<rparr>
         | None \<Rightarrow> g))"

definition new_registry :: registry where
  "new_registry = \<lparr>rg_byIP = NewExpectations, rg_added = Map.empty\<rparr>"

definition registry_ok :: "registry \<Rightarrow> bool" where
  "registry_ok g \<longleftrightarrow> (\<forall>ip r. rg_byIP g ip = Some r \<longleftrightarrow> (\<exists>l. rg_added g r = Some l \<and> ip \<in> set l))"

lemma expect_registers:
  assumes "registry_ok g" "rg_added g r = None"
  obtains l where "exp_step (ExExpect r ips) g = g\<lparr>rg_byIP := (\<lambda>ip. if ip \<in> set l then Some r else rg_byIP g ip), rg_added := (rg_added g)(r \<mapsto> l)\<rparr>"
    "\<forall>ip\<in>set l. rg_byIP g ip = None" "\<forall>ip\<in>set ips. ip \<noteq> [] \<and> rg_byIP g ip = None \<longrightarrow> ip \<in> set l"
proof (cases "ips = []")
  case True
  have "(\<lambda>ip. if ip \<in> set [] then Some r else rg_byIP g ip) = rg_byIP g" by simp
  then show thesis using that [of "[]"] True assms(2) by (simp add: expect_def)
next
  case False
  obtain byIP added where e: "expect_loop r ips (rg_byIP g) [] = (byIP, added)" by fastforce
  from expect_loop_added [OF this] obtain new where n: "added = new" "\<forall>ip\<in>set new. rg_byIP g ip = None"
    "\<forall>ip. byIP ip = (if ip \<in> set new then Some r else rg_byIP g ip)" "\<forall>ip\<in>set ips. ip \<noteq> [] \<longrightarrow> byIP ip \<noteq> None"
    by (metis append_Nil)
  have "byIP = (\<lambda>ip. if ip \<in> set new then Some r else rg_byIP g ip)" using n(3) by auto
  then have "exp_step (ExExpect r ips) g =
      g\<lparr>rg_byIP := (\<lambda>ip. if ip \<in> set new then Some r else rg_byIP g ip), rg_added := (rg_added g)(r \<mapsto> new)\<rparr>"
    using False assms(2) e n(1) by (simp add: expect_def)
  moreover have "\<forall>ip\<in>set ips. ip \<noteq> [] \<and> rg_byIP g ip = None \<longrightarrow> ip \<in> set new" using n(3,4) by metis
  ultimately show thesis using that [of new] n(2) by blast
qed

lemma withdraw_removes:
  assumes "rg_added g r = Some l"
  shows "exp_step (ExWithdraw r) g = g\<lparr>rg_byIP := (\<lambda>ip. if ip \<in> set l then None else rg_byIP g ip), rg_added := (rg_added g)(r := None)\<rparr>"
proof -
  have "fold (\<lambda>ip byIP. byIP(ip := None)) l (rg_byIP g) = (\<lambda>ip. if ip \<in> set l then None else rg_byIP g ip)"
    by (rule ext) (rule withdraw_apply)
  then show ?thesis using assms by (simp add: withdraw_def)
qed

lemma exp_step_ok: "registry_ok g \<Longrightarrow> registry_ok (exp_step x g)"
proof (cases x)
  case (ExExpect r ips)
  assume ok: "registry_ok g"
  show ?thesis
  proof (cases "rg_added g r")
    case None
    from expect_registers [OF ok this, of ips] obtain l where
      "exp_step (ExExpect r ips) g = g\<lparr>rg_byIP := (\<lambda>ip. if ip \<in> set l then Some r else rg_byIP g ip), rg_added := (rg_added g)(r \<mapsto> l)\<rparr>"
      "\<forall>ip\<in>set l. rg_byIP g ip = None" .
    then show ?thesis using ok None ExExpect unfolding registry_ok_def by (auto split: if_splits) force+
  next
    case (Some l)
    then show ?thesis using ok ExExpect by simp
  qed
next
  case (ExWithdraw r)
  assume ok: "registry_ok g"
  show ?thesis
  proof (cases "rg_added g r")
    case None
    then show ?thesis using ok ExWithdraw by simp
  next
    case (Some l)
    have "rg_byIP g ip = Some r" if "ip \<in> set l" for ip using ok Some that unfolding registry_ok_def by blast
    then show ?thesis using ok withdraw_removes [OF Some] ExWithdraw Some unfolding registry_ok_def
      by (auto split: if_splits) (metis option.inject)+
  qed
qed

interpretation exp_sys: op_system exp_step registry_ok
  by unfold_locales (rule exp_step_ok)

lemma registry_run: "registry_ok (fold exp_step ops new_registry)"
  by (rule exp_sys.run_inv) (simp add: registry_ok_def new_registry_def NewExpectations_def)


lemma exp_step_idle:
  "rg_added g r = Some l \<Longrightarrow> exp_step (ExExpect r ips) g = g" "rg_added g r = None \<Longrightarrow> exp_step (ExWithdraw r) g = g"
  by simp_all

declare exp_step.simps [simp del]

lemma expectation_kept:
  assumes "g = fold exp_step ops new_registry" and "rg_added g r = Some l" and "SplitHostPort addr = Some (ip, port)" "ip \<in> set l"
    and "list_all (\<lambda>x. x \<noteq> ExWithdraw r) later"
  shows "let h = fold exp_step later g in
    Hook (Some (rg_byIP h)) (Some addr) = Some r \<and>
    (\<forall>a. Hook (Some (rg_byIP (exp_step (ExWithdraw r) h))) a \<noteq> Some r)"
proof -
  have ok: "registry_ok g" using registry_run assms(1) by simp
  have "registry_ok (fold exp_step later g) \<and> rg_added (fold exp_step later g) r = Some l" using ok assms(2,5)
  proof (induction later arbitrary: g)
    case (Cons x later)
    have "rg_added (exp_step x g) r = Some l"
    proof (cases x)
      case (ExExpect s ips)
      show ?thesis
      proof (cases "rg_added g s")
        case None
        then have "s \<noteq> r" using Cons.prems(2) by auto
        with expect_registers [OF Cons.prems(1) None, of ips] show ?thesis using ExExpect Cons.prems(2) by fastforce
      qed (use ExExpect Cons.prems(2) exp_step_idle in simp)
    next
      case (ExWithdraw s)
      then show ?thesis using Cons.prems(2,3) withdraw_removes [of g s] exp_step_idle [of g s] by (cases "rg_added g s") auto
    qed
    then show ?case using Cons exp_step_ok by simp
  qed simp
  then have h: "registry_ok (fold exp_step later g)" "rg_added (fold exp_step later g) r = Some l" by simp_all
  have "registry_ok (exp_step (ExWithdraw r) (fold exp_step later g))" by (rule exp_step_ok [OF h(1)])
  moreover have "rg_added (exp_step (ExWithdraw r) (fold exp_step later g)) r = None"
    using withdraw_removes [OF h(2)] by simp
  ultimately have "rg_byIP (exp_step (ExWithdraw r) (fold exp_step later g)) ip \<noteq> Some r" for ip
    unfolding registry_ok_def by (metis option.distinct(1))
  moreover have "rg_byIP (fold exp_step later g) ip = Some r" using h assms(4) unfolding registry_ok_def by blast
  ultimately show ?thesis using assms(3) unfolding Let_def by (simp add: Hook_def split: option.split)
qed

section \<open>Properties\<close>

text \<open>
  C23: an expectation belongs to the race that made it. However races register and withdraw, the
  addresses that a race registered lead an accepted connection to its options until this race
  withdraws them; then no address leads to it any more.
\<close>

theorem expectation_is_kept:
  assumes "g = fold exp_step ops new_registry" and "rg_added g r = Some l" and "SplitHostPort addr = Some (ip, port)" "ip \<in> set l"
    and "list_all (\<lambda>x. x \<noteq> ExWithdraw r) later"
  shows "let h = fold exp_step later g in
    Hook (Some (rg_byIP h)) (Some addr) = Some r \<and>
    (\<forall>a. Hook (Some (rg_byIP (exp_step (ExWithdraw r) h))) a \<noteq> Some r)"
  by (rule expectation_kept [OF assms])

theorem expectation_is_kept_witness:
  "let h = fold exp_step [ExExpect 1 [''10.0.0.7''], ExWithdraw 1] (fold exp_step [ExExpect 0 [''10.0.0.7'']] new_registry) in
    Hook (Some (rg_byIP h)) (Some ''10.0.0.7:99'') = Some 0 \<and>
    (\<forall>a. Hook (Some (rg_byIP (exp_step (ExWithdraw 0) h))) a \<noteq> Some 0)"
proof (rule expectation_is_kept [OF refl])
  show "rg_added (fold exp_step [ExExpect 0 [''10.0.0.7'']] new_registry) 0 = Some [''10.0.0.7'']"
    by (simp add: exp_step.simps expect_def new_registry_def NewExpectations_def)
  show "SplitHostPort ''10.0.0.7:99'' = Some (''10.0.0.7'', ''99'')" by (simp add: SplitHostPort_def colon_last_def)
qed simp_all

text \<open>
  two rendezvous whose peers share an address. The second race finds the address taken and does not
  register it; when the first race withdraws, a connection from that address is accepted as an
  unsolicited one, without the pairing key the second race requires, although this race goes on.
\<close>

theorem shared_address_loses_pairing:
  assumes "g = fold exp_step ops new_registry" and "rg_byIP g ip = Some r" "s \<noteq> r" "rg_added g s = None"
    and "SplitHostPort addr = Some (ip, port)"
  shows "let h = fold exp_step [ExExpect s [ip], ExWithdraw r] g in
    rg_added h s \<noteq> None \<and> Hook (Some (rg_byIP h)) (Some addr) = None \<and>
    a_PairingKey (inboundOptions (Some (\<lambda>a. map_option key_options (Hook (Some (rg_byIP h)) (Some a)))) addr) = []"
proof -
  have ok: "registry_ok g" using registry_run assms(1) by simp
  obtain l where l: "rg_added g r = Some l" "ip \<in> set l" using ok assms(2) unfolding registry_ok_def by blast
  obtain k where k: "exp_step (ExExpect s [ip]) g =
      g\<lparr>rg_byIP := (\<lambda>ip. if ip \<in> set k then Some s else rg_byIP g ip), rg_added := (rg_added g)(s \<mapsto> k)\<rparr>"
    by (rule expect_registers [OF ok assms(4)])
  let ?h = "fold exp_step [ExExpect s [ip], ExWithdraw r] g"
  have "rg_byIP ?h ip = None" "rg_added ?h s \<noteq> None"
    using withdraw_removes [of "exp_step (ExExpect s [ip]) g" r l] l k assms(3) by simp_all
  then have "Hook (Some (rg_byIP ?h)) (Some addr) = None" using assms(5) by (simp add: Hook_def)
  then show ?thesis using \<open>rg_added ?h s \<noteq> None\<close> unfolding Let_def by (simp only: inboundOptions_def option.case option.map) simp
qed

theorem shared_address_loses_pairing_witness:
  "let h = fold exp_step [ExExpect 1 [''10.0.0.7''], ExWithdraw 0] (fold exp_step [ExExpect 0 [''10.0.0.7'']] new_registry) in
    rg_added h 1 \<noteq> None \<and> Hook (Some (rg_byIP h)) (Some ''10.0.0.7:99'') = None"
proof -
  let ?g = "fold exp_step [ExExpect 0 [''10.0.0.7'']] new_registry"
  have g: "rg_byIP ?g ''10.0.0.7'' = Some 0" "rg_added ?g 1 = None"
    by (simp_all add: exp_step.simps expect_def new_registry_def NewExpectations_def)
  have "SplitHostPort ''10.0.0.7:99'' = Some (''10.0.0.7'', ''99'')" by (simp add: SplitHostPort_def colon_last_def)
  from shared_address_loses_pairing [OF refl g(1) _ g(2) this] show ?thesis by (simp add: Let_def)
qed

end
