(* ===== verification/Race.thy ===== *)
theory Race
  imports PairingFlow Expect Client
begin

text \<open>
  \<open>Race\<close> of \<open>internal/connect/connect.go\<close>: every path to a peer is attempted at once.

  The state is what the goroutines of one call share; the steps are what they do between two
  synchronisations, in any order. The pairing key is a buffer that all of them read when they confirm
  the pairing and that is overwritten in place: an accepted connection may have read it earlier for
  its own confirmation (\<open>kSeal\<close>) and checks the peer's against what it holds now. \<open>Adopt\<close> is the
  manager's \<open>runHandshake\<close> on the new connection, with any behaviour of the peer and of the network.
\<close>

section \<open>Data\<close>

definition RelayGrace :: int where "RelayGrace = 1500 * millisecond"
definition RaceTimeout :: int where "RaceTimeout = 45 * second"
definition expectLinger :: int where "expectLinger = 10 * second"
definition directDialTimeout :: int where "directDialTimeout = 3 * second"

text \<open>An attempt waits for the grace period (the relay's only), dials, adopts, and is over.\<close>

datatype at_phase = AtGrace | AtDial | AtConn | AtEnd

record attempt =
  at_path :: string
  at_phase :: at_phase

datatype path_error = PeDial | PeWonFirst | PeCtx | PeAdopt mgr_error

datatype race_error = RaceNoManager | RaceEveryPath "(string \<times> path_error) list" | RaceTimedOut

record race =
  rc_attempts :: "attempt list"
  rc_won :: bool \<comment> \<open>the channel \<open>won\<close> is closed\<close>
  rc_errs :: "(string \<times> path_error) list"
  rc_byIP :: "nat expectations option" \<comment> \<open>the registry, with the numbers of the races\<close>
  rc_added :: "string list" \<comment> \<open>what \<open>withdraw\<close> will remove\<close>
  rc_key :: bytes
  rc_inbound :: "bool list" \<comment> \<open>connections accepted for this race; true while the handshake runs\<close>
  rc_done :: bool \<comment> \<open>the channel \<open>done\<close> is closed\<close>
  rc_wiped :: bool \<comment> \<open>the delayed function has run\<close>
  rc_cancelled :: bool \<comment> \<open>\<open>ctx\<close> is done\<close>
  rc_result :: "(race_error + unit) option"
  rc_mgr :: manager

definition race_options :: "pairing \<Rightarrow> string \<Rightarrow> bytes \<Rightarrow> adoptOptions" where
  "race_options p path key = \<lparr>a_Initiator = Initiator p, a_PairingKey = key, a_Path = path\<rparr>"

definition race_attempts :: "bool \<Rightarrow> pairing \<Rightarrow> attempt list" where
  "race_attempts punch p =
     map (\<lambda>_. \<lparr>at_path = PathDirect, at_phase = AtDial\<rparr>) (pr_PeerCandidates p) @
     (if punch \<and> pr_PeerObserved p \<noteq> [] then [\<lparr>at_path = PathPunched, at_phase = AtDial\<rparr>] else []) @
     [\<lparr>at_path = PathRelay, at_phase = AtGrace\<rparr>]"

text \<open>
  \<open>Race\<close> up to its \<open>select\<close>: race number \<open>r\<close>, with or without a punch listener, on the registry
  \<open>e\<close>.
\<close>

definition race_start ::
    "nat \<Rightarrow> bool \<Rightarrow> nat expectations option \<Rightarrow> pairing \<Rightarrow> bytes \<Rightarrow> manager option \<Rightarrow> race_error + race" where
  "race_start r punch e p key mgr =
     (case mgr of None \<Rightarrow> Inl RaceNoManager
      | Some m \<Rightarrow>
        (case expect (peerIPs (pr_PeerObserved p) (map Addr (pr_PeerCandidates p))) r e of
           (e1, added) \<Rightarrow>
             Inr \<lparr>rc_attempts = race_attempts punch p, rc_won = False, rc_errs = [], rc_byIP = e1, rc_added = added, rc_key = key,
                  rc_inbound = [], rc_done = False, rc_wiped = False, rc_cancelled = False, rc_result = None, rc_mgr = m\<rparr>))"

section \<open>Steps\<close>

definition set_phase :: "nat \<Rightarrow> at_phase \<Rightarrow> race \<Rightarrow> race" where
  "set_phase i ph s = s\<lparr>rc_attempts := (rc_attempts s)[i := (rc_attempts s ! i)\<lparr>at_phase := ph\<rparr>]\<rparr>"

definition fail_attempt :: "nat \<Rightarrow> path_error \<Rightarrow> race \<Rightarrow> race" where
  "fail_attempt i e s = (set_phase i AtEnd s)\<lparr>rc_errs := rc_errs s @ [(at_path (rc_attempts s ! i), e)]\<rparr>"

definition in_phase :: "nat \<Rightarrow> at_phase \<Rightarrow> race \<Rightarrow> bool" where
  "in_phase i ph s \<longleftrightarrow> i < length (rc_attempts s) \<and> at_phase (rc_attempts s ! i) = ph"

definition all_ended :: "race \<Rightarrow> bool" where
  "all_ended s \<longleftrightarrow> list_all (\<lambda>a. at_phase a = AtEnd) (rc_attempts s)"

text \<open>Other goroutines leave the entries of this race in the registry as they are.\<close>

definition same_entries :: "nat \<Rightarrow> nat expectations option \<Rightarrow> nat expectations option \<Rightarrow> bool" where
  "same_entries r e e1 \<longleftrightarrow> (\<forall>a. Hook e a = Some r \<longleftrightarrow> Hook e1 a = Some r)"

inductive race_step :: "prims \<Rightarrow> json_peers \<Rightarrow> nat \<Rightarrow> pairing \<Rightarrow> race \<Rightarrow> race \<Rightarrow> bool" for P J r p where
  grace_over: "in_phase i AtGrace s \<Longrightarrow> race_step P J r p s (set_phase i AtDial s)"
| grace_won: "in_phase i AtGrace s \<Longrightarrow> rc_won s \<Longrightarrow> race_step P J r p s (fail_attempt i PeWonFirst s)"
| grace_ctx: "in_phase i AtGrace s \<Longrightarrow> rc_cancelled s \<Longrightarrow> race_step P J r p s (fail_attempt i PeCtx s)"
| dial_ok: "in_phase i AtDial s \<Longrightarrow> race_step P J r p s (set_phase i AtConn s)"
| dial_failed: "in_phase i AtDial s \<Longrightarrow> race_step P J r p s (fail_attempt i PeDial s)"
| adopt_ok:
    "in_phase i AtConn s \<Longrightarrow>
     runHandshake P J env (race_options p (at_path (rc_attempts s ! i)) (rc_key s)) (rc_mgr s) = (Inr u, sent, m) \<Longrightarrow>
     race_step P J r p s ((set_phase i AtEnd s)\<lparr>rc_mgr := m, rc_won := True\<rparr>)"
| adopt_failed:
    "in_phase i AtConn s \<Longrightarrow>
     runHandshake P J env (race_options p (at_path (rc_attempts s ! i)) (rc_key s)) (rc_mgr s) = (Inl e, sent, m) \<Longrightarrow>
     race_step P J r p s ((fail_attempt i (PeAdopt e) s)\<lparr>rc_mgr := m\<rparr>)"
| inbound: "Hook (rc_byIP s) addr = Some r \<Longrightarrow> race_step P J r p s (s\<lparr>rc_inbound := rc_inbound s @ [True]\<rparr>)"
| inbound_ok:
    "i < length (rc_inbound s) \<Longrightarrow> rc_inbound s ! i \<Longrightarrow>
     length kSeal = length (rc_key s) \<Longrightarrow>
     runHandshake_with enroll kSeal (rc_key s) P J env (race_options p PathDirect (rc_key s)) (rc_mgr s) = (Inr u, sent, m) \<Longrightarrow>
     race_step P J r p s (s\<lparr>rc_inbound := (rc_inbound s)[i := False], rc_mgr := m, rc_won := True\<rparr>)"
| inbound_failed:
    "i < length (rc_inbound s) \<Longrightarrow> rc_inbound s ! i \<Longrightarrow>
     length kSeal = length (rc_key s) \<Longrightarrow>
     runHandshake_with enroll kSeal (rc_key s) P J env (race_options p PathDirect (rc_key s)) (rc_mgr s) = (Inl e, sent, m) \<Longrightarrow>
     race_step P J r p s (s\<lparr>rc_inbound := (rc_inbound s)[i := False], rc_mgr := m\<rparr>)"
| attempts_over: "all_ended s \<Longrightarrow> \<not> rc_done s \<Longrightarrow> race_step P J r p s (s\<lparr>rc_done := True\<rparr>)"
| linger_over:
    "rc_done s \<Longrightarrow> \<not> rc_wiped s \<Longrightarrow>
     race_step P J r p s (s\<lparr>rc_byIP := withdraw (rc_added s) (rc_byIP s), rc_key := Zeroise (rc_key s), rc_wiped := True\<rparr>)"
| cancel: "race_step P J r p s (s\<lparr>rc_cancelled := True\<rparr>)"
| ret_won: "rc_result s = None \<Longrightarrow> rc_won s \<Longrightarrow> race_step P J r p s (s\<lparr>rc_result := Some (Inr ()), rc_cancelled := True\<rparr>)"
| ret_failed:
    "rc_result s = None \<Longrightarrow> rc_done s \<Longrightarrow> \<not> rc_won s \<Longrightarrow>
     race_step P J r p s (s\<lparr>rc_result := Some (Inl (RaceEveryPath (rc_errs s))), rc_cancelled := True\<rparr>)"
| ret_timeout: "rc_result s = None \<Longrightarrow> rc_cancelled s \<Longrightarrow> race_step P J r p s (s\<lparr>rc_result := Some (Inl RaceTimedOut)\<rparr>)"
| manager_other: "race_step P J r p s (s\<lparr>rc_mgr := m\<rparr>)"
| registry_other: "same_entries r (rc_byIP s) e \<Longrightarrow> race_step P J r p s (s\<lparr>rc_byIP := e\<rparr>)"

abbreviation race_reaches :: "prims \<Rightarrow> json_peers \<Rightarrow> nat \<Rightarrow> pairing \<Rightarrow> race \<Rightarrow> race \<Rightarrow> bool" where
  "race_reaches P J r p \<equiv> rtranclp (race_step P J r p)"

section \<open>The invariant\<close>

definition race_inv :: "bytes \<Rightarrow> nat \<Rightarrow> race \<Rightarrow> bool" where
  "race_inv key n s \<longleftrightarrow>
     length (rc_attempts s) = n \<and> rc_key s = (if rc_wiped s then Zeroise key else key) \<and>
     (rc_wiped s \<longrightarrow> rc_done s) \<and> (rc_done s \<longrightarrow> all_ended s) \<and>
     (\<not> rc_won s \<longrightarrow> length (rc_errs s) = length (filter (\<lambda>a. at_phase a = AtEnd) (rc_attempts s))) \<and>
     (\<forall>u. rc_result s = Some (Inr u) \<longrightarrow> rc_won s) \<and>
     (\<forall>errs. rc_result s = Some (Inl (RaceEveryPath errs)) \<longrightarrow> rc_done s \<and> length errs = n)"

lemma phase_simps [simp]:
  "rc_won (set_phase i ph s) = rc_won s" "rc_errs (set_phase i ph s) = rc_errs s" "rc_key (set_phase i ph s) = rc_key s"
  "rc_done (set_phase i ph s) = rc_done s" "rc_wiped (set_phase i ph s) = rc_wiped s" "rc_result (set_phase i ph s) = rc_result s"
  "rc_won (fail_attempt i e s) = rc_won s" "rc_errs (fail_attempt i e s) = rc_errs s @ [(at_path (rc_attempts s ! i), e)]"
  "rc_key (fail_attempt i e s) = rc_key s" "rc_done (fail_attempt i e s) = rc_done s" "rc_wiped (fail_attempt i e s) = rc_wiped s"
  "rc_result (fail_attempt i e s) = rc_result s" "length (rc_attempts (set_phase i ph s)) = length (rc_attempts s)"
  "rc_attempts (fail_attempt i e s) = rc_attempts (set_phase i AtEnd s)"
  by (simp_all add: set_phase_def fail_attempt_def)

lemma ended_count:
  assumes "i < length l" "at_phase (l ! i) \<noteq> AtEnd"
  shows "length (filter (\<lambda>a. at_phase a = AtEnd) (l[i := (l ! i)\<lparr>at_phase := ph\<rparr>])) =
    length (filter (\<lambda>a. at_phase a = AtEnd) l) + (if ph = AtEnd then 1 else 0)"
proof -
  have l: "l = take i l @ l ! i # drop (Suc i) l" using assms(1) by (rule id_take_nth_drop)
  have "l[i := x] = take i l @ x # drop (Suc i) l" for x using assms(1) by (rule upd_conv_take_nth_drop)
  then show ?thesis using assms(2) by (subst (3) l) simp
qed

lemma phase_moves:
  assumes "race_inv key n s" "in_phase i ph s" "ph \<noteq> AtEnd"
  shows "\<not> rc_done s" "length (filter (\<lambda>a. at_phase a = AtEnd) (rc_attempts (set_phase i ph1 s))) =
    length (filter (\<lambda>a. at_phase a = AtEnd) (rc_attempts s)) + (if ph1 = AtEnd then 1 else 0)"
proof -
  have i: "i < length (rc_attempts s)" "at_phase (rc_attempts s ! i) \<noteq> AtEnd" using assms(2,3) by (simp_all add: in_phase_def)
  then have "\<not> all_ended s" by (auto simp: all_ended_def list_all_length)
  then show "\<not> rc_done s" using assms(1) by (auto simp: race_inv_def)
  show "length (filter (\<lambda>a. at_phase a = AtEnd) (rc_attempts (set_phase i ph1 s))) =
    length (filter (\<lambda>a. at_phase a = AtEnd) (rc_attempts s)) + (if ph1 = AtEnd then 1 else 0)"
    using ended_count [OF i, of ph1] by (simp add: set_phase_def)
qed


text \<open>An attempt that is not over moves to another phase, or fails, or wins.\<close>

lemma inv_phase:
  assumes "race_inv key n s" "in_phase i ph s" "ph \<noteq> AtEnd" "ph1 \<noteq> AtEnd"
  shows "race_inv key n (set_phase i ph1 s)"
  using assms phase_moves [OF assms(1-3)] by (auto simp: race_inv_def)

lemma inv_fail:
  assumes "race_inv key n s" "in_phase i ph s" "ph \<noteq> AtEnd"
  shows "race_inv key n ((fail_attempt i e s)\<lparr>rc_mgr := m\<rparr>)" "race_inv key n (fail_attempt i e s)"
  using assms phase_moves(1) [OF assms] phase_moves(2) [OF assms, of AtEnd] by (auto simp: race_inv_def)

lemma inv_win:
  assumes "race_inv key n s" "in_phase i ph s" "ph \<noteq> AtEnd"
  shows "race_inv key n ((set_phase i AtEnd s)\<lparr>rc_mgr := m, rc_won := True\<rparr>)"
  using assms(1) phase_moves(1) [OF assms] by (auto simp: race_inv_def all_ended_def)

lemma race_step_inv:
  assumes "race_step P J r p s t" "race_inv key n s"
  shows "race_inv key n t"
  using assms
proof cases
  case (grace_over i)
  then show ?thesis using inv_phase [OF assms(2)] by simp
next
  case (grace_won i)
  then show ?thesis using inv_fail(2) [OF assms(2)] by simp
next
  case (grace_ctx i)
  then show ?thesis using inv_fail(2) [OF assms(2)] by simp
next
  case (dial_ok i)
  then show ?thesis using inv_phase [OF assms(2)] by simp
next
  case (dial_failed i)
  then show ?thesis using inv_fail(2) [OF assms(2)] by simp
next
  case (adopt_ok i env u sent m)
  then show ?thesis using inv_win [OF assms(2) adopt_ok(2)] by simp
next
  case (adopt_failed i env e sent m)
  then show ?thesis using inv_fail(1) [OF assms(2)] by simp
next
  case ret_failed
  then have "length (filter (\<lambda>a. at_phase a = AtEnd) (rc_attempts s)) = n"
    using assms(2) by (auto simp: race_inv_def all_ended_def list_all_iff)
  then show ?thesis using ret_failed assms(2) by (simp add: race_inv_def all_ended_def)
qed (use assms(2) in \<open>simp_all add: race_inv_def all_ended_def\<close>)

interpretation race_sys: step_system "race_step P J r p" "race_inv key n" for P J r p key n
  by unfold_locales (rule race_step_inv)

lemma race_start_inv:
  "race_start r punch e p key (Some m) = Inr s \<Longrightarrow> race_inv key (length (race_attempts punch p)) s"
  by (auto simp: race_start_def race_inv_def race_attempts_def all_ended_def split: prod.splits)


section \<open>How a race is won\<close>

text \<open>
  The step from \<open>s\<close> to \<open>t\<close> is a handshake of this race that succeeded: with the manager of this moment, and
  with the peer's confirmation checked against what the key buffer holds at this moment.
\<close>

definition race_win :: "prims \<Rightarrow> json_peers \<Rightarrow> pairing \<Rightarrow> race \<Rightarrow> race \<Rightarrow> bool" where
  "race_win P J p s t \<longleftrightarrow>
     (\<exists>env path kSeal sent. length kSeal = length (rc_key s) \<and>
        runHandshake_with enroll kSeal (rc_key s) P J env (race_options p path (rc_key s)) (rc_mgr s) = (Inr (), sent, rc_mgr t))"

lemma won_by_handshake:
  assumes "race_step P J r p s t" "\<not> rc_won s" "rc_won t"
  shows "race_win P J p s t"
  using assms
proof cases
  case (adopt_ok i env u sent m)
  then have "runHandshake_with enroll (rc_key s) (rc_key s) P J env (race_options p (at_path (rc_attempts s ! i)) (rc_key s)) (rc_mgr s) =
      (Inr (), sent, rc_mgr t)"
    by (simp add: runHandshake_def race_options_def)
  then show ?thesis unfolding race_win_def by blast
next
  case (inbound_ok i kSeal env u sent m)
  then have "runHandshake_with enroll kSeal (rc_key s) P J env (race_options p PathDirect (rc_key s)) (rc_mgr s) = (Inr (), sent, rc_mgr t)"
    by simp
  with inbound_ok(4) show ?thesis unfolding race_win_def by blast
qed (use assms(2,3) in simp_all)

lemma first_win:
  assumes "race_reaches P J r p s0 s" "\<not> rc_won s0" "rc_won s"
  shows "\<exists>s1 s2. race_reaches P J r p s0 s1 \<and> race_step P J r p s1 s2 \<and> race_reaches P J r p s2 s \<and>
    \<not> rc_won s1 \<and> rc_won s2 \<and> race_win P J p s1 s2"
  using assms
proof (induction rule: rtranclp_induct)
  case (step t u)
  show ?case
  proof (cases "rc_won t")
    case True
    with step obtain s1 s2 where "race_reaches P J r p s0 s1" "race_step P J r p s1 s2" "race_reaches P J r p s2 t"
      "\<not> rc_won s1" "rc_won s2" "race_win P J p s1 s2" by blast
    with step.hyps(2) show ?thesis by (meson rtranclp.rtrancl_into_rtrancl)
  next
    case False
    with step won_by_handshake [OF step.hyps(2)] show ?thesis by blast
  qed
qed simp

section \<open>Expectations of a race\<close>

text \<open>A connection is accepted for this race only while the key is there, and from a registered address.\<close>

definition entry_inv :: "nat \<Rightarrow> race \<Rightarrow> bool" where
  "entry_inv r s \<longleftrightarrow> (\<forall>a. Hook (rc_byIP s) a = Some r \<longrightarrow>
     \<not> rc_wiped s \<and> (\<exists>addr ip port. a = Some addr \<and> SplitHostPort addr = Some (ip, port) \<and> ip \<in> set (rc_added s)))"

lemma Hook_withdraw:
  "Hook (withdraw added e) (Some addr) = Some r \<Longrightarrow> SplitHostPort addr = Some (ip, port) \<Longrightarrow>
   Hook e (Some addr) = Some r \<and> ip \<notin> set added"
  by (auto simp: Hook_def withdraw_def withdraw_apply split: option.splits if_splits)

lemma Hook_SomeD: "Hook e a = Some r \<Longrightarrow> \<exists>addr ip port. a = Some addr \<and> SplitHostPort addr = Some (ip, port)"
  by (auto simp: Hook_def split: option.splits)

lemma entry_step:
  assumes "race_step P J r p s t" "entry_inv r s"
  shows "entry_inv r t"
  using assms
proof cases
  case linger_over
  have "Hook (withdraw (rc_added s) (rc_byIP s)) a \<noteq> Some r" for a
  proof
    assume h: "Hook (withdraw (rc_added s) (rc_byIP s)) a = Some r"
    from Hook_SomeD [OF this] obtain addr ip port where a: "a = Some addr" "SplitHostPort addr = Some (ip, port)" by blast
    from h [unfolded a(1)] a(2) have "Hook (rc_byIP s) (Some addr) = Some r \<and> ip \<notin> set (rc_added s)" by (rule Hook_withdraw)
    then show False using assms(2) a by (auto simp: entry_inv_def)
  qed
  then show ?thesis using linger_over by (simp add: entry_inv_def)
next
  case (registry_other e)
  then show ?thesis using assms(2) by (simp add: entry_inv_def same_entries_def)
qed (use assms(2) in \<open>simp_all add: entry_inv_def set_phase_def fail_attempt_def\<close>)

interpretation entry_sys: step_system "race_step P J r p" "entry_inv r" for P J r p
  by unfold_locales (rule entry_step)

lemma Hook_expect:
  assumes "expect ips r e = (e1, added)" "Hook e1 (Some addr) = Some r" "\<And>a. Hook e a \<noteq> Some r" "SplitHostPort addr = Some (ip, port)"
  shows "ip \<in> set added"
proof (cases e)
  case (Some byIP)
  show ?thesis
  proof (cases "ips = []")
    case False
    obtain b l where x: "expect_loop r ips byIP [] = (b, l)" by fastforce
    then have "e1 = Some b" "added = l" using assms(1) Some False by (auto simp: expect_def)
    moreover from expect_loop_added [OF x] have "\<forall>ip. b ip = (if ip \<in> set l then Some r else byIP ip)" by (metis append_Nil)
    moreover have "byIP ip \<noteq> Some r" using assms(3) [of "Some addr"] assms(4) Some by (simp add: Hook_def)
    ultimately show ?thesis using assms(2,4) by (auto simp: Hook_def split: if_splits)
  qed (use assms Some in \<open>auto simp: expect_def\<close>)
qed (use assms in \<open>auto simp: expect_def Hook_def\<close>)

lemma race_start_entries:
  assumes "race_start r punch e p key (Some m) = Inr s" "\<And>a. Hook e a \<noteq> Some r"
  shows "entry_inv r s"
proof -
  obtain e1 added where x: "expect (peerIPs (pr_PeerObserved p) (map Addr (pr_PeerCandidates p))) r e = (e1, added)" by fastforce
  then have s: "rc_byIP s = e1" "rc_added s = added" "\<not> rc_wiped s" using assms(1) by (auto simp: race_start_def)
  have "\<exists>addr ip port. a = Some addr \<and> SplitHostPort addr = Some (ip, port) \<and> ip \<in> set added" if h: "Hook e1 a = Some r" for a
    using Hook_SomeD [OF h] Hook_expect [OF x _ assms(2)] h by blast
  then show ?thesis using s by (simp add: entry_inv_def)
qed

section \<open>Every attempt can end\<close>

text \<open>What the end of an attempt does not touch.\<close>

definition same_rest :: "race \<Rightarrow> race \<Rightarrow> bool" where
  "same_rest s t \<longleftrightarrow> rc_inbound t = rc_inbound s \<and> rc_key t = rc_key s \<and> rc_wiped t = rc_wiped s \<and> rc_done t = rc_done s \<and>
     rc_byIP t = rc_byIP s \<and> rc_added t = rc_added s \<and> rc_result t = rc_result s"

lemma attempt_can_end:
  assumes "i < length (rc_attempts s)"
  shows "\<exists>t. race_reaches P J r p s t \<and> same_rest s t \<and> rc_attempts t = (rc_attempts s)[i := (rc_attempts s ! i)\<lparr>at_phase := AtEnd\<rparr>]"
proof -
  have rest: "same_rest s (set_phase i ph s)" "same_rest s (fail_attempt i e s)" for ph e s
    by (simp_all add: same_rest_def set_phase_def fail_attempt_def)
  have dial: "race_step P J r p s (fail_attempt i PeDial s)" if "in_phase i AtDial s" for s using that by (rule race_step.dial_failed)
  show ?thesis
  proof (cases "at_phase (rc_attempts s ! i)")
    case AtGrace
    let ?t = "fail_attempt i PeDial (set_phase i AtDial s)"
    have "in_phase i AtGrace s" "in_phase i AtDial (set_phase i AtDial s)" using AtGrace assms by (simp_all add: in_phase_def set_phase_def)
    then have "race_reaches P J r p s ?t" using race_step.grace_over dial by (meson converse_rtranclp_into_rtranclp r_into_rtranclp)
    moreover have "same_rest s ?t" by (simp add: same_rest_def set_phase_def fail_attempt_def)
    ultimately show ?thesis using assms by (intro exI [of _ ?t]) (simp add: set_phase_def fail_attempt_def)
  next
    case AtDial
    then show ?thesis using dial [of s] rest assms
      by (intro exI [of _ "fail_attempt i PeDial s"]) (simp add: in_phase_def r_into_rtranclp set_phase_def)
  next
    case AtConn
    then have ph: "in_phase i AtConn s" using assms by (simp add: in_phase_def)
    obtain q sent m where h: "runHandshake P J undefined (race_options p (at_path (rc_attempts s ! i)) (rc_key s)) (rc_mgr s) = (q, sent, m)"
      by (metis surj_pair)
    show ?thesis
    proof (cases q)
      case (Inl e)
      let ?t = "(fail_attempt i (PeAdopt e) s)\<lparr>rc_mgr := m\<rparr>"
      have "race_step P J r p s ?t" by (rule race_step.adopt_failed [OF ph h [unfolded Inl]])
      then show ?thesis by (intro exI [of _ ?t]) (auto simp: same_rest_def set_phase_def fail_attempt_def)
    next
      case (Inr u)
      let ?t = "(set_phase i AtEnd s)\<lparr>rc_mgr := m, rc_won := True\<rparr>"
      have "race_step P J r p s ?t" by (rule race_step.adopt_ok [OF ph h [unfolded Inr]])
      then show ?thesis by (intro exI [of _ ?t]) (auto simp: same_rest_def set_phase_def)
    qed
  next
    case AtEnd
    then have "(rc_attempts s)[i := (rc_attempts s ! i)\<lparr>at_phase := AtEnd\<rparr>] = rc_attempts s"
      using list_update_id [of "rc_attempts s" i] by (metis attempt.surjective attempt.update_convs(2))
    then show ?thesis by (intro exI [of _ s]) (simp add: same_rest_def)
  qed
qed


lemma same_rest_trans: "same_rest s t \<Longrightarrow> same_rest t u \<Longrightarrow> same_rest s u"
  by (simp add: same_rest_def)

lemma attempts_can_end: "\<exists>t. race_reaches P J r p s t \<and> same_rest s t \<and> all_ended t"
proof -
  have "\<exists>t. race_reaches P J r p s t \<and> same_rest s t \<and> length (rc_attempts t) = length (rc_attempts s) \<and>
      (\<forall>i<k. at_phase (rc_attempts t ! i) = AtEnd)" if "k \<le> length (rc_attempts s)" for k
    using that
  proof (induction k)
    case (Suc k)
    then obtain t where t: "race_reaches P J r p s t" "same_rest s t" "length (rc_attempts t) = length (rc_attempts s)"
      "\<forall>i<k. at_phase (rc_attempts t ! i) = AtEnd" by auto
    have "k < length (rc_attempts t)" using t(3) Suc.prems by simp
    from attempt_can_end [OF this] obtain u where u: "race_reaches P J r p t u" "same_rest t u"
      "rc_attempts u = (rc_attempts t)[k := (rc_attempts t ! k)\<lparr>at_phase := AtEnd\<rparr>]" by blast
    have "\<forall>i<Suc k. at_phase (rc_attempts u ! i) = AtEnd"
      using t(4) \<open>k < length (rc_attempts t)\<close> by (auto simp: u(3) nth_list_update less_Suc_eq)
    then show ?case using t u same_rest_trans by (intro exI [of _ u]) auto
  qed (auto simp: same_rest_def)
  from this [of "length (rc_attempts s)"] show ?thesis by (auto simp: all_ended_def list_all_length)
qed

text \<open>From a state whose key is there: every attempt ends, and then the key is overwritten.\<close>

lemma key_can_be_wiped:
  assumes "\<not> rc_wiped s"
  obtains t where "race_reaches P J r p s t" "rc_wiped t" "all_ended t" "rc_key t = Zeroise (rc_key s)" "rc_inbound t = rc_inbound s"
    "rc_result t = rc_result s"
proof -
  obtain t where t: "race_reaches P J r p s t" "same_rest s t" "all_ended t" using attempts_can_end by blast
  let ?d = "t\<lparr>rc_done := True\<rparr>"
  let ?w = "?d\<lparr>rc_byIP := withdraw (rc_added ?d) (rc_byIP ?d), rc_key := Zeroise (rc_key ?d), rc_wiped := True\<rparr>"
  have "race_reaches P J r p t ?d"
  proof (cases "rc_done t")
    case False
    then show ?thesis using t(3) race_step.attempts_over by blast
  next
    case True
    then have "t\<lparr>rc_done := True\<rparr> = t" by (cases t) simp
    then show ?thesis by simp
  qed
  moreover have "race_step P J r p ?d ?w" by (rule race_step.linger_over) (use t(2) assms in \<open>simp_all add: same_rest_def\<close>)
  ultimately have "race_reaches P J r p s ?w" using t(1) by (meson rtranclp.rtrancl_into_rtrancl rtranclp_trans)
  then show thesis by (rule that) (use t in \<open>simp_all add: same_rest_def all_ended_def\<close>)
qed


section \<open>Properties\<close>

text \<open>
  C21: what a race does with the key and what it reports. In every state that the goroutines of a race
  reach: while an attempt is running the pairing key is intact; once it is overwritten no connection
  is accepted for this race any more; success is reported only if this run had a first
  winning step, a handshake of this race that succeeded with the key buffer of that moment (the
  key, or zeros if it was already overwritten); and failure of every path only when every attempt is
  over and has left an error.
\<close>

theorem race_outcome:
  assumes "race_start r punch e p key (Some m) = Inr s0" and "\<And>a. Hook e a \<noteq> Some r" and "race_reaches P J r p s0 s"
  shows "(\<not> all_ended s \<longrightarrow> rc_key s = key) \<and> (rc_wiped s \<longrightarrow> (\<forall>a. Hook (rc_byIP s) a \<noteq> Some r)) \<and>
    (case rc_result s of
       Some (Inr _) \<Rightarrow> (\<exists>s1 s2. race_reaches P J r p s0 s1 \<and> race_step P J r p s1 s2 \<and> race_reaches P J r p s2 s \<and>
         \<not> rc_won s1 \<and> rc_won s2 \<and> race_win P J p s1 s2 \<and> rc_key s1 = (if rc_wiped s1 then Zeroise key else key))
     | Some (Inl (RaceEveryPath errs)) \<Rightarrow> all_ended s \<and> length errs = length (rc_attempts s)
     | _ \<Rightarrow> True)"
proof -
  note inv = race_sys.reached_inv [OF _ race_start_inv [OF assms(1)], of P J r p]
  have i: "race_inv key (length (race_attempts punch p)) s" by (rule inv [OF assms(3)])
  have e: "entry_inv r s" by (rule entry_sys.reached_inv [OF assms(3) race_start_entries [OF assms(1,2)]])
  define W where "W \<longleftrightarrow> (\<exists>s1 s2. race_reaches P J r p s0 s1 \<and> race_step P J r p s1 s2 \<and> race_reaches P J r p s2 s \<and>
      \<not> rc_won s1 \<and> rc_won s2 \<and> race_win P J p s1 s2 \<and> rc_key s1 = (if rc_wiped s1 then Zeroise key else key))"
  have "W" if "rc_won s"
  proof -
    have "\<not> rc_won s0" using assms(1) by (auto simp: race_start_def split: prod.splits)
    from first_win [OF assms(3) this that] obtain s1 s2 where w: "race_reaches P J r p s0 s1" "race_step P J r p s1 s2"
      "race_reaches P J r p s2 s" "\<not> rc_won s1" "rc_won s2" "race_win P J p s1 s2" by blast
    moreover have "rc_key s1 = (if rc_wiped s1 then Zeroise key else key)" using inv [OF w(1)] by (simp add: race_inv_def)
    ultimately show ?thesis unfolding W_def by blast
  qed
  with i e have "(\<not> all_ended s \<longrightarrow> rc_key s = key) \<and> (rc_wiped s \<longrightarrow> (\<forall>a. Hook (rc_byIP s) a \<noteq> Some r)) \<and>
    (case rc_result s of Some (Inr _) \<Rightarrow> W
     | Some (Inl (RaceEveryPath errs)) \<Rightarrow> all_ended s \<and> length errs = length (rc_attempts s) | _ \<Rightarrow> True)"
    by (auto simp: race_inv_def entry_inv_def split: option.split sum.split race_error.split)
  then show ?thesis unfolding W_def .
qed

text \<open>
  the key is not kept. From every state that a race reaches, it can still return, end its attempts,
  withdraw its expectation and overwrite the key: nothing can bring it into a state where the key
  would stay in memory whatever happens.
\<close>

theorem race_can_finish:
  assumes "race_start r punch e p key (Some m) = Inr s0" and "race_reaches P J r p s0 s"
  shows "\<exists>t. race_reaches P J r p s t \<and> rc_result t \<noteq> None \<and> rc_wiped t \<and> rc_key t = Zeroise key"
proof -
  let ?inv = "race_inv key (length (race_attempts punch p))"
  have i: "?inv s" by (rule race_sys.reached_inv [OF assms(2) race_start_inv [OF assms(1)]])
  obtain t where t: "race_reaches P J r p s t" "rc_wiped t"
  proof (cases "rc_wiped s")
    case False
    then show thesis by (rule key_can_be_wiped) (rule that)
  qed (rule that, rule rtranclp.rtrancl_refl)
  then have k: "rc_key t = Zeroise key" using race_sys.reached_inv [OF t(1) i] by (auto simp: race_inv_def)
  show ?thesis
  proof (cases "rc_result t")
    case None
    let ?c = "t\<lparr>rc_cancelled := True\<rparr>"
    have "race_step P J r p t ?c" by (rule race_step.cancel)
    moreover have "race_step P J r p ?c (?c\<lparr>rc_result := Some (Inl RaceTimedOut)\<rparr>)"
      by (rule race_step.ret_timeout) (simp_all add: None)
    ultimately have "race_reaches P J r p s (?c\<lparr>rc_result := Some (Inl RaceTimedOut)\<rparr>)" using t(1) by auto
    then show ?thesis using t k by (intro exI [of _ "?c\<lparr>rc_result := Some (Inl RaceTimedOut)\<rparr>"]) simp
  qed (use t k in auto)
qed


text \<open>A concrete race: the peer was seen at one address.\<close>

definition demo_pairing :: pairing where
  "demo_pairing = \<lparr>pr_Role = RoleClaimer, pr_PeerCandidates = [], pr_PeerObserved = ''10.0.0.7:99'', pr_Observed = [], pr_PunchIn = 0,
     pr_Ticket = [], pr_Rung = RungTLSDirect\<rparr>"

lemma no_entries: "Hook (Some NewExpectations) a \<noteq> Some (0 :: nat)"
  by (simp add: Hook_def NewExpectations_def split: option.split)

lemma demo_race:
  obtains s where "race_start 0 True (Some NewExpectations) demo_pairing [9] (Some m) = Inr s" "rc_mgr s = m"
    "Hook (rc_byIP s) (Some ''10.0.0.7:99'') = Some 0"
proof -
  have h: "SplitHostPort ''10.0.0.7:99'' = Some (''10.0.0.7'', ''99'')" by (simp add: SplitHostPort_def colon_last_def)
  show thesis using that by (simp add: race_start_def demo_pairing_def peerIPs_def expect_def NewExpectations_def h Hook_def)
qed

lemma relay_wins:
  assumes start: "race_start r punch e p key (Some m) = Inr s0"
    and hs: "runHandshake P J env (race_options p PathRelay key) m = (Inr (), sent, m1)"
  obtains w where "race_reaches P J r p s0 w" "rc_won w" "rc_mgr w = m1" "rc_result w = None"
proof -
  let ?i = "length (rc_attempts s0) - 1" and ?d = "set_phase (length (rc_attempts s0) - 1) AtDial s0"
  let ?c = "set_phase ?i AtConn ?d"
  let ?w = "(set_phase ?i AtEnd ?c)\<lparr>rc_mgr := m1, rc_won := True\<rparr>"
  have s0: "rc_attempts s0 = race_attempts punch p" "rc_key s0 = key" "rc_mgr s0 = m" "rc_result s0 = None"
    using start by (auto simp: race_start_def split: prod.splits)
  have i: "?i < length (rc_attempts s0)" "at_phase (rc_attempts s0 ! ?i) = AtGrace" "at_path (rc_attempts s0 ! ?i) = PathRelay"
    by (simp_all add: s0(1) race_attempts_def nth_append)
  have "race_step P J r p s0 ?d" by (rule race_step.grace_over) (use i in \<open>simp add: in_phase_def\<close>)
  moreover have "race_step P J r p ?d ?c" by (rule race_step.dial_ok) (use i in \<open>simp add: in_phase_def set_phase_def\<close>)
  moreover have "race_step P J r p ?c ?w"
    by (rule race_step.adopt_ok [of _ _ P J env p "()" sent]) (use i s0 hs in \<open>simp_all add: in_phase_def set_phase_def\<close>)
  ultimately have "race_reaches P J r p s0 ?w" by (meson converse_rtranclp_into_rtranclp rtranclp.rtrancl_refl)
  then show thesis by (rule that) (simp_all add: s0(4))
qed

lemma demo_options: "race_options demo_pairing PathRelay [9] = \<lparr>a_Initiator = True, a_PairingKey = [9], a_Path = PathRelay\<rparr>"
  by (simp add: race_options_def demo_pairing_def Initiator_def)

theorem race_outcome_witness:
  "\<exists>i s0 s s1 s2. race_start 0 True (Some NewExpectations) demo_pairing [9] (Some (demo_node i)) = Inr s0 \<and>
     race_reaches demo_prims demo_json_peers 0 demo_pairing s0 s \<and> rc_result s = Some (Inr ()) \<and>
     race_reaches demo_prims demo_json_peers 0 demo_pairing s0 s1 \<and> race_step demo_prims demo_json_peers 0 demo_pairing s1 s2 \<and>
     race_win demo_prims demo_json_peers demo_pairing s1 s2"
proof -
  obtain i sent m1 fromB where h: "runHandshake demo_prims demo_json_peers ((demo_hs 3)\<lparr>v_recv := map Inr fromB\<rparr>)
    \<lparr>a_Initiator = True, a_PairingKey = [9], a_Path = PathRelay\<rparr> (demo_node i) = (Inr (), sent, m1)" by (rule demo_paired)
  obtain s0 where s0: "race_start 0 True (Some NewExpectations) demo_pairing [9] (Some (demo_node i)) = Inr s0"
    by (rule demo_race [of "demo_node i"])
  obtain w where w: "race_reaches demo_prims demo_json_peers 0 demo_pairing s0 w" "rc_won w" "rc_result w = None"
    by (rule relay_wins [OF s0 h [folded demo_options]])
  let ?s = "w\<lparr>rc_result := Some (Inr ()), rc_cancelled := True\<rparr>"
  have s: "race_reaches demo_prims demo_json_peers 0 demo_pairing s0 ?s" "rc_result ?s = Some (Inr ())"
    using race_step.ret_won [OF w(3,2)] w(1) by (simp_all add: rtranclp.rtrancl_into_rtrancl)
  from race_outcome [OF s0 no_entries s(1)] s(2) obtain s1 s2 where
    "race_reaches demo_prims demo_json_peers 0 demo_pairing s0 s1" "race_step demo_prims demo_json_peers 0 demo_pairing s1 s2"
    "race_win demo_prims demo_json_peers demo_pairing s1 s2" by auto
  with s0 s show ?thesis by blast
qed

theorem race_can_finish_witness:
  "\<exists>s0 t. race_start 0 True (Some NewExpectations) demo_pairing [9] (Some demo_manager) = Inr s0 \<and>
     race_reaches demo_prims demo_json_peers 0 demo_pairing s0 t \<and> rc_result t \<noteq> None \<and> rc_key t = [0]"
proof -
  obtain s0 where s0: "race_start 0 True (Some NewExpectations) demo_pairing [9] (Some demo_manager) = Inr s0" "rc_mgr s0 = demo_manager"
    "Hook (rc_byIP s0) (Some ''10.0.0.7:99'') = Some 0"
    by (rule demo_race [of demo_manager])
  from race_can_finish [OF s0(1) rtranclp.rtrancl_refl, of demo_prims demo_json_peers] s0(1) show ?thesis
    by (auto simp: Zeroise_def)
qed

text \<open>
  C20: a wiped key is a known key. A connection from an expected address whose handshake outlasts the
  attempts and the linger time is confirmed against the overwritten buffer: the key is then all
  zero bytes, of the same length, and a peer that never knew the invite code derives the expected
  confirmation from zeros; \<open>confirmPairing\<close> accepts it.
\<close>

theorem wiped_key_admits:
  assumes start: "race_start r punch e p key (Some m) = Inr s0" and entry: "Hook (rc_byIP s0) addr = Some r" and "key \<noteq> []"
    and sync: "in_sync P (r_Session res) peer" and new: "s_sendSeq (r_Session res) = 0" and th: "r_Transcript res \<noteq> []"
  shows "\<exists>s. race_reaches P J r p s0 s \<and> rc_inbound s = [True] \<and>
    (\<exists>c frame peer1 sess out. PairConfirm P (replicate (length key) 0) (r_Transcript res) = Inr c \<and>
       session_Seal P (Some g) TypePairConfirm c peer = (Inr frame, peer1) \<and>
       confirmPairing P (Some f) False [Inr frame] res (rc_key s) = (Inr (), sess, out))"
proof -
  let ?s1 = "s0\<lparr>rc_inbound := rc_inbound s0 @ [True]\<rparr>" and ?z = "replicate (length key) (0 :: byte)"
  have s0: "rc_inbound s0 = []" "\<not> rc_wiped s0" "rc_key s0 = key" using start by (auto simp: race_start_def split: prod.splits)
  have first: "race_step P J r p s0 ?s1" by (rule race_step.inbound [OF entry])
  obtain s where s: "race_reaches P J r p ?s1 s" "rc_key s = Zeroise (rc_key ?s1)" "rc_inbound s = rc_inbound ?s1"
  proof (rule key_can_be_wiped [of ?s1 P J r p])
    show "\<not> rc_wiped ?s1" using s0(2) by simp
  qed (rule that)
  from first s(1) have reach: "race_reaches P J r p s0 s" by (rule converse_rtranclp_into_rtranclp)
  have z: "rc_inbound s = [True]" "rc_key s = ?z" using s s0 by (simp_all add: Zeroise_def map_replicate_const)
  let ?c = "fill (hkdf_stream P ?z (r_Transcript res) infoPairConfirm) 32"
  have c: "PairConfirm P ?z (r_Transcript res) = Inr ?c" using assms(3) th by (simp add: PairConfirm_def DeriveKey_ok)
  have len: "knownType TypePairConfirm" "length ?c \<le> 4096" by (simp_all add: knownType_def)
  obtain out a1 where sA: "session_Seal P (Some f) TypePairConfirm ?c (r_Session res) = (Inr out, a1)"
    by (rule Seal_then_Open [OF sync len])
  obtain frame peer1 where sB: "session_Seal P (Some g) TypePairConfirm ?c peer = (Inr frame, peer1)"
    by (rule Seal_then_Open [OF in_sync_sym [OF sync] len])
  obtain a2 where "session_Open P frame a1 = (Inr (TypePairConfirm, ?c), a2)"
    by (rule Open_sealed [OF in_sync_sym [OF in_sync_after_seal [OF sync new len(2) sA]] len sB])
  then have "confirmPairing P (Some f) False [Inr frame] res ?z = (Inr (), a2, [out])"
    using sA by (simp add: confirmPairing_def confirmPairing_shared_def SealPairConfirm_def c VerifyPairConfirm_def)
  then have "confirmPairing P (Some f) False [Inr frame] res (rc_key s) = (Inr (), a2, [out])" by (simp only: z(2))
  with c sB have "\<exists>c frame peer1 sess out. PairConfirm P ?z (r_Transcript res) = Inr c \<and>
       session_Seal P (Some g) TypePairConfirm c peer = (Inr frame, peer1) \<and>
       confirmPairing P (Some f) False [Inr frame] res (rc_key s) = (Inr (), sess, out)"
    by blast
  with reach z(1) show ?thesis by blast
qed

theorem wiped_key_admits_witness:
  "\<exists>a peer s0 s c frame peer1 sess out. newSession demo_prims [1] [2] True = Inr a \<and> newSession demo_prims [1] [2] False = Inr peer \<and>
     race_start 0 True (Some NewExpectations) demo_pairing [9] (Some demo_manager) = Inr s0 \<and>
     race_reaches demo_prims demo_json_peers 0 demo_pairing s0 s \<and> rc_inbound s = [True] \<and>
     PairConfirm demo_prims [0] [2] = Inr c \<and> session_Seal demo_prims (Some (\<lambda>_. 1)) TypePairConfirm c peer = (Inr frame, peer1) \<and>
     confirmPairing demo_prims (Some (\<lambda>_. 0)) False [Inr frame]
       \<lparr>r_Session = a, r_PeerName = ''eve'', r_PeerKey = [], r_PeerFingerprint = [], r_Transcript = [2]\<rparr> (rc_key s) = (Inr (), sess, out)"
proof -
  obtain a b where d: "newSession demo_prims [1] [2] True = Inr a" "newSession demo_prims [1] [2] False = Inr b"
    "in_sync demo_prims a b" "s_sendSeq a = 0" "s_sendSeq b = 0" by (rule demo_sessions)
  obtain s0 where s0: "race_start 0 True (Some NewExpectations) demo_pairing [9] (Some demo_manager) = Inr s0" "rc_mgr s0 = demo_manager"
    "Hook (rc_byIP s0) (Some ''10.0.0.7:99'') = Some 0"
    by (rule demo_race [of demo_manager])
  let ?res = "\<lparr>r_Session = a, r_PeerName = ''eve'', r_PeerKey = [], r_PeerFingerprint = [], r_Transcript = [2]\<rparr>"
  have h: "in_sync demo_prims (r_Session ?res) b" "s_sendSeq (r_Session ?res) = 0" "r_Transcript ?res \<noteq> []" "[9 :: byte] \<noteq> []"
    using d by simp_all
  from wiped_key_admits [OF s0(1,3) h(4,1,2,3), of demo_json_peers "\<lambda>_. 1" "\<lambda>_. 0"] d(1,2) s0(1)
  show ?thesis by simp
qed


text \<open>
  a race that was won can be reported as timed out. The last \<open>select\<close> of \<open>Race\<close> does not look at
  \<open>won\<close> when the context is done: if the relay path succeeds as the time limit passes, the caller is
  told that no session was established, although the peer is registered.
\<close>

theorem won_race_times_out:
  assumes start: "race_start r punch e p key (Some m) = Inr s0"
    and hs: "runHandshake P J env (race_options p PathRelay key) m = (Inr (), sent, m1)"
  shows "\<exists>s. race_reaches P J r p s0 s \<and> rc_won s \<and> rc_mgr s = m1 \<and> rc_result s = Some (Inl RaceTimedOut)"
proof -
  obtain w where w: "race_reaches P J r p s0 w" "rc_won w" "rc_mgr w = m1" "rc_result w = None" by (rule relay_wins [OF assms])
  let ?x = "w\<lparr>rc_cancelled := True\<rparr>"
  have "race_step P J r p w ?x" by (rule race_step.cancel)
  moreover have "race_step P J r p ?x (?x\<lparr>rc_result := Some (Inl RaceTimedOut)\<rparr>)"
    by (rule race_step.ret_timeout) (simp_all add: w(4))
  ultimately have "race_reaches P J r p s0 (?x\<lparr>rc_result := Some (Inl RaceTimedOut)\<rparr>)"
    using w(1) by (meson rtranclp.rtrancl_into_rtrancl)
  then show ?thesis using w(2,3) by (intro exI [of _ "?x\<lparr>rc_result := Some (Inl RaceTimedOut)\<rparr>"]) simp
qed


theorem won_race_times_out_witness:
  "\<exists>i s0 s. race_start 0 True (Some NewExpectations) demo_pairing [9] (Some (demo_node i)) = Inr s0 \<and>
     race_reaches demo_prims demo_json_peers 0 demo_pairing s0 s \<and> rc_won s \<and> rc_result s = Some (Inl RaceTimedOut)"
proof -
  obtain i sent m1 fromB where h: "runHandshake demo_prims demo_json_peers ((demo_hs 3)\<lparr>v_recv := map Inr fromB\<rparr>)
    \<lparr>a_Initiator = True, a_PairingKey = [9], a_Path = PathRelay\<rparr> (demo_node i) = (Inr (), sent, m1)" by (rule demo_paired)
  obtain s0 where s0: "race_start 0 True (Some NewExpectations) demo_pairing [9] (Some (demo_node i)) = Inr s0"
    by (rule demo_race [of "demo_node i"])
  from won_race_times_out [OF s0 h [folded demo_options]] s0 show ?thesis by blast
qed

end
