(* ===== verification/Invite.thy ===== *)
theory Invite
  imports Crypto Encodings
begin

text \<open>
  \<open>internal/rendezvous/code.go\<close>: invite codes. A user types a code as Unicode text, and
  \<open>strings.Map\<close> and \<open>strings.ToUpper\<close> work on its runes, so \<open>ParseCode\<close> takes the runes of
  its argument; the decoder works on the bytes of their UTF-8 encoding.
\<close>

type_synonym rune = nat

definition codeEntropyBytes :: nat where [simp]: "codeEntropyBytes = 20"
definition code_rendezvousIDSize :: nat where [simp]: "code_rendezvousIDSize = 16"
definition PairingKeySize :: nat where [simp]: "PairingKeySize = 32"
definition groupSize :: nat where [simp]: "groupSize = 4"

definition infoRendezvousID :: string where "infoRendezvousID = ''heimdall v1 rendezvous id''"
definition infoPairingKey :: string where "infoPairingKey = ''heimdall v1 pairing key''"

record code =
  secret :: bytes

datatype code_error = ErrBadCode | CodeCrypto crypto_error

definition NewCode :: "entropy \<Rightarrow> code_error + code" where
  "NewCode rnd =
     (case RandomBytes rnd codeEntropyBytes of Inl e \<Rightarrow> Inl (CodeCrypto e) | Inr s \<Rightarrow> Inr \<lparr>secret = s\<rparr>)"

text \<open>
  \<open>unicode.ToUpper\<close>: the two letters outside ASCII whose upper case is an ASCII letter are the
  dotless i and the long s. The upper case of any other letter outside ASCII is outside ASCII too,
  where the decoder refuses it whatever it is, so those letters are kept as they are.
\<close>

definition ToUpper :: "rune \<Rightarrow> rune" where
  "ToUpper r = (if 97 \<le> r \<and> r \<le> 122 then r - 32 else if r = 0x131 then 73 else if r = 0x17F then 83 else r)"

definition utf8 :: "rune \<Rightarrow> string" where
  "utf8 r =
     (if r < 0x80 then [char_of r]
      else if r < 0x800 then map char_of [0xC0 + r div 64, 0x80 + r mod 64]
      else if r < 0x10000 then map char_of [0xE0 + r div 4096, 0x80 + r div 64 mod 64, 0x80 + r mod 64]
      else map char_of [0xF0 + r div 262144, 0x80 + r div 4096 mod 64, 0x80 + r div 64 mod 64, 0x80 + r mod 64])"

definition is_separator :: "rune \<Rightarrow> bool" where
  "is_separator r = (r \<in> {45, 32, 9, 10, 13})"

definition ParseCode :: "rune list \<Rightarrow> code_error + code" where
  "ParseCode s =
     (let cleaned = map ToUpper (filter (\<lambda>r. \<not> is_separator r) s)
      in if cleaned = [] then Inl ErrBadCode
         else case b32_DecodeString (concat (map utf8 cleaned)) of
                None \<Rightarrow> Inl ErrBadCode
              | Some sec \<Rightarrow> if length sec \<noteq> codeEntropyBytes then Inl ErrBadCode else Inr \<lparr>secret = sec\<rparr>)"

text \<open>The loop of \<open>String\<close> at position \<open>i\<close> of the text.\<close>

fun render_groups :: "nat \<Rightarrow> string \<Rightarrow> string" where
  "render_groups i [] = []"
| "render_groups i (r # rs) = (if i > 0 \<and> i mod groupSize = 0 then ''-'' else []) @ r # render_groups (i + 1) rs"

definition code_String :: "code \<Rightarrow> string" where
  "code_String c = render_groups 0 (b32_EncodeToString (secret c))"

definition code_ID :: "prims \<Rightarrow> code \<Rightarrow> crypto_error + bytes" where
  "code_ID P c = DeriveKey P (secret c) [] infoRendezvousID code_rendezvousIDSize"

definition code_PairingKey :: "prims \<Rightarrow> code \<Rightarrow> crypto_error + bytes" where
  "code_PairingKey P c = DeriveKey P (secret c) [] infoPairingKey PairingKeySize"

definition code_Zeroise :: "code \<Rightarrow> code" where
  "code_Zeroise c = c\<lparr>secret := Zeroise (secret c)\<rparr>"

section \<open>Which texts are codes\<close>

lemma dec_group_full:
  assumes "length ds = q" "list_all (\<lambda>d. d < r) ds" "256 ^ g = r ^ q" "0 < r"
  shows "enc_group r q g q (dec_group r q g g ds) = ds"
proof -
  have b: "undigits r ds < 256 ^ g" using undigits_bound [OF assms(2)] assms(1,3) by simp
  have "of_bytes (to_bytes g (undigits r ds)) = undigits r ds"
  proof -
    have "map unat (to_bytes g (undigits r ds)) = digits g 256 (undigits r ds)"
      unfolding to_bytes_def map_map comp_def
      by (rule map_idI) (use digits_less [of 256] in \<open>auto simp: mod_less\<close>)
    then show ?thesis using b by (simp add: of_bytes_def undigits_digits)
  qed
  then show ?thesis using assms(1,2) digits_undigits [of r ds] by (simp add: enc_group_def dec_group_def)
qed

lemma length_b32_pack: "length (b32_pack ds) = 5 * (length ds div 8) + b32_packed (length ds mod 8)"
proof (induction ds rule: b32_pack.induct)
  case (1 ds)
  show ?case
  proof (cases "length ds < 8")
    case True
    then show ?thesis by (cases "ds = []") (auto simp: b32_pack.simps [of ds] b32_pack.simps [of "[]"] dec_group_def)
  next
    case False
    then have "ds \<noteq> []" by auto
    with 1 have "length (b32_pack (drop 8 ds)) = 5 * (length (drop 8 ds) div 8) + b32_packed (length (drop 8 ds) mod 8)" by blast
    moreover have "length (drop 8 ds) div 8 + 1 = length ds div 8" "length (drop 8 ds) mod 8 = length ds mod 8"
      using False by (simp_all add: le_div_geq le_mod_geq)
    moreover have "length (b32_pack ds) = 5 + length (b32_pack (drop 8 ds))"
      using False \<open>ds \<noteq> []\<close> by (subst b32_pack.simps) (simp add: dec_group_def)
    ultimately show ?thesis by simp
  qed
qed

lemma b32_packed_remainder: "r < 8 \<Longrightarrow> b32_packed r \<le> 4" "r < 8 \<Longrightarrow> b32_packed r = 0 \<longleftrightarrow> r \<in> {0, 1, 3, 6}"
  by auto

lemma div_mod_8: "r < 8 \<Longrightarrow> n div 8 = 4 \<and> n mod 8 = r \<longleftrightarrow> n = 32 + (r :: nat)"
  by presburger

lemma five_groups: "p \<le> 4 \<Longrightarrow> 5 * q + p = 20 \<longleftrightarrow> q = 4 \<and> p = (0 :: nat)"
  by presburger

lemma length_b32_pack_20: "length (b32_pack ds) = 20 \<longleftrightarrow> length ds \<in> {32, 33, 35, 38}"
proof -
  define n p where "n = length ds" and "p = b32_packed (n mod 8)"
  have r: "n mod 8 < 8" by simp
  have p: "p \<le> 4" "p = 0 \<longleftrightarrow> n mod 8 \<in> {0, 1, 3, 6}"
    unfolding p_def by (rule b32_packed_remainder [OF r])+
  have q: "n div 8 = 4 \<and> n mod 8 = 0 \<longleftrightarrow> n = 32" "n div 8 = 4 \<and> n mod 8 = 1 \<longleftrightarrow> n = 33"
    "n div 8 = 4 \<and> n mod 8 = 3 \<longleftrightarrow> n = 35" "n div 8 = 4 \<and> n mod 8 = 6 \<longleftrightarrow> n = 38"
    by (simp_all add: div_mod_8)
  have "5 * (n div 8) + p = 20 \<longleftrightarrow> n div 8 = 4 \<and> p = 0"
    by (rule five_groups [OF p(1)])
  also have "\<dots> \<longleftrightarrow> n \<in> {32, 33, 35, 38}"
    unfolding p(2) insert_iff q [symmetric] by blast
  finally show ?thesis unfolding length_b32_pack n_def p_def .
qed

lemma b32_digits_group: "length g = 5 \<Longrightarrow> b32_digits (g @ bs) = enc_group 32 8 5 8 g @ b32_digits bs"
  by (auto simp: numeral_eq_Suc length_Suc_conv)

lemma b32_digits_pack: "length ds = 8 * n \<Longrightarrow> list_all (\<lambda>d. d < 32) ds \<Longrightarrow> b32_digits (b32_pack ds) = ds"
proof (induction n arbitrary: ds)
  case 0
  then show ?case by (simp add: b32_pack.simps)
next
  case (Suc n)
  let ?g = "take 8 ds"
  have l: "length ?g = 8" "list_all (\<lambda>d. d < 32) ?g" "length (drop 8 ds) = 8 * n" "list_all (\<lambda>d. d < 32) (drop 8 ds)"
    using Suc.prems by (auto simp: list_all_length)
  have "b32_pack ds = dec_group 32 8 5 5 ?g @ b32_pack (drop 8 ds)"
    using b32_pack_group [OF l(1), of "drop 8 ds"] by simp
  moreover have "length (dec_group 32 8 5 5 ?g) = 5" by (simp add: dec_group_def)
  moreover have "enc_group 32 8 5 8 (dec_group 32 8 5 5 ?g) = ?g" by (rule dec_group_full [OF l(1,2)]) simp_all
  ultimately show ?case using b32_digits_group Suc.IH [OF l(3,4)] by simp
qed

lemma b32_pack_extra: "length ds = 32 \<Longrightarrow> length es \<in> {0, 1, 3, 6} \<Longrightarrow> b32_pack (ds @ es) = b32_pack ds"
proof -
  assume a: "length ds = 32" "length es \<in> {0, 1, 3, 6}"
  have groups: "b32_pack (xs @ ys) = b32_pack xs @ b32_pack ys" if "length xs = 8 * n" for xs ys n
    using that
  proof (induction n arbitrary: xs)
    case 0
    then show ?case by (simp add: b32_pack.simps [of "[]"])
  next
    case (Suc n)
    then have "length (take 8 xs) = 8" "length (drop 8 xs) = 8 * n" by simp_all
    then show ?case
      using Suc.IH [of "drop 8 xs"] b32_pack_group [of "take 8 xs"] by (metis append_assoc append_take_drop_id)
  qed
  have "b32_pack es = []"
    using a(2) by (subst b32_pack.simps) (auto simp: dec_group_def b32_pack.simps [of "[]"])
  then show ?thesis using groups [of ds 4 es] a(1) by simp
qed

lemma b32_val_Some: "b32_val x = Some d \<longleftrightarrow> d < 32 \<and> x = b32_char d"
proof
  have al: "length b32_alphabet = 32" "distinct b32_alphabet" by (simp_all add: b32_alphabet_def)
  assume "b32_val x = Some d"
  then have "(x, d) \<in> set (zip b32_alphabet [0..<32])" unfolding b32_val_def by (rule map_of_SomeD)
  then show "d < 32 \<and> x = b32_char d" using al by (auto simp: set_zip b32_char_def)
qed (simp add: b32_val_char)

lemma b32_vals_Some: "b32_vals cs = Some ds \<longleftrightarrow> list_all (\<lambda>d. d < 32) ds \<and> cs = map b32_char ds"
proof (induction cs arbitrary: ds)
  case Nil
  then show ?case by auto
next
  case (Cons x cs)
  show ?case
  proof (cases "b32_val x")
    case None
    then show ?thesis using b32_val_char by (fastforce simp: Cons_eq_map_conv)
  next
    case (Some d)
    then have x: "d < 32" "x = b32_char d" using b32_val_Some by blast+
    have inj: "e = d" if "e < 32" "b32_char d = b32_char e" for e
      using that x(1) by (metis b32_val_char option.inject)
    show ?thesis using Some Cons.IH x by (cases ds) (auto dest: inj)
  qed
qed

lemma b32_val_high: "128 \<le> n \<Longrightarrow> n < 256 \<Longrightarrow> b32_val (char_of (n :: nat)) = None"
proof -
  assume n: "128 \<le> n" "n < 256"
  have "list_all (\<lambda>x. of_char x < (128 :: nat)) b32_alphabet" by (simp add: b32_alphabet_def)
  moreover have "of_char (char_of n) = n" using n by simp
  ultimately have "char_of n \<notin> set b32_alphabet" using n by (metis list_all_iff not_less)
  then show ?thesis by (simp add: b32_val_def map_of_zip_is_None b32_alphabet_def)
qed

lemma utf8_ascii: "r < 128 \<Longrightarrow> utf8 r = [char_of r]"
  by (simp add: utf8_def)

lemma utf8_high: "128 \<le> r \<Longrightarrow> char_of (128 + r mod 64) \<in> set (utf8 r)"
  by (simp add: utf8_def)

lemma b32_decode_ascii:
  assumes "\<forall>r\<in>set rs. r \<noteq> 10 \<and> r \<noteq> 13"
    and "b32_DecodeString (concat (map utf8 rs)) = Some sec"
  shows "\<exists>ds. list_all (\<lambda>d. d < 32) ds \<and> rs = map (\<lambda>d. of_char (b32_char d)) ds \<and> sec = b32_pack ds"
proof -
  let ?cs = "filter (\<lambda>c. c \<noteq> CHR 0x0A \<and> c \<noteq> CHR 0x0D) (concat (map utf8 rs))"
  obtain ds where ds: "list_all (\<lambda>d. d < 32) ds" "?cs = map b32_char ds" "sec = b32_pack ds"
    using assms(2) by (auto simp: b32_DecodeString_def b32_vals_Some)
  have low: "r < 128" if "r \<in> set rs" for r
  proof (rule ccontr)
    assume "\<not> r < 128"
    define x where "x = char_of (128 + r mod 64)"
    have n: "128 + r mod 64 < 256" using mod_less_divisor [of 64 r] by linarith
    then have none: "b32_val x = None" unfolding x_def by (intro b32_val_high) simp_all
    have "of_char x = 128 + r mod 64" using n by (simp add: x_def)
    then have "x \<noteq> CHR 0x0A" "x \<noteq> CHR 0x0D" by auto
    then have "x \<in> set ?cs" using utf8_high [of r] \<open>\<not> r < 128\<close> that by (auto simp: x_def)
    then have "x \<in> b32_char ` set ds" unfolding ds(2) by simp
    then show False using none ds(1) b32_val_char by (auto simp: list_all_iff)
  qed
  have flat: "concat (map utf8 rs) = map char_of rs"
    using low by (induction rs) (simp_all add: utf8_ascii)
  have "char_of r \<noteq> CHR 0x0A \<and> char_of r \<noteq> CHR 0x0D" if "r \<in> set rs" for r
  proof -
    have "of_char (char_of r) = r" using low [OF that] by simp
    moreover have "r \<noteq> of_char CHR 0x0A" "r \<noteq> of_char CHR 0x0D" using assms(1) that by auto
    ultimately show ?thesis by metis
  qed
  then have "?cs = map char_of rs" unfolding flat by (intro filter_True) auto
  then have "map of_char (map b32_char ds) = map (of_char \<circ> char_of) rs" using ds(2) by simp
  also have "\<dots> = rs"
  proof (rule map_idI)
    fix r assume "r \<in> set rs"
    then show "(of_char \<circ> char_of) r = r" using low [of r] by simp
  qed
  finally show ?thesis using ds(1,3) by (auto simp: comp_def)
qed

lemma b32_char_ascii: "d < 32 \<Longrightarrow> of_char (b32_char d) < (128 :: nat)"
proof -
  assume "d < 32"
  have "list_all (\<lambda>x. of_char x < (128 :: nat)) b32_alphabet" "length b32_alphabet = 32" by (simp_all add: b32_alphabet_def)
  with \<open>d < 32\<close> show ?thesis by (simp add: b32_char_def list_all_length)
qed

lemma b32_decode_digits:
  assumes "list_all (\<lambda>d. d < 32) ds"
  shows "b32_DecodeString (concat (map utf8 (map (\<lambda>d. of_char (b32_char d)) ds))) = Some (b32_pack ds)"
proof -
  have "concat (map utf8 (map (\<lambda>d. of_char (b32_char d)) ds)) = map b32_char ds"
    using assms by (induction ds) (simp_all add: utf8_ascii b32_char_ascii)
  moreover have "filter (\<lambda>c. c \<noteq> CHR 0x0A \<and> c \<noteq> CHR 0x0D) (map b32_char ds) = map b32_char ds"
    using assms by (intro filter_True) (auto simp: list_all_iff b32_char_not_break)
  ultimately show ?thesis using assms by (simp add: b32_DecodeString_def b32_vals_char)
qed

definition cleaned_runes :: "rune list \<Rightarrow> rune list" where
  "cleaned_runes s = map ToUpper (filter (\<lambda>r. \<not> is_separator r) s)"

lemma cleaned_no_break: "\<forall>r\<in>set (cleaned_runes s). r \<noteq> 10 \<and> r \<noteq> 13"
  by (auto simp: cleaned_runes_def ToUpper_def is_separator_def)

lemma b32_char_plain:
  assumes "d < 32"
  shows "\<not> is_separator (of_char (b32_char d))" and "ToUpper (of_char (b32_char d)) = of_char (b32_char d)"
    and "b32_char d \<noteq> CHR ''-''"
proof -
  have "list_all (\<lambda>x. \<not> is_separator (of_char x) \<and> ToUpper (of_char x) = of_char x \<and> x \<noteq> CHR ''-'') b32_alphabet"
    "length b32_alphabet = 32"
    by (simp_all add: b32_alphabet_def is_separator_def ToUpper_def)
  with assms show "\<not> is_separator (of_char (b32_char d))" "ToUpper (of_char (b32_char d)) = of_char (b32_char d)"
    "b32_char d \<noteq> CHR ''-''"
    by (auto simp: b32_char_def list_all_length)
qed

lemma is_separator_dash: "is_separator 45"
  by (simp add: is_separator_def)

lemma cleaned_render:
  "list_all (\<lambda>d. d < 32) ds \<Longrightarrow>
   cleaned_runes (map of_char (render_groups i (map b32_char ds))) = map (\<lambda>d. of_char (b32_char d)) ds"
  by (induction ds arbitrary: i) (simp_all add: cleaned_runes_def b32_char_plain is_separator_dash)

lemma length_render: "length (render_groups i cs) = length cs + card {j \<in> {i..<i + length cs}. 0 < j \<and> 4 dvd j}"
proof (induction cs arbitrary: i)
  case (Cons x cs)
  have "{j \<in> {i..<i + length (x # cs)}. 0 < j \<and> 4 dvd j} =
      (if 0 < i \<and> 4 dvd i then {i} else {}) \<union> {j \<in> {i + 1..<(i + 1) + length cs}. 0 < j \<and> 4 dvd j}"
    by (auto simp: less_Suc_eq_le) (metis Suc_leI le_neq_implies_less)+
  moreover have "(if 0 < i \<and> 4 dvd i then {i} else {}) \<inter> {j \<in> {i + 1..<(i + 1) + length cs}. 0 < j \<and> 4 dvd j} = {}" by auto
  ultimately have "card {j \<in> {i..<i + length (x # cs)}. 0 < j \<and> 4 dvd j} =
      card (if 0 < i \<and> 4 dvd i then {i} else {}) + card {j \<in> {i + 1..<(i + 1) + length cs}. 0 < j \<and> 4 dvd j}"
    by (simp add: card_Un_disjoint)
  then show ?case using Cons.IH [of "i + 1"] by (auto simp: dvd_eq_mod_eq_0)
qed simp

lemma ParseCode_cleaned:
  "ParseCode s = (if cleaned_runes s = [] then Inl ErrBadCode
      else case b32_DecodeString (concat (map utf8 (cleaned_runes s))) of None \<Rightarrow> Inl ErrBadCode
           | Some sec \<Rightarrow> if length sec \<noteq> 20 then Inl ErrBadCode else Inr \<lparr>secret = sec\<rparr>)"
  unfolding ParseCode_def cleaned_runes_def Let_def codeEntropyBytes_def ..

lemma ParseCode_digits:
  assumes "list_all (\<lambda>d. d < 32) ds" "length ds \<in> {32, 33, 35, 38}"
    and "cleaned_runes s = map (\<lambda>d. of_char (b32_char d)) ds"
  shows "ParseCode s = Inr \<lparr>secret = b32_pack (take 32 ds)\<rparr>"
proof -
  have "b32_pack ds = b32_pack (take 32 ds)"
    using b32_pack_extra [of "take 32 ds" "drop 32 ds"] assms(2) by auto
  moreover have "length (b32_pack ds) = 20" using assms(2) by (simp only: length_b32_pack_20)
  moreover have "ds \<noteq> []" using assms(2) by auto
  ultimately show ?thesis using b32_decode_digits [OF assms(1)] assms(3) by (simp add: ParseCode_cleaned)
qed

lemma ParseCode_parsed:
  assumes "ParseCode s = Inr c"
  obtains ds where "list_all (\<lambda>d. d < 32) ds" "length ds \<in> {32, 33, 35, 38}"
    "cleaned_runes s = map (\<lambda>d. of_char (b32_char d)) ds" "secret c = b32_pack (take 32 ds)"
proof -
  obtain sec where d: "b32_DecodeString (concat (map utf8 (cleaned_runes s))) = Some sec" "length sec = 20" "secret c = sec"
    using assms by (auto simp: ParseCode_cleaned split: if_splits option.splits)
  obtain ds where ds: "list_all (\<lambda>d. d < 32) ds" "cleaned_runes s = map (\<lambda>d. of_char (b32_char d)) ds" "sec = b32_pack ds"
    using b32_decode_ascii [OF cleaned_no_break d(1)] by blast
  have l: "length ds \<in> {32, 33, 35, 38}" using d(2) ds(3) by (simp only: length_b32_pack_20)
  then have "b32_pack ds = b32_pack (take 32 ds)"
    using b32_pack_extra [of "take 32 ds" "drop 32 ds"] by auto
  then show thesis using that [OF ds(1) l ds(2)] ds(3) d(3) by simp
qed

lemma alphabet_digits: "set cs \<subseteq> set b32_alphabet \<Longrightarrow> \<exists>ds. list_all (\<lambda>d. d < 32) ds \<and> cs = map b32_char ds"
proof (induction cs)
  case (Cons x cs)
  then obtain ds where "list_all (\<lambda>d. d < 32) ds" "cs = map b32_char ds" by auto
  moreover obtain d where "d < 32" "x = b32_char d"
  proof -
    have "length b32_alphabet = 32" by (simp add: b32_alphabet_def)
    then show thesis using Cons.prems that unfolding b32_char_def by (metis in_set_conv_nth list.set_intros(1) subsetD)
  qed
  ultimately show ?case by (intro exI [of _ "d # ds"]) simp
qed simp

lemma ParseCode_String:
  assumes "length (secret c) = 20"
  shows "ParseCode (map of_char (code_String c)) = Inr c"
proof -
  let ?ds = "b32_digits (secret c)"
  have ds: "list_all (\<lambda>d. d < 32) ?ds" "length ?ds = 32" "b32_pack ?ds = secret c"
    using assms by (simp_all add: b32_digits_less length_b32_digits b32_pack_digits)
  have "cleaned_runes (map of_char (code_String c)) = map (\<lambda>d. of_char (b32_char d)) ?ds"
    by (simp add: code_String_def b32_EncodeToString_def cleaned_render ds(1))
  then show ?thesis using ParseCode_digits [OF ds(1)] ds(2,3) by (cases c) simp
qed

section \<open>Properties\<close>

text \<open>
  an invite code read back. A code from \<open>NewCode\<close> is rendered as eight groups of four characters
  separated by dashes, 39 characters in all, and parses from this text again; so does every other
  way to type it that differs in case and in dashes, spaces, tabs and line breaks only.
\<close>

theorem code_round_trip:
  assumes "NewCode rnd = Inr c"
  shows "length (code_String c) = 39 \<and> ParseCode (map of_char (code_String c)) = Inr c \<and>
    (\<forall>s. map ToUpper (filter (\<lambda>r. \<not> is_separator r) s) = map of_char (filter (\<lambda>x. x \<noteq> CHR ''-'') (code_String c)) \<longrightarrow>
         ParseCode s = Inr c)"
proof -
  have sec: "length (secret c) = 20"
    using assms by (auto simp: NewCode_def RandomBytes_def split: option.splits)
  let ?ds = "b32_digits (secret c)"
  have ds: "list_all (\<lambda>d. d < 32) ?ds" "length ?ds = 32" "b32_pack ?ds = secret c"
    using sec by (simp_all add: b32_digits_less length_b32_digits b32_pack_digits)
  have parse: "ParseCode s = Inr c" if "cleaned_runes s = map (\<lambda>d. of_char (b32_char d)) ?ds" for s
    using ParseCode_digits [OF ds(1) _ that] ds(2,3) by (cases c) simp
  have "filter (\<lambda>x. x \<noteq> CHR ''-'') (render_groups i (map b32_char es)) = map b32_char es"
    if "list_all (\<lambda>d. d < 32) es" for es i
    using that by (induction es arbitrary: i) (simp_all add: b32_char_plain(3))
  then have plain: "map of_char (filter (\<lambda>x. x \<noteq> CHR ''-'') (code_String c)) = map (\<lambda>d. of_char (b32_char d)) ?ds"
    using ds(1) by (simp add: code_String_def b32_EncodeToString_def)
  have "length (code_String c) = 32 + card {j \<in> {0..<32::nat}. 0 < j \<and> 4 dvd j}"
    using ds(2) by (simp add: code_String_def b32_EncodeToString_def length_render)
  also have "card {j \<in> {0..<32::nat}. 0 < j \<and> 4 dvd j} = 7" by code_simp
  finally have "length (code_String c) = 39" by simp
  moreover have "ParseCode (map of_char (code_String c)) = Inr c" by (rule ParseCode_String [OF sec])
  ultimately show ?thesis using parse unfolding plain cleaned_runes_def by blast
qed

theorem code_round_trip_witness:
  "\<exists>c. NewCode (Some (\<lambda>i. word_of_nat i)) = Inr c \<and>
     ParseCode (map of_char (code_String c)) = Inr c \<and> length (code_String c) = 39"
proof -
  have n: "NewCode (Some (\<lambda>i. word_of_nat i)) = Inr \<lparr>secret = fill (\<lambda>i. word_of_nat i) 20\<rparr>"
    by (simp add: NewCode_def RandomBytes_def)
  with code_round_trip [OF n] show ?thesis by blast
qed

text \<open>
  which texts are accepted. \<open>ParseCode\<close> accepts exactly the texts that, without separators and in
  upper case, are the 32 characters of the code it returns followed by none, one, three or six
  further characters of the alphabet. Those further characters are ignored, so a text of 33, 35
  or 38 characters is not refused as one of the wrong length.
\<close>

theorem ParseCode_accepts_iff:
  "ParseCode s = Inr c \<longleftrightarrow>
     length (secret c) = codeEntropyBytes \<and>
     (\<exists>extra. length extra \<in> {0, 1, 3, 6} \<and> set extra \<subseteq> set b32_alphabet \<and>
        map ToUpper (filter (\<lambda>r. \<not> is_separator r) s) = map of_char (b32_EncodeToString (secret c) @ extra))"
    (is "?L \<longleftrightarrow> ?R")
proof
  assume ?L
  then obtain ds where ds: "list_all (\<lambda>d. d < 32) ds" "length ds \<in> {32, 33, 35, 38}"
    "cleaned_runes s = map (\<lambda>d. of_char (b32_char d)) ds" "secret c = b32_pack (take 32 ds)"
    by (rule ParseCode_parsed)
  have t: "length (take 32 ds) = 8 * 4" "list_all (\<lambda>d. d < 32) (take 32 ds)"
    using ds(1,2) by (auto simp: list_all_length)
  have dig: "b32_digits (secret c) = take 32 ds" unfolding ds(4) by (rule b32_digits_pack [OF t])
  have "length (secret c) = codeEntropyBytes" using t(1) ds(4) by (simp add: length_b32_pack_20)
  moreover have "length (map b32_char (drop 32 ds)) \<in> {0, 1, 3, 6}" using ds(2) by auto
  moreover have "set (map b32_char (drop 32 ds)) \<subseteq> set b32_alphabet"
  proof -
    have "length b32_alphabet = 32" by (simp add: b32_alphabet_def)
    then show ?thesis using ds(1) by (auto simp: b32_char_def list_all_iff dest: in_set_dropD)
  qed
  moreover have "cleaned_runes s = map of_char (b32_EncodeToString (secret c) @ map b32_char (drop 32 ds))"
    unfolding b32_EncodeToString_def dig ds(3) map_append [symmetric] append_take_drop_id by simp
  ultimately show ?R unfolding cleaned_runes_def by blast
next
  assume ?R
  then obtain extra where e: "length (secret c) = 20" "length extra \<in> {0, 1, 3, 6}" "set extra \<subseteq> set b32_alphabet"
    "cleaned_runes s = map of_char (b32_EncodeToString (secret c) @ extra)" by (auto simp: cleaned_runes_def)
  obtain es where es: "list_all (\<lambda>d. d < 32) es" "extra = map b32_char es"
    using alphabet_digits [OF e(3)] by blast
  let ?ds = "b32_digits (secret c) @ es"
  have len: "length (b32_digits (secret c)) = 32" using e(1) by (simp add: length_b32_digits)
  have "ParseCode s = Inr \<lparr>secret = b32_pack (take 32 ?ds)\<rparr>"
  proof (rule ParseCode_digits)
    show "list_all (\<lambda>d. d < 32) ?ds" using es(1) b32_digits_less by simp
    show "length ?ds \<in> {32, 33, 35, 38}" using len e(2) es(2) by auto
    show "cleaned_runes s = map (\<lambda>d. of_char (b32_char d)) ?ds"
      unfolding e(4) es(2) b32_EncodeToString_def by simp
  qed
  then show ?L using len by (cases c) (simp add: b32_pack_digits)
qed

end
