(* ===== verification/Connect.thy ===== *)
theory Connect
  imports Race Invite
begin

text \<open>
  \<open>Invite\<close> and \<open>Join\<close> of \<open>internal/connect/connect.go\<close>: from a fresh or a typed code to the race. The calls
  of the rendezvous client are arguments, because they wait for the relay; their behaviour is the
  theory \<open>Client\<close>. The secrets that a call allocated and the state it leaves them in
  are part of the result.
\<close>

section \<open>Operations\<close>

datatype connect_error = CnCode code_error | CnDerive crypto_error | CnCandidates cand_error | CnClient client_error

record memory =
  mm_code :: "code option" \<comment> \<open>the code's secret\<close>
  mm_key :: "bytes option" \<comment> \<open>the pairing key\<close>

definition no_secrets :: memory where
  "no_secrets = \<lparr>mm_code = None, mm_key = None\<rparr>"

text \<open>\<open>addrs\<close> are the addresses of the machine's interfaces, \<open>punchPort\<close> the port of the punch listener, if any.\<close>

definition localCandidates ::
    "(string \<Rightarrow> ip option) \<Rightarrow> (ip \<times> string) option list option \<Rightarrow> int \<Rightarrow> int option \<Rightarrow> candidate list" where
  "localCandidates ParseIP addrs listenPort punchPort =
     LocalCandidates ParseIP addrs
       (if listenPort = 0 then (case punchPort of None \<Rightarrow> listenPort | Some port \<Rightarrow> port) else listenPort)"

definition connect_Invite ::
    "prims \<Rightarrow> json_cands \<Rightarrow> entropy \<Rightarrow> entropy \<Rightarrow> candidate list \<Rightarrow> (bytes \<Rightarrow> bytes \<Rightarrow> client_error + invite) \<Rightarrow>
     (connect_error + string \<times> invite \<times> bytes) \<times> memory" where
  "connect_Invite P J rndCode rndSeal cands publish =
     (case NewCode rndCode of Inl e \<Rightarrow> (Inl (CnCode e), no_secrets)
      | Inr c \<Rightarrow>
     (case code_ID P c of Inl e \<Rightarrow> (Inl (CnDerive e), no_secrets\<lparr>mm_code := Some c\<rparr>)
      | Inr rid \<Rightarrow>
     (case code_PairingKey P c of Inl e \<Rightarrow> (Inl (CnDerive e), no_secrets\<lparr>mm_code := Some c\<rparr>)
      | Inr pairingKey \<Rightarrow>
     (case SealCandidates P J rndSeal pairingKey cands of
        Inl e \<Rightarrow> (Inl (CnCandidates e), \<lparr>mm_code = Some c, mm_key = Some pairingKey\<rparr>)
      | Inr sealed \<Rightarrow>
     (case publish rid sealed of
        Inl e \<Rightarrow> (Inl (CnClient e), \<lparr>mm_code = Some c, mm_key = Some pairingKey\<rparr>)
      | Inr iv \<Rightarrow>
          (Inr (code_String c, iv, pairingKey), \<lparr>mm_code = Some (code_Zeroise c), mm_key = Some pairingKey\<rparr>))))))"

text \<open>The function that \<open>Invite\<close> returns: the result is an error or the arguments of \<open>Race\<close>.\<close>

definition invite_wait :: "client_error + pairing \<Rightarrow> bytes \<Rightarrow> (connect_error + pairing \<times> bytes) \<times> bytes" where
  "invite_wait waited pairingKey =
     (case waited of
        Inl e \<Rightarrow> (Inl (CnClient e), Zeroise pairingKey)
      | Inr pairing \<Rightarrow> (Inr (pairing, pairingKey), pairingKey))"

definition connect_Join ::
    "prims \<Rightarrow> json_cands \<Rightarrow> entropy \<Rightarrow> candidate list \<Rightarrow> (bytes \<Rightarrow> bytes \<Rightarrow> bytes \<Rightarrow> client_error + pairing) \<Rightarrow> rune list \<Rightarrow>
     (connect_error + pairing \<times> bytes) \<times> memory" where
  "connect_Join P J rndSeal cands claim codeText =
     (case ParseCode codeText of Inl e \<Rightarrow> (Inl (CnCode e), no_secrets)
      | Inr c \<Rightarrow>
     (case code_ID P c of Inl e \<Rightarrow> (Inl (CnDerive e), no_secrets\<lparr>mm_code := Some c\<rparr>)
      | Inr rid \<Rightarrow>
     (case code_PairingKey P c of Inl e \<Rightarrow> (Inl (CnDerive e), no_secrets\<lparr>mm_code := Some c\<rparr>)
      | Inr pairingKey \<Rightarrow>
     (case SealCandidates P J rndSeal pairingKey cands of
        Inl e \<Rightarrow> (Inl (CnCandidates e), \<lparr>mm_code = Some (code_Zeroise c), mm_key = Some (Zeroise pairingKey)\<rparr>)
      | Inr sealed \<Rightarrow>
     (case claim rid sealed pairingKey of
        Inl e \<Rightarrow> (Inl (CnClient e), \<lparr>mm_code = Some (code_Zeroise c), mm_key = Some (Zeroise pairingKey)\<rparr>)
      | Inr pairing \<Rightarrow>
          (Inr (pairing, pairingKey), \<lparr>mm_code = Some (code_Zeroise c), mm_key = Some pairingKey\<rparr>))))))"

section \<open>Lemmas\<close>

lemma derived:
  assumes "length (secret c) = 20"
  obtains rid key where "code_ID P c = Inr rid" "length rid = 16" "code_PairingKey P c = Inr key" "length key = 32"
proof -
  have "secret c \<noteq> []" using assms by auto
  then show thesis using that by (simp add: code_ID_def code_PairingKey_def DeriveKey_def)
qed

lemma NewCode_length: "NewCode rnd = Inr c \<Longrightarrow> length (secret c) = 20"
  by (auto simp: NewCode_def RandomBytes_def split: option.splits)

lemma ParseCode_length: "ParseCode s = Inr c \<Longrightarrow> length (secret c) = 20"
  by (auto simp: ParseCode_def Let_def split: if_splits option.splits)

text \<open>Whoever types the code that was shown derives the same pairing key.\<close>

lemma join_key:
  assumes "connect_Invite P J rnd seal cands publish = (Inr (shown, iv, key), mm)"
    and "connect_Join P J' seal' cands' claim (map of_char shown) = (Inr (p, key'), mm')"
  shows "key' = key" "length key = 32"
proof -
  obtain c where c: "NewCode rnd = Inr c" using assms(1) by (cases "NewCode rnd") (simp_all add: connect_Invite_def)
  note len = NewCode_length [OF c]
  obtain rid k where d: "code_ID P c = Inr rid" "code_PairingKey P c = Inr k" "length k = 32" by (rule derived [OF len])
  have k: "k = key" "code_String c = shown" using assms(1) c d by (auto simp: connect_Invite_def split: sum.splits)
  have "ParseCode (map of_char shown) = Inr c" using ParseCode_String [OF len] k(2) by simp
  then show "key' = key" using assms(2) d k(1) by (auto simp: connect_Join_def split: sum.splits)
  show "length key = 32" using d(3) k(1) by simp
qed

text \<open>No secret that a call allocated can be read any more.\<close>

definition wiped_out :: "memory \<Rightarrow> bool" where
  "wiped_out mm \<longleftrightarrow> (case mm_code mm of None \<Rightarrow> True | Some c \<Rightarrow> set (secret c) \<subseteq> {0}) \<and>
     (case mm_key mm of None \<Rightarrow> True | Some k \<Rightarrow> set k \<subseteq> {0})"

section \<open>Properties\<close>

text \<open>
  C22: the two sides of an invite agree. When \<open>Invite\<close> returns a code, it has published it under an
  identifier of 16 bytes; whoever types this code into \<open>Join\<close> claims the same identifier and gets a
  pairing key of 32 bytes equal to the inviter's, and hands it to the race when the claim
  succeeds.
\<close>

theorem invite_and_join_agree:
  assumes inv: "connect_Invite P J rnd seal cands publish = (Inr (shown, iv, key), mm)"
    and sealed: "SealCandidates P J' seal' key cands' = Inr sealed'"
  shows "\<exists>rid sealed. publish rid sealed = Inr iv \<and> length rid = code_rendezvousIDSize \<and> length key = PairingKeySize \<and>
    fst (connect_Join P J' seal' cands' claim (map of_char shown)) =
      (case claim rid sealed' key of Inl e \<Rightarrow> Inl (CnClient e) | Inr p \<Rightarrow> Inr (p, key))"
proof -
  obtain c where c: "NewCode rnd = Inr c" using inv by (cases "NewCode rnd") (simp_all add: connect_Invite_def)
  note len = NewCode_length [OF c]
  obtain rid k where d: "code_ID P c = Inr rid" "length rid = 16" "code_PairingKey P c = Inr k" "length k = 32"
    by (rule derived [OF len])
  obtain blob where p: "publish rid blob = Inr iv" "k = key" "code_String c = shown"
    using inv c d by (auto simp: connect_Invite_def split: sum.splits)
  have "ParseCode (map of_char shown) = Inr c" using ParseCode_String [OF len] p(3) by simp
  then have "fst (connect_Join P J' seal' cands' claim (map of_char shown)) =
      (case claim rid sealed' key of Inl e \<Rightarrow> Inl (CnClient e) | Inr q \<Rightarrow> Inr (q, key))"
    using d p(2) sealed by (simp add: connect_Join_def split: sum.split)
  then show ?thesis using p d by auto
qed

text \<open>A publisher whose relay accepts everything, and a joiner whose claim is refused.\<close>

definition demo_invite :: invite where
  "demo_invite = \<lparr>iv_rid = [], iv_waiter = 0, iv_observed = []\<rparr>"

lemma demo_Seal: "length k = 32 \<Longrightarrow> \<exists>b. SealCandidates demo_prims demo_json_cands (Some f) k cs = Inr b"
  by (auto simp: SealCandidates_def crypto_Seal_def aead_cipher_def RandomBytes_def demo_json_cands_def gcm_seal_def Let_def)

theorem invite_and_join_agree_witness:
  "\<exists>shown key mm rid. connect_Invite demo_prims demo_json_cands (Some (\<lambda>_. 1)) (Some (\<lambda>_. 0)) [] (\<lambda>_ _. Inr demo_invite) =
       (Inr (shown, demo_invite, key), mm) \<and> length (rid :: bytes) = 16 \<and> length key = 32 \<and>
     fst (connect_Join demo_prims demo_json_cands (Some (\<lambda>_. 0)) [] (\<lambda>r _ k. Inl (ErrRelay (if r = rid \<and> k = key then ''agreed'' else ''other'')))
       (map of_char shown)) = Inl (CnClient (ErrRelay ''agreed''))"
proof -
  obtain c where c: "NewCode (Some (\<lambda>_. 1)) = Inr c" "length (secret c) = 20" by (simp add: NewCode_def RandomBytes_def)
  obtain rid k where d: "code_ID demo_prims c = Inr rid" "length rid = 16" "code_PairingKey demo_prims c = Inr k" "length k = 32"
    by (rule derived [OF c(2)])
  obtain b where b: "SealCandidates demo_prims demo_json_cands (Some (\<lambda>_. 0)) k [] = Inr b" using demo_Seal [OF d(4)] by blast
  let ?p = "\<lambda>r s. if r = rid then Inr demo_invite else Inl ErrClosed"
  have "connect_Invite demo_prims demo_json_cands (Some (\<lambda>_. 1)) (Some (\<lambda>_. 0)) [] publish =
      (Inr (code_String c, demo_invite, k), \<lparr>mm_code = Some (code_Zeroise c), mm_key = Some k\<rparr>)"
    if "publish rid b = Inr demo_invite" for publish using c d b that by (simp add: connect_Invite_def)
  then have i: "connect_Invite demo_prims demo_json_cands (Some (\<lambda>_. 1)) (Some (\<lambda>_. 0)) [] ?p =
      (Inr (code_String c, demo_invite, k), \<lparr>mm_code = Some (code_Zeroise c), mm_key = Some k\<rparr>)"
    "connect_Invite demo_prims demo_json_cands (Some (\<lambda>_. 1)) (Some (\<lambda>_. 0)) [] (\<lambda>_ _. Inr demo_invite) =
      (Inr (code_String c, demo_invite, k), \<lparr>mm_code = Some (code_Zeroise c), mm_key = Some k\<rparr>)"
    by simp_all
  from invite_and_join_agree [OF i(1) b, of "\<lambda>r _ x. Inl (ErrRelay (if r = rid \<and> x = k then ''agreed'' else ''other''))"]
  have "fst (connect_Join demo_prims demo_json_cands (Some (\<lambda>_. 0)) [] (\<lambda>r _ x. Inl (ErrRelay (if r = rid \<and> x = k then ''agreed'' else ''other'')))
       (map of_char (code_String c))) = Inl (CnClient (ErrRelay ''agreed''))"
    by (auto split: if_splits)
  then show ?thesis using i(2) d by blast
qed

text \<open>
  \<open>Join\<close> leaves no secrets behind. Whenever \<open>Join\<close> fails, for whatever reason and on whatever text, the
  secret of the code and the pairing key that it held are overwritten.
\<close>

theorem failed_join_wipes:
  assumes "connect_Join P J rnd cands claim codeText = (Inl err, mm)"
  shows "wiped_out mm"
proof (cases "ParseCode codeText")
  case (Inl e)
  then show ?thesis using assms by (auto simp: connect_Join_def wiped_out_def no_secrets_def)
next
  case (Inr c)
  obtain rid k where "code_ID P c = Inr rid" "code_PairingKey P c = Inr k" by (rule derived [OF ParseCode_length [OF Inr]])
  then show ?thesis using assms Inr set_Zeroise
    by (auto simp: connect_Join_def wiped_out_def code_Zeroise_def split: sum.splits)
qed

theorem failed_join_wipes_witness:
  "\<exists>err mm. connect_Join demo_prims demo_json_cands (Some (\<lambda>_. 0)) [] (\<lambda>_ _ _. Inl ErrClosed) (replicate 32 65) = (Inl err, mm) \<and>
     mm_code mm \<noteq> None \<and> wiped_out mm"
proof -
  have "cleaned_runes (replicate 32 65) = map (\<lambda>d. of_char (b32_char d)) (replicate 32 0)"
    by (simp add: cleaned_runes_def is_separator_def ToUpper_def b32_char_def b32_alphabet_def)
  then obtain c where c: "ParseCode (replicate 32 65) = Inr c" using ParseCode_digits [of "replicate 32 0"] by (auto simp: list_all_iff)
  obtain rid k where d: "code_ID demo_prims c = Inr rid" "code_PairingKey demo_prims c = Inr k" "length k = 32"
    by (rule derived [OF ParseCode_length [OF c]])
  obtain b where b: "SealCandidates demo_prims demo_json_cands (Some (\<lambda>_. 0)) k [] = Inr b" using demo_Seal [OF d(3)] by blast
  have j: "connect_Join demo_prims demo_json_cands (Some (\<lambda>_. 0)) [] (\<lambda>_ _ _. Inl ErrClosed) (replicate 32 65) =
      (Inl (CnClient ErrClosed), \<lparr>mm_code = Some (code_Zeroise c), mm_key = Some (Zeroise k)\<rparr>)"
    by (simp only: connect_Join_def c d b sum.case)
  from failed_join_wipes [OF j] j show ?thesis by auto
qed

text \<open>
  \<open>Invite\<close> does not wipe when it fails. If sealing the candidates or publishing the code fails, the call
  returns an error with the secret of the code and the pairing key derived from it still in
  memory, as they were.
\<close>

theorem failed_invite_keeps_secrets:
  assumes "NewCode rnd = Inr c" and "connect_Invite P J rnd seal cands publish = (Inl err, mm)"
  shows "\<exists>key. code_PairingKey P c = Inr key \<and> mm = \<lparr>mm_code = Some c, mm_key = Some key\<rparr>"
proof -
  obtain rid k where "code_ID P c = Inr rid" "code_PairingKey P c = Inr k" by (rule derived [OF NewCode_length [OF assms(1)]])
  then show ?thesis using assms by (auto simp: connect_Invite_def split: sum.splits)
qed

theorem failed_invite_keeps_secrets_witness:
  "\<exists>c err mm key. NewCode (Some (\<lambda>_. 1)) = Inr c \<and> secret c \<noteq> [] \<and>
     connect_Invite demo_prims demo_json_cands (Some (\<lambda>_. 1)) (Some (\<lambda>_. 0)) [] (\<lambda>_ _. Inl ErrClosed) = (Inl err, mm) \<and>
     code_PairingKey demo_prims c = Inr key \<and> mm = \<lparr>mm_code = Some c, mm_key = Some key\<rparr>"
proof -
  obtain c where c: "NewCode (Some (\<lambda>_. 1)) = Inr c" "length (secret c) = 20" by (simp add: NewCode_def RandomBytes_def)
  obtain rid k where d: "code_ID demo_prims c = Inr rid" "code_PairingKey demo_prims c = Inr k" "length k = 32" by (rule derived [OF c(2)])
  obtain b where b: "SealCandidates demo_prims demo_json_cands (Some (\<lambda>_. 0)) k [] = Inr b" using demo_Seal [OF d(3)] by blast
  have i: "connect_Invite demo_prims demo_json_cands (Some (\<lambda>_. 1)) (Some (\<lambda>_. 0)) [] (\<lambda>_ _. Inl ErrClosed) =
      (Inl (CnClient ErrClosed), \<lparr>mm_code = Some c, mm_key = Some k\<rparr>)"
    by (simp only: connect_Invite_def c(1) d b sum.case)
  have "secret c \<noteq> []" using c(2) by auto
  with failed_invite_keeps_secrets [OF c(1) i] i c(1) show ?thesis by blast
qed

end
