(* ===== verification/Cli.thy ===== *)
theory Cli
  imports Connect GoStrings
begin

text \<open>
  \<open>main.go\<close>: the identity of a node, the passphrase, and the commands that the user types. Text that
  is printed is a value of type \<open>reply\<close>; what a command starts in the background is a value of
  type \<open>cli_action\<close>. The start of the program is the theory \<open>Startup\<close>, the display of events \<open>Terminal\<close>.
\<close>

section \<open>Start-up\<close>

definition portOf :: "string \<Rightarrow> int" where
  "portOf addr =
     (if addr = [] then 0
      else case SplitHostPort addr of None \<Rightarrow> 0
           | Some (_, port) \<Rightarrow> (case Atoi port of None \<Rightarrow> 0 | Some n \<Rightarrow> n))"

datatype cli_error = CliPassphrase | CliNoName | CliIdentity identity_error

text \<open>The value of \<open>HMDL_PASSPHRASE\<close>, and the line read from the terminal up to its line feed, if that succeeds.\<close>

definition readPassphrase :: "string \<Rightarrow> string option \<Rightarrow> cli_error + string" where
  "readPassphrase envValue line =
     (if envValue \<noteq> [] then Inr envValue
      else case line of None \<Rightarrow> Inl CliPassphrase | Some l \<Rightarrow> Inr (TrimSpace l))"

text \<open>
  \<open>home\<close> is the result of \<open>os.UserHomeDir\<close>.
\<close>

definition defaultDataDir :: "string option \<Rightarrow> string" where
  "defaultDataDir home = (case home of None \<Rightarrow> ''.heimdall'' | Some h \<Rightarrow> filepath_Join h ''.heimdall'')"

text \<open>\<open>statFails\<close> says that \<open>os.Stat\<close> reported an error although the file may exist.\<close>

definition identity_path :: "string \<Rightarrow> string" where
  "identity_path dataDir = filepath_Join dataDir ''identity.hmdl''"

definition loadOrCreateIdentity ::
    "prims \<Rightarrow> json_lib \<Rightarrow> entropy \<Rightarrow> entropy \<Rightarrow> entropy \<Rightarrow> io_faults \<Rightarrow> bool \<Rightarrow> string \<Rightarrow> string option \<Rightarrow> string \<Rightarrow> string \<Rightarrow> files \<Rightarrow>
     (cli_error + identity) \<times> files" where
  "loadOrCreateIdentity P J rndKey rndSalt rndSeal io statFails envValue line dataDir name fs =
     (let path = identity_path dataDir
      in if fs path \<noteq> None \<and> \<not> statFails then
           (case readPassphrase envValue line of Inl e \<Rightarrow> (Inl e, fs)
            | Inr pass \<Rightarrow>
              (case identity_Load P J path pass fs of Inl e \<Rightarrow> (Inl (CliIdentity e), fs) | Inr i \<Rightarrow> (Inr i, fs)))
         else if TrimSpace name = [] then (Inl CliNoName, fs)
         else
           (case Generate P rndKey name of Inl e \<Rightarrow> (Inl (CliIdentity e), fs)
            | Inr i \<Rightarrow>
              (case readPassphrase envValue line of Inl e \<Rightarrow> (Inl e, fs)
               | Inr pass \<Rightarrow>
                 (case identity_Save P J rndSalt rndSeal io i path pass fs of
                    (Inl e, fs1) \<Rightarrow> (Inl (CliIdentity e), fs1) | (Inr _, fs1) \<Rightarrow> (Inr i, fs1)))))"

section \<open>Commands\<close>

datatype reply =
    RUsage | RNoRelay | RInviteFailed connect_error | RCode string | RJoinUsage | RConnecting | RConnectUsage | RConnectFailed
  | RMsgUsage | RSendFailed mgr_error | RAllUsage | RNoPeers | RPeer peerInfo | RVerifyUsage | RVerifyFailed peers_error
  | RVerified string | RUnknown

datatype cli_action = ActWait | ActJoin string | ActConnect string

text \<open>What surrounds one command: randomness, iteration orders, faults of the disk, the configured relay, and how
  \<open>connect.Invite\<close> and the dial of \<open>Connect\<close> turn out.\<close>

record cli_env =
  ce_rnd :: entropy
  ce_rnds :: "nat \<Rightarrow> entropy"
  ce_order :: "string list"
  ce_peerOrder :: "string list"
  ce_saveOrder :: "string list"
  ce_io :: io_faults
  ce_client :: bool
  ce_invite :: "connect_error + string"
  ce_dials :: bool

text \<open>The result: whether to quit, what is printed, what is started, the manager; \<^const>\<open>None\<close> is an index out of range.\<close>

definition handleCommand ::
    "prims \<Rightarrow> json_peers \<Rightarrow> cli_env \<Rightarrow> string \<Rightarrow> manager \<Rightarrow> (bool \<times> reply list \<times> cli_action list \<times> manager) option" where
  "handleCommand P J env line m =
     (let fields = Fields line
      in if fields = [] then None
         else
           let cmd = TrimPrefix (fields ! 0) ''/''; say = (\<lambda>rs. Some (False, rs, [], m))
           in if cmd = ''quit'' \<or> cmd = ''exit'' then Some (True, [], [], m)
              else if cmd = ''help'' then say [RUsage]
              else if cmd = ''invite'' then
                if \<not> ce_client env then say [RNoRelay]
                else (case ce_invite env of Inl e \<Rightarrow> say [RInviteFailed e] | Inr code \<Rightarrow> Some (False, [RCode code], [ActWait], m))
              else if cmd = ''join'' then
                if \<not> ce_client env then say [RNoRelay]
                else if length fields < 2 then say [RJoinUsage]
                else Some (False, [RConnecting], [ActJoin (Join (drop 1 fields) [])], m)
              else if cmd = ''connect'' then
                if length fields < 2 then say [RConnectUsage]
                else if ce_dials env then Some (False, [], [ActConnect (fields ! 1)], m) else say [RConnectFailed]
              else if cmd = ''msg'' then
                if length fields < 3 then say [RMsgUsage]
                else (case mgr_Send P (ce_rnd env) (fields ! 1) (Join (drop 2 fields) '' '') m of
                        (Inl e, m1) \<Rightarrow> Some (False, [RSendFailed e], [], m1) | (Inr _, m1) \<Rightarrow> Some (False, [], [], m1))
              else if cmd = ''all'' then
                if length fields < 2 then say [RAllUsage]
                else (case Broadcast P (ce_rnds env) (ce_order env) (Join (drop 1 fields) '' '') m of
                        (n, m1) \<Rightarrow> Some (False, if n = 0 then [RNoPeers] else [], [], m1))
              else if cmd = ''peers'' then
                (let l = mgr_Peers (ce_order env) m in say (if length l = 0 then [RNoPeers] else map RPeer l))
              else if cmd = ''verify'' then
                if length fields < 2 then say [RVerifyUsage]
                else (case Verify P J (ce_io env) (ce_peerOrder env) (ce_saveOrder env) (fields ! 1) (m_store m) (m_files m) of
                        (Inl e, s1, fs1) \<Rightarrow> Some (False, [RVerifyFailed e], [], m\<lparr>m_store := s1, m_files := fs1\<rparr>)
                      | (Inr q, s1, fs1) \<Rightarrow> Some (False, [RVerified (p_Name q)], [], m\<lparr>m_store := s1, m_files := fs1\<rparr>))
              else say [RUnknown])"

text \<open>
  \<open>repl\<close> over the lines of the terminal, with the surroundings of each. The scanner's buffer
  holds \<open>MaxScanTokenSize\<close> bytes; a longer line ends the loop.
\<close>

definition MaxScanTokenSize :: nat where "MaxScanTokenSize = 64 * 1024"

fun repl :: "prims \<Rightarrow> json_peers \<Rightarrow> (cli_env \<times> string) list \<Rightarrow> manager \<Rightarrow> (reply list \<times> cli_action list \<times> manager) option" where
  "repl P J [] m = Some ([], [], m)"
| "repl P J ((env, raw) # rest) m =
     (if length raw \<ge> MaxScanTokenSize then Some ([], [], m)
      else
        let line = TrimSpace raw;
            go_on = (\<lambda>rs acts m1. map_option (\<lambda>(rs1, acts1, m2). (rs @ rs1, acts @ acts1, m2)) (repl P J rest m1))
        in if line = [] then go_on [] [] m
           else if \<not> HasPrefix line ''/'' then
             (case Broadcast P (ce_rnds env) (ce_order env) line m of (n, m1) \<Rightarrow> go_on (if n = 0 then [RNoPeers] else []) [] m1)
           else
             (case handleCommand P J env line m of
                None \<Rightarrow> None
              | Some (quit, rs, acts, m1) \<Rightarrow> if quit then Some (rs, acts, m1) else go_on rs acts m1))"

section \<open>Words\<close>

text \<open>A word: no white space begins at any of its bytes.\<close>

definition is_word :: "string \<Rightarrow> bool" where
  "is_word w \<longleftrightarrow> w \<noteq> [] \<and> (\<forall>i. space_len (drop i w) = 0)"

lemma is_space_blank: "is_space x \<Longrightarrow> CHR '' '' \<in> set x \<Longrightarrow> x = '' ''"
proof -
  assume s: "is_space x" and b: "CHR '' '' \<in> set x"
  have n: "32 \<in> set (map of_char x :: nat list)" using b by force
  have "map of_char x = [32 :: nat]"
    using s n unfolding is_space_def by (cases "map of_char x :: nat list" rule: space_rune.cases) auto
  then have "map (char_of \<circ> (of_char :: char \<Rightarrow> nat)) x = [char_of (32 :: nat)]" by (metis list.simps(8,9) map_map)
  moreover have "char_of (32 :: nat) = CHR '' ''" by code_simp
  ultimately show "x = '' ''" by (simp add: comp_def)
qed

lemma space_in_word:
  assumes "u \<noteq> []" "space_len u = 0"
  shows "space_len (u @ CHR '' '' # r) = 0"
proof (rule ccontr)
  assume "space_len (u @ CHR '' '' # r) \<noteq> 0"
  then obtain x where x: "prefix x (u @ CHR '' '' # r)" "is_space x" using space_len_iff by blast
  have "prefix x u"
  proof (rule ccontr)
    assume "\<not> prefix x u"
    then have "prefix u x" "x \<noteq> u" using x(1) by (auto simp: prefix_append)
    then have "CHR '' '' \<in> set x" using x(1) by (auto simp: prefix_def Cons_eq_append_conv)
    then have "x = '' ''" using is_space_blank x(2) by blast
    then show False using \<open>prefix u x\<close> \<open>x \<noteq> u\<close> assms(1) by (auto simp: prefix_Cons)
  qed
  then show False using assms(2) x(2) space_len_iff by blast
qed


lemma word_append:
  assumes "\<forall>i. space_len (drop i w) = 0" "i < length w"
  shows "space_len (drop i w @ CHR '' '' # r) = 0"
  by (rule space_in_word) (use assms in auto)

lemma split_word: "\<forall>i. space_len (drop i w) = 0 \<Longrightarrow> split_spaces cur (w @ CHR '' '' # r) = (cur @ w) # split_spaces [] r"
proof (induction w arbitrary: cur)
  case Nil
  have "space_len (CHR '' '' # r) = 1" by (simp add: space_len_def is_space_def)
  then show ?case by simp
next
  case (Cons a w)
  have "space_len (a # w @ CHR '' '' # r) = 0" using word_append [OF Cons.prems, of 0 r] by simp
  moreover have "\<forall>i. space_len (drop i w) = 0"
  proof
    show "space_len (drop i w) = 0" for i using Cons.prems [rule_format, of "Suc i"] by simp
  qed
  ultimately show ?case using Cons.IH by simp
qed

lemma split_last_word: "\<forall>i. space_len (drop i w) = 0 \<Longrightarrow> split_spaces cur w = [cur @ w]"
proof (induction w arbitrary: cur)
  case (Cons a w)
  have "space_len (a # w) = 0" using Cons.prems [rule_format, of 0] by simp
  moreover have "\<forall>i. space_len (drop i w) = 0"
  proof
    show "space_len (drop i w) = 0" for i using Cons.prems [rule_format, of "Suc i"] by simp
  qed
  ultimately show ?case using Cons.IH by simp
qed simp

lemma Fields_Join: "list_all is_word ws \<Longrightarrow> Fields (Join ws '' '') = ws"
proof (induction ws "'' ''" rule: Join.induct)
  case (2 w)
  then show ?case using split_last_word [of w "[]"] by (simp add: Fields_def is_word_def)
next
  case (3 w v ws)
  then show ?case using split_word [of w "[]"] by (simp add: Fields_def is_word_def)
qed (simp add: Fields_def)

text \<open>Visible ASCII characters are no white space.\<close>

definition visible :: "char \<Rightarrow> bool" where
  "visible c \<longleftrightarrow> 32 < (of_char c :: nat) \<and> (of_char c :: nat) < 128"

lemma visible_no_space: "visible c \<Longrightarrow> space_len (c # s) = 0"
proof -
  assume v: "visible c"
  have "\<not> space_rune (of_char c # l)" for l using v by (cases "of_char c # l" rule: space_rune.cases) (auto simp: visible_def)
  then show ?thesis using v by (simp add: space_len_def is_space_def visible_def take_Cons')
qed

lemma visible_word: "w \<noteq> [] \<Longrightarrow> list_all visible w \<Longrightarrow> is_word w"
proof -
  assume w: "w \<noteq> []" "list_all visible w"
  have "space_len (drop i w) = 0" for i
  proof (cases "drop i w")
    case (Cons c s)
    then have "c \<in> set w" by (metis in_set_dropD list.set_intros(1))
    then show ?thesis using Cons w(2) visible_no_space by (auto simp: list_all_iff)
  qed simp
  then show ?thesis using w(1) by (simp add: is_word_def)
qed

lemma slash_word: "space_len (CHR ''/'' # s) = 0"
  by (rule visible_no_space) (simp add: visible_def)

text \<open>A line that begins with a slash has a field.\<close>

lemma Fields_command: "HasPrefix line ''/'' \<Longrightarrow> Fields line \<noteq> []"
  using Fields_head [OF slash_word] by (cases line) (auto simp: HasPrefix_def, metis list.distinct(1))

lemma Fields_words: "f \<in> set (Fields line) \<Longrightarrow> is_word f"
  using Fields_clean by (auto simp: is_word_def)


section \<open>What commands change\<close>

lemma send_store: "m_store (snd (send_chat P rnd i msg m)) = m_store m"
  by (auto simp: send_chat_def enqueue_def push_frame_def set_conn_def Let_def split: option.split sum.split prod.split)

lemma broadcast_store: "m_store (snd (broadcast_loop P rnd msg is n m)) = m_store m"
proof (induction "is" arbitrary: n m)
  case (Cons i "is")
  obtain q m1 where s: "send_chat P (rnd i) i msg m = (q, m1)" by fastforce
  then have "m_store m1 = m_store m" using send_store [of P "rnd i" i msg m] by simp
  then show ?case using Cons.IH s by (cases q) simp_all
qed simp

text \<open>A record whose name is no single word is never changed into a verified one, and no other name is.\<close>

definition keeps_names :: "peer_map \<Rightarrow> peer_map \<Rightarrow> bool" where
  "keeps_names s t \<longleftrightarrow> (\<forall>j q. t j = Some q \<longrightarrow> s j = Some q \<or> is_word (p_Name q))"

lemma keeps_names_refl: "keeps_names s s"
  by (simp add: keeps_names_def)

lemma keeps_names_trans: "keeps_names s t \<Longrightarrow> keeps_names t u \<Longrightarrow> keeps_names s u"
  unfolding keeps_names_def by blast

lemma verify_names:
  assumes "verify_peer P order name s = (r, t)" "is_word name"
  shows "keeps_names s t"
proof (cases "findByNameLocked order s name")
  case None
  then show ?thesis using assms by (simp add: verify_peer_def keeps_names_def)
next
  case (Some j)
  then have "(case s j of Some p \<Rightarrow> p_Name p = name | None \<Rightarrow> False)" unfolding findByNameLocked_def find_Some_iff by blast
  then obtain p where p: "s j = Some p" "p_Name p = name" by (auto split: option.splits)
  then show ?thesis using assms Some by (auto simp: verify_peer_def keeps_names_def Let_def split: if_splits)
qed

lemma Verify_names:
  assumes "Verify P J io order order' name s fs = (r, s1, fs1)" "is_word name"
  shows "keeps_names (st_peers s) (st_peers s1)"
proof -
  obtain q t where v: "verify_peer P order name (st_peers s) = (q, t)" by fastforce
  then have "keeps_names (st_peers s) t" using assms(2) by (rule verify_names)
  then show ?thesis using assms(1) v by (cases q) (auto simp: Verify_def keeps_names_refl Let_def split: sum.splits prod.splits)
qed

lemma command_names:
  assumes "handleCommand P J env line m = Some (q, rs, acts, m1)"
  shows "keeps_names (st_peers (m_store m)) (st_peers (m_store m1))"
proof (cases "TrimPrefix (Fields line ! 0) ''/'' = ''verify'' \<and> length (Fields line) \<ge> 2")
  case True
  then have "is_word (Fields line ! 1)" using Fields_words [OF nth_mem [of 1 "Fields line"]] by simp
  moreover obtain r s1 fs1 where v: "Verify P J (ce_io env) (ce_peerOrder env) (ce_saveOrder env) (Fields line ! 1) (m_store m) (m_files m) = (r, s1, fs1)"
    by (metis surj_pair)
  ultimately have "keeps_names (st_peers (m_store m)) (st_peers s1)" using Verify_names by blast
  moreover have "m_store m1 = s1"
    using assms True v unfolding handleCommand_def Let_def by (cases r) (auto split: if_splits)
  ultimately show ?thesis by simp
next
  case False
  have "m_store m1 = m_store m"
  proof -
    obtain r m2 where s: "mgr_Send P (ce_rnd env) (Fields line ! 1) (Join (drop 2 (Fields line)) '' '') m = (r, m2)" by fastforce
    obtain n m3 where b: "Broadcast P (ce_rnds env) (ce_order env) (Join (drop 1 (Fields line)) '' '') m = (n, m3)" by fastforce
    have "m_store m2 = m_store m" using s send_store by (auto simp: mgr_Send_def split: option.splits) (metis snd_conv)
    moreover have "m_store m3 = m_store m" using b broadcast_store by (auto simp: Broadcast_def) (metis snd_conv)
    ultimately show ?thesis using assms False s b unfolding handleCommand_def Let_def
      by (cases r) (auto split: if_splits sum.splits)
  qed
  then show ?thesis by (simp add: keeps_names_def)
qed


lemma repl_names: "repl P J inputs m = Some (rs, acts, m1) \<Longrightarrow> keeps_names (st_peers (m_store m)) (st_peers (m_store m1))"
proof (induction inputs arbitrary: m rs acts m1)
  case (Cons x rest)
  obtain env raw where x: "x = (env, raw)" by fastforce
  obtain n m2 where b: "Broadcast P (ce_rnds env) (ce_order env) (TrimSpace raw) m = (n, m2)" by fastforce
  then have m2: "m_store m2 = m_store m" using broadcast_store by (auto simp: Broadcast_def) (metis snd_conv)
  have cmd: "keeps_names (st_peers (m_store m)) (st_peers (m_store m1))"
    if "handleCommand P J env (TrimSpace raw) m = Some (q, r1, a1, m3)" "if q then m1 = m3 else repl P J rest m3 = Some (r2, a2, m1)"
    for q r1 a1 m3 r2 a2
    using that command_names [OF that(1)] Cons.IH keeps_names_trans by (auto split: if_splits)
  show ?case
  proof (cases "length raw \<ge> MaxScanTokenSize \<or> TrimSpace raw = []")
    case True
    then show ?thesis using Cons x keeps_names_refl by (auto simp: Let_def split: if_splits)
  next
    case False
    show ?thesis
    proof (cases "HasPrefix (TrimSpace raw) ''/''")
      case True
      then show ?thesis using Cons.prems False x cmd by (auto simp: Let_def split: option.splits if_splits)
    next
      case slash: False
      then obtain rs1 acts1 where "repl P J rest m2 = Some (rs1, acts1, m1)" using Cons.prems x False b by (auto simp: Let_def)
      from Cons.IH [OF this] show ?thesis by (simp add: m2)
    qed
  qed
qed (simp add: keeps_names_refl)

lemma repl_no_panic:
  "repl P J inputs m \<noteq> None"
proof (induction inputs arbitrary: m)
  case (Cons x rest)
  obtain env raw where x: "x = (env, raw)" by fastforce
  have "handleCommand P J env line m \<noteq> None" if "HasPrefix line ''/''" for line
    using Fields_command [OF that] by (auto simp: handleCommand_def Let_def split: sum.split prod.split)
  then have "HasPrefix line ''/'' \<longrightarrow> handleCommand P J env line m \<noteq> None" for line by blast
  then show ?case using Cons.IH by (auto simp: x Let_def simp del: not_None_eq split: prod.split option.split)
qed simp

section \<open>Properties\<close>

text \<open>
  the command loop does not fail. Whatever lines are typed and whatever the manager, the disk and
  the relay do, no command indexes beyond its words: the loop ends only with the input, with a line
  that does not fit the scanner's buffer, or with \<open>/quit\<close>.
\<close>

theorem repl_never_panics:
  "repl P J inputs m \<noteq> None"
  by (rule repl_no_panic)

text \<open>
  what \<open>/msg\<close> sends. A line made of \<open>/msg\<close>, the name of a peer and some words, separated by single blanks,
  is sent to that peer as exactly these words.
\<close>

theorem msg_command_sends:
  assumes "is_word name" "list_all is_word ws" "ws \<noteq> []" and "mgr_Send P (ce_rnd env) name (Join ws '' '') m = (r, m1)"
  shows "handleCommand P J env (Join (''/msg'' # name # ws) '' '') m =
    Some (False, case r of Inl e \<Rightarrow> [RSendFailed e] | Inr _ \<Rightarrow> [], [], m1)"
proof -
  have "is_word ''/msg''" by (rule visible_word) (simp_all add: visible_def)
  then have "list_all is_word (''/msg'' # name # ws)" using assms(1,2) by simp
  then have f: "Fields (Join (''/msg'' # name # ws) '' '') = ''/msg'' # name # ws" by (rule Fields_Join)
  show ?thesis using assms(3,4) unfolding handleCommand_def f Let_def
    by (cases r) (simp_all add: TrimPrefix_def)
qed


definition demo_cli :: cli_env where
  "demo_cli = \<lparr>ce_rnd = None, ce_rnds = (\<lambda>_. None), ce_order = [], ce_peerOrder = [''x''], ce_saveOrder = [], ce_io = no_faults,
     ce_client = False, ce_invite = Inl (CnClient ErrClosed), ce_dials = False\<rparr>"

theorem msg_command_sends_witness:
  "handleCommand demo_prims demo_json_peers demo_cli ''/msg bob hello there'' demo_manager = Some (False, [RSendFailed (MNotConnected ''bob'')], [], demo_manager)"
proof -
  have w: "is_word ''bob''" "list_all is_word [''hello'', ''there'']" "[''hello'', ''there''] \<noteq> []"
    using visible_word by (simp_all add: visible_def)
  have "mgr_Send demo_prims (ce_rnd demo_cli) ''bob'' (Join [''hello'', ''there''] '' '') demo_manager = (Inl (MNotConnected ''bob''), demo_manager)"
    by (simp add: mgr_Send_def demo_manager_def NewManager_def)
  from msg_command_sends [OF w this, of demo_json_peers] show ?thesis by simp
qed

text \<open>
  a name with white space can not be verified. \<open>/verify\<close> takes one word; over every sequence of typed
  lines, a trust record whose name contains white space or is empty is what it was before, while the
  handshake accepts such names.
\<close>

theorem spaced_names_unverifiable:
  assumes "repl P J inputs m = Some (rs, acts, m1)"
    and "st_peers (m_store m1) j = Some q" and "\<exists>i. space_len (drop i (p_Name q)) \<noteq> 0"
  shows "st_peers (m_store m) j = Some q"
  using repl_names [OF assms(1)] assms(2,3) unfolding keeps_names_def is_word_def by metis

theorem spaced_names_unverifiable_witness:
  "let q = demo_peer\<lparr>p_Name := ''Bob B''\<rparr>; m = demo_manager\<lparr>m_store := \<lparr>st_path = [], st_peers = [''x'' \<mapsto> q]\<rparr>\<rparr> in
   \<exists>rs acts m1. repl demo_prims demo_json_peers [(demo_cli, ''/verify Bob B'')] m = Some (rs, acts, m1) \<and>
     (\<forall>r. st_peers (m_store m1) ''x'' = Some r \<and> p_Name r = ''Bob B'' \<longrightarrow> r = q)"
proof -
  define q where "q = demo_peer\<lparr>p_Name := ''Bob B''\<rparr>"
  define m where "m = demo_manager\<lparr>m_store := \<lparr>st_path = [], st_peers = [''x'' \<mapsto> q]\<rparr>\<rparr>"
  obtain rs acts m1 where run: "repl demo_prims demo_json_peers [(demo_cli, ''/verify Bob B'')] m = Some (rs, acts, m1)"
    using repl_no_panic [of demo_prims demo_json_peers "[(demo_cli, ''/verify Bob B'')]" m] by (metis not_None_eq prod_cases3)
  have "r = q" if "st_peers (m_store m1) ''x'' = Some r" "p_Name r = ''Bob B''" for r
  proof -
    have "space_len (drop 3 (p_Name r)) \<noteq> 0" using that(2) by (simp add: space_len_def is_space_def)
    then have "\<exists>i. space_len (drop i (p_Name r)) \<noteq> 0" by blast
    from spaced_names_unverifiable [OF run that(1) this] show ?thesis by (simp add: m_def)
  qed
  then show ?thesis using run unfolding q_def [symmetric] m_def [symmetric] Let_def by blast
qed

lemma created_identity:
  assumes "loadOrCreateIdentity P J rndKey (Some f) (Some g) no_faults False envValue line dataDir name fs = (Inr i, fs1)"
    and "fs (identity_path dataDir) = None" and json: "\<And>priv. id_priv i = Some priv \<Longrightarrow> json_unmarshal J (json_marshal J (disk_of i priv)) = Some (disk_of i priv)"
  obtains pass where "readPassphrase envValue line = Inr pass" "pass \<noteq> []" "id_Name i = name" "fs1 (identity_path dataDir) \<noteq> None"
    "identity_Load P J (identity_path dataDir) pass fs1 = Inr i"
proof -
  obtain pass r where c: "Generate P rndKey name = Inr i" "readPassphrase envValue line = Inr pass"
    "identity_Save P J (Some f) (Some g) no_faults i (identity_path dataDir) pass fs = (r, fs1)" "r = Inr ()"
    using assms(1,2) by (auto simp: loadOrCreateIdentity_def Let_def split: if_splits sum.splits prod.splits)
  have ok: "identity_ok i" "id_Name i = name" using Generate_ok [OF c(1)] by auto
  then obtain priv where p: "id_priv i = Some priv" by (auto simp: identity_ok_def)
  have pass: "pass \<noteq> []" using c(3,4) p by (auto simp: identity_Save_def)
  note l = saved_loads [OF ok(1) p pass json [OF p] c(3)]
  show thesis by (rule that [OF c(2) pass ok(2) l(4,2)])
qed

text \<open>
  an identity survives a restart. When the first start creates an identity, a later start with the same
  passphrase and any name loads exactly this identity and leaves the file as it is; without a
  passphrase no identity is created.
\<close>

theorem identity_persists:
  assumes first: "loadOrCreateIdentity P J rndKey (Some f) (Some g) no_faults False envValue line dataDir name fs = (Inr i, fs1)"
    and "fs (identity_path dataDir) = None"
    and json: "\<And>priv. id_priv i = Some priv \<Longrightarrow> json_unmarshal J (json_marshal J (disk_of i priv)) = Some (disk_of i priv)"
  shows "loadOrCreateIdentity P J rndKey' rndSalt rndSeal io False envValue line dataDir name' fs1 = (Inr i, fs1) \<and>
    id_Name i = name \<and> readPassphrase envValue line \<noteq> Inr []"
  by (rule created_identity [OF first assms(2) json]) (simp_all add: loadOrCreateIdentity_def)

text \<open>
  a failing \<open>Stat\<close> replaces the identity. When \<open>os.Stat\<close> reports any error for an identity file that exists,
  and a name is given, a new identity is generated and saved over the old file.
\<close>

theorem stat_error_replaces_identity:
  assumes "Generate P rndKey name = Inr i" "TrimSpace name \<noteq> []" "readPassphrase envValue line = Inr pass" "pass \<noteq> []"
    and "identity_Load P J (identity_path dataDir) pass fs = Inr old" and json: "\<And>priv. id_priv i = Some priv \<Longrightarrow> json_unmarshal J (json_marshal J (disk_of i priv)) = Some (disk_of i priv)"
  shows "\<exists>fs1. loadOrCreateIdentity P J rndKey (Some f) (Some g) no_faults True envValue line dataDir name fs = (Inr i, fs1) \<and>
    identity_Load P J (identity_path dataDir) pass fs1 = Inr i"
proof -
  obtain r fs1 where s: "identity_Save P J (Some f) (Some g) no_faults i (identity_path dataDir) pass fs = (r, fs1)" by fastforce
  have ok: "identity_ok i" using Generate_ok [OF assms(1)] by auto
  then obtain priv where p: "id_priv i = Some priv" by (auto simp: identity_ok_def)
  note l = saved_loads [OF ok p assms(4) json [OF p] s]
  show ?thesis using l(1,2) s assms(1-3) by (simp add: loadOrCreateIdentity_def Let_def)
qed


lemma demo_identity_json:
  assumes "Generate demo_prims rnd name = Inr i" "id_priv i = Some priv"
  shows "json_unmarshal demo_json (json_marshal demo_json (disk_of i priv)) = Some (disk_of i priv)"
  by (rule demo_json_round_trip) (use Generate_ok [OF assms(1)] assms(2) in \<open>auto simp: disk_of_def identity_ok_def\<close>)

theorem identity_persists_witness:
  "\<exists>i fs1. loadOrCreateIdentity demo_prims demo_json (Some (\<lambda>_. 1)) (Some (\<lambda>_. 2)) (Some (\<lambda>_. 3)) no_faults False ''pw'' None ''d'' ''alice'' Map.empty =
       (Inr i, fs1) \<and>
     loadOrCreateIdentity demo_prims demo_json None None None no_faults False ''pw'' None ''d'' [] fs1 = (Inr i, fs1)"
proof -
  obtain i where i: "Generate demo_prims (Some (\<lambda>_. 1)) ''alice'' = Inr i" by (simp add: Generate_def is_blank_def Let_def)
  obtain r fs1 where s: "identity_Save demo_prims demo_json (Some (\<lambda>_. 2)) (Some (\<lambda>_. 3)) no_faults i (identity_path ''d'') ''pw'' Map.empty = (r, fs1)" by fastforce
  obtain priv where p: "id_priv i = Some priv" using Generate_ok [OF i] by (auto simp: identity_ok_def)
  have "r = Inr ()" using saved_loads(1) [OF _ p _ demo_identity_json [OF i p] s] Generate_ok [OF i] by simp
  moreover have "TrimSpace ''alice'' \<noteq> []" by (simp add: TrimSpace_def trim_left.simps trim_right.simps space_len_def space_end_def is_space_def Let_def)
  ultimately have first: "loadOrCreateIdentity demo_prims demo_json (Some (\<lambda>_. 1)) (Some (\<lambda>_. 2)) (Some (\<lambda>_. 3)) no_faults False ''pw'' None ''d'' ''alice''
      Map.empty = (Inr i, fs1)"
    using i s by (simp add: loadOrCreateIdentity_def readPassphrase_def Let_def)
  from identity_persists [OF first _ demo_identity_json [OF i], of None None None no_faults "[]"] first show ?thesis by auto
qed

theorem stat_error_replaces_identity_witness:
  "\<exists>old i fs fs1. identity_Load demo_prims demo_json (identity_path ''d'') ''pw'' fs = Inr old \<and> Generate demo_prims (Some (\<lambda>_. 1)) ''alice'' = Inr i \<and> id_Name old = ''bob'' \<and>
     loadOrCreateIdentity demo_prims demo_json (Some (\<lambda>_. 1)) (Some (\<lambda>_. 2)) (Some (\<lambda>_. 3)) no_faults True ''pw'' None ''d'' ''alice'' fs = (Inr i, fs1) \<and>
     identity_Load demo_prims demo_json (identity_path ''d'') ''pw'' fs1 = Inr i"
proof -
  obtain i where i: "Generate demo_prims (Some (\<lambda>_. 1)) ''alice'' = Inr i" by (simp add: Generate_def is_blank_def Let_def)
  obtain old where o: "Generate demo_prims (Some (\<lambda>_. 2)) ''bob'' = Inr old" by (simp add: Generate_def is_blank_def Let_def)
  obtain r fs where s: "identity_Save demo_prims demo_json (Some (\<lambda>_. 2)) (Some (\<lambda>_. 3)) no_faults old (identity_path ''d'') ''pw'' Map.empty = (r, fs)" by fastforce
  obtain priv where p: "id_priv old = Some priv" using Generate_ok [OF o] by (auto simp: identity_ok_def)
  have l: "identity_Load demo_prims demo_json (identity_path ''d'') ''pw'' fs = Inr old"
    using saved_loads(2) [OF _ p _ demo_identity_json [OF o p] s] Generate_ok [OF o] by simp
  have t: "TrimSpace ''alice'' \<noteq> []" by (simp add: TrimSpace_def trim_left.simps trim_right.simps space_len_def space_end_def is_space_def Let_def)
  have "readPassphrase ''pw'' None = Inr ''pw''" "''pw'' \<noteq> ([] :: string)" by (simp_all add: readPassphrase_def)
  from stat_error_replaces_identity [OF i t this l demo_identity_json [OF i], of "\<lambda>_. 2" "\<lambda>_. 3"] l i Generate_ok [OF o]
  show ?thesis by blast
qed

end
