(* ===== verification/Lifecycle.thy ===== *)
theory Lifecycle
  imports PairingFlow Expect "HOL-Library.Sublist"
begin

text \<open>
  The life of the connections of a manager, under all interleavings of its goroutines: one connection
  per peer, the end of a silent one, the deadlock between a drop and a reconnecting peer, what
  \<open>Shutdown\<close> takes down and what it misses, and the connections that are accepted for a rendezvous.
\<close>

section \<open>Compositions as runs\<close>

text \<open>\<open>dropConn\<close> and \<open>Shutdown\<close> are runs of their actions, undisturbed by other goroutines.\<close>

lemma dropConn_is_run:
  assumes "m_heap m i = Some c" "m_mu m = None" "c_done c \<longrightarrow> c_drop c = NotDropping"
  shows "dropConn i m = fold (mgr_step P J) [OpDrop i, OpUnregister i, OpDropEmit i] m"
proof (cases "c_done c")
  case True
  then show ?thesis
    using assms by (simp add: dropConn_def on_conn_def with_mu_def drop_begin_def drop_unregister_def drop_emit_def)
next
  case False
  then show ?thesis
    using assms by (simp add: dropConn_def on_conn_def with_mu_def drop_begin_def drop_unregister_def)
qed

lemma idle_drop:
  assumes "m_mu m = None" "\<forall>i c. m_heap m i = Some c \<longrightarrow> c_drop c = NotDropping" "m_heap m k = Some d"
  shows "m_mu (dropConn k m) = None" "\<forall>i c. m_heap (dropConn k m) i = Some c \<longrightarrow> c_drop c = NotDropping"
    "dom (m_heap m) \<subseteq> dom (m_heap (dropConn k m))"
  using assms
  by (auto simp: dropConn_def drop_emit_def drop_unregister_def drop_begin_def conn_at_def Let_def split: if_splits)

lemma drops_are_run:
  "m_mu m = None \<Longrightarrow> \<forall>i c. m_heap m i = Some c \<longrightarrow> c_drop c = NotDropping \<Longrightarrow> set is \<subseteq> dom (m_heap m) \<Longrightarrow>
   fold dropConn is m = fold (mgr_step P J) (concat (map (\<lambda>i. [OpDrop i, OpUnregister i, OpDropEmit i]) is)) m"
proof (induction "is" arbitrary: m)
  case (Cons k ks)
  then obtain d where d: "m_heap m k = Some d" by auto
  note i = idle_drop [OF Cons.prems(1,2) d]
  have "set ks \<subseteq> dom (m_heap m)" using Cons.prems(3) by simp
  then have "set ks \<subseteq> dom (m_heap (dropConn k m))" using i(3) by (rule order_trans)
  moreover have "dropConn k m = fold (mgr_step P J) [OpDrop k, OpUnregister k, OpDropEmit k] m"
    using dropConn_is_run [OF d Cons.prems(1)] Cons.prems(2) d by blast
  ultimately show ?case using Cons.IH [OF i(1,2)] by simp
qed simp

text \<open>No connection is being dropped and nobody waits with the mutex.\<close>

definition idle :: "manager \<Rightarrow> bool" where
  "idle m \<longleftrightarrow> m_mu m = None \<and> (\<forall>i c. m_heap m i = Some c \<longrightarrow> c_drop c = NotDropping)"

lemma enqueue_drop:
  "m_heap m k = Some d \<Longrightarrow>
   \<exists>e. m_heap (snd (enqueue P rnd k t pt m)) = (m_heap m)(k \<mapsto> e) \<and> c_drop e = c_drop d"
  by (auto simp: enqueue_def push_frame_def conn_at_def Let_def split: prod.split sum.split)

lemma frames_are_run:
  "idle m \<Longrightarrow> set is \<subseteq> dom (m_heap m) \<Longrightarrow>
   Shutdown_frames P rnd is m = fold (mgr_step P J) (map (\<lambda>i. OpEnqueue (rnd i) i TypeClose) is) m \<and>
   idle (Shutdown_frames P rnd is m) \<and> dom (m_heap m) \<subseteq> dom (m_heap (Shutdown_frames P rnd is m))"
proof (induction "is" arbitrary: m)
  case Nil
  then show ?case by (simp add: Shutdown_frames_def)
next
  case (Cons k ks)
  then obtain d where d: "m_heap m k = Some d" by auto
  let ?m1 = "snd (enqueue P (rnd k) k TypeClose [] m)"
  obtain e where e: "m_heap ?m1 = (m_heap m)(k \<mapsto> e)" "c_drop e = c_drop d" using enqueue_drop [OF d] by blast
  have "m_mu ?m1 = m_mu m" using local_index [OF local_enqueue [OF d]] by blast
  then have "idle ?m1" using Cons.prems(1) e d by (simp add: idle_def)
  moreover have "set ks \<subseteq> dom (m_heap ?m1)" using Cons.prems(2) e by auto
  ultimately show ?case using Cons.IH [of ?m1] d e by (auto simp: Shutdown_frames_def on_conn_def)
qed

lemma current_conns_dom: "manager_ok m \<Longrightarrow> set (current_conns order m) \<subseteq> dom (m_heap m)"
  using manager_ok_conns [of m] by (fastforce simp: current_conns_def List.map_filter_def)

lemma Shutdown_is_run:
  assumes "manager_ok m" and "idle m"
  shows "Shutdown P rnd order m =
    fold (mgr_step P J) (OpClosing # Shutdown_actions rnd (current_conns order m)) m"
proof -
  let ?is = "current_conns order m" and ?m1 = "m\<lparr>m_closing := True\<rparr>"
  have i: "idle ?m1" "set ?is \<subseteq> dom (m_heap ?m1)" using assms current_conns_dom by (auto simp: idle_def)
  note f = frames_are_run [OF i, of P rnd J]
  have "idle (Shutdown_frames P rnd ?is ?m1)" "set ?is \<subseteq> dom (m_heap (Shutdown_frames P rnd ?is ?m1))" using f i(2) by blast+
  then have "fold dropConn ?is (Shutdown_frames P rnd ?is ?m1) =
      fold (mgr_step P J) (concat (map (\<lambda>i. [OpDrop i, OpUnregister i, OpDropEmit i]) ?is)) (Shutdown_frames P rnd ?is ?m1)"
    by (intro drops_are_run) (simp_all add: idle_def)
  with f show ?thesis by (simp add: Shutdown_def Shutdown_begin_def Shutdown_actions_def)
qed

text \<open>What keeps a manager idle.\<close>

lemma idle_send:
  assumes "idle m" and "m_heap m k = Some d"
  shows "idle (snd (send_chat P rnd k msg m))"
proof -
  have "\<exists>e. m_heap (snd (send_chat P rnd k msg m)) = (m_heap m)(k \<mapsto> e) \<and> c_drop e = c_drop d"
    using assms(2) by (auto simp: send_chat_def push_frame_def conn_at_def Let_def split: prod.split sum.split)
  moreover have "m_mu (snd (send_chat P rnd k msg m)) = m_mu m" using local_index [OF local_send_chat [OF assms(2)]] by blast
  ultimately show ?thesis using assms by (auto simp: idle_def split: if_splits)
qed

lemma idle_enroll:
  assumes ok: "manager_ok m" and "idle m" and c: "conn_ok c" "live c"
  shows "idle (enroll c m)"
proof -
  have n: "c_drop c = NotDropping" using c by (auto simp: conn_ok_def live_def)
  show ?thesis
  proof (rule register_new [OF ok refl, of c])
    fix m2
    assume r: "register (m_next m) (set_conn (m_next m) c m\<lparr>m_next := m_next m + 1\<rparr>) = (True, m2)"
      "m_heap m2 = (m_heap (close_current (c_fp c) m))(m_next m \<mapsto> c)" "m_mu m2 = m_mu m"
    have "c_drop d = NotDropping" if "m_heap (close_current (c_fp c) m) k = Some d" for k d
    proof (cases "m_conns m (c_fp c)")
      case (Some j)
      then obtain e where "m_heap m j = Some e" using manager_ok_conns [OF ok] by blast
      then show ?thesis using that Some assms(2) by (auto simp: close_current_def idle_def split: if_splits)
    qed (use that assms(2) in \<open>simp add: close_current_def idle_def\<close>)
    then show ?thesis using r n assms(2) by (auto simp: idle_def enroll_def Let_def split: if_splits)
  next
    assume "register (m_next m) (set_conn (m_next m) c m\<lparr>m_next := m_next m + 1\<rparr>) =
        (False, set_conn (m_next m) c m\<lparr>m_next := m_next m + 1\<rparr>)"
    then show ?thesis using n assms(2) by (simp add: idle_def enroll_def Let_def)
  qed
qed

lemma idle_handshake:
  assumes "manager_ok m" and "idle m"
  shows "idle (snd (snd (runHandshake P J env opts m)))"
proof (rule handshake_cases [of m "a_PairingKey opts" "a_PairingKey opts" P J env opts])
  fix e sent m0
  assume "aside m m0" "\<And>f. runHandshake_with f (a_PairingKey opts) (a_PairingKey opts) P J env opts m = (Inl e, sent, m0)"
  then show ?thesis using assms(2) by (simp add: runHandshake_def idle_def aside_def)
next
  fix c sent m0
  assume a: "aside m m0" "fresh_conn (c_fp c) c"
    "\<And>f. runHandshake_with f (a_PairingKey opts) (a_PairingKey opts) P J env opts m = (Inr (), sent, f c m0)"
  have "idle m0" using a(1) assms(2) by (simp add: idle_def aside_def)
  then show ?thesis using idle_enroll [OF aside_ok [OF assms(1) a(1)], of c] a(2,3) by (simp add: runHandshake_def fresh_conn_def)
qed

section \<open>A first connection\<close>

lemma first_connection:
  assumes ok: "manager_ok m" and none: "m_conns m = Map.empty" "m_mu m = None" "m_pending m = []"
    and run: "runHandshake P J env opts m = (Inr (), sent, m1)"
  obtains c where
    "m_conns (fold (mgr_step P J) [OpHandshake env opts (a_PairingKey opts) (a_PairingKey opts), OpRegister 0] m) = [c_fp c \<mapsto> m_next m]"
    "m_heap (fold (mgr_step P J) [OpHandshake env opts (a_PairingKey opts) (a_PairingKey opts), OpRegister 0] m) (m_next m) = Some c"
    "fresh_conn (c_fp c) c"
    "m_mu (fold (mgr_step P J) [OpHandshake env opts (a_PairingKey opts) (a_PairingKey opts), OpRegister 0] m) = None"
proof (rule handshake_cases [of m "a_PairingKey opts" "a_PairingKey opts" P J env opts])
  fix e sent' m0
  assume "\<And>f. runHandshake_with f (a_PairingKey opts) (a_PairingKey opts) P J env opts m = (Inl e, sent', m0)"
  then show thesis using run by (simp add: runHandshake_def)
next
  fix c sent' m0
  assume a: "aside m m0" "fresh_conn (c_fp c) c"
    "\<And>f. runHandshake_with f (a_PairingKey opts) (a_PairingKey opts) P J env opts m = (Inr (), sent', f c m0)"
  have eq: "m_conns m0 = Map.empty" "m_mu m0 = None" "m_pending m0 = []" "m_next m0 = m_next m" using a(1) none by (simp_all add: aside_def)
  let ?p = "pend c m0"
  have p: "m_conns ?p = Map.empty" "m_mu ?p = None" "m_pending ?p = [c]" "m_next ?p = m_next m" using eq by (simp_all add: pend_def)
  have reg: "register (m_next ?p) ((set_conn (m_next ?p) c ?p)\<lparr>m_next := m_next ?p + 1\<rparr>) =
      (True, (set_conn (m_next ?p) c ?p)\<lparr>m_next := m_next ?p + 1, m_conns := [c_fp c \<mapsto> m_next ?p], m_byName := (m_byName ?p)(c_name c \<mapsto> m_next ?p)\<rparr>)"
    using p by (simp add: register_def conn_at_def)
  have "register_step 0 ?p = (enroll c ?p)\<lparr>m_pending := []\<rparr>" using p by (simp add: register_step_def register_waits_def)
  then show thesis
    using reg p a(3) by (intro that [OF _ _ a(2)]) (simp_all add: enroll_def Let_def)
qed

lemma demo_connection:
  obtains i env opts fp c where "Generate demo_prims (Some (\<lambda>_. 1)) ''alice'' = Inr i"
    "m_conns (fold (mgr_step demo_prims demo_json_peers) [OpHandshake env opts [9] [9], OpRegister 0] (demo_node i)) = [fp \<mapsto> 0]"
    "m_heap (fold (mgr_step demo_prims demo_json_peers) [OpHandshake env opts [9] [9], OpRegister 0] (demo_node i)) 0 = Some c"
    "fresh_conn fp c"
    "m_mu (fold (mgr_step demo_prims demo_json_peers) [OpHandshake env opts [9] [9], OpRegister 0] (demo_node i)) = None"
proof -
  obtain iA iB where n: "Generate demo_prims (Some (\<lambda>_. 1)) ''alice'' = Inr iA" "Generate demo_prims (Some (\<lambda>_. 2)) ''bob'' = Inr iB"
    "genuine demo_prims (m_id (demo_node iA))" "id_Name (m_id (demo_node iA)) \<noteq> []" "length (id_Name (m_id (demo_node iA))) \<le> maxPeerName"
    "genuine demo_prims (m_id (demo_node iB))" "id_Name (m_id (demo_node iB)) \<noteq> []" "length (id_Name (m_id (demo_node iB))) \<le> maxPeerName"
    "id_pub (m_id (demo_node iA)) \<noteq> id_pub (m_id (demo_node iB))" "[9 :: byte] \<noteq> []" by (rule demo_nodes)
  obtain fromB sent m1 where run: "runHandshake demo_prims demo_json_peers ((demo_hs 3)\<lparr>v_recv := map Inr fromB\<rparr>)
      \<lparr>a_Initiator = True, a_PairingKey = [9], a_Path = PathRelay\<rparr> (demo_node iA) = (Inr (), sent, m1)"
    using paired_run [OF demo_ed25519 demo_x25519 n(3-10) demo_hs_values [of 3] demo_hs_values [of 4], of demo_json_peers PathRelay PathRelay]
    by blast
  have m: "manager_ok (demo_node iA)" "m_conns (demo_node iA) = Map.empty" "m_mu (demo_node iA) = None" "m_pending (demo_node iA) = []"
    "m_next (demo_node iA) = 0"
    by (simp_all add: demo_node_def manager_ok_new) (simp_all add: NewManager_def)
  show thesis
    by (rule first_connection [OF m(1-4) run]) (rule that [OF n(1)], simp_all add: m(5))
qed

section \<open>One connection per peer\<close>

text \<open>
  C14: one connection per peer. After any sequence of actions of all goroutines, in any order, no two
  open connections belong to the same fingerprint, and every open connection is the one in the
  index. What is in the index is open, or was closed by a \<open>dropConn\<close> that has not taken the mutex
  yet. Every connection that was torn down has a closed session and a closed socket, and the
  queues stay within their capacities.
\<close>

theorem one_connection_per_peer:
  assumes "m = fold (mgr_step P J) ops (NewManager i s fs)"
  shows "(\<forall>j k c d. m_heap m j = Some c \<and> m_heap m k = Some d \<and> live c \<and> live d \<and> c_fp c = c_fp d \<longrightarrow> j = k) \<and>
    (\<forall>j c. m_heap m j = Some c \<and> live c \<longrightarrow> m_conns m (c_fp c) = Some j) \<and>
    (\<forall>fp j. m_conns m fp = Some j \<longrightarrow>
      (\<exists>c. m_heap m j = Some c \<and> c_fp c = fp \<and> (live c \<or> c_done c \<and> c_drop c = DropUnregister))) \<and>
    (\<forall>j c. m_heap m j = Some c \<and> c_done c \<longrightarrow> s_closed (c_sess c) \<and> c_ioClosed c) \<and>
    (\<forall>j c. m_heap m j = Some c \<longrightarrow> length (c_send c) \<le> sendQueue) \<and> length (m_events m) \<le> eventQueue"
proof -
  have ok: "manager_ok m"
    unfolding assms by (rule manager_run.run_inv [OF manager_ok_new])
  have h: "conn_ok c" "live c \<longrightarrow> m_conns m (c_fp c) = Some j" if "m_heap m j = Some c" for j c
    using manager_ok_heap [OF ok that] by simp_all
  have "j = k" if "m_heap m j = Some c" "m_heap m k = Some d" "live c" "live d" "c_fp c = c_fp d" for j k c d
    using h(2) [OF that(1)] h(2) [OF that(2)] that(3-5) by simp
  moreover have "\<exists>c. m_heap m j = Some c \<and> c_fp c = fp \<and> (live c \<or> c_done c \<and> c_drop c = DropUnregister)" if "m_conns m fp = Some j" for fp j
    using manager_ok_conns [OF ok that] h(1) by (fastforce simp: listed_def conn_ok_def)
  moreover have "\<forall>j c. m_heap m j = Some c \<and> c_done c \<longrightarrow> s_closed (c_sess c) \<and> c_ioClosed c"
    "\<forall>j c. m_heap m j = Some c \<longrightarrow> length (c_send c) \<le> sendQueue"
    using h(1) by (auto simp: conn_ok_def)
  moreover have "length (m_events m) \<le> eventQueue" using manager_ok_rest(2) [OF ok] by simp
  ultimately show ?thesis using h(2) by blast
qed

theorem one_connection_per_peer_witness:
  "\<exists>i s fs env opts fp m c. m = fold (mgr_step demo_prims demo_json_peers)
       [OpHandshake env opts [9] [9], OpRegister 0, OpRead None 0 (Inl ErrEOF)] (NewManager i s fs) \<and>
     m_conns m fp = Some 0 \<and> m_heap m 0 = Some c \<and> c_fp c = fp \<and> c_done c \<and> c_drop c = DropUnregister \<and> s_closed (c_sess c)"
proof -
  obtain i env opts fp c where d: "m_conns (fold (mgr_step demo_prims demo_json_peers) [OpHandshake env opts [9] [9], OpRegister 0] (demo_node i)) = [fp \<mapsto> 0]"
    "m_heap (fold (mgr_step demo_prims demo_json_peers) [OpHandshake env opts [9] [9], OpRegister 0] (demo_node i)) 0 = Some c" "fresh_conn fp c"
    by (rule demo_connection)
  let ?ops = "[OpHandshake env opts [9] [9], OpRegister 0, OpRead None 0 (Inl ErrEOF)]"
  let ?m = "fold (mgr_step demo_prims demo_json_peers) ?ops (demo_node i)"
  obtain s fs where new: "demo_node i = NewManager i s fs" by (simp add: demo_node_def)
  have m: "m_conns ?m fp = Some 0" "\<exists>c. m_heap ?m 0 = Some c \<and> \<not> live c"
    using d by (auto simp: on_conn_def readLoop_step_def drop_begin_def Let_def live_def)
  from one_connection_per_peer [OF refl, of demo_prims demo_json_peers ?ops i s fs] m
  obtain c' where "m_heap ?m 0 = Some c'" "c_fp c' = fp" "c_done c'" "c_drop c' = DropUnregister" "s_closed (c_sess c')"
    unfolding new by fastforce
  with m(1) show ?thesis unfolding new by blast
qed

section \<open>Silent peers and the deadlock\<close>

text \<open>
  C26: a silent peer is detected. Whatever happens on this and other connections, once the keepalive
  timer of a connection has fired four times while nothing was read from it, the connection has been
  closed: \<open>done\<close>, its session and its socket. It is out of the index for good as soon as its
  \<open>dropConn\<close> got the mutex, which it does not when a \<open>register\<close> holds the mutex for ever.
\<close>

theorem silent_peer_is_dropped:
  assumes "manager_ok m" and "m_heap m i = Some c" and "list_all (\<lambda>x. \<not> reads i x) ops"
    and "length (filter (ticks i) ops) > keepaliveMisses" and "m' = fold (mgr_step P J) ops m"
  shows "(\<exists>c'. m_heap m' i = Some c' \<and> c_done c' \<and> s_closed (c_sess c') \<and> c_ioClosed c') \<and>
    (\<forall>later fp. OpUnregister i \<in> set later \<and> m_mu (fold (mgr_step P J) later m') = None \<longrightarrow>
      m_conns (fold (mgr_step P J) later m') fp \<noteq> Some i)"
proof -
  have ok: "manager_ok m'" unfolding assms(5) by (rule manager_run.run_inv [OF assms(1)])
  have t: "torn i m'" unfolding assms(5) by (rule silent_torn [OF assms(1-4)])
  have "m_conns (fold (mgr_step P J) later m') fp \<noteq> Some i"
    if "OpUnregister i \<in> set later" "m_mu (fold (mgr_step P J) later m') = None" for later fp
    using gone_not_indexed [OF manager_run.run_inv [OF ok] torn_leaves [OF ok t that]] .
  then show ?thesis using torn_closed [OF ok t] by blast
qed

theorem silent_peer_is_dropped_witness:
  "\<exists>i env opts fp m m' c'. m = fold (mgr_step demo_prims demo_json_peers) [OpHandshake env opts [9] [9], OpRegister 0] (demo_node i) \<and>
     m_conns m fp = Some 0 \<and>
     m' = fold (mgr_step demo_prims demo_json_peers) [OpTick (Some (\<lambda>_. 0)) 0, OpTick None 0, OpSend None 0 ''x'', OpTick None 0, OpTick None 0] m \<and>
     m_heap m' 0 = Some c' \<and> c_done c' \<and> s_closed (c_sess c')"
proof -
  obtain i env opts fp c where d: "m_conns (fold (mgr_step demo_prims demo_json_peers) [OpHandshake env opts [9] [9], OpRegister 0] (demo_node i)) = [fp \<mapsto> 0]"
    "m_heap (fold (mgr_step demo_prims demo_json_peers) [OpHandshake env opts [9] [9], OpRegister 0] (demo_node i)) 0 = Some c"
    by (rule demo_connection)
  let ?m = "fold (mgr_step demo_prims demo_json_peers) [OpHandshake env opts [9] [9], OpRegister 0] (demo_node i)"
  let ?ops = "[OpTick (Some (\<lambda>_. 0)) 0, OpTick None 0, OpSend None 0 ''x'', OpTick None 0, OpTick None 0]"
  have ok: "manager_ok ?m" by (rule manager_run.run_inv) (simp add: demo_node_def manager_ok_new)
  have o: "list_all (\<lambda>x. \<not> reads 0 x) ?ops" "length (filter (ticks 0) ?ops) > keepaliveMisses" by simp_all
  have "m_conns ?m fp = Some 0" using d(1) by simp
  with silent_peer_is_dropped [OF ok d(2) o refl, of demo_prims demo_json_peers] show ?thesis by blast
qed

text \<open>
  The actions that begin to drop a connection because its socket failed or because it is silent.
\<close>

lemma drop_starts:
  assumes "m_heap m i = Some d" "\<not> c_done d" "c_unanswered d > 0"
    and "x = OpRead rnd i (Inl e) \<or> x = OpTick rnd i \<and> c_unanswered d = keepaliveMisses"
  shows "\<exists>d'. m_heap (mgr_step P J x m) = (m_heap m)(i \<mapsto> d') \<and> c_done d' \<and> c_drop d' = DropUnregister \<and> c_unanswered d' > 0 \<and>
    c_fp d' = c_fp d \<and> c_name d' = c_name d \<and> m_mu (mgr_step P J x m) = m_mu m \<and> m_conns (mgr_step P J x m) = m_conns m \<and>
    m_byName (mgr_step P J x m) = m_byName m \<and> m_next (mgr_step P J x m) = m_next m \<and> m_pending (mgr_step P J x m) = m_pending m"
  using assms by (auto simp: on_conn_def readLoop_step_def keepalive_step_def drop_begin_def conn_close_def Let_def)

text \<open>
  C34: a peer that reconnects while its old connection is being dropped stops the manager for ever. The old
  connection has a ping outstanding, so it may be replaced; its socket fails, or its last ping
  times out, and \<open>dropConn\<close> enters \<open>once\<close>. If the new connection's \<open>register\<close> takes the mutex before this \<open>dropConn\<close>
  does, it waits inside \<open>old.close()\<close> for the same \<open>once\<close>, whose body waits for the mutex:
  whatever happens afterwards, the mutex is never released, nothing is registered any more, the
  closed connection stays in the index and under its name. In the other order the new connection
  takes over.
\<close>

theorem reconnect_deadlocks:
  assumes ok: "manager_ok m" "m_mu m = None" and old: "m_conns m fp = Some i" "m_heap m i = Some d" "live d" "c_unanswered d > 0"
    and new: "k < length (m_pending m)" "c_fp (m_pending m ! k) = fp"
    and x: "x = OpRead rnd i (Inl e) \<or> x = OpTick rnd i \<and> c_unanswered d = keepaliveMisses"
  shows "(\<forall>ops. let m' = fold (mgr_step P J) ([x, OpRegister k] @ ops) m
      in m_mu m' = Some i \<and> m_conns m' = m_conns m \<and> m_byName m' = m_byName m \<and> m_next m' = m_next m \<and>
        (\<exists>d'. m_heap m' i = Some d' \<and> c_done d' \<and> s_closed (c_sess d') \<and> c_ioClosed d')) \<and>
    (let m' = fold (mgr_step P J) [x, OpUnregister i, OpRegister k] m
      in m_mu m' = None \<and> (\<exists>j c. m_conns m' fp = Some j \<and> j \<noteq> i \<and> m_heap m' j = Some c \<and> live c))"
proof -
  let ?m1 = "mgr_step P J x m" and ?c = "m_pending m ! k"
  have torn: "\<not> c_done d" using old(3) by (simp add: live_def)
  obtain d' where d': "m_heap ?m1 = (m_heap m)(i \<mapsto> d')" "c_done d'" "c_drop d' = DropUnregister" "c_unanswered d' > 0" "c_fp d' = c_fp d"
    and eq: "m_mu ?m1 = None" "m_conns ?m1 = m_conns m" "m_byName ?m1 = m_byName m" "m_next ?m1 = m_next m" "m_pending ?m1 = m_pending m"
    using drop_starts [OF old(2) torn old(4) x, of P J] ok(2) by auto
  have at: "conn_at ?m1 i = d'" using d'(1) by (simp add: conn_at_def)
  have fp: "c_fp d = fp" using manager_ok_conns [OF ok(1) old(1)] old(2) by auto
  have ok1: "manager_ok ?m1" by (rule manager_ok_step [OF ok(1)])
  have stuck: "register_step k ?m1 = ?m1\<lparr>m_mu := Some i\<rparr>"
    using new eq old(1) at d' by (simp add: register_step_def register_waits_def preferNew_def)
  have "manager_ok (?m1\<lparr>m_mu := Some i\<rparr>)" "torn i (?m1\<lparr>m_mu := Some i\<rparr>)"
    using ok1 d' by (simp_all add: manager_ok_def torn_def)
  note closed = torn_closed [OF manager_run.run_inv [OF this(1)] torn_run [OF this]]
  have first: "let m' = fold (mgr_step P J) ([x, OpRegister k] @ ops) m
      in m_mu m' = Some i \<and> m_conns m' = m_conns m \<and> m_byName m' = m_byName m \<and> m_next m' = m_next m \<and>
        (\<exists>d'. m_heap m' i = Some d' \<and> c_done d' \<and> s_closed (c_sess d') \<and> c_ioClosed d')" for ops
    using stuck_run [of "?m1\<lparr>m_mu := Some i\<rparr>" i P J ops] closed [of P J ops] eq stuck by (simp add: Let_def)
  let ?m2 = "drop_unregister i ?m1"
  have st2: "mgr_step P J (OpUnregister i) ?m1 = ?m2" using d'(1) eq(1) by (simp add: on_conn_def with_mu_def)
  have ok2: "manager_ok ?m2" using manager_ok_step [OF ok1, of P J "OpUnregister i"] st2 by simp
  have e2: "m_conns ?m2 fp = None" "m_mu ?m2 = None" "m_pending ?m2 = m_pending m" "m_heap ?m2 i \<noteq> None"
    using d' eq fp old(1) by (simp_all add: drop_unregister_def unregister_def at Let_def)
  have live: "live ?c" using manager_ok_rest(1) [OF ok(1)] new(1) by (simp add: list_all_length)
  have i: "i \<noteq> m_next ?m2" using e2(4) manager_ok_heap [OF ok2, of i] by auto
  have "m_conns (enroll ?c ?m2) fp = Some (m_next ?m2)" "m_heap (enroll ?c ?m2) (m_next ?m2) = Some ?c"
    by (rule register_new [OF ok2 refl, of ?c], use e2(1) new(2) in \<open>simp_all add: enroll_def\<close>)+
  moreover have "register_step k ?m2 = (enroll ?c ?m2)\<lparr>m_pending := take k (m_pending m) @ drop (Suc k) (m_pending m)\<rparr>"
    using e2 new by (simp add: register_step_def register_waits_def)
  moreover have "fold (mgr_step P J) [x, OpUnregister i, OpRegister k] m = register_step k ?m2" using st2 by simp
  ultimately have "let m' = fold (mgr_step P J) [x, OpUnregister i, OpRegister k] m
      in m_mu m' = None \<and> (\<exists>j c. m_conns m' fp = Some j \<and> j \<noteq> i \<and> m_heap m' j = Some c \<and> live c)"
    using i live e2(2) enroll_index(2) [OF ok2, of ?c] by (simp add: Let_def)
  with first show ?thesis by blast
qed

definition reconnecting :: "session \<Rightarrow> session \<Rightarrow> manager" where
  "reconnecting s t = (chatting ''B'' s)\<lparr>m_heap := [0 \<mapsto> (demo_conn ''B'' s)\<lparr>c_unanswered := 1\<rparr>], m_pending := [demo_conn ''B'' t]\<rparr>"

theorem reconnect_deadlocks_witness:
  "\<exists>s t. newSession demo_prims [1] [2] True = Inr s \<and> newSession demo_prims [1, 2] [2] True = Inr t \<and>
     (\<forall>ops. let m' = fold (mgr_step demo_prims demo_json_peers) ([OpRead None 0 (Inl ErrEOF), OpRegister 0] @ ops) (reconnecting s t)
       in m_mu m' = Some 0 \<and> m_conns m' ''B'' = Some 0 \<and> (\<exists>d. m_heap m' 0 = Some d \<and> c_done d))"
proof -
  obtain s t where st: "newSession demo_prims [1] [2] True = Inr s" "newSession demo_prims [1, 2] [2] True = Inr t"
    by (simp add: newSession_eq)
  let ?m = "reconnecting s t" and ?d = "(demo_conn ''B'' s)\<lparr>c_unanswered := 1\<rparr>"
  have ok: "manager_ok ?m"
    by (rule manager_okI)
      (auto simp: reconnecting_def chatting_def demo_manager_def NewManager_def demo_conn_def conn_ok_def live_def listed_def split: if_splits)
  have h: "m_mu ?m = None" "m_conns ?m ''B'' = Some 0" "m_heap ?m 0 = Some ?d" "live ?d" "c_unanswered ?d > 0"
    "0 < length (m_pending ?m)" "c_fp (m_pending ?m ! 0) = ''B''"
    by (simp_all add: reconnecting_def chatting_def demo_manager_def NewManager_def demo_conn_def live_def)
  have x: "OpRead None 0 (Inl ErrEOF) = OpRead None 0 (Inl ErrEOF) \<or> OpRead None 0 (Inl ErrEOF) = OpTick None 0 \<and> c_unanswered ?d = keepaliveMisses"
    by simp
  have "\<forall>ops. let m' = fold (mgr_step demo_prims demo_json_peers) ([OpRead None 0 (Inl ErrEOF), OpRegister 0] @ ops) ?m
      in m_mu m' = Some 0 \<and> m_conns m' ''B'' = Some 0 \<and> (\<exists>d. m_heap m' 0 = Some d \<and> c_done d)"
    using reconnect_deadlocks [OF ok h x, of demo_prims demo_json_peers] h(2) unfolding Let_def by metis
  with st show ?thesis by blast
qed

section \<open>Shutdown\<close>

lemma heap_run: "manager_ok m \<Longrightarrow> m_heap m i = Some c \<Longrightarrow> \<exists>d. m_heap (fold (mgr_step P J) ops m) i = Some d"
proof (induction ops arbitrary: m c)
  case (Cons x ops)
  then obtain d where "m_heap (mgr_step P J x m) i = Some d" using remains_step [of m False i x P J] by (auto simp: remains_def)
  from Cons.IH [OF manager_ok_step [OF Cons.prems(1)] this] show ?case by simp
qed simp

lemma mu_kept: "\<forall>k. OpRegister k \<notin> set ops \<Longrightarrow> m_mu (fold (mgr_step P J) ops m) = m_mu m"
proof (induction ops arbitrary: m)
  case (Cons x ops)
  have "m_mu (mgr_step P J x m) = m_mu m"
  proof (cases "needs_mu x")
    case True
    then consider i where "x = OpAnnounceCheck i" | i where "x = OpUnregister i"
      using Cons.prems by (cases x) (auto simp: needs_mu_def)
    then show ?thesis
    proof cases
      case (1 i)
      then show ?thesis using local_index [OF local_announce_check] by (auto simp: on_conn_def with_mu_def)
    qed (simp add: on_conn_def with_mu_def unregister_index)
  qed (simp add: step_index)
  then show ?case using Cons by simp
qed simp

lemma actions_drop:
  assumes "i \<in> set is"
  shows "subseq [OpDrop i, OpUnregister i] (Shutdown_actions rnd is)"
proof -
  obtain a b where "is = a @ i # b" using assms by (meson split_list)
  then have "Shutdown_actions rnd is = (map (\<lambda>i. OpEnqueue (rnd i) i TypeClose) is @ concat (map (\<lambda>i. [OpDrop i, OpUnregister i, OpDropEmit i]) a)) @
      [OpDrop i, OpUnregister i] @ OpDropEmit i # concat (map (\<lambda>i. [OpDrop i, OpUnregister i, OpDropEmit i]) b)"
    by (simp add: Shutdown_actions_def)
  moreover have "subseq [OpDrop i, OpUnregister i] (us @ [OpDrop i, OpUnregister i] @ vs)" for us vs
    by (rule subseq_drop_many, rule subseq_rev_drop_many) simp
  ultimately show ?thesis by (simp only:)
qed

lemma dropped_in_order:
  assumes ok: "manager_ok m" and i: "m_heap m i = Some c" and "subseq [OpDrop i, OpUnregister i] ops"
    and free: "m_mu (fold (mgr_step P J) ops m) = None"
  shows "gone i (fold (mgr_step P J) ops m)"
proof -
  obtain us vs where ops: "ops = us @ OpDrop i # vs" "subseq [OpUnregister i] vs"
    using list_emb_ConsD [OF assms(3)] by blast
  let ?m1 = "fold (mgr_step P J) us m"
  have ok1: "manager_ok ?m1" by (rule manager_run.run_inv [OF ok])
  obtain d where "m_heap ?m1 i = Some d" using heap_run [OF ok i] by blast
  then have "torn i (mgr_step P J (OpDrop i) ?m1)" by (rule drop_torn)
  from torn_leaves [OF manager_ok_step [OF ok1] this, of vs P J] ops free show ?thesis
    by (simp add: subseq_singleton_left)
qed

lemma listed_dropped:
  assumes "manager_ok m" and "Shutdown_begin order m = (is, m1)" and "dom (m_conns m) \<subseteq> set order"
    and "subseq (Shutdown_actions rnd is) ops" and "m' = fold (mgr_step P J) ops m1" and "m_mu m' = None"
  shows "(\<forall>i\<in>set is. (\<exists>c. m_heap m' i = Some c \<and> c_done c \<and> s_closed (c_sess c) \<and> c_ioClosed c) \<and> (\<forall>fp. m_conns m' fp \<noteq> Some i)) \<and>
    (\<forall>fp j. m_conns m' fp = Some j \<longrightarrow> m_next m \<le> j \<and> (\<exists>k. OpRegister k \<in> set ops))"
proof -
  have b: "is = current_conns order m" "m1 = m\<lparr>m_closing := True\<rparr>" using assms(2) by (simp_all add: Shutdown_begin_def)
  have ok1: "manager_ok m1" using assms(1) by (simp add: b(2) manager_ok_def)
  have ok': "manager_ok m'" unfolding assms(5) by (rule manager_run.run_inv [OF ok1])
  have g: "gone i m'" if "i \<in> set is" for i
  proof -
    have "i \<in> dom (m_heap m)" using that current_conns_dom [OF assms(1), of order] b(1) by blast
    then obtain c where "m_heap m1 i = Some c" using b(2) by auto
    moreover have "subseq [OpDrop i, OpUnregister i] ops"
      using actions_drop [OF that] assms(4) by (rule subseq_order.order_trans)
    ultimately show ?thesis using dropped_in_order [OF ok1] assms(5,6) by simp
  qed
  then have first: "(\<exists>c. m_heap m' i = Some c \<and> c_done c \<and> s_closed (c_sess c) \<and> c_ioClosed c) \<and> (\<forall>fp. m_conns m' fp \<noteq> Some i)"
    if "i \<in> set is" for i
    using torn_closed [OF ok', of i] gone_not_indexed [OF ok', of i] that by (fastforce simp: torn_def gone_def)
  have "m_next m \<le> j \<and> (\<exists>k. OpRegister k \<in> set ops)" if j: "m_conns m' fp = Some j" for fp j
  proof -
    have "m_conns m fp \<noteq> Some j"
    proof
      assume "m_conns m fp = Some j"
      then have "j \<in> set is" using assms(3) by (force simp: b(1) current_conns_def List.map_filter_def)
      then show False using first j by blast
    qed
    then show ?thesis using run_registers [OF ok1, of P J ops fp j] j assms(5) by (simp add: b(2))
  qed
  with first show ?thesis by blast
qed

text \<open>
  C27: what \<open>Shutdown\<close> takes down. \<open>Shutdown\<close> lists the connections with the mutex, releases it, queues the
  closing frames, sleeps and drops the listed connections one by one, while the other goroutines go
  on in any order. When it is through (and nobody holds the mutex for ever), every listed
  connection is closed and out of the index, and whatever is in the index was registered after the
  list was taken.
\<close>

theorem shutdown_drops_listed:
  assumes "manager_ok m" and "Shutdown_begin order m = (is, m1)" and "dom (m_conns m) \<subseteq> set order"
    and "subseq (Shutdown_actions rnd is) ops" and "m' = fold (mgr_step P J) ops m1" and "m_mu m' = None"
  shows "(\<forall>i\<in>set is. (\<exists>c. m_heap m' i = Some c \<and> c_done c \<and> s_closed (c_sess c) \<and> c_ioClosed c) \<and> (\<forall>fp. m_conns m' fp \<noteq> Some i)) \<and>
    (\<forall>fp j. m_conns m' fp = Some j \<longrightarrow> m_next m \<le> j \<and> (\<exists>k. OpRegister k \<in> set ops))"
  by (rule listed_dropped [OF assms])

lemma Shutdown_empty:
  assumes "manager_ok m" and "idle m" and "dom (m_conns m) \<subseteq> set order"
  shows "manager_ok (Shutdown P rnd order m)" "m_conns (Shutdown P rnd order m) = Map.empty"
proof -
  let ?s = "Shutdown P rnd order m" and ?acts = "Shutdown_actions rnd (current_conns order m)"
  have s: "?s = fold (mgr_step P J) ?acts (m\<lparr>m_closing := True\<rparr>)" for J using Shutdown_is_run [OF assms(1,2)] by simp
  have "manager_ok (fold (mgr_step P J) ?acts (m\<lparr>m_closing := True\<rparr>))" for J
    by (rule manager_run.run_inv) (use assms(1) in \<open>simp add: manager_ok_def\<close>)
  then show "manager_ok ?s" using s by metis
  have no: "\<forall>k. OpRegister k \<notin> set ?acts" by (auto simp: Shutdown_actions_def)
  have "m_mu (fold (mgr_step P J) ?acts (m\<lparr>m_closing := True\<rparr>)) = None" for J using mu_kept [OF no] assms(2) by (simp add: idle_def)
  then have free: "m_mu ?s = None" using s by metis
  have "m_conns ?s fp = None" for fp
    using listed_dropped [OF assms(1) Shutdown_begin_def assms(3) subseq_order.refl s free] no by (cases "m_conns ?s fp") auto
  then show "m_conns ?s = Map.empty" by blast
qed

text \<open>
  a handshake that ends after \<open>Shutdown\<close> took its list of connections is not stopped by it:
  \<open>closing\<close> is set and never read, so the peer is registered with an open socket and running loops,
  for which \<open>Shutdown\<close> then waits.
\<close>

theorem late_handshake_survives_shutdown:
  assumes "manager_ok m" and "idle m" and "dom (m_conns m) \<subseteq> set order"
    and "runHandshake P J env opts (Shutdown P rnd order m) = (Inr (), sent, m1)"
  shows "\<exists>fp j c. m_conns m1 fp = Some j \<and> m_heap m1 j = Some c \<and> live c"
proof -
  let ?s = "Shutdown P rnd order m"
  note ok = Shutdown_empty(1) [OF assms(1-3), of P rnd] and none = Shutdown_empty(2) [OF assms(1-3), of P rnd]
  show ?thesis
  proof (rule handshake_cases [of ?s "a_PairingKey opts" "a_PairingKey opts" P J env opts])
    fix e sent' m0
    assume "\<And>f. runHandshake_with f (a_PairingKey opts) (a_PairingKey opts) P J env opts ?s = (Inl e, sent', m0)"
    then show ?thesis using assms(4) by (simp add: runHandshake_def)
  next
    fix c sent' m0
    assume a: "aside ?s m0" "fresh_conn (c_fp c) c"
      "\<And>f. runHandshake_with f (a_PairingKey opts) (a_PairingKey opts) P J env opts ?s = (Inr (), sent', f c m0)"
    have "holds (c_fp c) (sid c) (enroll c m0)"
      by (rule enroll_first [OF aside_ok [OF ok a(1)] _ a(2)]) (use a(1) none in \<open>simp add: aside_def\<close>)
    then show ?thesis using a(3) assms(4) by (auto simp: runHandshake_def holds_def fresh_conn_def)
  qed
qed

section \<open>Expected peers\<close>

text \<open>
  C18: a peer that a rendezvous expects must prove that it holds the code. However other rendezvous
  come and go, a connection accepted from an address that a running race registered is handled with
  the options of this race. With a pairing key among them, the trust store, the files and the connections
  change only if, on the session of this handshake, a frame opened as a pairing confirmation that
  verifies under what the shared key buffer holds at that moment; otherwise nothing changes, and if the
  handshake itself had succeeded the user is warned.
\<close>

theorem expected_peer_must_pair:
  assumes "g = fold exp_step ops new_registry" and "rg_added g r = Some l" and "SplitHostPort addr = Some (ip, port)" "ip \<in> set l"
    and "list_all (\<lambda>x. x \<noteq> ExWithdraw r) later" and "a_PairingKey (options r) \<noteq> []"
    and "hook = (\<lambda>a. map_option options (Hook (Some (rg_byIP (fold exp_step later g))) a))"
    and "HandleInbound P J env kSeal kVerify (Some hook) (Some addr) m = m'"
  shows "untouched m m' \<and>
      (\<forall>hs res ins out. NewHandshaker P (v_eph env) (m_id m) (a_Initiator (options r)) = Inr hs \<and>
        (if a_Initiator (options r) then exchange_initiator P env hs else exchange_responder P env hs) = (Inr (Some res, ins), out) \<longrightarrow>
        m' = emit (pairing_warning res) m) \<or>
    pairing_proved P env (options r) (m_id m) kSeal kVerify"
proof -
  have "Hook (Some (rg_byIP (fold exp_step later g))) (Some addr) = Some r"
    using expectation_kept [OF assms(1-5)] by (simp add: Let_def)
  then have o: "inboundOptions (Some hook) (Some addr) = options r" by (simp add: inboundOptions_def assms(7))
  obtain q sent where "runHandshake_with enroll kSeal kVerify P J env (options r) m = (q, sent, m')"
    using assms(8) by (cases "runHandshake_with enroll kSeal kVerify P J env (options r) m") (auto simp: HandleInbound_def o Let_def)
  from pairing_enforced [OF assms(6) this] show ?thesis by blast
qed

section \<open>Examples\<close>

theorem shutdown_drops_listed_witness:
  "\<exists>i env opts fp m m1 m' c. m = fold (mgr_step demo_prims demo_json_peers) [OpHandshake env opts [9] [9], OpRegister 0] (demo_node i) \<and>
     m_conns m fp = Some 0 \<and> Shutdown_begin [fp] m = ([0], m1) \<and>
     m' = fold (mgr_step demo_prims demo_json_peers)
       [OpEnqueue None 0 TypeClose, OpSend None 0 ''bye'', OpDrop 0, OpTick None 0, OpUnregister 0, OpDropEmit 0] m1 \<and>
     m_heap m' 0 = Some c \<and> c_done c \<and> c_ioClosed c \<and> m_conns m' = Map.empty"
proof -
  obtain i env opts fp c where d: "m_conns (fold (mgr_step demo_prims demo_json_peers) [OpHandshake env opts [9] [9], OpRegister 0] (demo_node i)) = [fp \<mapsto> 0]"
    "m_mu (fold (mgr_step demo_prims demo_json_peers) [OpHandshake env opts [9] [9], OpRegister 0] (demo_node i)) = None"
    by (rule demo_connection)
  let ?m = "fold (mgr_step demo_prims demo_json_peers) [OpHandshake env opts [9] [9], OpRegister 0] (demo_node i)"
  let ?ops = "[OpEnqueue None 0 TypeClose, OpSend None 0 ''bye'', OpDrop 0, OpTick None 0, OpUnregister 0, OpDropEmit 0]"
  let ?m' = "fold (mgr_step demo_prims demo_json_peers) ?ops (?m\<lparr>m_closing := True\<rparr>)"
  have ok: "manager_ok ?m" by (rule manager_run.run_inv) (simp add: demo_node_def manager_ok_new)
  have b: "Shutdown_begin [fp] ?m = ([0], ?m\<lparr>m_closing := True\<rparr>)"
    unfolding Shutdown_begin_def current_conns_def d(1) by (simp add: List.map_filter_def)
  have dom: "dom (m_conns ?m) \<subseteq> set [fp]" unfolding d(1) by simp
  have sub: "subseq (Shutdown_actions (\<lambda>_. None) [0]) ?ops" by (simp add: Shutdown_actions_def)
  have free: "m_mu ?m' = None"
    by (subst mu_kept) (use d(2) in simp_all)
  note r = shutdown_drops_listed [OF ok b dom sub refl free]
  have "m_conns ?m' fp' = None" for fp' using r by (cases "m_conns ?m' fp'") auto
  then have "m_conns ?m' = Map.empty" by blast
  moreover have "m_conns ?m fp = Some 0" unfolding d(1) by simp
  moreover obtain c' where "m_heap ?m' 0 = Some c'" "c_done c'" "c_ioClosed c'" using r by auto
  ultimately show ?thesis using b by blast
qed

theorem late_handshake_survives_shutdown_witness:
  "\<exists>i env opts sent m1 fp j c. runHandshake demo_prims demo_json_peers env opts (Shutdown demo_prims (\<lambda>_. None) [] (demo_node i)) = (Inr (), sent, m1) \<and>
     m_conns m1 fp = Some j \<and> m_heap m1 j = Some c \<and> live c"
proof -
  obtain iA iB where n: "Generate demo_prims (Some (\<lambda>_. 1)) ''alice'' = Inr iA" "Generate demo_prims (Some (\<lambda>_. 2)) ''bob'' = Inr iB"
    "genuine demo_prims (m_id (demo_node iA))" "id_Name (m_id (demo_node iA)) \<noteq> []" "length (id_Name (m_id (demo_node iA))) \<le> maxPeerName"
    "genuine demo_prims (m_id (demo_node iB))" "id_Name (m_id (demo_node iB)) \<noteq> []" "length (id_Name (m_id (demo_node iB))) \<le> maxPeerName"
    "id_pub (m_id (demo_node iA)) \<noteq> id_pub (m_id (demo_node iB))" "[9 :: byte] \<noteq> []" by (rule demo_nodes)
  let ?s = "Shutdown demo_prims (\<lambda>_. None) [] (demo_node iA)"
  have id: "m_id ?s = m_id (demo_node iA)"
    by (simp add: Shutdown_def Shutdown_begin_def Shutdown_frames_def current_conns_def List.map_filter_def)
  obtain fromB sent m1 where run: "runHandshake demo_prims demo_json_peers ((demo_hs 3)\<lparr>v_recv := map Inr fromB\<rparr>)
      \<lparr>a_Initiator = True, a_PairingKey = [9], a_Path = PathRelay\<rparr> ?s = (Inr (), sent, m1)"
    using paired_run [OF demo_ed25519 demo_x25519 n(3-5) [folded id] n(6-8) n(9) [folded id] n(10) demo_hs_values [of 3] demo_hs_values [of 4], of demo_json_peers PathRelay PathRelay]
    by blast
  have "manager_ok (demo_node iA)" "idle (demo_node iA)" "dom (m_conns (demo_node iA)) \<subseteq> set []"
    by (simp_all add: demo_node_def manager_ok_new) (simp_all add: NewManager_def idle_def)
  from late_handshake_survives_shutdown [OF this run] run show ?thesis by blast
qed

theorem expected_peer_must_pair_witness:
  "\<exists>i env fp. let g = fold exp_step [ExExpect 0 [''10.0.0.7'']] new_registry;
       options = (\<lambda>_. \<lparr>a_Initiator = False, a_PairingKey = [9], a_Path = PathDirect\<rparr>);
       hook = (\<lambda>a. map_option options (Hook (Some (rg_byIP (fold exp_step [] g))) a));
       m' = HandleInbound demo_prims demo_json_peers env [9] [9] (Some hook) (Some ''10.0.0.7:99'') (demo_node i)
   in m_conns m' fp \<noteq> None \<and> pairing_proved demo_prims env (options 0) i [9] [9]"
proof -
  obtain iA iB where n: "Generate demo_prims (Some (\<lambda>_. 1)) ''alice'' = Inr iA" "Generate demo_prims (Some (\<lambda>_. 2)) ''bob'' = Inr iB"
    "genuine demo_prims (m_id (demo_node iA))" "id_Name (m_id (demo_node iA)) \<noteq> []" "length (id_Name (m_id (demo_node iA))) \<le> maxPeerName"
    "genuine demo_prims (m_id (demo_node iB))" "id_Name (m_id (demo_node iB)) \<noteq> []" "length (id_Name (m_id (demo_node iB))) \<le> maxPeerName"
    "id_pub (m_id (demo_node iA)) \<noteq> id_pub (m_id (demo_node iB))" "[9 :: byte] \<noteq> []" by (rule demo_nodes)
  let ?o = "\<lambda>_ :: nat. \<lparr>a_Initiator = False, a_PairingKey = [9], a_Path = PathDirect\<rparr>"
  obtain fromA sent mB' where run: "runHandshake demo_prims demo_json_peers ((demo_hs 4)\<lparr>v_recv := map Inr fromA\<rparr>) (?o 0) (demo_node iB) = (Inr (), sent, mB')"
    and c: "m_conns mB' (FingerprintOf demo_prims (id_pub (m_id (demo_node iA)))) \<noteq> None"
    using paired_run [OF demo_ed25519 demo_x25519 n(3-10) demo_hs_values [of 3] demo_hs_values [of 4], of demo_json_peers PathDirect PathDirect]
    by blast
  let ?g = "fold exp_step [ExExpect 0 [''10.0.0.7'']] new_registry" and ?env = "(demo_hs 4)\<lparr>v_recv := map Inr fromA\<rparr>"
  let ?hook = "\<lambda>a. map_option ?o (Hook (Some (rg_byIP (fold exp_step [] ?g))) a)"
  have g: "rg_added ?g 0 = Some [''10.0.0.7'']" by (simp add: exp_step.simps expect_def new_registry_def NewExpectations_def)
  have a: "SplitHostPort ''10.0.0.7:99'' = Some (''10.0.0.7'', ''99'')" by (simp add: SplitHostPort_def colon_last_def)
  have p: "''10.0.0.7'' \<in> set [''10.0.0.7'']" "list_all (\<lambda>x. x \<noteq> ExWithdraw 0) []" "a_PairingKey (?o 0) \<noteq> []" by simp_all
  have "Hook (Some (rg_byIP (fold exp_step [] ?g))) (Some ''10.0.0.7:99'') = Some 0"
    using expectation_kept [OF refl g a p(1,2)] by (simp add: Let_def)
  then have o: "inboundOptions (Some ?hook) (Some ''10.0.0.7:99'') = ?o 0" by (simp add: inboundOptions_def)
  have h: "HandleInbound demo_prims demo_json_peers ?env [9] [9] (Some ?hook) (Some ''10.0.0.7:99'') (demo_node iB) = mB'"
    unfolding HandleInbound_def Let_def o using run by (simp add: runHandshake_def)
  have "\<not> untouched (demo_node iB) mB'" using c by (auto simp: untouched_def demo_node_def NewManager_def)
  with expected_peer_must_pair [OF refl g a p refl h] have "pairing_proved demo_prims ?env (?o 0) (m_id (demo_node iB)) [9] [9]" by blast
  then have "pairing_proved demo_prims ?env (?o 0) iB [9] [9]" by (simp add: demo_node_def NewManager_def)
  with c h show ?thesis unfolding Let_def by blast
qed

end
