(* ===== verification/Startup.thy ===== *)
theory Startup
  imports Cli Dialer Lifecycle
begin

text \<open>
  \<open>run\<close> of \<open>main.go\<close>: from the flags to a running node, its commands, and its end. Sockets, the clock and the
  terminal are the record \<open>run_env\<close>; the goroutine that prints events and the one that waits for a
  signal have no effect on the node.
\<close>

section \<open>Definitions\<close>

record flags =
  fl_name :: string
  fl_listen :: string
  fl_connect :: string
  fl_data :: string
  fl_relay :: string
  fl_relayPin :: string
  fl_relayVerify :: bool
  fl_proxy :: string

definition default_flags :: "string option \<Rightarrow> flags" where
  "default_flags home =
     \<lparr>fl_name = [], fl_listen = '':7331'', fl_connect = [], fl_data = defaultDataDir home, fl_relay = [], fl_relayPin = [],
      fl_relayVerify = False, fl_proxy = []\<rparr>"

record run_env =
  re_rndKey :: entropy
  re_rndSalt :: entropy
  re_rndSeal :: entropy
  re_io :: io_faults
  re_statFails :: bool
  re_passphrase :: string \<comment> \<open>\<open>HMDL_PASSPHRASE\<close>\<close>
  re_line :: "string option" \<comment> \<open>what is read from the terminal\<close>
  re_readable :: bool \<comment> \<open>the trust store can be read\<close>
  re_listen :: "string \<Rightarrow> string option" \<comment> \<open>the address that \<open>net.Listen\<close> binds\<close>
  re_parseURL :: "string \<Rightarrow> url option"
  re_punchPort :: "nat option" \<comment> \<open>the port of the punch listener, if there is one\<close>
  re_dial :: "transport_error option" \<comment> \<open>how the dial of \<open>-connect\<close> ends\<close>
  re_hs :: hs_env \<comment> \<open>the handshake of that connection\<close>

datatype run_error = RunIdentity cli_error | RunStore peers_error | RunListen string | RunRelay dial_error

text \<open>\<open>Listen\<close> of the manager returns the bound address; an empty address disables the listener.\<close>

definition mgr_Listen :: "(string \<Rightarrow> string option) \<Rightarrow> string \<Rightarrow> string option" where
  "mgr_Listen listen addr = (if addr = [] then Some [] else listen addr)"

text \<open>The running node: what \<open>run\<close> hands to \<open>repl\<close>.\<close>

record node =
  nd_mgr :: manager
  nd_listenAddr :: string
  nd_endpoint :: "endpoint option"
  nd_punchPort :: "nat option"
  nd_listenPort :: int
  nd_expect :: "nat expectations"

definition store_path :: "string \<Rightarrow> string" where
  "store_path dataDir = filepath_Join dataDir ''peers.json''"

definition relay_endpoint :: "run_env \<Rightarrow> flags \<Rightarrow> dial_error + endpoint option" where
  "relay_endpoint env fl =
     (if fl_relay fl = [] then Inr None
      else case ParseEndpoint (re_parseURL env) (fl_relay fl) of Inl e \<Rightarrow> Inl e
           | Inr ep \<Rightarrow> Inr (Some (ep\<lparr>ep_Pin := fl_relayPin fl, ep_Verify := fl_relayVerify fl, ep_Proxy := fl_proxy fl\<rparr>)))"

definition run_start :: "prims \<Rightarrow> json_lib \<Rightarrow> json_peers \<Rightarrow> run_env \<Rightarrow> flags \<Rightarrow> files \<Rightarrow> (run_error + node) \<times> files" where
  "run_start P J JP env fl fs =
     (case loadOrCreateIdentity P J (re_rndKey env) (re_rndSalt env) (re_rndSeal env) (re_io env) (re_statFails env)
             (re_passphrase env) (re_line env) (fl_data fl) (fl_name fl) fs of
        (Inl e, fs1) \<Rightarrow> (Inl (RunIdentity e), fs1)
      | (Inr i, fs1) \<Rightarrow>
        (case OpenStore P JP (re_readable env) (store_path (fl_data fl)) fs1 of Inl e \<Rightarrow> (Inl (RunStore e), fs1)
         | Inr store \<Rightarrow>
           let m = NewManager i store fs1
           in case mgr_Listen (re_listen env) (fl_listen fl) of None \<Rightarrow> (Inl (RunListen (fl_listen fl)), fs1)
              | Some addr \<Rightarrow>
                (case relay_endpoint env fl of Inl e \<Rightarrow> (Inl (RunRelay e), fs1)
                 | Inr ep \<Rightarrow>
                   let m1 = (if fl_connect fl \<noteq> [] then snd (mgr_Connect P JP (re_hs env) (re_dial env) m) else m)
                   in (Inr \<lparr>nd_mgr = m1, nd_listenAddr = addr, nd_endpoint = ep, nd_punchPort = re_punchPort env,
                            nd_listenPort = portOf addr, nd_expect = NewExpectations\<rparr>, m_files m1))))"

text \<open>
  The whole program: start, commands, shutdown. \<open>order\<close> lists the keys of the connections when \<open>Shutdown\<close> takes its
  list; \<^const>\<open>None\<close> is a panic.
\<close>

definition cli_run ::
    "prims \<Rightarrow> json_lib \<Rightarrow> json_peers \<Rightarrow> run_env \<Rightarrow> flags \<Rightarrow> (cli_env \<times> string) list \<Rightarrow> (nat \<Rightarrow> entropy) \<Rightarrow> (manager \<Rightarrow> string list) \<Rightarrow>
     files \<Rightarrow> ((run_error + reply list \<times> cli_action list \<times> manager) \<times> files) option" where
  "cli_run P J JP env fl inputs rnd order fs =
     (case run_start P J JP env fl fs of
        (Inl e, fs1) \<Rightarrow> Some (Inl e, fs1)
      | (Inr nd, fs1) \<Rightarrow>
        (case repl P JP inputs (nd_mgr nd) of None \<Rightarrow> None
         | Some (rs, acts, m1) \<Rightarrow> let m2 = Shutdown P rnd (order m1) m1 in Some (Inr (rs, acts, m2), m_files m2)))"

section \<open>Files\<close>

lemma data_files:
  obtains pre where "identity_path d = pre @ ''identity.hmdl''" "store_path d = pre @ ''peers.json''"
proof -
  obtain pre where "\<forall>x. file_name x \<longrightarrow> filepath_Join d x = pre @ x" using filepath_Join_name [of d] by blast
  then show thesis by (intro that [of pre]) (simp_all add: identity_path_def store_path_def file_name_def)
qed

lemma data_files_distinct:
  "identity_path d \<noteq> store_path d" "store_path d \<noteq> identity_path d" "store_path d @ ''.tmp'' \<noteq> identity_path d"
  "identity_path d \<noteq> store_path d @ ''.tmp''"
  "identity_path d @ ''.tmp'' \<noteq> store_path d" "store_path d \<noteq> identity_path d @ ''.tmp''"
  by (rule data_files [of d]; simp)+

lemma store_save_keeps_identity:
  assumes "saveLocked J io order s fs = (r, fs1)" and "st_path s = store_path d"
  shows "fs1 (identity_path d) = fs (identity_path d)"
  using assms by (auto simp: saveLocked_def Let_def data_files_distinct split: if_splits option.splits)

lemma identity_Load_cong: "fs path = fs1 path \<Longrightarrow> identity_Load P J path pass fs = identity_Load P J path pass fs1"
  by (simp add: identity_Load_def readIdentityFile_def)

section \<open>The commands keep the manager consistent\<close>

definition settled :: "manager \<Rightarrow> bool" where
  "settled m \<longleftrightarrow> manager_ok m \<and> idle m"

lemma settled_store: "settled (m\<lparr>m_store := s, m_files := fs\<rparr>) = settled m"
  by (simp add: settled_def manager_ok_def idle_def)

lemma send_chat_ok:
  assumes "settled m" and "m_heap m k = Some d"
  shows "settled (snd (send_chat P rnd k msg m))"
  using assms local_ok [OF _ local_send_chat [OF assms(2)]] idle_send [OF _ assms(2)] by (simp add: settled_def)

lemma Send_ok: "settled m \<Longrightarrow> settled (snd (mgr_Send P rnd name msg m))"
  using manager_ok_byName [of m name] send_chat_ok [of m] by (auto simp: mgr_Send_def settled_def split: option.split)

lemma broadcast_loop_ok:
  "settled m \<Longrightarrow> set js \<subseteq> dom (m_heap m) \<Longrightarrow> settled (snd (broadcast_loop P rnd msg js n m))"
proof (induction P rnd msg js n m rule: broadcast_loop.induct)
  case (2 P rnd msg i js n m)
  obtain c where c: "m_heap m i = Some c" using "2.prems"(2) by auto
  obtain r m1 where s: "send_chat P (rnd i) i msg m = (r, m1)" by fastforce
  have "settled m1" using send_chat_ok [OF "2.prems"(1) c, of P "rnd i" msg] s by simp
  moreover have "dom (m_heap m) \<subseteq> dom (m_heap m1)"
    using local_send_chat [OF c, of True P "rnd i" msg] s by (auto simp: local_to_def)
  then have "set js \<subseteq> dom (m_heap m1)" using "2.prems"(2) by (meson order_trans set_subset_Cons)
  ultimately show ?case using "2.IH" [OF s [symmetric]] s by (cases r) auto
qed simp

lemma Broadcast_ok: "settled m \<Longrightarrow> settled (snd (Broadcast P rnd order msg m))"
  unfolding Broadcast_def by (rule broadcast_loop_ok) (simp_all add: settled_def current_conns_dom)

lemma command_ok:
  assumes ok: "settled m" and "handleCommand P J env line m = Some (q, rs, acts, m1)"
  shows "settled m1"
proof -
  obtain r m2 where s: "mgr_Send P (ce_rnd env) (Fields line ! 1) (Join (drop 2 (Fields line)) '' '') m = (r, m2)" by fastforce
  obtain n m3 where b: "Broadcast P (ce_rnds env) (ce_order env) (Join (drop 1 (Fields line)) '' '') m = (n, m3)" by fastforce
  obtain v s1 fs1 where v: "Verify P J (ce_io env) (ce_peerOrder env) (ce_saveOrder env) (Fields line ! 1) (m_store m) (m_files m) = (v, s1, fs1)"
    by (metis surj_pair)
  have "m1 = m \<or> m1 = m2 \<or> m1 = m3 \<or> m1 = m\<lparr>m_store := s1, m_files := fs1\<rparr>"
    using assms(2) s b v unfolding handleCommand_def Let_def
    by (cases r; cases v) (auto split: if_splits sum.splits)
  moreover have "settled m2" "settled m3" using Send_ok [OF ok] Broadcast_ok [OF ok] s b by (metis snd_conv)+
  ultimately show ?thesis using ok by (auto simp: settled_store)
qed

lemma repl_ok: "settled m \<Longrightarrow> repl P J inputs m = Some (rs, acts, m1) \<Longrightarrow> settled m1"
proof (induction inputs arbitrary: m rs acts)
  case (Cons x rest)
  obtain env raw where x: "x = (env, raw)" by fastforce
  obtain n m2 where b: "Broadcast P (ce_rnds env) (ce_order env) (TrimSpace raw) m = (n, m2)" by fastforce
  then have ok2: "settled m2" using Broadcast_ok [OF Cons.prems(1), of P "ce_rnds env" "ce_order env" "TrimSpace raw"] by simp
  show ?case
  proof (cases "handleCommand P J env (TrimSpace raw) m")
    case None
    then show ?thesis using Cons.prems Cons.IH [OF Cons.prems(1)] Cons.IH [OF ok2]
      by (auto simp: x b Let_def split: if_splits)
  next
    case (Some y)
    obtain q rs1 acts1 m3 where y: "y = (q, rs1, acts1, m3)" by (cases y)
    have "settled m3" using command_ok [OF Cons.prems(1)] Some y by blast
    then show ?thesis using Cons.prems Cons.IH [OF Cons.prems(1)] Cons.IH [OF ok2] Cons.IH [of m3]
      by (auto simp: x b Some y Let_def split: if_splits)
  qed
qed simp

lemma new_settled: "settled (NewManager i s fs)"
  by (simp add: settled_def manager_ok_new) (simp add: idle_def NewManager_def)

lemma handshake_settled: "settled m \<Longrightarrow> settled (snd (snd (runHandshake P J env opts m)))"
  by (simp add: settled_def runHandshake_ok idle_handshake)

lemma started_ok: "run_start P J JP env fl fs = (Inr nd, fs1) \<Longrightarrow> settled (nd_mgr nd)"
  using handshake_settled [OF new_settled]
  by (auto simp: run_start_def mgr_Connect_def new_settled Let_def split: prod.splits sum.splits option.splits if_splits)

section \<open>Properties\<close>

text \<open>
  C28: a node comes back. When the first start of the program created an identity, and afterwards the trust store was
  saved in the same data directory, a later start with the same passphrase, whatever name and
  randomness it is given, runs with exactly this identity and exactly these records, and changes
  no file: the two files of the data directory never overwrite each other.
\<close>

theorem restart_restores_node:
  assumes "run_start P J JP env fl fs = (Inr nd, fs1)" and "fs (identity_path (fl_data fl)) = None" and "fl_connect fl = []"
    and "re_rndSalt env = Some f" "re_rndSeal env = Some g" "re_io env = no_faults" "\<not> re_statFails env"
    and json: "\<And>priv. id_priv (m_id (nd_mgr nd)) = Some priv \<Longrightarrow>
      json_unmarshal J (json_marshal J (disk_of (m_id (nd_mgr nd)) priv)) = Some (disk_of (m_id (nd_mgr nd)) priv)"
    and store: "st_path s = store_path (fl_data fl)" "keyed P (st_peers s)" "enumerates order (st_peers s)"
      "\<forall>i p. st_peers s i = Some p \<longrightarrow> length (p_PublicKey p) = 32"
      "peers_unmarshal JP (peers_marshal JP (List_peers order s)) = Some (map Some (List_peers order s))"
      "saveLocked JP no_faults order s fs1 = (r, fs2)"
    and again: "fl_data fl' = fl_data fl" "fl_connect fl' = []" "re_passphrase env' = re_passphrase env" "re_line env' = re_line env"
      "\<not> re_statFails env'" "re_readable env'" "mgr_Listen (re_listen env') (fl_listen fl') = Some addr" "relay_endpoint env' fl' = Inr ep"
  shows "\<exists>nd'. run_start P J JP env' fl' fs2 = (Inr nd', fs2) \<and>
    m_id (nd_mgr nd') = m_id (nd_mgr nd) \<and> m_store (nd_mgr nd') = s \<and> nd_endpoint nd' = ep \<and> nd_listenPort nd' = portOf addr"
proof -
  have first: "loadOrCreateIdentity P J (re_rndKey env) (Some f) (Some g) no_faults False (re_passphrase env) (re_line env)
      (fl_data fl) (fl_name fl) fs = (Inr (m_id (nd_mgr nd)), fs1)"
    using assms(1,3-7) by (auto simp: run_start_def NewManager_def Let_def split: prod.splits sum.splits option.splits if_splits)
  obtain pass where pass: "readPassphrase (re_passphrase env) (re_line env) = Inr pass" "fs1 (identity_path (fl_data fl)) \<noteq> None"
    "identity_Load P J (identity_path (fl_data fl)) pass fs1 = Inr (m_id (nd_mgr nd))"
    by (rule created_identity [OF first assms(2) json])
  have kept: "fs2 (identity_path (fl_data fl)) = fs1 (identity_path (fl_data fl))"
    by (rule store_save_keeps_identity [OF store(6,1)])
  have id: "loadOrCreateIdentity P J k salt seal io False (re_passphrase env) (re_line env) (fl_data fl) name fs2 =
      (Inr (m_id (nd_mgr nd)), fs2)" for k salt seal io name
    using pass kept identity_Load_cong [of fs2 "identity_path (fl_data fl)" fs1] by (simp add: loadOrCreateIdentity_def Let_def)
  have "OpenStore P JP True (store_path (fl_data fl)) fs2 = Inr s"
    using saved_store_opens [OF store(2-6)] store(1) by simp
  then show ?thesis using again id by (simp add: run_start_def NewManager_def Let_def)
qed

text \<open>
  the program ends disconnected. Whatever the flags, the files, the network and the typed lines are, the program does not
  panic: it stops with an error of its start-up, or the commands run and \<open>Shutdown\<close> leaves no connection
  in the index and none with an open socket, provided its iteration saw every connection.
\<close>

theorem program_ends_disconnected:
  shows "\<exists>r fs1. cli_run P J JP env fl inputs rnd order fs = Some (r, fs1) \<and>
    (case r of Inl e \<Rightarrow> run_start P J JP env fl fs = (Inl e, fs1)
     | Inr (rs, acts, m2) \<Rightarrow> \<exists>m1. m2 = Shutdown P rnd (order m1) m1 \<and>
         (dom (m_conns m1) \<subseteq> set (order m1) \<longrightarrow> m_conns m2 = Map.empty \<and> list_all (\<lambda>c. \<not> live c) (List.map_filter (m_heap m2) [0..<m_next m2])))"
proof (cases "run_start P J JP env fl fs")
  case (Pair q fs0)
  show ?thesis
  proof (cases q)
    case (Inl e)
    then show ?thesis using Pair by (simp add: cli_run_def)
  next
    case (Inr nd)
    obtain rs acts m1 where run: "repl P JP inputs (nd_mgr nd) = Some (rs, acts, m1)"
      using repl_no_panic [of P JP inputs "nd_mgr nd"] by (metis not_None_eq prod_cases3)
    have ok: "settled m1" using repl_ok [OF _ run] started_ok Pair Inr by blast
    let ?m2 = "Shutdown P rnd (order m1) m1"
    have "m_conns ?m2 = Map.empty \<and> list_all (\<lambda>c. \<not> live c) (List.map_filter (m_heap ?m2) [0..<m_next ?m2])"
      if "dom (m_conns m1) \<subseteq> set (order m1)"
      using Shutdown_empty [OF ok [unfolded settled_def, THEN conjunct1] ok [unfolded settled_def, THEN conjunct2] that, of P rnd]
        manager_ok_heap [of ?m2]
      by (fastforce simp: list_all_iff List.map_filter_def)
    then show ?thesis using Pair Inr run by (auto simp: cli_run_def Let_def)
  qed
qed

section \<open>Examples\<close>

definition demo_flags :: "string \<Rightarrow> flags" where
  "demo_flags name = (default_flags (Some ''/home/alice''))\<lparr>fl_name := name\<rparr>"

definition demo_run :: "entropy \<Rightarrow> run_env" where
  "demo_run rnd =
     \<lparr>re_rndKey = rnd, re_rndSalt = rnd, re_rndSeal = rnd, re_io = no_faults, re_statFails = False, re_passphrase = ''pw'', re_line = None,
      re_readable = True, re_listen = (\<lambda>_. Some ''[::]:7331''), re_parseURL = (\<lambda>_. None), re_punchPort = None, re_dial = None,
      re_hs = demo_hs 3\<rparr>"

lemma demo_values:
  "fl_data (demo_flags n) = defaultDataDir (Some ''/home/alice'')" "fl_connect (demo_flags n) = []" "fl_name (demo_flags n) = n"
  "re_rndSalt (demo_run rnd) = rnd" "re_rndSeal (demo_run rnd) = rnd" "re_io (demo_run rnd) = no_faults" "\<not> re_statFails (demo_run rnd)"
  "re_passphrase (demo_run rnd) = ''pw''" "re_line (demo_run rnd) = None" "re_readable (demo_run rnd)" "re_rndKey (demo_run rnd) = rnd"
  "mgr_Listen (re_listen (demo_run rnd)) (fl_listen (demo_flags n)) = Some ''[::]:7331''" "relay_endpoint (demo_run rnd) (demo_flags n) = Inr None"
  by (simp_all add: demo_flags_def default_flags_def demo_run_def mgr_Listen_def relay_endpoint_def)

lemma demo_started:
  obtains i fs1 nd where "Generate demo_prims (Some (\<lambda>_. 1)) ''alice'' = Inr i"
    "run_start demo_prims demo_json demo_json_peers (demo_run (Some (\<lambda>_. 1))) (demo_flags ''alice'') Map.empty = (Inr nd, fs1)"
    "m_id (nd_mgr nd) = i" "m_conns (nd_mgr nd) = Map.empty"
proof -
  let ?d = "defaultDataDir (Some ''/home/alice'')"
  obtain i where i: "Generate demo_prims (Some (\<lambda>_. 1)) ''alice'' = Inr i" by (simp add: Generate_def is_blank_def Let_def)
  obtain r fs1 where s: "identity_Save demo_prims demo_json (Some (\<lambda>_. 1)) (Some (\<lambda>_. 1)) no_faults i (identity_path ?d) ''pw'' Map.empty = (r, fs1)"
    by fastforce
  obtain priv where p: "id_priv i = Some priv" using Generate_ok [OF i] by (auto simp: identity_ok_def)
  have r: "r = Inr ()" using saved_loads(1) [OF _ p _ demo_identity_json [OF i p] s] Generate_ok [OF i] by simp
  have "TrimSpace ''alice'' \<noteq> []" by (simp add: TrimSpace_def trim_left.simps trim_right.simps space_len_def space_end_def is_space_def Let_def)
  then have id: "loadOrCreateIdentity demo_prims demo_json (Some (\<lambda>_. 1)) (Some (\<lambda>_. 1)) (Some (\<lambda>_. 1)) no_faults False ''pw'' None ?d ''alice''
      Map.empty = (Inr i, fs1)"
    using i s r by (simp add: loadOrCreateIdentity_def readPassphrase_def Let_def)
  have "fs1 (store_path ?d) = None"
    using s p r by (auto simp: identity_Save_def writeIdentityFile_def data_files_distinct no_faults_def Let_def split: sum.splits)
  then have "OpenStore demo_prims demo_json_peers True (store_path ?d) fs1 = Inr \<lparr>st_path = store_path ?d, st_peers = Map.empty\<rparr>"
    by (simp add: OpenStore_def)
  then have "run_start demo_prims demo_json demo_json_peers (demo_run (Some (\<lambda>_. 1))) (demo_flags ''alice'') Map.empty =
      (Inr \<lparr>nd_mgr = NewManager i \<lparr>st_path = store_path ?d, st_peers = Map.empty\<rparr> fs1, nd_listenAddr = ''[::]:7331'', nd_endpoint = None,
        nd_punchPort = re_punchPort (demo_run (Some (\<lambda>_. 1))), nd_listenPort = portOf ''[::]:7331'', nd_expect = NewExpectations\<rparr>, fs1)"
    using id by (simp add: run_start_def demo_values NewManager_def Let_def)
  with i show thesis by (rule that) (simp_all add: NewManager_def)
qed

theorem restart_restores_node_witness:
  "\<exists>nd fs1 r fs2 nd'. run_start demo_prims demo_json demo_json_peers (demo_run (Some (\<lambda>_. 1))) (demo_flags ''alice'') Map.empty = (Inr nd, fs1) \<and>
     saveLocked demo_json_peers no_faults [peerID demo_prims (replicate 32 2)]
       (demo_store\<lparr>st_path := store_path (defaultDataDir (Some ''/home/alice''))\<rparr>) fs1 = (r, fs2) \<and>
     run_start demo_prims demo_json demo_json_peers (demo_run None) (demo_flags []) fs2 = (Inr nd', fs2) \<and>
     m_id (nd_mgr nd') = m_id (nd_mgr nd) \<and> st_peers (m_store (nd_mgr nd')) = st_peers demo_store"
proof -
  let ?d = "defaultDataDir (Some ''/home/alice'')" and ?o = "[peerID demo_prims (replicate 32 2)]"
  let ?s = "demo_store\<lparr>st_path := store_path ?d\<rparr>"
  obtain i fs1 nd where n: "Generate demo_prims (Some (\<lambda>_. 1)) ''alice'' = Inr i"
    "run_start demo_prims demo_json demo_json_peers (demo_run (Some (\<lambda>_. 1))) (demo_flags ''alice'') Map.empty = (Inr nd, fs1)"
    "m_id (nd_mgr nd) = i" by (rule demo_started)
  obtain r fs2 where s: "saveLocked demo_json_peers no_faults ?o ?s fs1 = (r, fs2)" by fastforce
  have l: "List_peers ?o ?s = [demo_peer]" by (simp add: List_peers_def values_in_def List.map_filter_def demo_store_def)
  have "\<exists>nd'. run_start demo_prims demo_json demo_json_peers (demo_run None) (demo_flags []) fs2 = (Inr nd', fs2) \<and>
    m_id (nd_mgr nd') = m_id (nd_mgr nd) \<and> m_store (nd_mgr nd') = ?s \<and> nd_endpoint nd' = None \<and> nd_listenPort nd' = portOf ''[::]:7331''"
  proof (rule restart_restores_node [OF n(2)])
    show "json_unmarshal demo_json (json_marshal demo_json (disk_of (m_id (nd_mgr nd)) priv)) = Some (disk_of (m_id (nd_mgr nd)) priv)"
      if "id_priv (m_id (nd_mgr nd)) = Some priv" for priv
      using demo_identity_json [OF n(1)] n(3) that by simp
    show "keyed demo_prims (st_peers ?s)" "enumerates ?o (st_peers ?s)" using demo_store_keyed demo_store_enumerates by simp_all
    show "peers_unmarshal demo_json_peers (peers_marshal demo_json_peers (List_peers ?o ?s)) = Some (map Some (List_peers ?o ?s))"
      unfolding l by (simp add: demo_json_peers_def)
    show "\<forall>i p. st_peers ?s i = Some p \<longrightarrow> length (p_PublicKey p) = 32" by (simp add: demo_store_def demo_peer_def)
    show "saveLocked demo_json_peers no_faults ?o ?s fs1 = (r, fs2)" by (rule s)
  qed (simp_all add: demo_values)
  then show ?thesis using n(2) s by auto
qed

theorem program_ends_disconnected_witness:
  "\<exists>rs acts m2 fs1. cli_run demo_prims demo_json demo_json_peers (demo_run (Some (\<lambda>_. 1))) (demo_flags ''alice'')
       [(demo_cli, ''/quit'')] (\<lambda>_. None) (\<lambda>_. []) Map.empty = Some (Inr (rs, acts, m2), fs1) \<and> m_conns m2 = Map.empty"
proof -
  obtain i fs1 nd where n: "run_start demo_prims demo_json demo_json_peers (demo_run (Some (\<lambda>_. 1))) (demo_flags ''alice'') Map.empty = (Inr nd, fs1)"
    "m_conns (nd_mgr nd) = Map.empty" by (rule demo_started)
  have t: "TrimSpace ''/quit'' = ''/quit''"
    by (simp add: TrimSpace_def trim_left.simps trim_right.simps space_len_def space_end_def is_space_def Let_def)
  have "is_word ''/quit''" by (rule visible_word) (simp_all add: visible_def)
  then have "Fields ''/quit'' = [''/quit'']" using Fields_Join [of "[''/quit'']"] by simp
  then have q: "repl demo_prims demo_json_peers [(demo_cli, ''/quit'')] (nd_mgr nd) = Some ([], [], nd_mgr nd)"
    by (simp add: t HasPrefix_def handleCommand_def TrimPrefix_def MaxScanTokenSize_def)
  from program_ends_disconnected [of demo_prims demo_json demo_json_peers "demo_run (Some (\<lambda>_. 1))" "demo_flags ''alice''"
      "[(demo_cli, ''/quit'')]" "\<lambda>_. None" "\<lambda>_. []" Map.empty] n q
  show ?thesis by (auto simp: cli_run_def Let_def Shutdown_def Shutdown_begin_def Shutdown_frames_def current_conns_def List.map_filter_def)
qed

end
