(* ===== verification/Terminal.thy ===== *)
theory Terminal
  imports Manager "HOL-Library.Sublist"
begin

text \<open>
  What the user sees: \<open>printEvent\<close> of \<open>main.go\<close> on the events of the session manager, whose texts are
  composed in \<open>manager.go\<close>. The texts of errors are an argument, since some of them come from the
  standard library.
\<close>

definition newline :: string where
  "newline = [CHR 0x0A]"

fun text_string :: "(proto_error \<Rightarrow> string) \<Rightarrow> event_text \<Rightarrow> string" where
  "text_string Error NoText = []"
| "text_string Error (ChatText s) = s"
| "text_string Error (HandshakeFailed e) = ''handshake failed (possible MITM): '' @ Error e"
| "text_string Error PairingFailed =
     ''The peer that answered this invite code could not prove it holds the code.'' @ newline @ newline @
     ''This is what a relay attempting a man-in-the-middle attack looks like.'' @ newline @
     ''The connection was dropped and the peer was NOT recorded as known.''"
| "text_string Error (KeyChanged name old new) =
     ''The identity key for '' @ [CHR 0x27] @ name @ [CHR 0x27] @ '' has changed.'' @ newline @ newline @ ''Previous fingerprint:'' @ newline @ old @
     newline @ newline @ ''New fingerprint:'' @ newline @ new @ newline @ newline @
     ''Possible MITM attack or legitimate key replacement.'' @ newline @ ''Connection marked UNTRUSTED.''"

definition prompt :: string where
  "prompt = newline @ ''> ''"

definition printEvent :: "(proto_error \<Rightarrow> string) \<Rightarrow> event \<Rightarrow> string" where
  "printEvent Error ev =
     (let txt = text_string Error (e_Text ev)
      in case e_Type ev of
           EventPeerConnected \<Rightarrow>
             newline @ ''*** '' @ e_Peer ev @ '' connected ['' @ TrustLevel_String (e_Trust ev) @ '', '' @ e_Path ev @ '']'' @ prompt
         | EventPeerDisconnected \<Rightarrow> newline @ ''*** '' @ e_Peer ev @ '' disconnected'' @ prompt
         | EventMessage \<Rightarrow> newline @ e_Peer ev @ '': '' @ txt @ prompt
         | EventSecurityWarning \<Rightarrow> newline @ ''!!! SECURITY WARNING !!!'' @ newline @ txt @ prompt
         | EventError \<Rightarrow> newline @ ''*** error: '' @ txt @ prompt)"

text \<open>Everything printed ends with the prompt.\<close>

lemma printEvent_prompt: "\<exists>pre. printEvent Error ev = pre @ prompt"
proof -
  have "suffix prompt (printEvent Error ev)"
    by (cases "e_Type ev") (auto simp: printEvent_def Let_def intro!: suffix_appendI suffix_ConsI)
  then show ?thesis by (simp add: suffix_def)
qed

lemma prints_prompt: "evs \<noteq> [] \<Longrightarrow> \<exists>pre. concat (map (printEvent Error) evs) = pre @ prompt"
proof (induction evs rule: rev_induct)
  case (snoc ev evs)
  obtain pre where "printEvent Error ev = pre @ prompt" using printEvent_prompt by blast
  then have "concat (map (printEvent Error) (evs @ [ev])) = (concat (map (printEvent Error) evs) @ pre) @ prompt" by simp
  then show ?case by blast
qed simp

definition chat_event :: "event \<Rightarrow> string \<Rightarrow> event" where
  "chat_event ev msg = ev\<lparr>e_Type := EventMessage, e_Text := ChatText msg\<rparr>"

text \<open>
  one message can be displayed as anything. For every peer, every text and every sequence of events, there is
  one chat message of this peer that is printed exactly as that text followed by that sequence:
  messages of other peers, connections with any trust level, security warnings. Texts and names
  are printed as they were received.
\<close>

theorem display_is_forgeable:
  "\<exists>msg. printEvent Error (chat_event ev msg) = concat (map (printEvent Error) (chat_event ev first # evs))"
proof (cases "evs = []")
  case True
  then show ?thesis by auto
next
  case False
  then obtain pre where pre: "concat (map (printEvent Error) evs) = pre @ prompt" using prints_prompt by blast
  have "printEvent Error (chat_event ev (first @ prompt @ pre)) = printEvent Error (chat_event ev first) @ pre @ prompt"
    by (simp add: printEvent_def chat_event_def)
  then show ?thesis using pre by auto
qed

end
