(* ===== verification/Daemon.thy ===== *)
theory Daemon
  imports Dialer Relay
begin

text \<open>
  \<open>cmd/hmdl-relay/main.go\<close>: from the flags to the serving relay, and its TLS configuration. Key generation and X.509 are the
  record \<open>x509_lib\<close>; certificates are their DER bytes, as in the theory \<open>Dialer\<close>.
\<close>

record x509_lib =
  xl_key :: "bytes option" \<comment> \<open>\<open>ecdsa.GenerateKey\<close>\<close>
  xl_serial :: "nat option" \<comment> \<open>\<open>rand.Int\<close>\<close>
  xl_create :: "bytes \<Rightarrow> nat \<Rightarrow> bytes option" \<comment> \<open>\<open>x509.CreateCertificate\<close> for the key and the serial number\<close>
  xl_spki :: "bytes \<Rightarrow> bytes option" \<comment> \<open>\<open>x509.ParseCertificate\<close>, then the public key information\<close>
  xl_load :: "string \<Rightarrow> string \<Rightarrow> bytes list option" \<comment> \<open>\<open>tls.LoadX509KeyPair\<close>\<close>

datatype daemon_error = CertAndKeyTogether | LoadingCertificate | CertGeneration

record server_tls =
  sv_Certificates :: "bytes list"
  sv_MinVersion :: nat
  sv_NextProtos :: "string list"

definition baseTLSConfig :: "bytes list \<Rightarrow> server_tls" where
  "baseTLSConfig cert = \<lparr>sv_Certificates = cert, sv_MinVersion = 0x0303, sv_NextProtos = [''http/1.1'']\<rparr>"

definition selfSignedCert :: "prims \<Rightarrow> x509_lib \<Rightarrow> daemon_error + bytes list \<times> string" where
  "selfSignedCert P X =
     (case xl_key X of None \<Rightarrow> Inl CertGeneration
      | Some key \<Rightarrow>
        (case xl_serial X of None \<Rightarrow> Inl CertGeneration
         | Some serial \<Rightarrow>
           (case xl_create X key serial of None \<Rightarrow> Inl CertGeneration
            | Some der \<Rightarrow>
              (case xl_spki X der of None \<Rightarrow> Inl CertGeneration | Some info \<Rightarrow> Inr ([der], PinFor P info)))))"

definition loadTLS :: "prims \<Rightarrow> x509_lib \<Rightarrow> string \<Rightarrow> string \<Rightarrow> daemon_error + server_tls \<times> string" where
  "loadTLS P X certFile keyFile =
     (if certFile \<noteq> [] \<or> keyFile \<noteq> [] then
        if certFile = [] \<or> keyFile = [] then Inl CertAndKeyTogether
        else (case xl_load X certFile keyFile of None \<Rightarrow> Inl LoadingCertificate | Some cert \<Rightarrow> Inr (baseTLSConfig cert, []))
      else (case selfSignedCert P X of Inl e \<Rightarrow> Inl e | Inr (cert, pin) \<Rightarrow> Inr (baseTLSConfig cert, pin)))"

section \<open>Start\<close>

record daemon_flags =
  df_addr :: string
  df_http :: string
  df_path :: string
  df_cert :: string
  df_key :: string
  df_quiet :: bool

definition default_daemon_flags :: daemon_flags where
  "default_daemon_flags = \<lparr>df_addr = '':443'', df_http = '':80'', df_path = DefaultPath, df_cert = [], df_key = [], df_quiet = False\<rparr>"

text \<open>
  \<open>http.ServeMux\<close> refuses a pattern by a panic. The handler for the path is registered before the one for
  \<open>/\<close>; a pattern that is only a path, without method, host and wildcards, conflicts with
  \<open>/\<close> exactly when it is \<open>/\<close>. Whether another pattern is refused is the argument \<open>other\<close>.
\<close>

definition plain_pattern :: "string \<Rightarrow> bool" where
  "plain_pattern p \<longleftrightarrow> p \<noteq> [] \<and> hd p = CHR ''/'' \<and> set p \<inter> {CHR '' '', CHR 0x09, CHR 0x7B} = {}"

definition mux_refuses :: "(string \<Rightarrow> bool) \<Rightarrow> string \<Rightarrow> bool" where
  "mux_refuses other p = (if plain_pattern p then p = ''/'' else other p)"

datatype daemon_outcome =
    DmPanic
  | DmFailed daemon_error
  | DmListen string
  | DmServing "(string \<times> server_tls option) list" string world \<comment> \<open>listeners with their TLS, the printed pin, the relay\<close>

text \<open>\<open>run\<close> up to its wait for a signal; \<open>listen\<close> says whether \<open>net.Listen\<close> succeeds.\<close>

definition daemon_run :: "prims \<Rightarrow> x509_lib \<Rightarrow> (string \<Rightarrow> bool) \<Rightarrow> (string \<Rightarrow> bool) \<Rightarrow> daemon_flags \<Rightarrow> daemon_outcome" where
  "daemon_run P X other listen fl =
     (let srv = relay_start DefaultLimits
      in if mux_refuses other (df_path fl) then DmPanic
         else case loadTLS P X (df_cert fl) (df_key fl) of Inl e \<Rightarrow> DmFailed e
              | Inr (cfg, pin) \<Rightarrow>
                if df_addr fl \<noteq> [] \<and> \<not> listen (df_addr fl) then DmListen (df_addr fl)
                else if df_http fl \<noteq> [] \<and> \<not> listen (df_http fl) then DmListen (df_http fl)
                else DmServing ((if df_addr fl \<noteq> [] then [(df_addr fl, Some cfg)] else []) @
                                (if df_http fl \<noteq> [] then [(df_http fl, None)] else []))
                       (if df_addr fl \<noteq> [] then pin else []) srv)"

section \<open>Properties\<close>

lemma printed_pin:
  assumes "loadTLS P X certFile keyFile = Inr (cfg, pin)"
  shows "(certFile = [] \<longleftrightarrow> keyFile = []) \<and> (pin = [] \<longleftrightarrow> certFile \<noteq> []) \<and>
    (pin \<noteq> [] \<longrightarrow> verifyPin P (xl_spki X) pin (sv_Certificates cfg) \<and>
       (\<forall>chain. verifyPin P (xl_spki X) pin chain \<longrightarrow>
          (\<exists>raw\<in>set chain. \<exists>own\<in>set (sv_Certificates cfg). \<exists>info info'. xl_spki X raw = Some info' \<and> xl_spki X own = Some info \<and>
             fill (sha256_byte P info') 32 = fill (sha256_byte P info) 32)))"
proof (cases "certFile = [] \<and> keyFile = []")
  case False
  then show ?thesis using assms by (auto simp: loadTLS_def split: if_splits option.splits)
next
  case True
  then obtain key serial der info where c: "xl_create X key serial = Some der" "xl_spki X der = Some info"
    "cfg = baseTLSConfig [der]" "pin = PinFor P info"
    using assms by (auto simp: loadTLS_def selfSignedCert_def split: option.splits)
  have d: "b64_DecodeString pin = Some (fill (sha256_byte P info) 32)" by (simp add: c(4) PinFor_def b64_round_trip)
  moreover have "fill (sha256_byte P info) 32 \<noteq> []" using length_fill [of "sha256_byte P info" 32] by (metis list.size(3) zero_neq_numeral)
  moreover have "b64_DecodeString [] = Some []" by (simp add: b64_DecodeString_def)
  ultimately have "pin \<noteq> []" by (metis option.inject)
  then show ?thesis using True c d by (auto simp: verifyPin_iff baseTLSConfig_def) metis
qed

text \<open>
  the pin that the relay prints. When the relay starts without certificate files, a client that was
  given the printed pin accepts the certificate the relay serves, and refuses a chain of certificates
  whose keys have other digests; when files are given, both must be, and no pin is printed.
\<close>

theorem relay_pin_accepted:
  assumes "loadTLS P X certFile keyFile = Inr (cfg, pin)"
  shows "(certFile = [] \<longleftrightarrow> keyFile = []) \<and> (pin = [] \<longleftrightarrow> certFile \<noteq> []) \<and>
    (pin \<noteq> [] \<longrightarrow> verifyPin P (xl_spki X) pin (sv_Certificates cfg) \<and>
       (\<forall>chain. verifyPin P (xl_spki X) pin chain \<longrightarrow>
          (\<exists>raw\<in>set chain. \<exists>own\<in>set (sv_Certificates cfg). \<exists>info info'. xl_spki X raw = Some info' \<and> xl_spki X own = Some info \<and>
             fill (sha256_byte P info') 32 = fill (sha256_byte P info) 32)))"
  by (rule printed_pin [OF assms])

definition demo_x509 :: x509_lib where
  "demo_x509 = \<lparr>xl_key = Some [1], xl_serial = Some 7, xl_create = (\<lambda>k n. Some k), xl_spki = (\<lambda>der. Some der), xl_load = (\<lambda>_ _. None)\<rparr>"

theorem relay_pin_accepted_witness:
  "\<exists>cfg pin. loadTLS demo_prims demo_x509 [] [] = Inr (cfg, pin) \<and> verifyPin demo_prims (xl_spki demo_x509) pin (sv_Certificates cfg)"
proof -
  obtain cfg pin where l: "loadTLS demo_prims demo_x509 [] [] = Inr (cfg, pin)" by (simp add: loadTLS_def selfSignedCert_def demo_x509_def)
  from relay_pin_accepted [OF l] l show ?thesis by auto
qed

text \<open>
  C33: a client with the printed pin reaches the relay. When the relay runs without certificate files and prints a pin, a client
  with this pin whose connection reaches a server that presents the relay's certificate, whatever the system's
  roots say of it, dials it over TLS at the first rung of its ladder, checked against the pin.
\<close>

theorem pinned_client_reaches_relay:
  assumes "daemon_run P X other listen fl = DmServing ((addr, Some cfg) # rest) pin w" "pin \<noteq> []"
    and "ep_Pin ep = pin" "ne_prims N = P" "ne_spki N = xl_spki X"
    and "ne_dial N (ns_next st) (JoinHostPort (ep_Host ep) (itoa_port (ep_TLSPort ep)))" "ne_tlsok N (ns_next st)"
    and "ne_certs N (ns_next st) = sv_Certificates cfg"
    and "ClientHandshake (ne_sha1 N) (ne_rand N (ns_next st)) (ep_Host ep) (ep_Path ep) (ne_write N (ns_next st)) (ne_exchange N (ns_next st)) = Inr u"
  shows "\<exists>link st1. endpoint_Dial N ep st = (Inr (link, RungTLSDirect), st1) \<and> lk_tls link = Some (tlsConfig ep False) \<and>
    tc_VerifyPin (tlsConfig ep False) = Some pin \<and> w = relay_start DefaultLimits"
proof -
  obtain cfg1 where l: "loadTLS P X (df_cert fl) (df_key fl) = Inr (cfg1, pin)" "df_addr fl \<noteq> []" "cfg1 = cfg" "w = relay_start DefaultLimits"
    using assms(1,2) by (auto simp: daemon_run_def Let_def split: if_splits sum.splits)
  have "verifyPin P (xl_spki X) pin (sv_Certificates cfg)" using printed_pin [OF l(1)] assms(2) l(3) by blast
  moreover have t: "tc_InsecureSkipVerify (tlsConfig ep False)" "tc_VerifyPin (tlsConfig ep False) = Some pin"
    using assms(2,3) by (simp_all add: tlsConfig_def)
  ultimately have hs: "tls_handshake N (ns_next st) (tlsConfig ep False) = Inr ()"
    using assms(4,5,7,8) by (simp add: tls_handshake_def)
  show ?thesis using assms(6,9) hs t l(4)
    by (simp add: endpoint_Dial_def Ladder_def DialRung_def dialTLS_def dialRaw_def tcp_dial_def upgrade_link_def Let_def)
qed

text \<open>With \<open>-path /\<close> the relay does not start.\<close>

theorem root_path_panics:
  "daemon_run P X other listen (fl\<lparr>df_path := ''/''\<rparr>) = DmPanic"
  by (simp add: daemon_run_def mux_refuses_def plain_pattern_def)

theorem pinned_client_reaches_relay_witness:
  "\<exists>cfg rest pin w link st1. daemon_run demo_prims demo_x509 (\<lambda>_. False) (\<lambda>_. True) default_daemon_flags = DmServing (('':443'', Some cfg) # rest) pin w \<and>
     endpoint_Dial ((demo_net True)\<lparr>ne_prims := demo_prims, ne_spki := xl_spki demo_x509, ne_certs := (\<lambda>_. sv_Certificates cfg), ne_roots := (\<lambda>_ _. False)\<rparr>)
       (demo_endpoint\<lparr>ep_Pin := pin\<rparr>) \<lparr>ns_next = 0, ns_open = []\<rparr> = (Inr (link, RungTLSDirect), st1)"
proof -
  obtain cfg pin where l: "loadTLS demo_prims demo_x509 [] [] = Inr (cfg, pin)" by (simp add: loadTLS_def selfSignedCert_def demo_x509_def)
  have pin: "pin \<noteq> []" using printed_pin [OF l] by simp
  have run: "daemon_run demo_prims demo_x509 (\<lambda>_. False) (\<lambda>_. True) default_daemon_flags =
      DmServing (('':443'', Some cfg) # [('':80'', None)]) pin (relay_start DefaultLimits)"
    using l by (simp add: daemon_run_def default_daemon_flags_def mux_refuses_def plain_pattern_def DefaultPath_def)
  let ?N = "(demo_net True)\<lparr>ne_prims := demo_prims, ne_spki := xl_spki demo_x509, ne_certs := (\<lambda>_. sv_Certificates cfg), ne_roots := (\<lambda>_ _. False)\<rparr>"
  let ?e = "demo_endpoint\<lparr>ep_Pin := pin\<rparr>" and ?st = "\<lparr>ns_next = 0, ns_open = []\<rparr>"
  have h: "ClientHandshake (ne_sha1 ?N) (ne_rand ?N (ns_next ?st)) (ep_Host ?e) (ep_Path ?e) (ne_write ?N (ns_next ?st)) (ne_exchange ?N (ns_next ?st)) = Inr ()"
    by (simp add: demo_net_def demo_upgrade)
  have n: "ep_Pin ?e = pin" "ne_prims ?N = demo_prims" "ne_spki ?N = xl_spki demo_x509"
    "ne_dial ?N (ns_next ?st) (JoinHostPort (ep_Host ?e) (itoa_port (ep_TLSPort ?e)))" "ne_tlsok ?N (ns_next ?st)"
    "ne_certs ?N (ns_next ?st) = sv_Certificates cfg" by (simp_all add: demo_net_def)
  from pinned_client_reaches_relay [OF run pin n h] run show ?thesis by blast
qed

end
