(* ===== verification/Persistence.thy ===== *)
theory Persistence
  imports Peers
begin

text \<open>
  Crash safety of the trust store of \<open>internal/peers/peers.go\<close>. Specification: besides the records in memory there is
  a committed copy, the one that a restart will find; an operation changes the records, and commits them
  exactly when it reports success. The operations of the store, with any faults of the disk, refine it.
\<close>

section \<open>Specification\<close>

record journal =
  jr_current :: peer_map
  jr_committed :: peer_map

definition journal_step :: "prims \<Rightarrow> peer_op \<Rightarrow> bool \<Rightarrow> journal \<Rightarrow> journal" where
  "journal_step P x ok j =
     (let m = peer_step P x (jr_current j)
      in \<lparr>jr_current = m, jr_committed = (if ok then m else jr_committed j)\<rparr>)"

fun journal_run :: "prims \<Rightarrow> peer_op list \<Rightarrow> bool list \<Rightarrow> journal \<Rightarrow> journal" where
  "journal_run P (x # xs) (ok # oks) j = journal_run P xs oks (journal_step P x ok j)"
| "journal_run P _ _ j = j"

section \<open>The store on disk\<close>

text \<open>An operation with the faults of its save and the order in which the save iterates over the records.\<close>

record disk_op =
  do_op :: peer_op
  do_io :: io_faults
  do_order :: "string list"

definition disk_step :: "prims \<Rightarrow> json_peers \<Rightarrow> disk_op \<Rightarrow> store \<times> files \<Rightarrow> bool \<times> store \<times> files" where
  "disk_step P J x st =
     (case st of (s, fs) \<Rightarrow>
        (case do_op x of
           ObserveOp order now name addr pub \<Rightarrow>
             (case Observe P J (do_io x) order (do_order x) now name addr pub s fs of ((_, _, r), s1, fs1) \<Rightarrow> (\<not> isl r, s1, fs1))
         | VerifyOp order name \<Rightarrow>
             (case Verify P J (do_io x) order (do_order x) name s fs of (r, s1, fs1) \<Rightarrow> (\<not> isl r, s1, fs1))
         | RejectOp order name \<Rightarrow>
             (case Reject J (do_io x) order (do_order x) name s fs of (r, s1, fs1) \<Rightarrow> (\<not> isl r, s1, fs1))))"

fun disk_run :: "prims \<Rightarrow> json_peers \<Rightarrow> disk_op list \<Rightarrow> store \<times> files \<Rightarrow> bool list \<times> store \<times> files" where
  "disk_run P J [] st = ([], st)"
| "disk_run P J (x # xs) st =
     (case disk_step P J x st of (ok, st1) \<Rightarrow> (case disk_run P J xs st1 of (oks, st2) \<Rightarrow> (ok # oks, st2)))"

section \<open>What a save needs\<close>

definition keys_ok :: "peer_map \<Rightarrow> bool" where
  "keys_ok m \<longleftrightarrow> (\<forall>i p. m i = Some p \<longrightarrow> length (p_PublicKey p) = 32 \<and> (p_PendingKey p = [] \<or> length (p_PendingKey p) = 32))"

text \<open>
  The save iterates over all records of the new map, JSON reads what it wrote, and an observed key has the size
  of an Ed25519 key, which the handshake guarantees.
\<close>

fun key_of :: "peer_op \<Rightarrow> bytes option" where
  "key_of (ObserveOp order now name addr pub) = Some pub"
| "key_of _ = None"

definition read_back :: "prims \<Rightarrow> json_peers \<Rightarrow> disk_op \<Rightarrow> peer_map \<Rightarrow> bool" where
  "read_back P J x m \<longleftrightarrow>
     (let m1 = peer_step P (do_op x) m; l = sort_key p_Name (values_in (do_order x) m1)
      in enumerates (do_order x) m1 \<and> peers_unmarshal J (peers_marshal J l) = Some (map Some l) \<and>
         (case key_of (do_op x) of None \<Rightarrow> True | Some pub \<Rightarrow> length pub = 32))"

fun reads_back :: "prims \<Rightarrow> json_peers \<Rightarrow> disk_op list \<Rightarrow> peer_map \<Rightarrow> bool" where
  "reads_back P J [] m = True"
| "reads_back P J (x # xs) m = (read_back P J x m \<and> reads_back P J xs (peer_step P (do_op x) m))"

lemma observe_keys_ok: "keys_ok m \<Longrightarrow> length pub = 32 \<Longrightarrow> keys_ok (snd (observe P order now name addr pub m))"
  by (rule observe_cases [of m P pub order now name addr]) (auto simp: Let_def keys_ok_def)

lemma verify_keys_ok: "keys_ok m \<Longrightarrow> keys_ok (snd (verify_peer P order name m))"
  by (auto simp: verify_peer_def keys_ok_def Let_def dest!: findByName_Some split: option.splits) blast+

lemma reject_keys_ok: "keys_ok m \<Longrightarrow> keys_ok (snd (reject order name m))"
  by (auto simp: reject_def keys_ok_def dest!: findByName_Some split: option.splits)

lemma peer_step_keys_ok: "keys_ok m \<Longrightarrow> read_back P J x m \<Longrightarrow> keys_ok (peer_step P (do_op x) m)"
  by (cases "do_op x") (simp_all add: observe_keys_ok verify_keys_ok reject_keys_ok read_back_def Let_def)

text \<open>A save replaces the file or leaves it.\<close>

lemma saveLocked_atomic:
  assumes "saveLocked J io order s fs = (r, fs1)"
  shows "if \<not> isl r then fs1 (st_path s) = Some (peers_marshal J (List_peers order s)) else fs1 (st_path s) = fs (st_path s)"
  using assms by (auto simp: saveLocked_def List_peers_def Let_def split: if_splits option.splits)

lemma OpenStore_cong: "fs path = fs1 path \<Longrightarrow> OpenStore P J rd path fs = OpenStore P J rd path fs1"
  by (simp add: OpenStore_def)

lemma saved_commits:
  assumes "saveLocked J io order s fs = (r, fs1)" "keyed P (st_peers s)" "keys_ok (st_peers s)" "enumerates order (st_peers s)"
    and "peers_unmarshal J (peers_marshal J (List_peers order s)) = Some (map Some (List_peers order s))"
    and "OpenStore P J True (st_path s) fs = Inr t"
  shows "OpenStore P J True (st_path s) fs1 = Inr (if isl r then t else s)"
proof (cases "\<not> isl r")
  case True
  have "load_peers P (map Some (List_peers order s)) Map.empty = Inr (st_peers s)"
    unfolding List_peers_def using load_saved [OF assms(2,4)] assms(3) by (auto simp: keys_ok_def)
  then show ?thesis using True saveLocked_atomic [OF assms(1)] assms(5) by (simp add: OpenStore_def)
next
  case False
  then show ?thesis using saveLocked_atomic [OF assms(1)] OpenStore_cong [of fs1 "st_path s" fs] assms(6) by simp
qed

section \<open>Refinement\<close>

definition refines :: "prims \<Rightarrow> json_peers \<Rightarrow> store \<times> files \<Rightarrow> journal \<Rightarrow> bool" where
  "refines P J st j \<longleftrightarrow>
     (case st of (s, fs) \<Rightarrow>
        st_peers s = jr_current j \<and> keyed P (jr_current j) \<and> keys_ok (jr_current j) \<and>
        OpenStore P J True (st_path s) fs = Inr (s\<lparr>st_peers := jr_committed j\<rparr>))"

text \<open>Every operation is a change of the records in memory and a save, or an error that changes nothing.\<close>

lemma disk_step_cases:
  assumes "disk_step P J x (s, fs) = (ok, s1, fs1)"
  obtains (saved) r where "s1 = s\<lparr>st_peers := peer_step P (do_op x) (st_peers s)\<rparr>"
      "saveLocked J (do_io x) (do_order x) s1 fs = (r, fs1)" "ok = (\<not> isl r)"
    | (refused) "peer_step P (do_op x) (st_peers s) = st_peers s" "\<not> ok" "s1 = s" "fs1 = fs"
proof -
  let ?s = "s\<lparr>st_peers := peer_step P (do_op x) (st_peers s)\<rparr>"
  obtain r fs2 where sv: "saveLocked J (do_io x) (do_order x) ?s fs = (r, fs2)" by fastforce
  have "disk_step P J x (s, fs) = (\<not> isl r, ?s, fs2) \<or>
      peer_step P (do_op x) (st_peers s) = st_peers s \<and> disk_step P J x (s, fs) = (False, s, fs)"
  proof (cases "do_op x")
    case (ObserveOp order now name addr pub)
    obtain q lvl m where "observe P order now name addr pub (st_peers s) = ((q, lvl), m)" by (metis surj_pair)
    then show ?thesis using sv ObserveOp by (simp add: disk_step_def Observe_def Let_def)
  next
    case (RejectOp order name)
    obtain q m where q: "reject order name (st_peers s) = (q, m)" by fastforce
    have "m = st_peers s" if "q = Inl e" for e using q that by (auto simp: reject_def split: option.splits)
    then show ?thesis using q sv RejectOp by (cases q) (simp_all add: disk_step_def Reject_def Let_def)
  next
    case (VerifyOp order name)
    obtain q m where q: "verify_peer P order name (st_peers s) = (q, m)" by fastforce
    have "m = st_peers s" if "q = Inl e" for e
      using q that by (auto simp: verify_peer_def Let_def split: option.splits if_splits)
    then show ?thesis using q sv VerifyOp by (cases q; cases r) (simp_all add: disk_step_def Verify_def Let_def)
  qed
  then show thesis
  proof
    assume "disk_step P J x (s, fs) = (\<not> isl r, ?s, fs2)"
    then have "ok = (\<not> isl r)" "s1 = ?s" "fs1 = fs2" using assms by simp_all
    then show thesis using sv by (intro saved [of r]) simp_all
  qed (use assms refused in simp)
qed

lemma disk_step_refines:
  assumes "refines P J (s, fs) j" and "read_back P J x (jr_current j)" and "disk_step P J x (s, fs) = (ok, s1, fs1)"
  shows "refines P J (s1, fs1) (journal_step P (do_op x) ok j) \<and> st_path s1 = st_path s"
  using assms(3)
proof (cases rule: disk_step_cases)
  case (saved r)
  let ?m = "peer_step P (do_op x) (jr_current j)"
  have s1: "st_peers s1 = ?m" "st_path s1 = st_path s" using saved(1) assms(1) by (simp_all add: refines_def)
  have inv: "keyed P ?m" "keys_ok ?m"
    using assms(1,2) store_run.step_inv peer_step_keys_ok by (auto simp: refines_def)
  have rd: "enumerates (do_order x) ?m" "peers_unmarshal J (peers_marshal J (List_peers (do_order x) s1)) = Some (map Some (List_peers (do_order x) s1))"
    using assms(2) s1 by (simp_all add: read_back_def List_peers_def Let_def)
  have "OpenStore P J True (st_path s1) fs = Inr (s\<lparr>st_peers := jr_committed j\<rparr>)" using assms(1) s1 by (simp add: refines_def)
  from saved_commits [OF saved(2) _ _ _ rd(2) this] inv rd(1) s1
  have "OpenStore P J True (st_path s1) fs1 = Inr (if isl r then s\<lparr>st_peers := jr_committed j\<rparr> else s1)" by simp
  then show ?thesis using inv s1 saved(1,3) by (simp add: refines_def journal_step_def Let_def)
next
  case refused
  then show ?thesis using assms(1) by (simp add: refines_def journal_step_def Let_def)
qed

lemma disk_run_refines:
  assumes "refines P J (s, fs) j" and "reads_back P J xs (jr_current j)" and "disk_run P J xs (s, fs) = (oks, s1, fs1)"
  shows "refines P J (s1, fs1) (journal_run P (map do_op xs) oks j) \<and> st_path s1 = st_path s"
  using assms
proof (induction xs arbitrary: s fs j oks)
  case (Cons x xs)
  obtain ok s2 fs2 where x: "disk_step P J x (s, fs) = (ok, s2, fs2)" by (metis surj_pair)
  obtain oks' where rest: "disk_run P J xs (s2, fs2) = (oks', s1, fs1)" "oks = ok # oks'"
    using Cons.prems(3) x by (auto split: prod.splits)
  have h: "refines P J (s2, fs2) (journal_step P (do_op x) ok j)" "st_path s2 = st_path s"
    using disk_step_refines [OF Cons.prems(1) _ x] Cons.prems(2) by simp_all
  have "reads_back P J xs (jr_current (journal_step P (do_op x) ok j))"
    using Cons.prems(2) by (simp add: journal_step_def Let_def)
  from Cons.IH [OF h(1) this rest(1)] show ?case using h(2) rest(2) by simp
qed simp

section \<open>Properties\<close>

text \<open>
  C8: the trust store is crash safe. Over every sequence of observations, verifications and rejections, whose saves may
  fail at any step, the records in memory are those of the specification, and a program that is killed at
  any moment and started again finds exactly the records as they were after the last operation that
  reported success: never a partial file, and never a change whose failure was reported.
\<close>

theorem store_is_crash_safe:
  assumes "OpenStore P J True path fs = Inr s" and "keyed P (st_peers s)" "keys_ok (st_peers s)" and "reads_back P J xs (st_peers s)"
    and "disk_run P J xs (s, fs) = (oks, s1, fs1)"
  shows "let j = journal_run P (map do_op xs) oks \<lparr>jr_current = st_peers s, jr_committed = st_peers s\<rparr>
    in st_peers s1 = jr_current j \<and> OpenStore P J True path fs1 = Inr \<lparr>st_path = path, st_peers = jr_committed j\<rparr>"
proof -
  have path: "st_path s = path" using assms(1) by (auto simp: OpenStore_def split: option.splits sum.splits)
  have "refines P J (s, fs) \<lparr>jr_current = st_peers s, jr_committed = st_peers s\<rparr>" using assms(1-3) path by (simp add: refines_def)
  from disk_run_refines [OF this _ assms(5)] show ?thesis
    using assms(4) path by (cases s1) (auto simp: refines_def Let_def)
qed

text \<open>The first observation is saved; the verification after it reaches the memory but not the disk.\<close>

definition demo_ops :: "disk_op list" where
  "demo_ops =
     [\<lparr>do_op = ObserveOp [] 1 ''bob'' [] (replicate 32 2), do_io = no_faults, do_order = [peerID demo_prims (replicate 32 2)]\<rparr>,
      \<lparr>do_op = VerifyOp [peerID demo_prims (replicate 32 2)] ''bob'', do_io = no_faults\<lparr>rename_fails := True\<rparr>,
       do_order = [peerID demo_prims (replicate 32 2)]\<rparr>]"

definition demo_bob :: peer where
  "demo_bob = demo_peer\<lparr>p_Verified := False\<rparr>"

definition demo_codec :: json_peers where
  "demo_codec = \<lparr>peers_marshal = (\<lambda>l. if l = [demo_bob] then [1] else [2]),
     peers_unmarshal = (\<lambda>b. if b = [1] then Some [Some demo_bob] else Some [Some demo_peer])\<rparr>"

lemma demo_bob_new: "demo_peer \<noteq> demo_bob"
  by (simp add: demo_bob_def demo_peer_def)

lemma demo_ops_steps:
  "peer_step demo_prims (ObserveOp [] 1 ''bob'' [] (replicate 32 2)) Map.empty = [peerID demo_prims (replicate 32 2) \<mapsto> demo_bob]"
  "peer_step demo_prims (VerifyOp [peerID demo_prims (replicate 32 2)] ''bob'') [peerID demo_prims (replicate 32 2) \<mapsto> demo_bob] =
     [peerID demo_prims (replicate 32 2) \<mapsto> demo_peer]"
  by (simp_all add: observe_def verify_peer_def findByNameLocked_def demo_bob_def demo_peer_def Let_def)

theorem store_is_crash_safe_witness:
  "\<exists>oks s1 fs1. disk_run demo_prims demo_codec demo_ops (\<lparr>st_path = ''t'', st_peers = Map.empty\<rparr>, Map.empty) = (oks, s1, fs1) \<and>
     oks = [True, False] \<and> st_peers s1 = [peerID demo_prims (replicate 32 2) \<mapsto> demo_peer] \<and>
     OpenStore demo_prims demo_codec True ''t'' fs1 = Inr \<lparr>st_path = ''t'', st_peers = [peerID demo_prims (replicate 32 2) \<mapsto> demo_bob]\<rparr>"
proof -
  let ?s = "\<lparr>st_path = ''t'', st_peers = Map.empty\<rparr>" and ?i = "peerID demo_prims (replicate 32 2)"
  obtain oks s1 fs1 where run: "disk_run demo_prims demo_codec demo_ops (?s, Map.empty) = (oks, s1, fs1)" by (metis surj_pair)
  have start: "OpenStore demo_prims demo_codec True ''t'' Map.empty = Inr ?s" "keyed demo_prims (st_peers ?s)" "keys_ok (st_peers ?s)"
    by (simp_all add: OpenStore_def keyed_def keys_ok_def)
  have reads: "reads_back demo_prims demo_codec demo_ops (st_peers ?s)"
    by (simp add: demo_ops_def read_back_def demo_ops_steps enumerates_def values_in_def List.map_filter_def demo_codec_def
        demo_bob_new Let_def del: peer_step.simps One_nat_def)
  have oks: "oks = [True, False]"
    using run by (auto simp: demo_ops_def disk_step_def Observe_def Verify_def observe_def verify_peer_def findByNameLocked_def saveLocked_def
        no_faults_def Let_def)
  from store_is_crash_safe [OF start reads run] run oks show ?thesis
    by (simp add: demo_ops_def journal_step_def demo_ops_steps Let_def del: peer_step.simps One_nat_def)
qed

end
