(* ===== verification/Deadlines.thy ===== *)
theory Deadlines
  imports Transport
begin

text \<open>
  The deadlines of \<open>internal/transport/transport.go\<close>. The bytes that a connection will deliver carry the times of
  their arrival; a read waits for its bytes until the read deadline of the connection.
\<close>

section \<open>Operations\<close>

definition IOTimeout :: int where "IOTimeout = 30 * second"
definition HandshakeTimeout :: int where "HandshakeTimeout = 15 * second"

type_synonym arrivals = "(int \<times> byte) list"

record frameIO =
  fi_in :: arrivals
  fi_read :: "int option" \<comment> \<open>the read deadline; \<^const>\<open>None\<close> is the zero time\<close>
  fi_write :: "int option"
  fi_closed :: bool
  fi_addr :: "string option"

definition NewFrameIO :: "arrivals \<Rightarrow> string option \<Rightarrow> frameIO" where
  "NewFrameIO a addr = \<lparr>fi_in = a, fi_read = None, fi_write = None, fi_closed = False, fi_addr = addr\<rparr>"

definition SetDeadline :: "int \<Rightarrow> frameIO \<Rightarrow> frameIO" where
  "SetDeadline t f = f\<lparr>fi_read := Some t, fi_write := Some t\<rparr>"

definition ClearDeadline :: "frameIO \<Rightarrow> frameIO" where
  "ClearDeadline f = f\<lparr>fi_read := None, fi_write := None\<rparr>"

definition fio_Close :: "frameIO \<Rightarrow> frameIO" where
  "fio_Close f = f\<lparr>fi_closed := True\<rparr>"

definition fio_RemoteAddr :: "frameIO \<Rightarrow> string" where
  "fio_RemoteAddr f = (case fi_addr f of Some a \<Rightarrow> a | None \<Rightarrow> [])"

text \<open>
  What \<open>io.ReadFull\<close> can get: nothing when the connection is closed or the deadline has passed, otherwise what arrives
  before it. The result, the time of the return, and what is left.
\<close>

definition arrived :: "int \<Rightarrow> frameIO \<Rightarrow> bytes" where
  "arrived now f =
     (if fi_closed f then []
      else map snd (case fi_read f of None \<Rightarrow> fi_in f | Some d \<Rightarrow> if d \<le> now then [] else takeWhile (\<lambda>(t, _). t < d) (fi_in f)))"

definition read_full :: "nat \<Rightarrow> int \<Rightarrow> frameIO \<Rightarrow> (transport_error + bytes) \<times> int \<times> frameIO" where
  "read_full n now f =
     (let a = arrived now f
      in if length a < n
         then (Inl ErrEOF, (case fi_read f of None \<Rightarrow> now | Some d \<Rightarrow> max now d), f\<lparr>fi_in := drop (length a) (fi_in f)\<rparr>)
         else (Inr (take n a), if n = 0 then now else max now (fst (fi_in f ! (n - 1))), f\<lparr>fi_in := drop n (fi_in f)\<rparr>))"

definition timed_RecvBefore :: "int \<Rightarrow> int \<Rightarrow> frameIO \<Rightarrow> (transport_error + bytes) \<times> int \<times> frameIO" where
  "timed_RecvBefore deadline now f =
     (case read_full 4 now (f\<lparr>fi_read := Some deadline\<rparr>) of
        (Inl e, t, f1) \<Rightarrow> (Inl e, t, f1)
      | (Inr hdr, t, f1) \<Rightarrow>
        let n = unat (Uint32 hdr)
        in if n > MaxFrameSize then (Inl ErrFrameTooLarge, t, f1)
           else if n = 0 then (Inr [], t, f1)
           else read_full n t (f1\<lparr>fi_read := Some deadline\<rparr>))"

definition fio_Recv :: "int \<Rightarrow> frameIO \<Rightarrow> (transport_error + bytes) \<times> int \<times> frameIO" where
  "fio_Recv now f = timed_RecvBefore (now + IOTimeout) now f"

text \<open>A caller that receives a number of frames.\<close>

fun recv_frames :: "nat \<Rightarrow> int \<Rightarrow> frameIO \<Rightarrow> bytes list \<times> int" where
  "recv_frames 0 now f = ([], now)"
| "recv_frames (Suc n) now f =
     (case fio_Recv now f of
        (Inl e, t, f1) \<Rightarrow> ([], t)
      | (Inr p, t, f1) \<Rightarrow> (case recv_frames n t f1 of (ps, u) \<Rightarrow> (p # ps, u)))"

section \<open>Lemmas\<close>

lemma takeWhile_drop: "k \<le> length (takeWhile Q s) \<Longrightarrow> takeWhile Q (drop k s) = drop k (takeWhile Q s)"
proof (induction k arbitrary: s)
  case (Suc k)
  then show ?case by (cases s) (auto split: if_splits)
qed simp

lemma takeWhile_nth_holds: "k < length (takeWhile Q s) \<Longrightarrow> Q (s ! k)"
  by (metis nth_mem set_takeWhileD takeWhile_nth)

text \<open>A frame is what the untimed model reads from the bytes that arrive in time.\<close>

lemma timed_RecvBefore_eq:
  assumes "now < deadline" "\<not> fi_closed f"
  defines "s \<equiv> map snd (takeWhile (\<lambda>(t, _). t < deadline) (fi_in f))"
  shows "fst (timed_RecvBefore deadline now f) = fst (fio_RecvBefore s)"
proof (cases "length s < 4")
  case True
  then show ?thesis using assms(1,2) by (simp add: s_def timed_RecvBefore_def read_full_def arrived_def fio_RecvBefore_def Let_def)
next
  case False
  let ?w = "takeWhile (\<lambda>(t, _). t < deadline) (fi_in f)"
  have len: "4 \<le> length ?w" using False by (simp add: s_def)
  have "fst (fi_in f ! 3) < deadline" using takeWhile_nth_holds [of 3 "\<lambda>(t, _). t < deadline" "fi_in f"] len by (auto split: prod.splits)
  then have t: "max now (fst (fi_in f ! 3)) < deadline" using assms(1) by simp
  have rest: "map snd (takeWhile (\<lambda>(t, _). t < deadline) (drop 4 (fi_in f))) = drop 4 s"
    using takeWhile_drop [OF len] by (simp add: s_def drop_map)
  then have "length (takeWhile (\<lambda>(t, _). t < deadline) (drop 4 (fi_in f))) = length s - 4" by (metis length_drop length_map)
  then show ?thesis using False assms(1,2) t rest
    by (auto simp: s_def [symmetric] timed_RecvBefore_def read_full_def arrived_def fio_RecvBefore_def Let_def not_le)
qed

text \<open>A frame that arrives at one moment before the deadline of its receive is received at that moment.\<close>

lemma Recv_at:
  assumes "fi_in f = map (Pair t) (snd (fio_Send None p)) @ rest" "length p \<le> MaxFrameSize" "now \<le> t" "t < now + IOTimeout" "\<not> fi_closed f"
  shows "fio_Recv now f = (Inr p, t, f\<lparr>fi_in := rest, fi_read := Some (now + IOTimeout)\<rparr>)"
proof -
  let ?h = "PutUint32 (word_of_nat (length p))" and ?d = "now + IOTimeout"
  have w: "snd (fio_Send None p) = ?h @ p" using assms(2) by (simp add: fio_Send_def Let_def)
  have len: "unat (Uint32 ?h) = length p" "length ?h = 4" using frame_length assms(2) by simp_all
  have get: "arrived u (f\<lparr>fi_in := map (Pair t) x @ rest, fi_read := Some ?d\<rparr>) = x @ map snd (takeWhile (\<lambda>(t, _). t < ?d) rest)"
    if "u < ?d" for u x using that assms(4,5) by (simp add: arrived_def takeWhile_append comp_def)
  have f: "f\<lparr>fi_read := Some ?d\<rparr> = f\<lparr>fi_in := map (Pair t) (?h @ p) @ rest, fi_read := Some ?d\<rparr>" using assms(1) w by simp
  have "now < ?d" by (simp add: IOTimeout_def second_def)
  then have hdr: "read_full 4 now (f\<lparr>fi_read := Some ?d\<rparr>) = (Inr ?h, t, f\<lparr>fi_in := map (Pair t) p @ rest, fi_read := Some ?d\<rparr>)"
    unfolding read_full_def f get [OF \<open>now < ?d\<close>] Let_def using len assms(3) by (simp add: nth_append)
  have body: "read_full (length p) t (f\<lparr>fi_in := map (Pair t) p @ rest, fi_read := Some ?d\<rparr>) = (Inr p, t, f\<lparr>fi_in := rest, fi_read := Some ?d\<rparr>)"
    unfolding read_full_def get [OF assms(4)] Let_def by (cases p rule: rev_cases) (simp_all add: nth_append)
  show ?thesis unfolding fio_Recv_def timed_RecvBefore_def hdr
    using len assms(2) body by (cases "p = []") (simp_all add: Let_def)
qed

text \<open>A peer that sends each frame so long after the previous one.\<close>

fun slow_sender :: "int \<Rightarrow> int \<Rightarrow> bytes list \<Rightarrow> arrivals" where
  "slow_sender t gap [] = []"
| "slow_sender t gap (p # ps) = map (Pair (t + gap)) (snd (fio_Send None p)) @ slow_sender (t + gap) gap ps"

lemma recv_slow:
  assumes "0 \<le> gap" "gap < IOTimeout"
  shows "\<lbrakk>fi_in f = slow_sender now gap ps; \<not> fi_closed f; list_all (\<lambda>p. length p \<le> MaxFrameSize) ps\<rbrakk> \<Longrightarrow>
    recv_frames (length ps) now f = (ps, now + int (length ps) * gap)"
proof (induction ps arbitrary: now f)
  case (Cons p ps)
  let ?f = "f\<lparr>fi_in := slow_sender (now + gap) gap ps, fi_read := Some (now + IOTimeout)\<rparr>"
  have "fio_Recv now f = (Inr p, now + gap, ?f)"
    by (rule Recv_at) (use Cons.prems assms in simp_all)
  moreover have "recv_frames (length ps) (now + gap) ?f = (ps, now + gap + int (length ps) * gap)"
    using Cons.IH [of ?f "now + gap"] Cons.prems by simp
  ultimately show ?case by (simp add: algebra_simps)
qed simp

section \<open>Properties\<close>

text \<open>
  C38: a receive with a deadline. A receive that starts before its deadline returns exactly what the framing reads from
  the bytes that arrive before the deadline: a whole payload, an oversized frame, or an
  error when they are too few.
\<close>

theorem recv_within_deadline:
  assumes "now < deadline" "\<not> fi_closed f"
  shows "fst (timed_RecvBefore deadline now f) = fst (fio_RecvBefore (map snd (takeWhile (\<lambda>(t, _). t < deadline) (fi_in f))))"
  by (rule timed_RecvBefore_eq [OF assms])

theorem recv_within_deadline_witness:
  "fst (timed_RecvBefore 5 0 (NewFrameIO [(1, 0), (1, 0), (2, 0), (7, 1), (7, 9)] None)) = Inl ErrEOF"
proof -
  have "(0 :: int) < 5" "\<not> fi_closed (NewFrameIO [(1, 0), (1, 0), (2, 0), (7, 1), (7, 9)] None)" by (simp_all add: NewFrameIO_def)
  from recv_within_deadline [OF this] show ?thesis by (simp add: NewFrameIO_def fio_RecvBefore_def)
qed

text \<open>
  the timeout of the handshake does not bound it. Whatever deadline was set on the connection, a peer that sends each of its
  frames just within \<open>IOTimeout\<close> of the previous one has all of them received, and the receives
  take as long as the frames are many: the deadline of \<open>SetDeadline\<close> is replaced by each receive.
\<close>

theorem handshake_timeout_not_enforced:
  assumes "0 \<le> gap" "gap < IOTimeout" "list_all (\<lambda>p. length p \<le> MaxFrameSize) ps"
  shows "recv_frames (length ps) now (SetDeadline (now + HandshakeTimeout) (NewFrameIO (slow_sender now gap ps) addr)) =
    (ps, now + int (length ps) * gap)"
  by (rule recv_slow [OF assms(1,2)]) (use assms(3) in \<open>simp_all add: SetDeadline_def NewFrameIO_def\<close>)

theorem handshake_timeout_not_enforced_witness:
  "\<exists>t. recv_frames 2 0 (SetDeadline HandshakeTimeout (NewFrameIO (slow_sender 0 (29 * second) [[1], [2]]) None)) = ([[1], [2]], t) \<and>
     t > 3 * HandshakeTimeout"
proof -
  have "0 \<le> 29 * second" "29 * second < IOTimeout" "list_all (\<lambda>p. length p \<le> MaxFrameSize) [[1], [2 :: byte]]"
    by (simp_all add: IOTimeout_def second_def)
  from handshake_timeout_not_enforced [OF this, of 0 None] show ?thesis
    by (simp add: HandshakeTimeout_def second_def numeral_2_eq_2)
qed

end
