(* ===== verification/Spec2Isabelle.thy ===== *)
theory Spec2Isabelle
  imports RelayCircuits RelayPipe Rendezvous Punch Startup Terminal Daemon Persistence Deadlines
begin

text \<open>
  Verification library of Heimdall (HMDL), the terminal-only, peer-to-peer, end-to-end encrypted
  messenger of this repository, and of its rendezvous relay. Source paths below are relative to
  \<open>src/\<close>.

  \<^bold>\<open>The program.\<close> A node has an Ed25519 identity in an encrypted file (\<open>internal/identity\<close>) and a trust store of
  the peers it has met (\<open>internal/peers\<close>). Two nodes run a three-message handshake that authenticates both
  identities and derives a session (\<open>internal/proto\<close>, over \<open>internal/crypto\<close>); chat, pings and pairing
  confirmations are sealed frames of that session. The session manager (\<open>internal/session\<close>) owns the
  connections, their loops, duplicate resolution and the events for the user. Peers that can not dial
  each other meet through an invite code: the rendezvous client (\<open>internal/rendezvous\<close>) reaches the relay
  (\<open>internal/relay\<close>) over a ladder of TLS, proxy and HTTP, inside a WebSocket; the relay pairs a claim with a
  published code and gives each side a ticket for one end of a circuit. The race
  (\<open>internal/connect\<close>) tries direct dials, a hole punch (\<open>internal/transport\<close>) and the circuit at once, and
  hands every connection to the manager together with the pairing key derived from the code.
  \<open>main.go\<close> and \<open>cmd/hmdl-relay/main.go\<close> are the two programs.

  \<^bold>\<open>How code becomes definitions.\<close> A definition has the name of the Go function, with a prefix where names clash
  (\<open>session_Open\<close>, \<open>crypto_Open\<close>). Structs are records, byte slices and strings are lists of
  \<open>8 word\<close> and of characters, counters keep the width of the source where it matters. A fallible call returns \<open>Inl\<close> of
  an error; a method that changes its receiver returns the new state as well, on errors too. Objects
  that are shared through pointers (connections of the manager, waiters of the client, circuits of the
  relay, channels of a punch) are cells of a heap in the record of their owner. Goroutines are
  sequences of atomic actions, and an action has at most one critical section of the mutex of the record it
  works on; a theorem about a run holds for every interleaving of them. So the body of \<open>once\<close> in
  \<open>dropConn\<close> is three actions (\<open>drop_begin\<close>, \<open>drop_unregister\<close>, \<open>drop_emit\<close>), and a \<open>register\<close> that waits for such a
  \<open>once\<close> with the mutex held is a state of the manager (\<open>m_mu\<close>); a relay handler drops each of its codes and
  gives back its slot in steps of their own (\<open>Closing\<close>), and holds the slot while it upgrades
  (\<open>Upgrading\<close>); \<open>resendWaiters\<close> marks a waiter in a later step than it sends; the accept loop of a punch
  listener delivers a connection later than it looked up the channel. \<open>dropConn\<close>, \<open>Disconnect\<close>,
  \<open>Shutdown\<close>, \<open>runHandshake\<close> and \<open>route\<close> as one definition are the undisturbed compositions of their actions, proved to be
  runs where a theorem about runs needs them. The pairing key is a buffer that the race overwrites while
  handshakes use it, so a handshake takes its contents at the two moments it reads them
  (\<open>runHandshake_with\<close>, \<open>confirmPairing_shared\<close>). A run is a fold over operations (locales \<open>op_system\<close> and \<open>op_relation\<close> of
  \<open>Prelude\<close>) or the closure of an inductive step relation (\<open>step_system\<close>). Map iteration orders, random
  bytes, clocks, faults of the disk and of the network are arguments. A Go panic is
  \<^const>\<open>None\<close> or an error value of its own, and is proved not to happen.

  \<^bold>\<open>Theories.\<close>
  \<^item> \<open>Prelude\<close>, \<open>GoStrings\<close>, \<open>Encodings\<close>: bytes, big-endian integers, the functions of \<open>strings\<close>, \<open>strconv\<close>,
    \<open>path/filepath\<close>, base64 and base32 that the code calls; the interface locales of codecs and of state machines.
  \<^item> \<open>Crypto\<close> (\<open>crypto.go\<close>): randomness, HKDF, AES-GCM, zeroisation. The locale \<open>aead\<close> is what the other
    components rely on; it is interpreted on the model of GCM.
  \<^item> \<open>Frame\<close>, \<open>Replay\<close>, \<open>Session\<close>, \<open>SessionProps\<close> (\<open>frame.go\<close>, \<open>replay.go\<close>, \<open>session.go\<close>, \<open>chatframe.go\<close>, \<open>pairing.go\<close>): canonical frames, the bitmap window
    as a refinement of the set of seen numbers (locale \<open>replay_filter\<close>), sealing and opening with
    epochs; exactly which frames are accepted, at most once, over every interleaving; what forged
    frames do.
  \<^item> \<open>Identity\<close>, \<open>Peers\<close>, \<open>Persistence\<close> (\<open>identity.go\<close>, \<open>peers.go\<close>): identity files and the trust store on a disk that may fail
    at every step; trust changes only by the user; the store refines a specification with a
    committed copy, so that a crash never loses a reported change or shows an unreported one.
  \<^item> \<open>Handshake\<close>, \<open>HandshakeProps\<close> (\<open>handshake.go\<close>): both roles as one state machine; authentication against
    every sequence of messages, no panic, one completion, the honest run.
  \<^item> \<open>Transport\<close>, \<open>Deadlines\<close>, \<open>Punch\<close> (\<open>transport.go\<close>, \<open>punch.go\<close>): length-prefixed frames over a byte stream cut anywhere
    and over bytes with arrival times and deadlines; waiters, routing and the steps of a punch; what a punch returns, and the connections it leaks.
  \<^item> \<open>Manager\<close>, \<open>ManagerProps\<close>, \<open>ManagerFlows\<close>, \<open>PairingFlow\<close>, \<open>Lifecycle\<close>, \<open>Terminal\<close> (\<open>manager.go\<close>, \<open>printEvent\<close>): the heap of connections and its
    invariant over all actions, convergence of duplicates, delivery of chat (\<open>ManagerFlows\<close>), the pairing
    requirement with two managers on one connection, how it is enforced and how it is passed without the code
    (\<open>PairingFlow\<close>), one connection for each peer, keepalive, the deadlock of \<open>register\<close> with \<open>dropConn\<close>, shutdown among
    running goroutines and expected inbound connections (\<open>Lifecycle\<close>), what is displayed.
  \<^item> \<open>Invite\<close>, \<open>Candidates\<close>, \<open>Messages\<close> (\<open>code.go\<close>, \<open>candidates.go\<close>, \<open>messages.go\<close>, \<open>relay/encoding.go\<close>): codes, sealed candidate
    lists and what of them is accepted, control messages.
  \<^item> \<open>Relay\<close>, \<open>RelayProps\<close>, \<open>RelayRuns\<close>, \<open>RelayCircuits\<close>, \<open>RelayPipe\<close> (\<open>server.go\<close>, \<open>limits.go\<close>): every handler as steps of a phase machine;
    limits and exact counters, ends of circuits, the pipe of a circuit joined with the WebSocket and the
    transport frames of its two clients.
  \<^item> \<open>WebSocket\<close>, \<open>WebSocketProps\<close>, \<open>Dialer\<close>, \<open>Client\<close>, \<open>ClientProps\<close>, \<open>Rendezvous\<close> (\<open>ws.go\<close>, \<open>dialer.go\<close>, \<open>proxy.go\<close>, \<open>client.go\<close>): framing as a
    byte stream, the dialling ladder with the certificate checks of every connection, the supervised control
    connection and when it sends outstanding codes again, and a rendezvous of two clients through the relay.
  \<^item> \<open>Expect\<close>, \<open>Race\<close>, \<open>Connect\<close> (\<open>expect.go\<close>, \<open>connect.go\<close>): the registry of expected addresses, the race as a step
    relation whose success names the winning handshake, invite and join with the secrets they leave in memory.
  \<^item> \<open>Cli\<close>, \<open>Startup\<close>, \<open>Daemon\<close> (\<open>main.go\<close>, \<open>cmd/hmdl-relay/main.go\<close>): identity at start-up, commands, the whole
    program from flags to shutdown; the start of the relay, its certificate and pin.
  \<^item> This theory: the properties that go through all of it, from identities and handshake to a conversation, and
    from a typed code to a connection.

  \<^bold>\<open>Parameters.\<close> \<open>prims\<close> are the cryptographic primitives; outputs of fixed size have it by construction. Theorems about the
  honest run assume \<open>ed25519_correct\<close> (a signature verifies under its key) and \<open>x25519_agrees\<close> (both sides
  compute one secret), and \<open>demo_prims\<close> is an instance of both. No theorem assumes that anything is hard to
  compute: authentication is stated as what was verified, never as what can not be forged. The JSON
  libraries (\<open>json_lib\<close>, \<open>json_peers\<close>, \<open>json_cands\<close>, \<open>json_msg\<close>) are assumed to read back a value only where a
  theorem decodes what it encoded. \<open>ParseIP\<close>, \<open>url.Parse\<close>, \<open>http.ReadResponse\<close>, SHA-1, \<open>crypto/tls\<close> and X.509 are
  arguments (\<open>net_env\<close>, \<open>ws_env\<close>, \<open>x509_lib\<close>, \<open>run_env\<close>).

  \<^bold>\<open>Termination.\<close> All definitions are total. Loops that consume input recurse over it (\<open>nextFrame\<close> makes at most one
  iteration for every two bytes and one more, which is proved); loops that wait for the outside world are
  one definition per iteration, and runs are sequences of iterations. No fuel is used.

  \<^bold>\<open>Not modelled.\<close> Port reuse (\<open>reuse*.go\<close>) is socket options; \<open>Listen\<close>, \<open>Accept\<close> and \<open>Dial\<close> of \<open>transport.go\<close> and
  \<open>dialDirect\<close> are calls of the operating system, whose outcomes are arguments. Except in
  \<open>Deadlines\<close>, a deadline is the outcome of a read or write; elapsed time appears where the code compares it
  (rate windows, expiry, backoff, keepalive ticks). The parsing of flags, the waiting for signals and the serving of
  HTTP requests are the standard library's. Logging has no effect on any state. Copies of
  secrets that Go's runtime may have made before \<open>Zeroise\<close> are outside every model of the source.
\<close>

section \<open>Properties that span components\<close>

text \<open>
  C1: end to end. Two clients with generated identities, different keys and names of 1 to 64 bytes
  complete the handshake, and any conversation over the two sessions it produced (fewer than
  \<open>2 ^ 64\<close> frames of known types and at most 4096 bytes, sent from either end in any order) is
  delivered: every frame is opened by the other end with its type and its payload.
\<close>

theorem handshake_then_conversation:
  assumes "ed25519_correct P" and "x25519_agrees P"
    and "Generate P (Some seedA) nameA = Inr iA" and "length nameA \<le> maxPeerName"
    and "Generate P (Some seedB) nameB = Inr iB" and "length nameB \<le> maxPeerName"
    and "id_pub iA \<noteq> id_pub iB" and "list_all sendable ms" and "length ms < 2 ^ 64"
  shows "\<exists>rA rB. honest_run P (Some fA) (Some fB) (Some nA) (Some nB) iA iB = Inr (rA, rB) \<and>
    converse P ms (r_Session rA) (r_Session rB) = map (\<lambda>(_, _, t, pt). Inr (t, pt)) ms"
proof -
  have names: "nameA \<noteq> []" "nameB \<noteq> []"
    using assms(3,5) by (auto simp: Generate_def is_blank_def)
  have gen: "genuine P iA" "genuine P iB" "id_Name iA = nameA" "id_Name iB = nameB"
    using Generate_genuine assms(3,5) by blast+
  have len: "length (id_Name iA) \<le> 64" "length (id_Name iB) \<le> 64" "id_Name iA \<noteq> []" "id_Name iB \<noteq> []"
    using gen names assms(4,6) by simp_all
  obtain S th a b where new: "newSession P S th True = Inr a" "newSession P S th False = Inr b"
    and run: "honest_run P (Some fA) (Some fB) (Some nA) (Some nB) iA iB = Inr
       (\<lparr>r_Session = a, r_PeerName = id_Name iB, r_PeerKey = id_pub iB,
         r_PeerFingerprint = FingerprintOf P (id_pub iB), r_Transcript = th\<rparr>,
        \<lparr>r_Session = b, r_PeerName = id_Name iA, r_PeerKey = id_pub iA,
         r_PeerFingerprint = FingerprintOf P (id_pub iA), r_Transcript = th\<rparr>)"
    by (rule honest_run_ok [OF assms(1,2) gen(1) len(3,1) gen(2) len(4,2) assms(7)])
  have "S \<noteq> []" using new(1) by (auto simp: newSession_def DeriveKey_def)
  then have "s_sendSeq a = 0" "s_sendSeq b = 0" using new by (auto simp: newSession_eq)
  then have "converse P ms a b = map (\<lambda>(_, _, t, pt). Inr (t, pt)) ms"
    using converse_in_sync [OF newSession_in_sync [OF new] assms(8)] assms(9) by simp
  with run show ?thesis by auto
qed

theorem handshake_then_conversation_witness:
  "\<exists>iA iB rA rB. Generate demo_prims (Some (\<lambda>_. 1)) ''alice'' = Inr iA \<and>
     Generate demo_prims (Some (\<lambda>_. 2)) ''bob'' = Inr iB \<and>
     honest_run demo_prims (Some (\<lambda>_. 3)) (Some (\<lambda>_. 4)) (Some (\<lambda>_. 5)) (Some (\<lambda>_. 6)) iA iB = Inr (rA, rB) \<and>
     converse demo_prims [(True, \<lambda>_. 0, TypeChat, [104]), (False, \<lambda>_. 1, TypePing, [])] (r_Session rA) (r_Session rB) =
       [Inr (TypeChat, [104]), Inr (TypePing, [])]"
proof -
  obtain iA iB where i: "Generate demo_prims (Some (\<lambda>_. 1)) ''alice'' = Inr iA"
    "Generate demo_prims (Some (\<lambda>_. 2)) ''bob'' = Inr iB" "id_pub iA \<noteq> id_pub iB" by (rule demo_ids)
  let ?ms = "[(True, \<lambda>_. 0, TypeChat, [104]), (False, \<lambda>_. 1, TypePing, [])]"
  have c: "length ''alice'' \<le> maxPeerName" "length ''bob'' \<le> maxPeerName" "list_all sendable ?ms" "length ?ms < 2 ^ 64"
    by (simp_all add: sendable_def knownType_def)
  from handshake_then_conversation [OF demo_ed25519 demo_x25519 i(1) c(1) i(2) c(2) i(3) c(3,4),
      of "\<lambda>_. 3" "\<lambda>_. 4" "\<lambda>_. 5" "\<lambda>_. 6"] i(1,2)
  show ?thesis by auto
qed

text \<open>
  C5: from the typed code to the connection. One user invites, the other types the code that was shown, in whatever
  way the two clients reach the relay: both races run with the same pairing key. On every
  connection between them that delivers the messages, the handshakes of both managers then
  succeed, with the roles the relay assigned, each side has checked that the other holds the code, and
  each is connected to the fingerprint of the other.
\<close>

theorem typed_code_connects:
  assumes "ed25519_correct P" "x25519_agrees P"
    and "genuine P (m_id mB)" "id_Name (m_id mB) \<noteq> []" "length (id_Name (m_id mB)) \<le> maxPeerName"
    and "genuine P (m_id mA)" "id_Name (m_id mA) \<noteq> []" "length (id_Name (m_id mA)) \<le> maxPeerName"
    and "id_pub (m_id mB) \<noteq> id_pub (m_id mA)"
    and inviter: "connect_Invite P J rnd seal cands publish = (Inr (shown, iv, key), mm)" "invite_wait (Inr pA) key = (Inr (pA, keyA), buf)"
    and joiner: "connect_Join P J' seal' cands' claim (map of_char shown) = (Inr (pB, keyB), mm')"
    and roles: "\<not> Initiator pA" "Initiator pB"
    and "v_eph eB = Some fB" "v_nonce eB = Some nB" "v_confirm eB = Some cB" "v_io eB = no_faults" "v_sendFails eB = (\<lambda>_. False)"
    and "v_eph eA = Some fA" "v_nonce eA = Some nA" "v_confirm eA = Some cA" "v_io eA = no_faults" "v_sendFails eA = (\<lambda>_. False)"
  shows "\<exists>fromA fromB mA' mB'.
    Adopt P JP (eA\<lparr>v_recv := map Inr fromB\<rparr>) (race_options pA pathA keyA) mA = (Inr (), mA') \<and>
    Adopt P JP (eB\<lparr>v_recv := map Inr fromA\<rparr>) (race_options pB pathB keyB) mB = (Inr (), mB') \<and>
    fst (snd (runHandshake P JP (eA\<lparr>v_recv := map Inr fromB\<rparr>) (race_options pA pathA keyA) mA)) = fromA \<and>
    fst (snd (runHandshake P JP (eB\<lparr>v_recv := map Inr fromA\<rparr>) (race_options pB pathB keyB) mB)) = fromB \<and>
    m_conns mA' (FingerprintOf P (id_pub (m_id mB))) \<noteq> None \<and> m_conns mB' (FingerprintOf P (id_pub (m_id mA))) \<noteq> None"
proof -
  note k = join_key [OF inviter(1) joiner]
  have keys: "keyB = key" "keyA = key" "key \<noteq> []" using k inviter(2) by (auto simp: invite_wait_def)
  have opts: "race_options pA pathA keyA = \<lparr>a_Initiator = False, a_PairingKey = key, a_Path = pathA\<rparr>"
    "race_options pB pathB keyB = \<lparr>a_Initiator = True, a_PairingKey = key, a_Path = pathB\<rparr>"
    using roles keys by (simp_all add: race_options_def)
  obtain fromA fromB mA' mB' where
    "runHandshake P JP (eB\<lparr>v_recv := map Inr fromA\<rparr>) \<lparr>a_Initiator = True, a_PairingKey = key, a_Path = pathB\<rparr> mB = (Inr (), fromB, mB')"
    "runHandshake P JP (eA\<lparr>v_recv := map Inr fromB\<rparr>) \<lparr>a_Initiator = False, a_PairingKey = key, a_Path = pathA\<rparr> mA = (Inr (), fromA, mA')"
    "m_conns mB' (FingerprintOf P (id_pub (m_id mA))) \<noteq> None" "m_conns mA' (FingerprintOf P (id_pub (m_id mB))) \<noteq> None"
    using paired_run [OF assms(1-9) keys(3) assms(15-24), of JP pathB pathA] by metis
  then show ?thesis unfolding opts by (intro exI [of _ fromA] exI [of _ fromB] exI [of _ mA'] exI [of _ mB']) (simp add: Adopt_def)
qed

definition demo_pairing :: "string \<Rightarrow> pairing" where
  "demo_pairing role = \<lparr>pr_Role = role, pr_PeerCandidates = [], pr_PeerObserved = [], pr_Observed = [], pr_PunchIn = 0, pr_Ticket = [], pr_Rung = RungTLSDirect\<rparr>"

theorem typed_code_connects_witness:
  "\<exists>iA iB shown key mm mm' fromA fromB mA' mB'. Generate demo_prims (Some (\<lambda>_. 1)) ''alice'' = Inr iA \<and> Generate demo_prims (Some (\<lambda>_. 2)) ''bob'' = Inr iB \<and>
     connect_Invite demo_prims demo_json_cands (Some (\<lambda>_. 1)) (Some (\<lambda>_. 0)) [] (\<lambda>_ _. Inr demo_invite) = (Inr (shown, demo_invite, key), mm) \<and>
     connect_Join demo_prims demo_json_cands (Some (\<lambda>_. 0)) [] (\<lambda>_ _ _. Inr (demo_pairing RoleClaimer)) (map of_char shown) =
       (Inr (demo_pairing RoleClaimer, key), mm') \<and>
     Adopt demo_prims demo_json_peers ((demo_hs 4)\<lparr>v_recv := map Inr fromB\<rparr>) (race_options (demo_pairing RolePublisher) PathRelay key) (demo_node iB) = (Inr (), mA') \<and>
     Adopt demo_prims demo_json_peers ((demo_hs 3)\<lparr>v_recv := map Inr fromA\<rparr>) (race_options (demo_pairing RoleClaimer) PathRelay key) (demo_node iA) = (Inr (), mB')"
proof -
  obtain iA iB where n: "Generate demo_prims (Some (\<lambda>_. 1)) ''alice'' = Inr iA" "Generate demo_prims (Some (\<lambda>_. 2)) ''bob'' = Inr iB"
    "genuine demo_prims (m_id (demo_node iA))" "id_Name (m_id (demo_node iA)) \<noteq> []" "length (id_Name (m_id (demo_node iA))) \<le> maxPeerName"
    "genuine demo_prims (m_id (demo_node iB))" "id_Name (m_id (demo_node iB)) \<noteq> []" "length (id_Name (m_id (demo_node iB))) \<le> maxPeerName"
    "id_pub (m_id (demo_node iA)) \<noteq> id_pub (m_id (demo_node iB))" by (rule demo_nodes)
  obtain c where c: "NewCode (Some (\<lambda>_. 1)) = Inr c" "length (secret c) = 20" by (simp add: NewCode_def RandomBytes_def)
  obtain rid k where d: "code_ID demo_prims c = Inr rid" "code_PairingKey demo_prims c = Inr k" "length k = 32"
    by (rule derived [OF c(2)])
  obtain b where b: "SealCandidates demo_prims demo_json_cands (Some (\<lambda>_. 0)) k [] = Inr b" using demo_Seal [OF d(3)] by blast
  have i: "connect_Invite demo_prims demo_json_cands (Some (\<lambda>_. 1)) (Some (\<lambda>_. 0)) [] (\<lambda>_ _. Inr demo_invite) =
      (Inr (code_String c, demo_invite, k), \<lparr>mm_code = Some (code_Zeroise c), mm_key = Some k\<rparr>)"
    using c d b by (simp add: connect_Invite_def)
  have j: "connect_Join demo_prims demo_json_cands (Some (\<lambda>_. 0)) [] (\<lambda>_ _ _. Inr (demo_pairing RoleClaimer)) (map of_char (code_String c)) =
      (Inr (demo_pairing RoleClaimer, k), \<lparr>mm_code = Some (code_Zeroise c), mm_key = Some k\<rparr>)"
    using d b ParseCode_String [OF c(2)] by (simp add: connect_Join_def)
  have r: "\<not> Initiator (demo_pairing RolePublisher)" "Initiator (demo_pairing RoleClaimer)"
    by (simp_all add: Initiator_def demo_pairing_def RolePublisher_def RoleClaimer_def)
  have w: "invite_wait (Inr (demo_pairing RolePublisher)) k = (Inr (demo_pairing RolePublisher, k), k)" by (simp add: invite_wait_def)
  from typed_code_connects [OF demo_ed25519 demo_x25519 n(3-9) i w j r demo_hs_values [of 3] demo_hs_values [of 4], of demo_json_peers PathRelay PathRelay] n(1,2) i j
  show ?thesis by blast
qed

end
